(* ===== verification/Prelude.thy ===== *)
theory Prelude
  imports Main "HOL-Library.AList" "HOL-Library.Word" "HOL-Library.Char_ord"
    "HOL-Library.List_Lexorder" "HOL-Library.Code_Target_Nat"
begin

text \<open>
  Shared vocabulary of the development: machine integers, the string operations of the Rust
  standard library that the modelled code calls, the hash table as an association list with its
  interface as the locale \<open>keyed_table\<close>, and the locale \<open>inv_system\<close> for state machines whose
  operations keep an invariant.

  A Rust \<open>str\<close> is modelled as an Isabelle \<open>string\<close> of ASCII characters, so bytes and characters
  coincide. Rust's Unicode-aware operations (\<open>trim\<close>, \<open>to_uppercase\<close>) are given on that range.
\<close>

section \<open>Machine integers\<close>

type_synonym u32 = "32 word"
type_synonym u64 = "64 word"

text \<open>\<open>u64::saturating_sub\<close>, \<open>u64::saturating_add\<close> and \<open>u64::saturating_mul\<close>.\<close>

definition saturating_sub :: "u64 \<Rightarrow> u64 \<Rightarrow> u64" where
  "saturating_sub a b = (if b \<le> a then a - b else 0)"

definition saturating_add :: "u64 \<Rightarrow> u64 \<Rightarrow> u64" where
  "saturating_add a b = (if unat a + unat b < 2 ^ 64 then a + b else - 1)"

definition saturating_mul :: "u64 \<Rightarrow> u64 \<Rightarrow> u64" where
  "saturating_mul a b = (if unat a * unat b < 2 ^ 64 then a * b else - 1)"

lemma unat_saturating_sub: "unat (saturating_sub a b) = unat a - unat b"
  by (simp add: saturating_sub_def unat_sub word_le_nat_alt)

lemma unat_max_u64: "unat (- 1 :: u64) = 2 ^ 64 - 1"
  by (simp add: unsigned_minus_1_eq_mask mask_eq_exp_minus_1)

lemma unat_saturating_add: "unat (saturating_add a b) = min (unat a + unat b) (2 ^ 64 - 1)"
proof (cases "unat a + unat b < 2 ^ 64")
  case True
  then have "unat (a + b) = unat a + unat b"
    by (subst unat_add_lem [symmetric]) simp
  with True show ?thesis by (simp add: saturating_add_def)
next
  case False
  then show ?thesis by (simp add: saturating_add_def unat_max_u64)
qed

lemma unat_saturating_mul: "unat (saturating_mul a b) = min (unat a * unat b) (2 ^ 64 - 1)"
proof (cases "unat a * unat b < 2 ^ 64")
  case True
  then have "unat (a * b) = unat a * unat b"
    by (subst unat_mult_lem [symmetric]) simp
  with True show ?thesis by (simp add: saturating_mul_def)
next
  case False
  then show ?thesis by (simp add: saturating_mul_def unat_max_u64)
qed

section \<open>Strings\<close>

text \<open>\<open>char::is_whitespace\<close> on ASCII: tab, line feed, vertical tab, form feed, carriage return
  and space.\<close>

definition is_ws :: "char \<Rightarrow> bool" where
  "is_ws c \<longleftrightarrow> c \<in> {CHR 0x09, CHR 0x0A, CHR 0x0B, CHR 0x0C, CHR 0x0D, CHR 0x20}"

text \<open>\<open>trim_matches\<close> with a predicate, and \<open>str::trim\<close>.\<close>

definition trim_by :: "(char \<Rightarrow> bool) \<Rightarrow> string \<Rightarrow> string" where
  "trim_by P s = rev (dropWhile P (rev (dropWhile P s)))"

definition trim :: "string \<Rightarrow> string" where
  "trim = trim_by is_ws"

definition trim_char :: "char \<Rightarrow> string \<Rightarrow> string" where
  "trim_char c = trim_by (\<lambda>x. x = c)"

fun starts_with :: "string \<Rightarrow> string \<Rightarrow> bool" where
  "starts_with [] s = True"
| "starts_with (p # ps) [] = False"
| "starts_with (p # ps) (c # s) = (p = c \<and> starts_with ps s)"

definition ends_with :: "string \<Rightarrow> string \<Rightarrow> bool" where
  "ends_with p s = starts_with (rev p) (rev s)"

definition strip_prefix :: "string \<Rightarrow> string \<Rightarrow> string option" where
  "strip_prefix p s = (if starts_with p s then Some (drop (length p) s) else None)"

definition strip_suffix :: "string \<Rightarrow> string \<Rightarrow> string option" where
  "strip_suffix p s = (if ends_with p s then Some (take (length s - length p) s) else None)"

text \<open>\<open>str::split(char)\<close>: the pieces between the separators, at least one.\<close>

fun split_on :: "char \<Rightarrow> string \<Rightarrow> string list" where
  "split_on c [] = [[]]"
| "split_on c (x # xs) =
     (if x = c then [] # split_on c xs
      else (case split_on c xs of [] \<Rightarrow> [[x]] | p # ps \<Rightarrow> (x # p) # ps))"

text \<open>The piece after the last separator: \<open>s.rsplit_once(c).map(|(_, l)| l).unwrap_or(s)\<close>, and
  \<open>s.rsplit(c).next()\<close>.\<close>

definition leaf_after :: "char \<Rightarrow> string \<Rightarrow> string" where
  "leaf_after c s = rev (takeWhile (\<lambda>x. x \<noteq> c) (rev s))"

fun join :: "string \<Rightarrow> string list \<Rightarrow> string" where
  "join sep [] = []"
| "join sep [x] = x"
| "join sep (x # y # ys) = x @ sep @ join sep (y # ys)"

definition replace_char :: "char \<Rightarrow> char \<Rightarrow> string \<Rightarrow> string" where
  "replace_char a b = map (\<lambda>c. if c = a then b else c)"

text \<open>\<open>format!("'{s}'")\<close>.\<close>

definition quoted :: "string \<Rightarrow> string" where
  "quoted s = CHR 0x27 # s @ [CHR 0x27]"

text \<open>Decimal rendering of an unsigned integer.\<close>

definition digit_char :: "nat \<Rightarrow> char" where
  "digit_char n = char_of (48 + n)"

fun show_nat :: "nat \<Rightarrow> string" where
  "show_nat n = (if n < 10 then [digit_char n] else show_nat (n div 10) @ [digit_char (n mod 10)])"

declare show_nat.simps [simp del]

definition show_u32 :: "u32 \<Rightarrow> string" where
  "show_u32 w = show_nat (unat w)"

definition show_u64 :: "u64 \<Rightarrow> string" where
  "show_u64 w = show_nat (unat w)"

definition show_bool :: "bool \<Rightarrow> string" where
  "show_bool b = (if b then ''true'' else ''false'')"

definition ascii_upper :: "char \<Rightarrow> char" where
  "ascii_upper c = (let n = of_char c :: nat in if 97 \<le> n \<and> n \<le> 122 then char_of (n - 32) else c)"

definition ascii_lower :: "char \<Rightarrow> char" where
  "ascii_lower c = (let n = of_char c :: nat in if 65 \<le> n \<and> n \<le> 90 then char_of (n + 32) else c)"

subsection \<open>Facts about strings\<close>

lemma starts_with_iff: "starts_with p s \<longleftrightarrow> (\<exists>t. s = p @ t)"
  by (induction p s rule: starts_with.induct) auto

lemma starts_with_append [simp]: "starts_with p (p @ s)"
  by (auto simp: starts_with_iff)

lemma ends_with_append [simp]: "ends_with p (s @ p)"
  by (simp add: ends_with_def)

lemma ends_with_iff: "ends_with p s \<longleftrightarrow> (\<exists>t. s = t @ p)"
  by (auto simp: ends_with_def starts_with_iff) (metis rev_append rev_rev_ident)

lemma strip_prefix_append [simp]: "strip_prefix p (p @ s) = Some s"
  by (simp add: strip_prefix_def)

lemma strip_suffix_append [simp]: "strip_suffix p (s @ p) = Some s"
  by (simp add: strip_suffix_def)

lemma dropWhile_id: "s = [] \<or> \<not> P (hd s) \<Longrightarrow> dropWhile P s = s"
  by (cases s) auto

lemma dropWhile_rev_hd:
  assumes "s = [] \<or> \<not> P (hd s)" and "dropWhile P (rev s) \<noteq> []"
  shows "\<not> P (hd (rev (dropWhile P (rev s))))"
proof -
  obtain us where us: "rev s = us @ dropWhile P (rev s)"
    by (metis takeWhile_dropWhile_id)
  then have "s = rev (dropWhile P (rev s)) @ rev us"
    by (metis rev_append rev_rev_ident)
  with assms(2) have "hd s = hd (rev (dropWhile P (rev s)))" and "s \<noteq> []"
    by (metis hd_append2 rev_is_Nil_conv, metis assms(2) dropWhile.simps(1) rev.simps(1))
  with assms(1) show ?thesis by auto
qed

lemma hd_dropWhile_not: "dropWhile P s = [] \<or> \<not> P (hd (dropWhile P s))"
  using hd_dropWhile by blast

lemma trim_by_hd: "trim_by P s = [] \<or> \<not> P (hd (trim_by P s))"
  unfolding trim_by_def
  using dropWhile_rev_hd [of "dropWhile P s" P] hd_dropWhile_not [of P s] by auto

lemma trim_by_last: "trim_by P s = [] \<or> \<not> P (last (trim_by P s))"
  unfolding trim_by_def
  using hd_dropWhile_not [of P "rev (dropWhile P s)"] by (auto simp: last_rev)

lemma trim_by_id:
  assumes "s = [] \<or> (\<not> P (hd s) \<and> \<not> P (last s))"
  shows "trim_by P s = s"
proof (cases "s = []")
  case True
  then show ?thesis by (simp add: trim_by_def)
next
  case False
  with assms have "dropWhile P s = s" and "dropWhile P (rev s) = rev s"
    by (auto intro!: dropWhile_id simp: hd_rev)
  then show ?thesis by (simp add: trim_by_def)
qed

lemma trim_by_idem [simp]: "trim_by P (trim_by P s) = trim_by P s"
  using trim_by_hd trim_by_last by (intro trim_by_id) blast

lemma trim_idem [simp]: "trim (trim s) = trim s"
  by (simp add: trim_def)

lemma trim_char_idem [simp]: "trim_char c (trim_char c s) = trim_char c s"
  by (simp add: trim_char_def)

lemma trim_Nil [simp]: "trim [] = []"
  by (simp add: trim_def trim_by_def)

lemma set_trim_by: "set (trim_by P s) \<subseteq> set s"
  unfolding trim_by_def by (auto dest!: set_dropWhileD)

lemma split_on_not_Nil [simp]: "split_on c s \<noteq> []"
  by (induction c s rule: split_on.induct) (auto split: list.splits)

lemma split_on_single: "c \<notin> set s \<Longrightarrow> split_on c s = [s]"
  by (induction s) auto

lemma split_on_append_sep: "c \<notin> set s \<Longrightarrow> split_on c (s @ c # t) = s # split_on c t"
  by (induction s) auto

lemma split_on_pieces: "p \<in> set (split_on c s) \<Longrightarrow> c \<notin> set p \<and> set p \<subseteq> set s"
proof (induction c s arbitrary: p rule: split_on.induct)
  case (1 c)
  then show ?case by simp
next
  case (2 c x xs)
  show ?case
  proof (cases "x = c")
    case True
    with "2.prems" "2.IH"(1) show ?thesis by auto
  next
    case False
    obtain q qs where q: "split_on c xs = q # qs"
      by (cases "split_on c xs") auto
    with False "2.prems" have "p = x # q \<or> p \<in> set qs" by simp
    then show ?thesis
      using "2.IH"(2) [OF False, of q] "2.IH"(2) [OF False, of p] False q by auto
  qed
qed

lemma leaf_after_append: "c \<notin> set t \<Longrightarrow> leaf_after c (s @ c # t) = t"
proof -
  assume "c \<notin> set t"
  then have "takeWhile (\<lambda>x. x \<noteq> c) (rev t @ c # rev s) = rev t"
    by (subst takeWhile_append2) auto
  then show ?thesis by (simp add: leaf_after_def)
qed

lemma leaf_after_none: "c \<notin> set s \<Longrightarrow> leaf_after c s = s"
proof -
  assume "c \<notin> set s"
  then have "takeWhile (\<lambda>x. x \<noteq> c) (rev s) = rev s"
    by (intro takeWhile_eq_all_conv [THEN iffD2]) auto
  then show ?thesis by (simp only: leaf_after_def rev_rev_ident)
qed

lemma digit_char_inj: "a < 10 \<Longrightarrow> b < 10 \<Longrightarrow> digit_char a = digit_char b \<Longrightarrow> a = b"
proof -
  assume "a < 10" "b < 10" and eq: "digit_char a = digit_char b"
  then have "of_char (char_of (48 + a) :: char) = (of_char (char_of (48 + b) :: char) :: nat)"
    by (simp add: digit_char_def)
  then have "(48 + a) mod 256 = (48 + b) mod 256"
    by (simp only: of_char_of)
  with \<open>a < 10\<close> \<open>b < 10\<close> show "a = b" by simp
qed

lemma show_nat_not_Nil [simp]: "show_nat n \<noteq> []"
  by (subst show_nat.simps) simp

lemma show_nat_inj: "show_nat m = show_nat n \<Longrightarrow> m = n"
proof (induction m arbitrary: n rule: show_nat.induct)
  case (1 m)
  have m: "show_nat m = (if m < 10 then [] else show_nat (m div 10)) @ [digit_char (m mod 10)]"
    by (subst show_nat.simps) simp
  have n: "show_nat n = (if n < 10 then [] else show_nat (n div 10)) @ [digit_char (n mod 10)]"
    by (subst show_nat.simps) simp
  from "1.prems" m n have pre: "(if m < 10 then [] else show_nat (m div 10))
      = (if n < 10 then [] else show_nat (n div 10))"
    and dig: "digit_char (m mod 10) = digit_char (n mod 10)" by auto
  from dig have md: "m mod 10 = n mod 10" by (intro digit_char_inj) auto
  show ?case
  proof (cases "m < 10")
    case True
    with pre have "n < 10" using show_nat_not_Nil [of "n div 10"] by (metis (full_types))
    with True md show ?thesis by simp
  next
    case False
    with pre have n10: "\<not> n < 10" using show_nat_not_Nil [of "m div 10"] by (metis (full_types))
    with False pre have "show_nat (m div 10) = show_nat (n div 10)" by simp
    then have "m div 10 = n div 10" by (rule "1.IH" [OF False])
    with md show ?thesis by (metis div_mult_mod_eq)
  qed
qed

section \<open>Hash tables\<close>

text \<open>
  A Rust \<open>HashMap\<close> is an association list with distinct keys. Its iteration order is unspecified in
  Rust; the model's is the list's order, and no property depends on it.
\<close>

type_synonym ('k, 'v) hmap = "('k \<times> 'v) list"

definition hm_wf :: "('k, 'v) hmap \<Rightarrow> bool" where
  "hm_wf m \<longleftrightarrow> distinct (map fst m)"

definition hm_get :: "('k, 'v) hmap \<Rightarrow> 'k \<Rightarrow> 'v option" where
  "hm_get m k = map_of m k"

definition hm_insert :: "'k \<Rightarrow> 'v \<Rightarrow> ('k, 'v) hmap \<Rightarrow> ('k, 'v) hmap" where
  "hm_insert k v m = AList.update k v m"

definition hm_remove :: "'k \<Rightarrow> ('k, 'v) hmap \<Rightarrow> ('k, 'v) hmap" where
  "hm_remove k m = AList.delete k m"

definition hm_retain :: "('k \<Rightarrow> 'v \<Rightarrow> bool) \<Rightarrow> ('k, 'v) hmap \<Rightarrow> ('k, 'v) hmap" where
  "hm_retain P m = filter (\<lambda>(k, v). P k v) m"

text \<open>\<open>if let Some(v) = m.get_mut(k) { *v = f(*v) }\<close>.\<close>

definition hm_modify :: "'k \<Rightarrow> ('v \<Rightarrow> 'v) \<Rightarrow> ('k, 'v) hmap \<Rightarrow> ('k, 'v) hmap" where
  "hm_modify k f m = (case hm_get m k of None \<Rightarrow> m | Some v \<Rightarrow> hm_insert k (f v) m)"

text \<open>The interface the components rely on: lookup after each update, and the well-formedness every
  update keeps.\<close>

locale keyed_table =
  fixes wf :: "'t \<Rightarrow> bool"
    and get :: "'t \<Rightarrow> 'k \<Rightarrow> 'v option"
    and ins :: "'k \<Rightarrow> 'v \<Rightarrow> 't \<Rightarrow> 't"
    and rem :: "'k \<Rightarrow> 't \<Rightarrow> 't"
    and keep :: "('k \<Rightarrow> 'v \<Rightarrow> bool) \<Rightarrow> 't \<Rightarrow> 't"
    and modify :: "'k \<Rightarrow> ('v \<Rightarrow> 'v) \<Rightarrow> 't \<Rightarrow> 't"
  assumes get_ins: "get (ins k v m) = (get m)(k \<mapsto> v)"
    and get_rem: "get (rem k m) = (get m)(k := None)"
    and get_keep: "wf m \<Longrightarrow> get (keep P m) =
      (\<lambda>k. case get m k of None \<Rightarrow> None | Some v \<Rightarrow> if P k v then Some v else None)"
    and modify_eq: "modify k f m = (case get m k of None \<Rightarrow> m | Some v \<Rightarrow> ins k (f v) m)"
    and wf_ins: "wf m \<Longrightarrow> wf (ins k v m)"
    and wf_rem: "wf m \<Longrightarrow> wf (rem k m)"
    and wf_keep: "wf m \<Longrightarrow> wf (keep P m)"
begin

lemma get_modify: "get (modify k f m) = (get m)(k := map_option f (get m k))"
  by (auto simp: modify_eq get_ins fun_eq_iff split: option.splits)

lemma wf_modify: "wf m \<Longrightarrow> wf (modify k f m)"
  by (auto simp: modify_eq wf_ins split: option.splits)

text \<open>A predicate on all entries survives each update when it holds of what is written.\<close>

lemma all_ins:
  "\<lbrakk>\<forall>k v. get m k = Some v \<longrightarrow> Q k v; Q k v\<rbrakk> \<Longrightarrow> \<forall>k' v'. get (ins k v m) k' = Some v' \<longrightarrow> Q k' v'"
  by (auto simp: get_ins split: if_splits)

lemma all_modify:
  "\<lbrakk>\<forall>k v. get m k = Some v \<longrightarrow> Q k v; \<And>v. get m k = Some v \<Longrightarrow> Q k (f v)\<rbrakk>
    \<Longrightarrow> \<forall>k' v'. get (modify k f m) k' = Some v' \<longrightarrow> Q k' v'"
  by (auto simp: get_modify split: if_splits option.splits)

lemma all_rem:
  "\<forall>k v. get m k = Some v \<longrightarrow> Q k v \<Longrightarrow> \<forall>k' v'. get (rem k m) k' = Some v' \<longrightarrow> Q k' v'"
  by (auto simp: get_rem split: if_splits)

lemma all_keep:
  "\<lbrakk>wf m; \<forall>k v. get m k = Some v \<longrightarrow> Q k v\<rbrakk> \<Longrightarrow> \<forall>k' v'. get (keep P m) k' = Some v' \<longrightarrow> Q k' v'"
  by (auto simp: get_keep split: if_splits option.splits)

end

lemma map_of_filter_distinct:
  "distinct (map fst m) \<Longrightarrow> map_of (filter (\<lambda>(k, v). P k v) m) =
    (\<lambda>k. case map_of m k of None \<Rightarrow> None | Some v \<Rightarrow> if P k v then Some v else None)"
proof (induction m)
  case Nil
  then show ?case by (simp add: fun_eq_iff)
next
  case (Cons a m)
  then have "map_of m (fst a) = None"
    by (simp add: map_of_eq_None_iff)
  with Cons show ?case by (cases a) (auto simp: fun_eq_iff split: option.splits)
qed

interpretation hm: keyed_table hm_wf hm_get hm_insert hm_remove hm_retain hm_modify
proof unfold_locales
  fix k :: 'a and v :: 'b and m :: "('a, 'b) hmap" and P f
  show "hm_get (hm_insert k v m) = (hm_get m)(k \<mapsto> v)"
    by (simp add: hm_get_def [abs_def] hm_insert_def update_conv')
  show "hm_get (hm_remove k m) = (hm_get m)(k := None)"
    by (simp add: hm_get_def [abs_def] hm_remove_def delete_conv')
  show "hm_modify k f m = (case hm_get m k of None \<Rightarrow> m | Some v \<Rightarrow> hm_insert k (f v) m)"
    by (simp add: hm_modify_def)
  assume wf: "hm_wf m"
  then show "hm_get (hm_retain P m) =
      (\<lambda>k. case hm_get m k of None \<Rightarrow> None | Some v \<Rightarrow> if P k v then Some v else None)"
    unfolding hm_get_def hm_retain_def hm_wf_def by (rule map_of_filter_distinct)
  from wf show "hm_wf (hm_insert k v m)"
    by (simp add: hm_wf_def hm_insert_def distinct_update)
  from wf show "hm_wf (hm_remove k m)"
    by (simp add: hm_wf_def hm_remove_def distinct_delete)
  from wf show "hm_wf (hm_retain P m)"
    by (simp add: hm_wf_def hm_retain_def distinct_map_filter)
qed

lemmas hm_simps = hm.get_ins hm.get_rem hm.get_modify
lemmas hm_wfs = hm.wf_ins hm.wf_rem hm.wf_keep hm.wf_modify

declare hm_simps [simp] hm_wfs [simp, intro]

lemma hm_wf_Nil [simp]: "hm_wf []"
  by (simp add: hm_wf_def)

lemma hm_remove_Nil [simp]: "hm_remove k [] = []"
  by (simp add: hm_remove_def)

lemma hm_get_Nil [simp]: "hm_get [] k = None"
  by (simp add: hm_get_def)

text \<open>Iteration over the entries sees exactly what lookup sees.\<close>

lemma hm_in_set: "hm_wf m \<Longrightarrow> (k, v) \<in> set m \<longleftrightarrow> hm_get m k = Some v"
  by (simp add: hm_wf_def hm_get_def)

lemma hm_get_in_set: "hm_get m k = Some v \<Longrightarrow> (k, v) \<in> set m"
  by (simp add: hm_get_def map_of_SomeD)

lemma hm_snd_set: "hm_wf m \<Longrightarrow> v \<in> snd ` set m \<longleftrightarrow> (\<exists>k. hm_get m k = Some v)"
  by (force simp: hm_in_set [symmetric])

lemma hm_ex:
  assumes "hm_wf m"
  shows "list_ex (\<lambda>(k, v). P k v) m \<longleftrightarrow> (\<exists>k v. hm_get m k = Some v \<and> P k v)"
  unfolding list_ex_iff using hm_in_set [OF assms] by blast

lemma hm_all:
  assumes "hm_wf m"
  shows "list_all (\<lambda>(k, v). P k v) m \<longleftrightarrow> (\<forall>k v. hm_get m k = Some v \<longrightarrow> P k v)"
  unfolding list_all_iff using hm_in_set [OF assms] by blast

section \<open>State machines\<close>

text \<open>The operations of a component share one contract: each keeps the invariant. The locale lifts it
  to every sequence of operations.\<close>

locale inv_system =
  fixes start :: "'s \<Rightarrow> bool"
    and step :: "'l \<Rightarrow> 's \<Rightarrow> 's"
    and inv :: "'s \<Rightarrow> bool"
  assumes inv_start: "start s \<Longrightarrow> inv s"
    and inv_step: "inv s \<Longrightarrow> inv (step l s)"
begin

lemma inv_run: "inv s \<Longrightarrow> inv (fold step ls s)"
  by (induction ls arbitrary: s) (auto intro: inv_step)

lemma inv_reachable: "start s \<Longrightarrow> inv (fold step ls s)"
  by (intro inv_run inv_start)

end

text \<open>The same for a step relation.\<close>

locale inv_relation =
  fixes init :: "'s \<Rightarrow> bool"
    and stepr :: "'s \<Rightarrow> 's \<Rightarrow> bool"
    and good :: "'s \<Rightarrow> bool"
  assumes good_init: "init s \<Longrightarrow> good s"
    and good_step: "stepr s t \<Longrightarrow> good s \<Longrightarrow> good t"
begin

lemma good_steps: "stepr\<^sup>*\<^sup>* s t \<Longrightarrow> good s \<Longrightarrow> good t"
  by (induction rule: rtranclp_induct) (auto intro: good_step)

lemma good_reachable: "init s \<Longrightarrow> stepr\<^sup>*\<^sup>* s t \<Longrightarrow> good t"
  by (blast intro: good_steps good_init)

end

end
