(* ===== verification/Rust_Str.thy ===== *)
theory Rust_Str
  imports Prelude
begin

text \<open>
  The rest of the Rust string library that the IDL parser uses: searching and splitting, \<open>lines\<close>,
  \<open>split_whitespace\<close>, the integer parsers with their overflow checks, and paths as lists of
  components over a file tree. An \<open>anyhow::Error\<close> is its \<open>{:#}\<close> rendering, a string.
\<close>

section \<open>Searching and splitting\<close>

text \<open>\<open>s.split_once(c)\<close> for a character, and for a substring; \<open>s.contains(p)\<close>.\<close>

fun split_once :: "char \<Rightarrow> string \<Rightarrow> (string \<times> string) option" where
  "split_once c [] = None"
| "split_once c (x # xs) =
     (if x = c then Some ([], xs)
      else (case split_once c xs of None \<Rightarrow> None | Some (a, b) \<Rightarrow> Some (x # a, b)))"

fun split_once_str :: "string \<Rightarrow> string \<Rightarrow> (string \<times> string) option" where
  "split_once_str p [] = (if p = [] then Some ([], []) else None)"
| "split_once_str p (x # xs) =
     (if starts_with p (x # xs) then Some ([], drop (length p) (x # xs))
      else (case split_once_str p xs of None \<Rightarrow> None | Some (a, b) \<Rightarrow> Some (x # a, b)))"

definition contains_str :: "string \<Rightarrow> string \<Rightarrow> bool" where
  "contains_str p s \<longleftrightarrow> split_once_str p s \<noteq> None"

text \<open>\<open>str::lines\<close>: split at line feeds, one carriage return before a line feed dropped, no empty
  line after a final line feed.\<close>

definition strip_cr :: "string \<Rightarrow> string" where
  "strip_cr l = (if l \<noteq> [] \<and> last l = CHR 0x0D then butlast l else l)"

definition lines_of :: "string \<Rightarrow> string list" where
  "lines_of s = (let ls = split_on (CHR 0x0A) s in
     map strip_cr (butlast ls) @ (if last ls = [] then [] else [last ls]))"

definition split_whitespace :: "string \<Rightarrow> string list" where
  "split_whitespace s =
     filter (\<lambda>p. p \<noteq> []) (split_on (CHR '' '') (map (\<lambda>c. if is_ws c then CHR '' '' else c) s))"

definition trim_start :: "string \<Rightarrow> string" where
  "trim_start s = dropWhile is_ws s"

section \<open>Integers\<close>

definition is_digit :: "char \<Rightarrow> bool" where
  "is_digit c \<longleftrightarrow> (let n = of_char c :: nat in 48 \<le> n \<and> n \<le> 57)"

definition digit_val :: "char \<Rightarrow> nat" where
  "digit_val c = of_char c - 48"

definition digits_val :: "string \<Rightarrow> nat" where
  "digits_val s = foldl (\<lambda>n c. 10 * n + digit_val c) 0 s"

text \<open>\<open>str::parse::<usize>\<close>: an optional plus sign, at least one digit, no overflow of 64 bits;
  \<open>str::parse::<i32>\<close> the same with an optional minus sign and the range of an \<open>i32\<close>.\<close>

definition parse_digits :: "string \<Rightarrow> nat option" where
  "parse_digits s = (if s \<noteq> [] \<and> list_all is_digit s then Some (digits_val s) else None)"

definition parse_usize :: "string \<Rightarrow> nat option" where
  "parse_usize s =
     (case parse_digits (if s \<noteq> [] \<and> hd s = CHR ''+'' then tl s else s) of
        None \<Rightarrow> None
      | Some n \<Rightarrow> if n < 2 ^ 64 then Some n else None)"

definition parse_i32 :: "string \<Rightarrow> int option" where
  "parse_i32 s =
     (if s \<noteq> [] \<and> hd s = CHR ''-'' then
        (case parse_digits (tl s) of
           None \<Rightarrow> None
         | Some n \<Rightarrow> if n \<le> 2 ^ 31 then Some (- int n) else None)
      else
        (case parse_digits (if s \<noteq> [] \<and> hd s = CHR ''+'' then tl s else s) of
           None \<Rightarrow> None
         | Some n \<Rightarrow> if n < 2 ^ 31 then Some (int n) else None))"

definition show_int :: "int \<Rightarrow> string" where
  "show_int v = (if v < 0 then CHR ''-'' # show_nat (nat (- v)) else show_nat (nat v))"

lemma is_digit_digit_char: "n < 10 \<Longrightarrow> is_digit (digit_char n)"
  by (simp add: is_digit_def digit_char_def)

lemma digit_val_digit_char: "n < 10 \<Longrightarrow> digit_val (digit_char n) = n"
  by (simp add: digit_val_def digit_char_def)

lemma show_nat_digits: "list_all is_digit (show_nat n)"
proof (induction n rule: show_nat.induct)
  case (1 n)
  then show ?case by (subst show_nat.simps) (auto simp: is_digit_digit_char)
qed

lemma digits_val_snoc: "digits_val (s @ [c]) = 10 * digits_val s + digit_val c"
  by (simp add: digits_val_def)

lemma digits_val_show_nat: "digits_val (show_nat n) = n"
proof (induction n rule: show_nat.induct)
  case (1 n)
  show ?case
  proof (cases "n < 10")
    case True
    then show ?thesis
      by (subst show_nat.simps) (simp add: digits_val_def digit_val_digit_char)
  next
    case False
    with 1 have "digits_val (show_nat (n div 10)) = n div 10" by simp
    with False show ?thesis
      by (subst show_nat.simps) (simp add: digits_val_snoc digit_val_digit_char)
  qed
qed

lemma parse_digits_show_nat: "parse_digits (show_nat n) = Some n"
  by (simp add: parse_digits_def show_nat_digits digits_val_show_nat)

lemma hd_digit_not_sign: "s \<noteq> [] \<Longrightarrow> list_all is_digit s \<Longrightarrow> hd s \<noteq> CHR ''+'' \<and> hd s \<noteq> CHR ''-''"
  by (cases s) (auto simp: is_digit_def)

lemma parse_usize_show_nat: "n < 2 ^ 64 \<Longrightarrow> parse_usize (show_nat n) = Some n"
  using hd_digit_not_sign [OF show_nat_not_Nil show_nat_digits, of n]
  by (simp add: parse_usize_def parse_digits_show_nat)

lemma parse_usize_bound: "parse_usize s = Some n \<Longrightarrow> n < 2 ^ 64"
  by (auto simp: parse_usize_def split: option.splits if_splits)

lemma parse_i32_bound: "parse_i32 s = Some v \<Longrightarrow> - (2 ^ 31) \<le> v \<and> v < 2 ^ 31"
  by (auto simp: parse_i32_def split: option.splits if_splits)

section \<open>Paths and files\<close>

type_synonym path = "string list"

text \<open>A file tree; symbolic links are followed, so a linked file or directory appears where it is
  linked. A directory's entries carry their names.\<close>

datatype fs_node = FsFile string | FsDir "(string \<times> fs_node) list"

fun fs_at :: "fs_node \<Rightarrow> path \<Rightarrow> fs_node option" where
  "fs_at n [] = Some n"
| "fs_at (FsFile c) (x # xs) = None"
| "fs_at (FsDir es) (x # xs) = (case map_of es x of None \<Rightarrow> None | Some n \<Rightarrow> fs_at n xs)"

definition path_exists :: "fs_node \<Rightarrow> path \<Rightarrow> bool" where
  "path_exists fs p \<longleftrightarrow> fs_at fs p \<noteq> None"

definition path_display :: "path \<Rightarrow> string" where
  "path_display p = CHR ''/'' # join ''/'' p"

definition read_to_string :: "fs_node \<Rightarrow> path \<Rightarrow> string + string" where
  "read_to_string fs p =
     (case fs_at fs p of
        Some (FsFile c) \<Rightarrow> Inr c
      | Some (FsDir es) \<Rightarrow> Inl ''Is a directory (os error 21)''
      | None \<Rightarrow> Inl ''No such file or directory (os error 2)'')"

text \<open>\<open>Path::parent\<close> and \<open>Path::file_name\<close>; \<open>Path::extension\<close> and \<open>Path::file_stem\<close> of a file name:
  the text after and before the last dot, no extension when the only dot is the first character.\<close>

definition path_parent :: "path \<Rightarrow> path option" where
  "path_parent p = (if p = [] then None else Some (butlast p))"

definition path_file_name :: "path \<Rightarrow> string option" where
  "path_file_name p = (if p = [] then None else Some (last p))"

definition name_stem :: "string \<Rightarrow> string" where
  "name_stem n =
     (if CHR ''.'' \<in> set n \<and> take (length n - length (leaf_after (CHR ''.'') n) - 1) n \<noteq> []
      then take (length n - length (leaf_after (CHR ''.'') n) - 1) n else n)"

definition name_extension :: "string \<Rightarrow> string option" where
  "name_extension n =
     (if CHR ''.'' \<in> set n \<and> take (length n - length (leaf_after (CHR ''.'') n) - 1) n \<noteq> []
      then Some (leaf_after (CHR ''.'') n) else None)"

text \<open>\<open>with_context\<close>: the message in front of the error, as \<open>{:#}\<close> prints the chain.\<close>

definition with_context :: "string \<Rightarrow> string + 'a \<Rightarrow> string + 'a" where
  "with_context msg r = (case r of Inl e \<Rightarrow> Inl (msg @ '': '' @ e) | Inr x \<Rightarrow> Inr x)"

definition ok_or :: "string \<Rightarrow> 'a option \<Rightarrow> string + 'a" where
  "ok_or msg x = (case x of None \<Rightarrow> Inl msg | Some v \<Rightarrow> Inr v)"

lemma with_context_Inr [simp]: "with_context m r = Inr x \<longleftrightarrow> r = Inr x"
  by (auto simp: with_context_def split: sum.splits)

lemma with_context_ok [simp]: "with_context m (Inr x) = Inr x"
  by (simp add: with_context_def)

lemma ok_or_Inr [simp]: "ok_or m r = Inr x \<longleftrightarrow> r = Some x"
  by (auto simp: ok_or_def split: option.splits)

lemma split_once_str_none: "c \<notin> set s \<Longrightarrow> split_once_str (c # p) s = None"
  by (induction s) auto

lemma lines_of_unlines:
  assumes "\<And>l. l \<in> set ls \<Longrightarrow> CHR 0x0A \<notin> set l \<and> CHR 0x0D \<notin> set l"
  shows "lines_of (concat (map (\<lambda>l. l @ [CHR 0x0A]) ls)) = ls"
proof -
  have "split_on (CHR 0x0A) (concat (map (\<lambda>l. l @ [CHR 0x0A]) ls)) = ls @ [[]]"
    using assms by (induction ls) (auto simp: split_on_append_sep)
  moreover have "map strip_cr ls = ls"
    using assms by (intro map_idI) (metis last_in_set strip_cr_def)
  ultimately show ?thesis by (simp add: lines_of_def)
qed

lemma split_whitespace_single:
  assumes "s \<noteq> []" and "\<And>c. c \<in> set s \<Longrightarrow> \<not> is_ws c"
  shows "split_whitespace s = [s]"
proof -
  have "map (\<lambda>c. if is_ws c then CHR '' '' else c) s = s" and "CHR '' '' \<notin> set s"
    using assms(2) by (auto intro!: map_idI simp: is_ws_def)
  with assms(1) show ?thesis by (simp add: split_whitespace_def split_on_single)
qed

lemma split_whitespace_Cons:
  assumes "s \<noteq> []" and "\<And>c. c \<in> set s \<Longrightarrow> \<not> is_ws c" and "is_ws w"
  shows "split_whitespace (s @ w # t) = s # split_whitespace t"
proof -
  have "map (\<lambda>c. if is_ws c then CHR '' '' else c) s = s" and "CHR '' '' \<notin> set s"
    using assms(2) by (auto intro!: map_idI simp: is_ws_def)
  with assms(1,3) show ?thesis by (simp add: split_whitespace_def split_on_append_sep)
qed

lemma split_once_none: "split_once c s = None \<longleftrightarrow> c \<notin> set s"
  by (induction c s rule: split_once.induct) (auto split: option.splits)

lemma split_once_append: "c \<notin> set a \<Longrightarrow> split_once c (a @ c # b) = Some (a, b)"
  by (induction a) auto

lemma split_once_Some: "split_once c s = Some (a, b) \<Longrightarrow> s = a @ c # b \<and> c \<notin> set a"
  by (induction c s arbitrary: a b rule: split_once.induct) (auto split: if_splits option.splits)

lemma split_once_str_Some: "split_once_str p s = Some (a, b) \<Longrightarrow> s = a @ p @ b"
proof (induction p s arbitrary: a b rule: split_once_str.induct)
  case (1 p)
  then show ?case by (auto split: if_splits)
next
  case (2 p x xs)
  then show ?case by (auto simp: starts_with_iff split: if_splits option.splits)
qed

end
