(* ===== verification/Atlas_Pb.thy ===== *)
theory Atlas_Pb
  imports Rust_Str
begin

text \<open>
  The wire types of \<open>system/atlas/proto/atlas.proto\<close> that the registry handles: the enumerations with
  the numbers they have on the wire, \<open>try_from\<close> of a received number, the Rust \<open>Debug\<close> names that
  appear in error messages, and the messages as records. Also \<open>tonic::Status\<close>. A 32-bit wire enum is
  an \<open>int\<close>: it is only compared.
\<close>

section \<open>Status\<close>

datatype status =
    Invalid_Argument string
  | Not_Found string
  | Already_Exists string
  | Failed_Precondition string
  | Unavailable string
  | Unimplemented string
  | Internal_Error string

section \<open>Enumerations\<close>

datatype transport = Transport_Unspecified | Transport_Grpc | Transport_Ros2 | Transport_Mcp

datatype kind = Kind_Unspecified | Kind_Primitive | Kind_Service | Kind_Skill

datatype lifecycle_state =
    State_Unspecified | State_Registered | State_Inactive | State_Active | State_Error | State_Terminated

primrec transport_i32 :: "transport \<Rightarrow> int" where
  "transport_i32 Transport_Unspecified = 0"
| "transport_i32 Transport_Grpc = 1"
| "transport_i32 Transport_Ros2 = 2"
| "transport_i32 Transport_Mcp = 3"

primrec kind_i32 :: "kind \<Rightarrow> int" where
  "kind_i32 Kind_Unspecified = 0"
| "kind_i32 Kind_Primitive = 1"
| "kind_i32 Kind_Service = 2"
| "kind_i32 Kind_Skill = 3"

primrec lifecycle_i32 :: "lifecycle_state \<Rightarrow> int" where
  "lifecycle_i32 State_Unspecified = 0"
| "lifecycle_i32 State_Registered = 1"
| "lifecycle_i32 State_Inactive = 2"
| "lifecycle_i32 State_Active = 3"
| "lifecycle_i32 State_Error = 4"
| "lifecycle_i32 State_Terminated = 5"

definition transport_try_from :: "int \<Rightarrow> transport option" where
  "transport_try_from n = (if n = 0 then Some Transport_Unspecified else if n = 1 then Some Transport_Grpc
     else if n = 2 then Some Transport_Ros2 else if n = 3 then Some Transport_Mcp else None)"

definition kind_try_from :: "int \<Rightarrow> kind option" where
  "kind_try_from n = (if n = 0 then Some Kind_Unspecified else if n = 1 then Some Kind_Primitive
     else if n = 2 then Some Kind_Service else if n = 3 then Some Kind_Skill else None)"

definition lifecycle_try_from :: "int \<Rightarrow> lifecycle_state option" where
  "lifecycle_try_from n = (if n = 0 then Some State_Unspecified else if n = 1 then Some State_Registered
     else if n = 2 then Some State_Inactive else if n = 3 then Some State_Active
     else if n = 4 then Some State_Error else if n = 5 then Some State_Terminated else None)"

primrec transport_debug :: "transport \<Rightarrow> string" where
  "transport_debug Transport_Unspecified = ''Unspecified''"
| "transport_debug Transport_Grpc = ''Grpc''"
| "transport_debug Transport_Ros2 = ''Ros2''"
| "transport_debug Transport_Mcp = ''Mcp''"

primrec kind_debug :: "kind \<Rightarrow> string" where
  "kind_debug Kind_Unspecified = ''Unspecified''"
| "kind_debug Kind_Primitive = ''Primitive''"
| "kind_debug Kind_Service = ''Service''"
| "kind_debug Kind_Skill = ''Skill''"

primrec lifecycle_debug :: "lifecycle_state \<Rightarrow> string" where
  "lifecycle_debug State_Unspecified = ''StateUnspecified''"
| "lifecycle_debug State_Registered = ''StateRegistered''"
| "lifecycle_debug State_Inactive = ''StateInactive''"
| "lifecycle_debug State_Active = ''StateActive''"
| "lifecycle_debug State_Error = ''StateError''"
| "lifecycle_debug State_Terminated = ''StateTerminated''"

lemma transport_roundtrip: "transport_try_from n = Some t \<longleftrightarrow> n = transport_i32 t"
  by (cases t) (auto simp: transport_try_from_def)

lemma kind_roundtrip: "kind_try_from n = Some t \<longleftrightarrow> n = kind_i32 t"
  by (cases t) (auto simp: kind_try_from_def)

lemma lifecycle_roundtrip: "lifecycle_try_from n = Some t \<longleftrightarrow> n = lifecycle_i32 t"
  by (cases t) (auto simp: lifecycle_try_from_def)

section \<open>Messages\<close>

text \<open>\<open>TransportParams\<close>: the \<open>oneof\<close> may be unset.\<close>

datatype wire_params =
    Wire_Grpc (wire_proto_file: string) (wire_service_name: string) (wire_method: string)
  | Wire_Ros2 (wire_qos_profile: string)
  | Wire_Mcp (wire_input_schema_json: string)

type_synonym transport_params = "wire_params option"

record capability =
  c_provider_id :: string
  c_provider_kind :: int
  c_contract_id :: string
  c_transport :: int
  c_params :: "transport_params option"
  c_description :: string
  c_namespace_mismatch :: bool

record capability_provider =
  cp_id :: string
  cp_kind :: int
  cp_namespace :: string
  cp_capability_md_path :: string
  cp_last_heartbeat_ms :: u64
  cp_state :: int
  cp_state_detail :: string
  cp_capabilities :: "capability list"
  cp_capability_md :: string
  cp_registration_id :: string

record field_spec =
  fsp_name :: string
  fsp_type_name :: string
  fsp_is_primitive :: bool
  fsp_is_array :: bool
  fsp_array_size :: u32

record contract_descriptor =
  cd_id :: string
  cd_version :: string
  cd_kind :: int
  cd_mode :: string
  cd_io_msg_type :: string
  cd_io_srv_type :: string
  cd_source_toml_path :: string
  cd_msg_fields :: "field_spec list"
  cd_srv_request_fields :: "field_spec list"
  cd_srv_response_fields :: "field_spec list"
  cd_description :: string
  cd_cross_namespace :: bool
  cd_llm_callable :: "bool option"

definition default_contract_descriptor :: contract_descriptor where
  "default_contract_descriptor =
     \<lparr>cd_id = [], cd_version = [], cd_kind = 0, cd_mode = [], cd_io_msg_type = [], cd_io_srv_type = [],
      cd_source_toml_path = [], cd_msg_fields = [], cd_srv_request_fields = [], cd_srv_response_fields = [],
      cd_description = [], cd_cross_namespace = False, cd_llm_callable = None\<rparr>"

end
