(* ===== verification/Atlas_State.thy ===== *)
theory Atlas_State
  imports Atlas_Pb
begin

text \<open>
  The state of the Atlas registry (\<open>system/atlas/src/service.rs\<close>): provider records, open channels, the
  lifecycle transition table, the checks on lifecycle drivers and namespaces, and the choice of an
  endpoint. Fresh uuids are arguments: a string, or a supply \<open>nat \<Rightarrow> string\<close> for the minting loop.
\<close>

section \<open>Records\<close>

datatype transport_params_state =
    Params_Grpc (ps_proto_file: string) (ps_service_name: string) (ps_method: string)
  | Params_Ros2 (ps_qos_profile: string)
  | Params_Mcp (ps_input_schema_json: string)

primrec params_transport :: "transport_params_state \<Rightarrow> transport" where
  "params_transport (Params_Grpc f s m) = Transport_Grpc"
| "params_transport (Params_Ros2 q) = Transport_Ros2"
| "params_transport (Params_Mcp j) = Transport_Mcp"

primrec params_to_wire :: "transport_params_state \<Rightarrow> transport_params" where
  "params_to_wire (Params_Grpc f s m) = Some (Wire_Grpc f s m)"
| "params_to_wire (Params_Ros2 q) = Some (Wire_Ros2 q)"
| "params_to_wire (Params_Mcp j) = Some (Wire_Mcp j)"

record declared_endpoint =
  de_contract_id :: string
  de_transport :: transport
  de_endpoint :: string
  de_params :: transport_params_state
  de_description :: string
  de_namespace_mismatch :: bool

record provider_state =
  ps_id :: string
  ps_registration_id :: string
  ps_kind :: kind
  ps_namespace :: string
  ps_capability_md_path :: string
  ps_capability_md :: string
  ps_last_heartbeat_ms :: u64
  ps_endpoints :: "declared_endpoint list"
  ps_pushed_state :: "lifecycle_state option"
  ps_state_detail :: string

record open_channel =
  oc_channel_id :: string
  oc_consumer_id :: string
  oc_provider_id :: string
  oc_contract_id :: string
  oc_transport :: transport
  oc_endpoint :: string
  oc_opened_at_ms :: u64

record atlas =
  at_providers :: "(string, provider_state) hmap"
  at_channels :: "(string, open_channel) hmap"

definition atlas_empty :: atlas where
  "atlas_empty = \<lparr>at_providers = [], at_channels = []\<rparr>"

definition drop_channels_of :: "string \<Rightarrow> atlas \<Rightarrow> atlas" where
  "drop_channels_of provider_id st =
     st\<lparr>at_channels := hm_retain (\<lambda>_ ch. oc_provider_id ch \<noteq> provider_id) (at_channels st)\<rparr>"

section \<open>Lifecycle\<close>

text \<open>\<open>CapabilityProviderState::state\<close>.\<close>

definition provider_lifecycle :: "provider_state \<Rightarrow> lifecycle_state" where
  "provider_lifecycle p = (case ps_pushed_state p of None \<Rightarrow> State_Registered | Some s \<Rightarrow> s)"

definition is_legal_transition :: "lifecycle_state \<Rightarrow> lifecycle_state \<Rightarrow> bool" where
  "is_legal_transition prev next =
     (if next = State_Error \<or> next = State_Terminated then True
      else (case (prev, next) of
              (State_Unspecified, _) \<Rightarrow> True
            | (State_Registered, State_Inactive) \<Rightarrow> True
            | (State_Inactive, State_Active) \<Rightarrow> True
            | (State_Active, State_Inactive) \<Rightarrow> True
            | (State_Error, State_Inactive) \<Rightarrow> True
            | (a, b) \<Rightarrow> a = b))"

section \<open>Lifecycle drivers and namespaces\<close>

definition shared_lifecycle_driver_contract :: string where
  "shared_lifecycle_driver_contract = ''robonix/lifecycle/driver''"

definition trim_slashes :: "string \<Rightarrow> string" where
  "trim_slashes = trim_char (CHR ''/'')"

definition is_driver_contract :: "string \<Rightarrow> string \<Rightarrow> bool" where
  "is_driver_contract namespace contract_id =
     (if contract_id = shared_lifecycle_driver_contract then True
      else contract_id = trim_slashes namespace @ ''/driver'')"

definition has_driver :: "provider_state \<Rightarrow> bool" where
  "has_driver p = list_ex (\<lambda>e. is_driver_contract (ps_namespace p) (de_contract_id e)) (ps_endpoints p)"

text \<open>\<open>first.to_uppercase() + rest\<close> of every part between slashes and underscores.\<close>

fun capitalize :: "string \<Rightarrow> string" where
  "capitalize [] = []"
| "capitalize (c # cs) = ascii_upper c # cs"

definition driver_service_name :: "string \<Rightarrow> string" where
  "driver_service_name contract_id =
     concat (map capitalize
       (concat (map (\<lambda>segment. filter (\<lambda>part. part \<noteq> []) (split_on (CHR ''_'') segment))
         (filter (\<lambda>segment. segment \<noteq> []) (split_on (CHR ''/'') contract_id)))))"

definition driver_service :: "string \<Rightarrow> string" where
  "driver_service contract_id = ''robonix.contracts.'' @ driver_service_name contract_id"

definition driver_method :: "string \<Rightarrow> string" where
  "driver_method contract_id = ''/'' @ driver_service contract_id @ ''/Driver''"

definition validate_driver_abi ::
  "string \<Rightarrow> string \<Rightarrow> transport \<Rightarrow> transport_params_state \<Rightarrow> status + unit" where
  "validate_driver_abi namespace contract_id transport params =
     (if \<not> is_driver_contract namespace contract_id then Inr ()
      else if transport \<noteq> Transport_Grpc then
        Inl (Invalid_Argument (''lifecycle Driver '' @ quoted contract_id @ '' must use GRPC transport''))
      else (case params of
              Params_Grpc _ actual_service actual_method \<Rightarrow>
                if actual_service = driver_service contract_id \<and> actual_method = driver_method contract_id
                then Inr ()
                else Inl (Invalid_Argument (''lifecycle Driver '' @ quoted contract_id
                  @ '' must use service_name='' @ quoted (driver_service contract_id)
                  @ '' and method='' @ quoted (driver_method contract_id)
                  @ '', got service_name='' @ quoted actual_service @ '' method='' @ quoted actual_method))
            | _ \<Rightarrow> Inl (Invalid_Argument (''lifecycle Driver '' @ quoted contract_id @ '' requires gRPC params''))))"

definition has_namespace_mismatch :: "string \<Rightarrow> string \<Rightarrow> bool \<Rightarrow> bool" where
  "has_namespace_mismatch namespace0 contract_id0 cross_namespace =
     (if cross_namespace then False
      else (let namespace = trim_slashes namespace0; contract_id = trim_slashes contract_id0
            in contract_id \<noteq> namespace
               \<and> \<not> (case strip_prefix namespace contract_id of
                      None \<Rightarrow> False | Some suffix \<Rightarrow> starts_with ''/'' suffix)))"

section \<open>Parameters and endpoints\<close>

text \<open>\<open>parse_params\<close>. \<open>json\<close> is \<open>serde_json::from_str\<close>: its error, or whether the value is an object.\<close>

definition parse_params ::
  "(string \<Rightarrow> string + bool) \<Rightarrow> transport \<Rightarrow> transport_params option \<Rightarrow> status + transport_params_state" where
  "parse_params json transport params =
     (case Option.bind params id of
        None \<Rightarrow> Inl (Invalid_Argument
          ''params required: set TransportParams.kind to the variant matching `transport`'')
      | Some k \<Rightarrow>
          (case (case k of
                   Wire_Grpc f s m \<Rightarrow> Inr (Params_Grpc f s m)
                 | Wire_Ros2 q \<Rightarrow> Inr (Params_Ros2 q)
                 | Wire_Mcp schema \<Rightarrow>
                     if schema = [] then Inr (Params_Mcp schema)
                     else (case json schema of
                             Inl e \<Rightarrow> Inl (Invalid_Argument (''mcp input_schema_json invalid: '' @ e))
                           | Inr is_object \<Rightarrow>
                               if is_object then Inr (Params_Mcp schema)
                               else Inl (Invalid_Argument ''mcp input_schema_json must be a JSON object''))) of
             Inl e \<Rightarrow> Inl e
           | Inr ps \<Rightarrow>
               if params_transport ps \<noteq> transport then
                 Inl (Invalid_Argument (''params: oneof variant '' @ transport_debug (params_transport ps)
                   @ '' does not match transport '' @ transport_debug transport))
               else Inr ps))"

definition parse_transport :: "int \<Rightarrow> status + transport" where
  "parse_transport t =
     (case transport_try_from t of
        None \<Rightarrow> Inl (Invalid_Argument (''transport: unknown enum value '' @ show_int t))
      | Some v \<Rightarrow> if v = Transport_Unspecified
          then Inl (Invalid_Argument ''transport: must not be UNSPECIFIED'') else Inr v)"

definition mint_attempts :: nat where
  "mint_attempts = 16"

definition atlas_can_mint :: "transport \<Rightarrow> bool" where
  "atlas_can_mint transport = (transport = Transport_Ros2)"

definition endpoint_collides :: "atlas \<Rightarrow> transport \<Rightarrow> string \<Rightarrow> string \<Rightarrow> bool" where
  "endpoint_collides st transport own_cap_id s =
     list_ex (\<lambda>(other_id, provider). other_id \<noteq> own_cap_id
        \<and> list_ex (\<lambda>e. de_transport e = transport \<and> de_endpoint e = s) (ps_endpoints provider))
       (at_providers st)"

text \<open>The minting loop: the first of 16 candidates, each with its own fresh 8-digit suffix, that does
  not collide.\<close>

definition mint_endpoint :: "(string \<Rightarrow> bool) \<Rightarrow> string \<Rightarrow> (nat \<Rightarrow> string) \<Rightarrow> string option" where
  "mint_endpoint collides prefix uuids =
     find (\<lambda>s. \<not> collides s) (map (\<lambda>i. prefix @ take 8 (uuids i)) [0..<mint_attempts])"

definition resolve_endpoint ::
  "atlas \<Rightarrow> transport \<Rightarrow> string \<Rightarrow> string \<Rightarrow> string \<Rightarrow> (nat \<Rightarrow> string) \<Rightarrow> status + string" where
  "resolve_endpoint st transport proposed contract_id own_cap_id uuids =
     (let mintable = atlas_can_mint transport;
          collides = endpoint_collides st transport own_cap_id;
          dotted = replace_char (CHR ''/'') (CHR ''.'') contract_id;
          existing = '' (existing providers: '' @ show_nat (length (at_providers st)) @ '')'';
          attempts = '' after '' @ show_nat mint_attempts @ '' attempts''
      in if proposed = [] then
           (if \<not> mintable then
              Inl (Invalid_Argument (''transport '' @ quoted (transport_debug transport)
                @ '' requires caller-supplied endpoint; Atlas cannot allocate (e.g. caller must bind a port and pass host:port)''))
            else (case mint_endpoint collides (''/rbnx/'' @ dotted @ ''/'') uuids of
                    Some candidate \<Rightarrow> Inr candidate
                  | None \<Rightarrow> Inl (Internal_Error (''could not mint unique endpoint for (''
                      @ transport_debug transport @ '', '' @ contract_id @ '')'' @ attempts @ existing))))
         else if \<not> collides proposed then Inr proposed
         else if \<not> mintable then
           Inl (Already_Exists (''endpoint '' @ quoted proposed @ '' already registered on transport ''
             @ quoted (transport_debug transport)
             @ ''; pick a new address (rebind a different port / use a different name) and retry''))
         else (case mint_endpoint collides (proposed @ ''__'') uuids of
                 Some candidate \<Rightarrow> Inr candidate
               | None \<Rightarrow> Inl (Internal_Error (''could not disambiguate '' @ quoted proposed @ '' on transport ''
                   @ quoted (transport_debug transport) @ attempts @ existing))))"

section \<open>Facts\<close>

lemma validate_driver_abi_ok:
  "validate_driver_abi ns c t ps = Inr () \<longleftrightarrow>
    (is_driver_contract ns c \<longrightarrow> t = Transport_Grpc
       \<and> (\<exists>f. ps = Params_Grpc f (driver_service c) (driver_method c)))"
  by (cases ps) (auto simp: validate_driver_abi_def)

lemma parse_params_transport: "parse_params json t ps = Inr q \<Longrightarrow> params_transport q = t"
  by (auto simp: parse_params_def Let_def split: option.splits wire_params.splits sum.splits if_splits)

lemma endpoint_collides_iff:
  assumes "hm_wf (at_providers st)"
  shows "endpoint_collides st t own s \<longleftrightarrow>
    (\<exists>i p e. hm_get (at_providers st) i = Some p \<and> i \<noteq> own \<and> e \<in> set (ps_endpoints p)
       \<and> de_transport e = t \<and> de_endpoint e = s)"
  unfolding endpoint_collides_def hm_ex [OF assms] by (auto simp: list_ex_iff)

lemma mint_endpoint_Some:
  assumes "mint_endpoint coll prefix u = Some s"
  shows "\<not> coll s \<and> (\<exists>i < mint_attempts. s = prefix @ take 8 (u i))"
  using assms unfolding mint_endpoint_def find_Some_iff by (auto simp: nth_append)

lemma resolve_endpoint_free:
  "resolve_endpoint st t proposed c own u = Inr s \<Longrightarrow> \<not> endpoint_collides st t own s"
  by (auto simp: resolve_endpoint_def Let_def dest: mint_endpoint_Some split: if_splits option.splits)

lemma resolve_endpoint_not_Nil:
  "resolve_endpoint st t proposed c own u = Inr s \<Longrightarrow> s \<noteq> []"
  by (auto simp: resolve_endpoint_def Let_def dest!: mint_endpoint_Some split: if_splits option.splits)

end
