(* ===== verification/Ros_Primitive.thy ===== *)
theory Ros_Primitive
  imports Rust_Str
begin

text \<open>
  The ROS primitive types and the data model of a parsed interface file
  (\<open>tools/codegen/src/codegen/msg_parser.rs\<close>): \<open>RosPrimitive\<close> with its mappings to proto3, Python and
  JSON Schema, the fields and constants of a message, and the message and service specifications.
\<close>

datatype ros_primitive =
    Bool | Byte | Char | Int8 | Uint8 | Int16 | Uint16 | Int32 | Uint32 | Int64 | Uint64
  | Float32 | Float64 | String | Wstring

definition ros_parse :: "string \<Rightarrow> ros_primitive option" where
  "ros_parse s =
     (if s = ''bool'' then Some Bool
      else if s = ''byte'' then Some Byte
      else if s = ''char'' then Some Char
      else if s = ''int8'' then Some Int8
      else if s = ''uint8'' then Some Uint8
      else if s = ''int16'' then Some Int16
      else if s = ''uint16'' then Some Uint16
      else if s = ''int32'' then Some Int32
      else if s = ''uint32'' then Some Uint32
      else if s = ''int64'' then Some Int64
      else if s = ''uint64'' then Some Uint64
      else if s = ''float32'' then Some Float32
      else if s = ''float64'' then Some Float64
      else if s = ''string'' then Some String
      else if s = ''wstring'' then Some Wstring
      else None)"

fun as_ros_str :: "ros_primitive \<Rightarrow> string" where
  "as_ros_str Bool = ''bool''"
| "as_ros_str Byte = ''byte''"
| "as_ros_str Char = ''char''"
| "as_ros_str Int8 = ''int8''"
| "as_ros_str Uint8 = ''uint8''"
| "as_ros_str Int16 = ''int16''"
| "as_ros_str Uint16 = ''uint16''"
| "as_ros_str Int32 = ''int32''"
| "as_ros_str Uint32 = ''uint32''"
| "as_ros_str Int64 = ''int64''"
| "as_ros_str Uint64 = ''uint64''"
| "as_ros_str Float32 = ''float32''"
| "as_ros_str Float64 = ''float64''"
| "as_ros_str String = ''string''"
| "as_ros_str Wstring = ''wstring''"

fun proto_type :: "ros_primitive \<Rightarrow> string" where
  "proto_type Bool = ''bool''"
| "proto_type Byte = ''int32''"
| "proto_type Int8 = ''int32''"
| "proto_type Char = ''uint32''"
| "proto_type Uint8 = ''uint32''"
| "proto_type Int16 = ''int32''"
| "proto_type Uint16 = ''uint32''"
| "proto_type Int32 = ''int32''"
| "proto_type Uint32 = ''uint32''"
| "proto_type Int64 = ''int64''"
| "proto_type Uint64 = ''uint64''"
| "proto_type Float32 = ''float''"
| "proto_type Float64 = ''double''"
| "proto_type String = ''string''"
| "proto_type Wstring = ''string''"

fun python_type :: "ros_primitive \<Rightarrow> string" where
  "python_type Bool = ''bool''"
| "python_type Float32 = ''float''"
| "python_type Float64 = ''float''"
| "python_type String = ''str''"
| "python_type Wstring = ''str''"
| "python_type _ = ''int''"

fun python_default :: "ros_primitive \<Rightarrow> string" where
  "python_default Bool = ''False''"
| "python_default Float32 = ''0.0''"
| "python_default Float64 = ''0.0''"
| "python_default String = [CHR 0x22, CHR 0x22]"
| "python_default Wstring = [CHR 0x22, CHR 0x22]"
| "python_default _ = ''0''"

definition python_cast :: "ros_primitive \<Rightarrow> string" where
  "python_cast p = python_type p"

fun json_schema_type :: "ros_primitive \<Rightarrow> string" where
  "json_schema_type Bool = ''boolean''"
| "json_schema_type Float32 = ''number''"
| "json_schema_type Float64 = ''number''"
| "json_schema_type String = ''string''"
| "json_schema_type Wstring = ''string''"
| "json_schema_type _ = ''integer''"

fun integer_range :: "ros_primitive \<Rightarrow> (int \<times> int) option" where
  "integer_range Byte = Some (- 128, 127)"
| "integer_range Int8 = Some (- 128, 127)"
| "integer_range Char = Some (0, 255)"
| "integer_range Uint8 = Some (0, 255)"
| "integer_range Int16 = Some (- 32768, 32767)"
| "integer_range Uint16 = Some (0, 65535)"
| "integer_range Int32 = Some (- 2147483648, 2147483647)"
| "integer_range Uint32 = Some (0, 4294967295)"
| "integer_range Int64 = Some (- 9223372036854775808, 9223372036854775807)"
| "integer_range Uint64 = Some (0, 18446744073709551615)"
| "integer_range _ = None"

definition is_blob_element :: "ros_primitive \<Rightarrow> bool" where
  "is_blob_element p \<longleftrightarrow> p = Uint8"

definition is_ros_primitive :: "string \<Rightarrow> bool" where
  "is_ros_primitive raw \<longleftrightarrow> ros_parse raw \<noteq> None"

text \<open>The data of a parsed file.\<close>

datatype msg_type_ref = Primitive string | Named string string

record msg_field =
  mf_name :: string
  mf_type_ref :: msg_type_ref
  mf_is_array :: bool
  mf_array_size :: "nat option"
  mf_string_max_len :: "nat option"
  mf_description :: string

record msg_constant =
  mc_name :: string
  mc_type_name :: string
  mc_value :: int

record msg_spec =
  ms_package :: string
  ms_name :: string
  ms_constants :: "msg_constant list"
  ms_fields :: "msg_field list"

record srv_spec =
  ss_package :: string
  ss_name :: string
  ss_request :: msg_spec
  ss_response :: msg_spec

text \<open>Names and mappings agree.\<close>

lemma ros_parse_as_ros_str [simp]: "ros_parse (as_ros_str p) = Some p"
  by (cases p) (simp_all add: ros_parse_def)

lemma ros_parse_Some: "ros_parse s = Some p \<Longrightarrow> s = as_ros_str p"
  by (auto simp: ros_parse_def split: if_splits)

lemma is_ros_primitive_iff: "is_ros_primitive s \<longleftrightarrow> (\<exists>p. s = as_ros_str p)"
  by (auto simp: is_ros_primitive_def dest: ros_parse_Some)

lemma as_ros_str_chars: "c \<in> set (as_ros_str p) \<Longrightarrow>
  c \<noteq> CHR ''/'' \<and> c \<noteq> CHR ''['' \<and> c \<noteq> CHR '']'' \<and> c \<noteq> CHR ''<'' \<and> c \<noteq> CHR ''='' \<and> c \<noteq> CHR ''#'' \<and> \<not> is_ws c"
  by (cases p) (auto simp: is_ws_def)

lemma as_ros_str_not_Nil [simp]: "as_ros_str p \<noteq> []"
  by (cases p) simp_all

lemma integer_range_iff: "integer_range p \<noteq> None \<longleftrightarrow> json_schema_type p = ''integer''"
  by (cases p) simp_all

text \<open>The proto and the JSON Schema types describe the same family: an integer primitive goes to a
  proto integer type that holds its whole range.\<close>

definition proto_int_range :: "string \<Rightarrow> (int \<times> int) option" where
  "proto_int_range t =
     (if t = ''int32'' then Some (- (2 ^ 31), 2 ^ 31 - 1)
      else if t = ''uint32'' then Some (0, 2 ^ 32 - 1)
      else if t = ''int64'' then Some (- (2 ^ 63), 2 ^ 63 - 1)
      else if t = ''uint64'' then Some (0, 2 ^ 64 - 1)
      else None)"

lemma proto_holds_range:
  "integer_range p = Some (lo, hi) \<Longrightarrow>
    \<exists>plo phi. proto_int_range (proto_type p) = Some (plo, phi) \<and> plo \<le> lo \<and> hi \<le> phi"
  by (cases p) (auto simp: proto_int_range_def)

end
