(* ===== verification/Msg_Parser.thy ===== *)
theory Msg_Parser
  imports Ros_Primitive
begin

text \<open>
  The line parser of ROS interface files (\<open>parse_msg_field_type\<close>, \<open>parse_constant_line\<close>,
  \<open>parse_msg_members_from_lines\<close>, \<open>parse_msg_file\<close>, \<open>parse_srv_file\<close> and the type references of
  \<open>tools/codegen/src/codegen/msg_parser.rs\<close>), each failure of the code a left value that carries
  the message.
\<close>

section \<open>Type references\<close>

definition err_prefix :: string where
  "err_prefix = ''[robonix-codegen]''"

definition ros_msg_type_fmt :: "string \<Rightarrow> string \<Rightarrow> string" where
  "ros_msg_type_fmt package name = package @ ''/msg/'' @ name"

definition package_aliases :: "string \<Rightarrow> string list" where
  "package_aliases package =
     (if package = ''robonix_msgs'' then [''robonix_msgs'', ''robonix_msg''] else [package])"

datatype idl_kind = Msg | Srv

definition parse_qualified_type_ref :: "string \<Rightarrow> (idl_kind \<times> string \<times> string) option" where
  "parse_qualified_type_ref type_ref =
     (case split_on (CHR ''/'') (trim type_ref) of
        [package, middle, name] \<Rightarrow>
          (case (if middle = ''msg'' then Some Msg else if middle = ''srv'' then Some Srv else None) of
             None \<Rightarrow> None
           | Some k \<Rightarrow>
               if package = [] \<or> name = [] then None
               else Some (k, package,
                 if ends_with ''[]'' name then take (length name - 2) name else name))
      | _ \<Rightarrow> None)"

definition parse_ridl_type_ref :: "string \<Rightarrow> (string \<times> string) option" where
  "parse_ridl_type_ref type_ref =
     map_option (\<lambda>(k, p, n). (p, n)) (parse_qualified_type_ref type_ref)"

text \<open>The type side of a field line: the reference, whether it is an array, its fixed size and the
  bound of a bounded string. The three steps of the code are the bound after \<open><=\<close>, the brackets, and
  the reference itself.\<close>

definition field_bound :: "string \<Rightarrow> string \<times> nat option" where
  "field_bound raw_type =
     (case split_once_str ''<='' raw_type of
        Some (lhs, rhs) \<Rightarrow>
          (trim lhs,
           parse_usize (takeWhile is_digit
             (trim_by (\<lambda>c. is_ws c \<or> c = CHR '']'' \<or> c = CHR ''['') rhs)))
      | None \<Rightarrow> (trim raw_type, None))"

definition field_array :: "string \<Rightarrow> string \<times> bool \<times> nat option" where
  "field_array normalized =
     (if CHR ''['' \<in> set normalized then
        (takeWhile (\<lambda>c. c \<noteq> CHR ''['') normalized, True,
         parse_usize (trim_by (\<lambda>c. c = CHR ''['' \<or> c = CHR '']'')
           (dropWhile (\<lambda>c. c \<noteq> CHR ''['') normalized)))
      else (normalized, False, None))"

definition named_ref :: "string \<Rightarrow> string \<Rightarrow> string \<Rightarrow> string \<Rightarrow> string + msg_type_ref" where
  "named_ref shape base_type package name =
     (if trim package = [] \<or> trim name = [] then
        Inl (err_prefix @ '' invalid '' @ shape @ '' reference ''
          @ quoted base_type @ '': empty package or name'')
      else Inr (Named (trim package) (trim name)))"

definition field_ref :: "string \<Rightarrow> string \<Rightarrow> string + msg_type_ref" where
  "field_ref current_package base_type =
     (if base_type = [] then Inl (err_prefix @ '' empty message field type in .msg file'')
      else if ros_parse base_type \<noteq> None then Inr (Primitive base_type)
      else
        (let segs = split_on (CHR ''/'') base_type
         in if length segs = 3 \<and> segs ! 1 = ''msg'' then
              named_ref ''pkg/msg/Name'' base_type (segs ! 0) (segs ! 2)
            else
              (case split_once (CHR ''/'') base_type of
                 Some (package, name) \<Rightarrow> named_ref ''pkg/Name'' base_type package name
               | None \<Rightarrow> Inr (Named current_package base_type))))"

definition parse_msg_field_type ::
  "string \<Rightarrow> string \<Rightarrow> string + (msg_type_ref \<times> bool \<times> nat option \<times> nat option)" where
  "parse_msg_field_type current_package raw_type =
     (let (normalized, bound) = field_bound raw_type;
          (base, is_array, array_size) = field_array normalized;
          base_type = trim base;
          string_max_len = (if base_type = ''string'' \<or> base_type = ''wstring'' then bound else None)
      in (case field_ref current_package base_type of
            Inl e \<Rightarrow> Inl e
          | Inr r \<Rightarrow> Inr (r, is_array, array_size, string_max_len)))"

section \<open>Lines\<close>

text \<open>The message of the \<open>ParseIntError\<close> that \<open>parse::<i32>\<close> returns.\<close>

definition parse_i32_error :: "string \<Rightarrow> string" where
  "parse_i32_error s =
     (let neg = (s \<noteq> [] \<and> hd s = CHR ''-'');
          body = (if s \<noteq> [] \<and> (hd s = CHR ''-'' \<or> hd s = CHR ''+'') then tl s else s)
      in if s = [] then ''cannot parse integer from empty string''
         else if parse_digits body = None then ''invalid digit found in string''
         else if neg then ''number too small to fit in target type''
         else ''number too large to fit in target type'')"

definition parse_constant_line :: "string \<Rightarrow> string + msg_constant option" where
  "parse_constant_line code =
     (case split_once (CHR ''='') code of
        None \<Rightarrow> Inr None
      | Some (lhs, rhs) \<Rightarrow>
          (case split_whitespace lhs of
             type_name # name # _ \<Rightarrow>
               (case ros_parse type_name of
                  None \<Rightarrow> Inr None
                | Some primitive \<Rightarrow>
                    if primitive \<notin> {Byte, Char, Int8, Uint8, Int16, Uint16, Int32, Uint32, Int64, Uint64}
                    then Inr None
                    else
                      (let value_text = (case split_whitespace rhs of [] \<Rightarrow> [] | v # _ \<Rightarrow> v)
                       in (case parse_i32 value_text of
                             None \<Rightarrow> Inl (''constant '' @ quoted name @ '' value '' @ quoted value_text
                               @ '' is not an i32: '' @ parse_i32_error value_text)
                           | Some v \<Rightarrow> Inr (Some \<lparr>mc_name = name, mc_type_name = type_name, mc_value = v\<rparr>))))
           | _ \<Rightarrow> Inr None))"

definition split_comment :: "string \<Rightarrow> string \<times> string" where
  "split_comment raw_line =
     (case split_once (CHR ''#'') raw_line of
        Some (code, comment) \<Rightarrow> (code, trim comment)
      | None \<Rightarrow> (raw_line, []))"

definition constant_context :: "path option \<Rightarrow> string \<Rightarrow> string" where
  "constant_context path_hint code =
     (case path_hint of
        Some p \<Rightarrow> err_prefix @ '' invalid constant in '' @ quoted (path_display p) @ '' at line '' @ quoted code
      | None \<Rightarrow> err_prefix @ '' invalid constant at line '' @ quoted code)"

definition field_context :: "path option \<Rightarrow> string \<Rightarrow> string" where
  "field_context path_hint raw_type =
     (case path_hint of
        Some p \<Rightarrow> err_prefix @ '' invalid field in '' @ quoted (path_display p)
          @ '' at line with type '' @ quoted raw_type
      | None \<Rightarrow> err_prefix @ '' invalid field at line with type '' @ quoted raw_type)"

datatype member = No_Member | Const_Member msg_constant | Field_Member msg_field

text \<open>One line of the member loop, then the loop: constants and fields in file order, stopping at the
  first error.\<close>

definition parse_member_line :: "string \<Rightarrow> path option \<Rightarrow> string \<Rightarrow> string + member" where
  "parse_member_line package path_hint raw_line =
     (let (code0, comment) = split_comment raw_line; code = trim code0
      in if code = [] then Inr No_Member
         else (case with_context (constant_context path_hint code) (parse_constant_line code) of
                 Inl e \<Rightarrow> Inl e
               | Inr (Some c) \<Rightarrow> Inr (Const_Member c)
               | Inr None \<Rightarrow>
                   (case split_whitespace code of
                      raw_type # raw_name # _ \<Rightarrow>
                        (case with_context (field_context path_hint raw_type)
                                (parse_msg_field_type package raw_type) of
                           Inl e \<Rightarrow> Inl e
                         | Inr (type_ref, is_array, array_size, max_len) \<Rightarrow>
                             Inr (Field_Member
                               \<lparr>mf_name = raw_name, mf_type_ref = type_ref, mf_is_array = is_array,
                                mf_array_size = array_size, mf_string_max_len = max_len,
                                mf_description = comment\<rparr>))
                    | _ \<Rightarrow> Inr No_Member)))"

fun parse_members ::
  "string \<Rightarrow> path option \<Rightarrow> string list \<Rightarrow> string + (msg_constant list \<times> msg_field list)" where
  "parse_members package hint [] = Inr ([], [])"
| "parse_members package hint (l # ls) =
     (case parse_member_line package hint l of
        Inl e \<Rightarrow> Inl e
      | Inr m \<Rightarrow>
          (case parse_members package hint ls of
             Inl e \<Rightarrow> Inl e
           | Inr (cs, fs) \<Rightarrow>
               Inr (case m of No_Member \<Rightarrow> (cs, fs)
                            | Const_Member c \<Rightarrow> (c # cs, fs)
                            | Field_Member f \<Rightarrow> (cs, f # fs))))"

definition parse_msg_members_from_lines ::
  "string \<Rightarrow> string \<Rightarrow> path option \<Rightarrow> string + (msg_constant list \<times> msg_field list)" where
  "parse_msg_members_from_lines package src path_hint = parse_members package path_hint (lines_of src)"

definition parse_msg_section :: "string \<Rightarrow> string \<Rightarrow> string \<Rightarrow> string + msg_spec" where
  "parse_msg_section package name src =
     (case parse_msg_members_from_lines package src None of
        Inl e \<Rightarrow> Inl e
      | Inr (cs, fs) \<Rightarrow>
          Inr \<lparr>ms_package = package, ms_name = name, ms_constants = cs, ms_fields = fs\<rparr>)"

section \<open>Files\<close>

definition parse_msg_file :: "fs_node \<Rightarrow> string \<Rightarrow> string \<Rightarrow> path \<Rightarrow> string + msg_spec" where
  "parse_msg_file fs package name p =
     (case with_context (err_prefix @ '' failed to read .msg file '' @ quoted (path_display p))
             (read_to_string fs p) of
        Inl e \<Rightarrow> Inl e
      | Inr src \<Rightarrow>
          (case parse_msg_members_from_lines package src (Some p) of
             Inl e \<Rightarrow> Inl e
           | Inr (cs, flds) \<Rightarrow>
               Inr \<lparr>ms_package = package, ms_name = name, ms_constants = cs, ms_fields = flds\<rparr>))"

text \<open>\<open>strip_leading_robonix_grpc_lines\<close>: while the first line of the text, after leading white space,
  is a legacy annotation, drop everything up to the first line feed of the text.\<close>

function strip_leading_robonix_grpc_lines :: "string \<Rightarrow> string" where
  "strip_leading_robonix_grpc_lines s =
     (let first = trim (case lines_of (trim_start s) of [] \<Rightarrow> [] | l # _ \<Rightarrow> l)
      in if starts_with ''# @robonix.grpc'' first then
           (case split_once (CHR 0x0A) s of
              Some (_, rest) \<Rightarrow> strip_leading_robonix_grpc_lines rest
            | None \<Rightarrow> [])
         else s)"
  by pat_completeness auto
termination
  by (relation "measure length") (auto dest: split_once_Some)

declare strip_leading_robonix_grpc_lines.simps [simp del]

text \<open>The split of a service file at the first line that is \<open>---\<close> after trimming.\<close>

fun split_srv_lines :: "string list \<Rightarrow> string list \<times> string list" where
  "split_srv_lines [] = ([], [])"
| "split_srv_lines (l # ls) =
     (if trim l = ''---'' then ([], ls)
      else (let (req, resp) = split_srv_lines ls in (l # req, resp)))"

definition parse_srv_file :: "fs_node \<Rightarrow> string \<Rightarrow> string \<Rightarrow> path \<Rightarrow> string + srv_spec" where
  "parse_srv_file fs package name p =
     (case with_context (err_prefix @ '' failed to read .srv file '' @ quoted (path_display p))
             (read_to_string fs p) of
        Inl e \<Rightarrow> Inl e
      | Inr src \<Rightarrow>
          (let (request_lines, response_lines) =
                 split_srv_lines (lines_of (strip_leading_robonix_grpc_lines src))
           in (case with_context (err_prefix @ '' parsing request of '' @ quoted (path_display p))
                      (parse_msg_section package (name @ ''_Request'') (join [CHR 0x0A] request_lines)) of
                 Inl e \<Rightarrow> Inl e
               | Inr request \<Rightarrow>
                   (case with_context (err_prefix @ '' parsing response of '' @ quoted (path_display p))
                           (parse_msg_section package (name @ ''_Response'') (join [CHR 0x0A] response_lines)) of
                      Inl e \<Rightarrow> Inl e
                    | Inr response \<Rightarrow>
                        Inr \<lparr>ss_package = package, ss_name = name,
                             ss_request = request, ss_response = response\<rparr>))))"

section \<open>Printing and parsing back\<close>

text \<open>
  What a well-formed declaration is, and how it is written: the abstract syntax the parser is
  checked against. An identifier is made of letters, digits and underscores; a type is a primitive or
  \<open>package/msg/Name\<close>; a comment has no line break and no white space at its ends.
\<close>

definition ident_char :: "char \<Rightarrow> bool" where
  "ident_char c \<longleftrightarrow> (let n = of_char c :: nat in
     (48 \<le> n \<and> n \<le> 57) \<or> (65 \<le> n \<and> n \<le> 90) \<or> (97 \<le> n \<and> n \<le> 122) \<or> n = 95)"

definition ident :: "string \<Rightarrow> bool" where
  "ident s \<longleftrightarrow> s \<noteq> [] \<and> list_all ident_char s"

fun type_base_text :: "msg_type_ref \<Rightarrow> string" where
  "type_base_text (Primitive s) = s"
| "type_base_text (Named p n) = ros_msg_type_fmt p n"

definition array_text :: "bool \<Rightarrow> nat option \<Rightarrow> string" where
  "array_text is_array asize =
     (if is_array then ''['' @ (case asize of None \<Rightarrow> [] | Some n \<Rightarrow> show_nat n) @ '']'' else [])"

fun wf_type :: "msg_type_ref \<Rightarrow> bool" where
  "wf_type (Primitive s) = is_ros_primitive s"
| "wf_type (Named p n) = (ident p \<and> ident n)"

definition wf_array :: "bool \<Rightarrow> nat option \<Rightarrow> bool" where
  "wf_array is_array asize \<longleftrightarrow>
     (case asize of None \<Rightarrow> True | Some n \<Rightarrow> is_array \<and> n < 2 ^ 64)"

text \<open>The characters of a written type.\<close>

definition type_char :: "char \<Rightarrow> bool" where
  "type_char c \<longleftrightarrow> ident_char c \<or> c = CHR ''/''"

lemma ident_char_not: "ident_char c \<Longrightarrow>
    c \<noteq> CHR ''/'' \<and> c \<noteq> CHR ''['' \<and> c \<noteq> CHR '']'' \<and> c \<noteq> CHR ''<'' \<and> c \<noteq> CHR ''='' \<and> c \<noteq> CHR ''#'' \<and> \<not> is_ws c"
  by (auto simp: ident_char_def is_ws_def Let_def)

lemma ident_chars: "ident s \<Longrightarrow> c \<in> set s \<Longrightarrow> ident_char c"
  by (auto simp: ident_def list_all_iff)

lemma as_ros_str_ident: "ident (as_ros_str p)"
  by (cases p) (auto simp: ident_def ident_char_def)

lemma type_base_chars:
  assumes "wf_type r" and "c \<in> set (type_base_text r)"
  shows "type_char c"
proof (cases r)
  case (Primitive s)
  with assms obtain p where "s = as_ros_str p" by (auto simp: is_ros_primitive_iff)
  with Primitive assms show ?thesis
    using ident_chars [OF as_ros_str_ident] by (auto simp: type_char_def)
next
  case (Named p n)
  have "ident_char (CHR ''m'')" "ident_char (CHR ''s'')" "ident_char (CHR ''g'')"
    by (simp_all add: ident_char_def)
  with Named assms show ?thesis
    by (auto simp: ros_msg_type_fmt_def type_char_def dest: ident_chars)
qed

lemma type_char_not: "type_char c \<Longrightarrow>
    c \<noteq> CHR ''['' \<and> c \<noteq> CHR '']'' \<and> c \<noteq> CHR ''<'' \<and> c \<noteq> CHR ''='' \<and> c \<noteq> CHR ''#'' \<and> \<not> is_ws c"
  unfolding type_char_def
proof (elim disjE)
  assume "ident_char c"
  from ident_char_not [OF this] show ?thesis by blast
qed (simp add: is_ws_def)

lemma type_base_not_Nil: "wf_type r \<Longrightarrow> type_base_text r \<noteq> []"
  by (cases r) (auto simp: ros_msg_type_fmt_def is_ros_primitive_iff)

lemma trim_no_ws: "(\<And>c. c \<in> set s \<Longrightarrow> \<not> is_ws c) \<Longrightarrow> trim s = s"
  unfolding trim_def by (rule trim_by_id) auto

text \<open>Once the base type is isolated, its reference is recovered.\<close>

lemma split_named:
  assumes "ident p" and "ident n"
  shows "split_on (CHR ''/'') (ros_msg_type_fmt p n) = [p, ''msg'', n]"
proof -
  have p: "CHR ''/'' \<notin> set p" and n: "CHR ''/'' \<notin> set n"
    using assms by (auto dest: ident_chars ident_char_not)
  have "split_on (CHR ''/'') (p @ CHR ''/'' # (''msg'' @ CHR ''/'' # n)) = [p, ''msg'', n]"
    unfolding split_on_append_sep [OF p] by (subst split_on_append_sep) (auto simp: split_on_single n)
  then show ?thesis by (simp add: ros_msg_type_fmt_def)
qed

lemma ros_parse_named: "ros_parse (ros_msg_type_fmt p n) = None"
proof (rule ccontr)
  assume "ros_parse (ros_msg_type_fmt p n) \<noteq> None"
  then obtain q where "ros_msg_type_fmt p n = as_ros_str q"
    by (auto dest: ros_parse_Some)
  then have "CHR ''/'' \<in> set (as_ros_str q)"
    by (metis append_Cons in_set_conv_decomp ros_msg_type_fmt_def)
  then show False using as_ros_str_chars by blast
qed

lemma trim_brackets:
  assumes "list_all is_digit s"
  shows "trim_by (\<lambda>c. c = CHR ''['' \<or> c = CHR '']'') (''['' @ s @ '']'') = s"
proof -
  let ?P = "\<lambda>c. c = CHR ''['' \<or> c = CHR '']''"
  have s: "\<not> ?P c" if "c \<in> set s" for c
    using assms that by (auto simp: list_all_iff is_digit_def)
  have "dropWhile ?P (s @ '']'') = s @ (if s = [] then [] else '']'')"
    using s by (cases s) auto
  moreover have "dropWhile ?P (rev s) = rev s"
    using s by (intro dropWhile_id) (metis hd_in_set set_rev)
  ultimately show ?thesis by (auto simp: trim_by_def)
qed

lemma field_ref_text:
  assumes "wf_type r"
  shows "field_ref pkg (type_base_text r) = Inr r"
proof (cases r)
  case (Primitive s)
  with assms have "ros_parse s \<noteq> None" "s \<noteq> []"
    by (auto simp: is_ros_primitive_def ros_parse_def split: if_splits)
  with Primitive show ?thesis by (simp add: field_ref_def)
next
  case (Named p n)
  then have "trim p = p" "trim n = n" "p \<noteq> []" "n \<noteq> []"
    using assms by (auto intro!: trim_no_ws simp: ident_def list_all_iff dest: ident_char_not)
  with Named assms type_base_not_Nil [OF assms] show ?thesis
    by (simp add: field_ref_def named_ref_def ros_parse_named split_named Let_def)
qed

lemma type_roundtrip:
  assumes "wf_type r" and "wf_array arr asize"
  shows "parse_msg_field_type pkg (type_base_text r @ array_text arr asize) = Inr (r, arr, asize, None)"
proof -
  let ?b = "type_base_text r"
  have nb: "c \<noteq> CHR ''['' \<and> c \<noteq> CHR ''<'' \<and> \<not> is_ws c" if "c \<in> set ?b" for c
    using type_base_chars [OF assms(1) that] type_char_not by blast
  have digits: "list_all is_digit (case asize of None \<Rightarrow> [] | Some n \<Rightarrow> show_nat n)"
    by (cases asize) (auto simp: show_nat_digits)
  have na: "c \<noteq> CHR ''<'' \<and> \<not> is_ws c" if "c \<in> set (array_text arr asize)" for c
    using that digits by (auto simp: array_text_def list_all_iff is_digit_def is_ws_def split: if_splits)
  have trimmed: "trim (?b @ array_text arr asize) = ?b @ array_text arr asize" "trim ?b = ?b"
    using nb na by (auto intro!: trim_no_ws)
  have "split_once_str ''<='' (?b @ array_text arr asize) = None"
    using nb na by (intro split_once_str_none) auto
  then have bound: "field_bound (?b @ array_text arr asize) = (?b @ array_text arr asize, None)"
    by (simp add: field_bound_def trimmed)
  have asz: "parse_usize (case asize of None \<Rightarrow> [] | Some n \<Rightarrow> show_nat n) = asize"
  proof (cases asize)
    case None
    then show ?thesis by (simp add: parse_usize_def parse_digits_def)
  next
    case (Some n)
    with assms(2) have "n < 2 ^ 64" by (simp add: wf_array_def)
    with Some show ?thesis by (simp only: parse_usize_show_nat option.case)
  qed
  have base: "field_array (?b @ array_text arr asize) = (?b, arr, asize)"
  proof (cases arr)
    case True
    then have at: "array_text arr asize = CHR ''['' # (case asize of None \<Rightarrow> [] | Some n \<Rightarrow> show_nat n) @ '']''"
      by (simp add: array_text_def)
    have tw: "takeWhile (\<lambda>c. c \<noteq> CHR ''['') (?b @ array_text arr asize) = ?b"
      and dw: "dropWhile (\<lambda>c. c \<noteq> CHR ''['') (?b @ array_text arr asize) = array_text arr asize"
      using nb unfolding at by (subst takeWhile_append2 dropWhile_append2, auto)+
    have m: "CHR ''['' \<in> set (?b @ array_text arr asize)"
      by (simp add: at)
    have tb: "trim_by (\<lambda>c. c = CHR ''['' \<or> c = CHR '']'') (array_text arr asize)
        = (case asize of None \<Rightarrow> [] | Some n \<Rightarrow> show_nat n)"
      using trim_brackets [OF digits] by (simp add: at)
    show ?thesis
      unfolding field_array_def if_P [OF m] tw dw tb asz using True by simp
  next
    case False
    with assms(2) have "asize = None" by (auto simp: wf_array_def split: option.splits)
    with False show ?thesis using nb by (auto simp: array_text_def field_array_def)
  qed
  have "field_ref pkg ?b = Inr r"
    using assms(1) by (rule field_ref_text)
  with bound trimmed base show ?thesis
    by (simp add: parse_msg_field_type_def)
qed

text \<open>The whole type of a field, with the bound of a bounded string.\<close>

definition type_text :: "msg_field \<Rightarrow> string" where
  "type_text f =
     (case mf_string_max_len f of
        None \<Rightarrow> type_base_text (mf_type_ref f) @ array_text (mf_is_array f) (mf_array_size f)
      | Some n \<Rightarrow> type_base_text (mf_type_ref f) @ ''<='' @ show_nat n)"

definition wf_field :: "msg_field \<Rightarrow> bool" where
  "wf_field f \<longleftrightarrow> wf_type (mf_type_ref f) \<and> wf_array (mf_is_array f) (mf_array_size f) \<and> ident (mf_name f)
     \<and> (case mf_string_max_len f of
          None \<Rightarrow> True
        | Some n \<Rightarrow> \<not> mf_is_array f \<and> n < 2 ^ 64
            \<and> mf_type_ref f \<in> {Primitive ''string'', Primitive ''wstring''})
     \<and> trim (mf_description f) = mf_description f
     \<and> CHR 0x0A \<notin> set (mf_description f) \<and> CHR 0x0D \<notin> set (mf_description f)"

definition wf_const :: "msg_constant \<Rightarrow> bool" where
  "wf_const c \<longleftrightarrow> ident (mc_name c)
     \<and> mc_type_name c \<in> as_ros_str ` {Byte, Char, Int8, Uint8, Int16, Uint16, Int32, Uint32, Int64, Uint64}
     \<and> - (2 ^ 31) \<le> mc_value c \<and> mc_value c < 2 ^ 31"

definition comment_text :: "string \<Rightarrow> string" where
  "comment_text d = (if d = [] then [] else '' # '' @ d)"

fun member_text :: "member \<Rightarrow> string" where
  "member_text No_Member = []"
| "member_text (Const_Member c) = mc_type_name c @ '' '' @ mc_name c @ ''='' @ show_int (mc_value c)"
| "member_text (Field_Member f) = type_text f @ '' '' @ mf_name f @ comment_text (mf_description f)"

fun wf_member :: "member \<Rightarrow> bool" where
  "wf_member No_Member = True"
| "wf_member (Const_Member c) = wf_const c"
| "wf_member (Field_Member f) = wf_field f"

definition msg_text :: "member list \<Rightarrow> string" where
  "msg_text ms = concat (map (\<lambda>l. l @ [CHR 0x0A]) (map member_text ms))"

definition consts_of :: "member list \<Rightarrow> msg_constant list" where
  "consts_of ms = List.map_filter (\<lambda>m. case m of Const_Member c \<Rightarrow> Some c | _ \<Rightarrow> None) ms"

definition fields_of :: "member list \<Rightarrow> msg_field list" where
  "fields_of ms = List.map_filter (\<lambda>m. case m of Field_Member f \<Rightarrow> Some f | _ \<Rightarrow> None) ms"

lemma parse_i32_show_int: "- (2 ^ 31) \<le> v \<Longrightarrow> v < 2 ^ 31 \<Longrightarrow> parse_i32 (show_int v) = Some v"
  using hd_digit_not_sign [OF show_nat_not_Nil show_nat_digits, of "nat v"]
  by (auto simp: parse_i32_def show_int_def parse_digits_show_nat)

lemma digit_not: "is_digit c \<Longrightarrow> \<not> is_ws c \<and> c \<noteq> CHR ''#'' \<and> c \<noteq> CHR ''='' \<and> c \<noteq> CHR ''<'' \<and> c \<noteq> CHR '']'' \<and> c \<noteq> CHR ''[''"
  by (auto simp: is_digit_def is_ws_def)

lemma show_nat_chars: "c \<in> set (show_nat n) \<Longrightarrow> is_digit c"
  using show_nat_digits [of n] by (auto simp: list_all_iff)

lemma trim_trailing:
  assumes "s \<noteq> []" "\<not> is_ws (hd s)" "\<not> is_ws (last s)" "is_ws w"
  shows "trim (s @ [w]) = s"
proof -
  have "dropWhile is_ws (s @ [w]) = s @ [w]" "dropWhile is_ws (rev s) = rev s"
    using assms by (auto intro!: dropWhile_id simp: hd_rev)
  with assms(4) show ?thesis by (simp add: trim_def trim_by_def)
qed

lemma array_text_chars: "c \<in> set (array_text arr asize) \<Longrightarrow> is_digit c \<or> c = CHR ''['' \<or> c = CHR '']''"
  by (auto simp: array_text_def dest: show_nat_chars split: if_splits option.splits)

lemma type_text_chars:
  assumes "wf_field f" and "c \<in> set (type_text f)"
  shows "\<not> is_ws c \<and> c \<noteq> CHR ''#'' \<and> (c = CHR ''='' \<longrightarrow> mf_string_max_len f \<noteq> None)"
proof -
  have b: "type_char c" if "c \<in> set (type_base_text (mf_type_ref f))"
    using assms(1) that by (intro type_base_chars) (auto simp: wf_field_def)
  from assms(2) consider "type_char c" | "is_digit c" | "c = CHR ''['' \<or> c = CHR '']''"
    | "mf_string_max_len f \<noteq> None" "c = CHR ''<'' \<or> c = CHR ''=''"
    using b by (auto simp: type_text_def dest: array_text_chars show_nat_chars split: option.splits)
  then show ?thesis
    using type_char_not digit_not by cases (auto simp: is_ws_def)
qed

lemma type_text_not_Nil: "wf_field f \<Longrightarrow> type_text f \<noteq> []"
  using type_base_not_Nil by (auto simp: type_text_def wf_field_def split: option.splits)

lemma parse_bounded:
  assumes "s \<in> {''string'', ''wstring''}" and "n < 2 ^ 64"
  shows "parse_msg_field_type pkg (s @ ''<='' @ show_nat n) = Inr (Primitive s, False, None, Some n)"
proof -
  have s: "CHR ''<'' \<notin> set s" "trim s = s" "CHR ''['' \<notin> set s" "s \<noteq> []" "ros_parse s \<noteq> None"
    using assms(1) by (auto intro!: trim_no_ws simp: is_ws_def ros_parse_def)
  have once: "split_once_str ''<='' (t @ ''<='' @ r) = Some (t, r)" if "CHR ''<'' \<notin> set t" for t r
    using that by (induction t) auto
  have "\<not> (is_ws c \<or> c = CHR '']'' \<or> c = CHR ''['')" if "c \<in> set (show_nat n)" for c
    using show_nat_chars [OF that] digit_not by blast
  then have tr: "trim_by (\<lambda>c. is_ws c \<or> c = CHR '']'' \<or> c = CHR ''['') (show_nat n) = show_nat n"
    using hd_in_set [OF show_nat_not_Nil] last_in_set [OF show_nat_not_Nil]
    by (intro trim_by_id disjI2 conjI) blast+
  have tw: "takeWhile is_digit (show_nat n) = show_nat n"
    using show_nat_chars by (simp add: takeWhile_eq_all_conv)
  have "field_bound (s @ ''<='' @ show_nat n) = (s, Some n)"
    unfolding field_bound_def once [OF s(1)] by (simp add: tr tw s(2) parse_usize_show_nat [OF assms(2)])
  moreover have "field_array s = (s, False, None)"
    using s(3) by (simp add: field_array_def)
  moreover have "field_ref pkg s = Inr (Primitive s)"
    using s by (simp add: field_ref_def)
  ultimately show ?thesis
    using s(2) assms(1) by (auto simp: parse_msg_field_type_def)
qed

lemma type_text_roundtrip:
  assumes "wf_field f"
  shows "parse_msg_field_type pkg (type_text f)
    = Inr (mf_type_ref f, mf_is_array f, mf_array_size f, mf_string_max_len f)"
proof (cases "mf_string_max_len f")
  case None
  with assms show ?thesis by (simp add: type_text_def type_roundtrip wf_field_def)
next
  case (Some n)
  with assms have "mf_type_ref f \<in> {Primitive ''string'', Primitive ''wstring''}" and "n < 2 ^ 64"
    and arr: "\<not> mf_is_array f" "mf_array_size f = None"
    by (auto simp: wf_field_def wf_array_def split: option.splits)
  then obtain s where "mf_type_ref f = Primitive s" "s \<in> {''string'', ''wstring''}" by blast
  with Some arr \<open>n < 2 ^ 64\<close> show ?thesis
    by (simp only: type_text_def option.case type_base_text.simps parse_bounded)
qed

text \<open>Reading one printed line back gives the member that was printed.\<close>

lemma split_comment_text:
  assumes "CHR ''#'' \<notin> set code" and "trim d = d"
  shows "split_comment (code @ comment_text d) = (if d = [] then code else code @ '' '', d)"
proof (cases "d = []")
  case True
  with assms(1) show ?thesis
    by (simp add: split_comment_def comment_text_def split_once_none [THEN iffD2])
next
  case False
  have sp: "trim (CHR '' '' # d) = d"
    using assms(2) by (simp add: trim_def trim_by_def is_ws_def)
  have "split_once (CHR ''#'') ((code @ '' '') @ CHR ''#'' # (CHR '' '' # d)) = Some (code @ '' '', CHR '' '' # d)"
    using assms(1) by (intro split_once_append) auto
  with False sp show ?thesis
    by (simp add: split_comment_def comment_text_def)
qed

lemma code_trim:
  assumes "code \<noteq> []" "\<not> is_ws (hd code)" "\<not> is_ws (last code)"
  shows "trim code = code" and "trim (code @ '' '') = code"
  using assms by (auto simp: trim_def [symmetric] is_ws_def intro!: trim_by_id [where P = is_ws, folded trim_def] trim_trailing)

lemma ident_ends: "ident s \<Longrightarrow> s \<noteq> [] \<and> \<not> is_ws (hd s) \<and> \<not> is_ws (last s)"
  using ident_chars ident_char_not hd_in_set last_in_set by (metis ident_def)

lemma field_code:
  assumes "wf_field f"
  shows "split_whitespace (type_text f @ '' '' @ mf_name f) = [type_text f, mf_name f]"
    and "parse_constant_line (type_text f @ '' '' @ mf_name f) = Inr None"
proof -
  have nm: "ident (mf_name f)" using assms by (simp add: wf_field_def)
  have nws: "\<not> is_ws c" if "c \<in> set (mf_name f)" for c
    using ident_chars [OF nm that] ident_char_not by blast
  have sp: "is_ws (CHR '' '')" by (simp add: is_ws_def)
  show "split_whitespace (type_text f @ '' '' @ mf_name f) = [type_text f, mf_name f]"
    using split_whitespace_Cons [OF type_text_not_Nil [OF assms] _ sp] type_text_chars [OF assms]
      split_whitespace_single nm nws by (simp add: ident_def)
  have ne: "CHR ''='' \<notin> set (mf_name f)"
    using ident_chars [OF nm] ident_char_not by blast
  show "parse_constant_line (type_text f @ '' '' @ mf_name f) = Inr None"
  proof (cases "mf_string_max_len f")
    case None
    with type_text_chars [OF assms] ne have "CHR ''='' \<notin> set (type_text f @ '' '' @ mf_name f)" by auto
    then show ?thesis by (simp add: parse_constant_line_def split_once_none [THEN iffD2])
  next
    case (Some n)
    with assms obtain s where s: "mf_type_ref f = Primitive s" "s = ''string'' \<or> s = ''wstring''"
      by (auto simp: wf_field_def)
    let ?l = "s @ ''<''" and ?r = "show_nat n @ '' '' @ mf_name f"
    have "split_once (CHR ''='') (?l @ CHR ''='' # ?r) = Some (?l, ?r)"
      using s(2) by (intro split_once_append) auto
    moreover have "split_whitespace ?l = [?l]"
      using s(2) by (intro split_whitespace_single) (auto simp: is_ws_def)
    ultimately show ?thesis
      using Some s(1) by (simp add: parse_constant_line_def type_text_def)
  qed
qed

lemma parse_field_line:
  assumes "wf_field f"
  shows "parse_member_line pkg hint (member_text (Field_Member f)) = Inr (Field_Member f)"
proof -
  let ?code = "type_text f @ '' '' @ mf_name f"
  have nm: "ident (mf_name f)" and d: "trim (mf_description f) = mf_description f"
    using assms by (auto simp: wf_field_def)
  have "CHR ''#'' \<notin> set ?code"
    using type_text_chars [OF assms] ident_chars [OF nm] ident_char_not by auto
  from split_comment_text [OF this d]
  have sc: "split_comment (?code @ comment_text (mf_description f)) =
    (if mf_description f = [] then ?code else ?code @ '' '', mf_description f)" .
  have "?code \<noteq> []" "\<not> is_ws (hd ?code)" "\<not> is_ws (last ?code)"
    using type_text_not_Nil [OF assms] type_text_chars [OF assms, of "hd (type_text f)"] ident_ends [OF nm]
    by auto
  from code_trim [OF this]
  have tr: "trim (if mf_description f = [] then ?code else ?code @ '' '') = ?code" by simp
  from sc tr field_code [OF assms] type_text_roundtrip [OF assms] type_text_not_Nil [OF assms] show ?thesis
    by (simp add: parse_member_line_def Let_def)
qed

lemma int_prim_ros_parse:
  assumes "t \<in> as_ros_str ` {Byte, Char, Int8, Uint8, Int16, Uint16, Int32, Uint32, Int64, Uint64}"
  obtains p where "ros_parse t = Some p"
    and "p \<in> {Byte, Char, Int8, Uint8, Int16, Uint16, Int32, Uint32, Int64, Uint64}"
  using assms ros_parse_as_ros_str by blast

lemma wf_const_ident:
  assumes "wf_const c"
  shows "ident (mc_name c)" and "ident (mc_type_name c)"
proof -
  show "ident (mc_name c)" using assms by (simp add: wf_const_def)
  from assms obtain p where "mc_type_name c = as_ros_str p" unfolding wf_const_def by blast
  then show "ident (mc_type_name c)" by (simp only: as_ros_str_ident)
qed

lemma not_ws_cr: "\<not> is_ws x \<Longrightarrow> x \<noteq> CHR 0x0A \<and> x \<noteq> CHR 0x0D"
  by (auto simp: is_ws_def)

lemma show_int_chars: "c \<in> set (show_int v) \<Longrightarrow> is_digit c \<or> c = CHR ''-''"
  by (auto simp: show_int_def dest: show_nat_chars split: if_splits)

lemma parse_const_line:
  assumes "wf_const c"
  shows "parse_member_line pkg hint (member_text (Const_Member c)) = Inr (Const_Member c)"
proof -
  note ni = wf_const_ident(1) [OF assms] and ti = wf_const_ident(2) [OF assms]
  have rng: "- (2 ^ 31) \<le> mc_value c" "mc_value c < 2 ^ 31"
    using assms by (simp_all add: wf_const_def)
  obtain p where p: "ros_parse (mc_type_name c) = Some p"
      "p \<in> {Byte, Char, Int8, Uint8, Int16, Uint16, Int32, Uint32, Int64, Uint64}"
    using assms int_prim_ros_parse unfolding wf_const_def by metis
  let ?l = "mc_type_name c @ '' '' @ mc_name c" and ?v = "show_int (mc_value c)"
  let ?code = "?l @ CHR ''='' # ?v"
  have nc: "x \<noteq> CHR ''='' \<and> x \<noteq> CHR ''#'' \<and> \<not> is_ws x" if "x \<in> set (mc_type_name c) \<or> x \<in> set (mc_name c)" for x
    using that ident_chars [OF ni] ident_chars [OF ti] ident_char_not by metis
  have vc: "x \<noteq> CHR ''#'' \<and> \<not> is_ws x" if "x \<in> set ?v" for x
    using show_int_chars [OF that] digit_not by (auto simp: is_ws_def)
  have v0: "?v \<noteq> []" by (simp add: show_int_def)
  have "split_whitespace ?l = [mc_type_name c, mc_name c]"
    using split_whitespace_Cons [of "mc_type_name c" "CHR '' ''" "mc_name c"] split_whitespace_single [of "mc_name c"]
      nc ni ti by (auto simp: ident_def is_ws_def)
  moreover have "split_whitespace ?v = [?v]"
    using v0 vc by (intro split_whitespace_single) auto
  moreover have "split_once (CHR ''='') ?code = Some (?l, ?v)"
    using nc by (intro split_once_append) auto
  ultimately have const: "parse_constant_line ?code = Inr (Some c)"
    using p parse_i32_show_int [OF rng] by (simp add: parse_constant_line_def)
  have "CHR ''#'' \<notin> set ?code"
    using nc vc by auto
  then have sc: "split_comment ?code = (?code, [])"
    unfolding split_comment_def split_once_none [symmetric] by (simp only: option.case)
  have "?code \<noteq> []" "\<not> is_ws (hd ?code)" "\<not> is_ws (last ?code)"
    using ident_ends [OF ti] v0 vc by auto
  from code_trim(1) [OF this] sc const show ?thesis
    by (simp add: parse_member_line_def)
qed

lemma parse_printed_line:
  assumes "wf_member m"
  shows "parse_member_line pkg hint (member_text m) = Inr m"
proof (cases m)
  case No_Member
  then show ?thesis by (simp add: parse_member_line_def split_comment_def)
next
  case (Const_Member c)
  with assms parse_const_line show ?thesis by simp
next
  case (Field_Member f)
  with assms parse_field_line show ?thesis by simp
qed

lemma printed_line_chars:
  assumes "wf_member m"
  shows "CHR 0x0A \<notin> set (member_text m) \<and> CHR 0x0D \<notin> set (member_text m)"
proof (cases m)
  case No_Member
  then show ?thesis by simp
next
  case (Const_Member c)
  with assms have c: "wf_const c" by simp
  have "\<not> is_ws x" if "x \<in> set (mc_type_name c) \<union> set (mc_name c)" for x
    using that ident_chars [OF wf_const_ident(1) [OF c]] ident_chars [OF wf_const_ident(2) [OF c]]
      ident_char_not by blast
  moreover have "\<not> is_ws x" if "x \<in> set (show_int (mc_value c))" for x
    using show_int_chars [OF that] digit_not by (auto simp: is_ws_def)
  ultimately show ?thesis
    using Const_Member not_ws_cr by auto
next
  case (Field_Member f)
  with assms have "ident (mf_name f)" and d: "CHR 0x0A \<notin> set (mf_description f)" "CHR 0x0D \<notin> set (mf_description f)"
    by (auto simp: wf_field_def)
  have f: "wf_field f" using assms Field_Member by simp
  have "\<not> is_ws x" if "x \<in> set (type_text f) \<union> set (mf_name f)" for x
    using that ident_chars [OF \<open>ident (mf_name f)\<close>] ident_char_not type_text_chars [OF f] by blast
  then show ?thesis
    using Field_Member d not_ws_cr by (auto simp: comment_text_def)
qed

lemma parse_members_printed:
  "list_all wf_member ms \<Longrightarrow>
    parse_members pkg hint (map member_text ms) = Inr (consts_of ms, fields_of ms)"
  by (induction ms)
    (auto simp: parse_printed_line consts_of_def fields_of_def map_filter_simps split: member.split)

text \<open>C9 (roundtrip). The member parser inverts the printer: a file written from any well-formed list of
  constants and fields (primitive and named types, arrays of fixed and open size, bounded strings,
  comments, blank lines) is read back as exactly its constants and fields, in file order.\<close>

theorem msg_roundtrip:
  assumes "list_all wf_member ms"
  shows "parse_msg_members_from_lines pkg (msg_text ms) hint = Inr (consts_of ms, fields_of ms)"
proof -
  have "lines_of (msg_text ms) = map member_text ms"
    unfolding msg_text_def using assms printed_line_chars by (intro lines_of_unlines) (auto simp: list_all_iff)
  with assms show ?thesis
    by (simp add: parse_msg_members_from_lines_def parse_members_printed)
qed

theorem msg_roundtrip_witness:
  "parse_msg_members_from_lines ''p''
     (''uint32 MAX=-7'' @ [CHR 0x0A, CHR 0x0A] @ ''geo/msg/Pose[3] poses # in metres'' @ [CHR 0x0A]) None
   = Inr ([\<lparr>mc_name = ''MAX'', mc_type_name = ''uint32'', mc_value = -7\<rparr>],
      [\<lparr>mf_name = ''poses'', mf_type_ref = Named ''geo'' ''Pose'', mf_is_array = True, mf_array_size = Some 3,
        mf_string_max_len = None, mf_description = ''in metres''\<rparr>])"
proof -
  let ?ms = "[Const_Member \<lparr>mc_name = ''MAX'', mc_type_name = ''uint32'', mc_value = -7\<rparr>, No_Member,
      Field_Member \<lparr>mf_name = ''poses'', mf_type_ref = Named ''geo'' ''Pose'', mf_is_array = True,
        mf_array_size = Some 3, mf_string_max_len = None, mf_description = ''in metres''\<rparr>]"
  have "list_all wf_member ?ms" by code_simp
  from msg_roundtrip [OF this, of "''p''" None]
  have "parse_msg_members_from_lines ''p'' (msg_text ?ms) None = Inr (consts_of ?ms, fields_of ?ms)" .
  moreover have "msg_text ?ms = ''uint32 MAX=-7'' @ [CHR 0x0A, CHR 0x0A] @ ''geo/msg/Pose[3] poses # in metres'' @ [CHR 0x0A]"
    by code_simp
  ultimately show ?thesis
    by (simp add: consts_of_def fields_of_def map_filter_simps)
qed

text \<open>Two member lines that are not read as written: an open or fixed array of bounded
  strings loses its array part (the brackets after the bound are dropped with it), and a
  floating-point or string constant is not ignored, it becomes a field whose name holds the value.\<close>

theorem member_lines_misread:
  "parse_member_line pkg hint ''string<=10[] names''
     = Inr (Field_Member \<lparr>mf_name = ''names'', mf_type_ref = Primitive ''string'', mf_is_array = False,
         mf_array_size = None, mf_string_max_len = Some 10, mf_description = []\<rparr>)
   \<and> parse_member_line pkg hint ''float32 PI=3.14''
     = Inr (Field_Member \<lparr>mf_name = ''PI=3.14'', mf_type_ref = Primitive ''float32'', mf_is_array = False,
         mf_array_size = None, mf_string_max_len = None, mf_description = []\<rparr>)"
  by code_simp

end
