(* ===== verification/Msg_Resolver.thy ===== *)
theory Msg_Resolver
  imports Msg_Parser "HOL-Library.Product_Lexorder"
begin

text \<open>
  \<open>MsgResolver\<close> of \<open>tools/codegen/src/codegen/msg_parser.rs\<close>: the index of the interface files under
  the include paths, and the recursive resolver that parses a type with everything it refers to. The
  mutable \<open>visiting\<close> set is passed down: the code restores it on success, and after a failure the whole
  resolution is abandoned. The cache is threaded, and keeps what was cached before a failure.

  The main results: a resolution succeeds when every type reachable from the requested one has a readable, well-formed
  file, cyclic references included; only then, as long as no earlier use of the resolver reported a failure; and then
  the cache is closed under references; each cached message is the parse of its own file.
\<close>

section \<open>State\<close>

type_synonym type_key = "string \<times> string"

record resolve_context =
  rc_namespace :: "string option"
  rc_interface_kind :: "string option"
  rc_interface_name :: "string option"
  rc_field_name :: "string option"

record msg_resolver =
  rs_fs :: fs_node
  rs_index :: "(type_key, path) hmap"
  rs_cache :: "(type_key, msg_spec) hmap"
  rs_srv_index :: "(type_key, path) hmap"
  rs_srv_cache :: "(type_key, srv_spec) hmap"
  rs_include_paths :: "path list"

section \<open>The index\<close>

definition infer_package_name :: "path \<Rightarrow> string option" where
  "infer_package_name p =
     (case path_parent p of
        None \<Rightarrow> None
      | Some parent \<Rightarrow>
          (case path_file_name parent of
             None \<Rightarrow> None
           | Some parent_name \<Rightarrow>
               if parent_name = ''msg''
               then Option.bind (path_parent parent) path_file_name
               else Some parent_name))"

definition infer_srv_package_name :: "path \<Rightarrow> string option" where
  "infer_srv_package_name p =
     (case path_parent p of
        None \<Rightarrow> None
      | Some parent \<Rightarrow>
          (case path_file_name parent of
             None \<Rightarrow> None
           | Some parent_name \<Rightarrow>
               if parent_name = ''srv''
               then Option.bind (path_parent parent) path_file_name
               else Some parent_name))"

text \<open>\<open>index.entry(k).or_insert(v)\<close>: the first file of a key wins.\<close>

definition or_insert :: "'k \<Rightarrow> 'v \<Rightarrow> ('k, 'v) hmap \<Rightarrow> ('k, 'v) hmap" where
  "or_insert k v m = (if hm_get m k = None then hm_insert k v m else m)"

definition index_msg_entry :: "path \<Rightarrow> (type_key, path) hmap \<Rightarrow> (type_key, path) hmap" where
  "index_msg_entry p index =
     (if name_extension (last p) \<noteq> Some ''msg'' then index
      else (case infer_package_name p of
              None \<Rightarrow> index
            | Some package \<Rightarrow> or_insert (package, name_stem (last p)) p index))"

definition index_srv_entry :: "path \<Rightarrow> (type_key, path) hmap \<Rightarrow> (type_key, path) hmap" where
  "index_srv_entry p index =
     (if name_extension (last p) \<noteq> Some ''srv'' then index
      else (case infer_srv_package_name p of
              None \<Rightarrow> index
            | Some package \<Rightarrow> or_insert (package, name_stem (last p)) p index))"

text \<open>The directory walk: subdirectories recursively, every file through the given entry function.\<close>

fun walk_entries ::
  "(path \<Rightarrow> 'm \<Rightarrow> 'm) \<Rightarrow> path \<Rightarrow> fs_node \<Rightarrow> 'm \<Rightarrow> 'm"
and walk_list ::
  "(path \<Rightarrow> 'm \<Rightarrow> 'm) \<Rightarrow> path \<Rightarrow> (string \<times> fs_node) list \<Rightarrow> 'm \<Rightarrow> 'm" where
  "walk_entries f p (FsFile c) m = f p m"
| "walk_entries f p (FsDir es) m = walk_list f p es m"
| "walk_list f p [] m = m"
| "walk_list f p ((n, nd) # es) m = walk_list f p es (walk_entries f (p @ [n]) nd m)"

definition read_dir_error :: "path \<Rightarrow> string" where
  "read_dir_error root = err_prefix @ '' failed to read include directory '' @ quoted (path_display root)
     @ '' (check that path exists): Not a directory (os error 20)''"

definition index_msg_files ::
  "fs_node \<Rightarrow> path \<Rightarrow> (type_key, path) hmap \<Rightarrow> string + (type_key, path) hmap" where
  "index_msg_files fs root index =
     (case fs_at fs root of
        None \<Rightarrow> Inr index
      | Some (FsFile c) \<Rightarrow> Inl (read_dir_error root)
      | Some (FsDir es) \<Rightarrow> Inr (walk_list index_msg_entry root es index))"

definition index_srv_files ::
  "fs_node \<Rightarrow> path \<Rightarrow> (type_key, path) hmap \<Rightarrow> string + (type_key, path) hmap" where
  "index_srv_files fs root index =
     (case fs_at fs root of
        None \<Rightarrow> Inr index
      | Some (FsFile c) \<Rightarrow> Inl (read_dir_error root)
      | Some (FsDir es) \<Rightarrow> Inr (walk_list index_srv_entry root es index))"

fun index_roots ::
  "fs_node \<Rightarrow> path list \<Rightarrow> (type_key, path) hmap \<times> (type_key, path) hmap
    \<Rightarrow> string + (type_key, path) hmap \<times> (type_key, path) hmap" where
  "index_roots fs [] ix = Inr ix"
| "index_roots fs (root # roots) (index, srv_index) =
     (case index_msg_files fs root index of
        Inl e \<Rightarrow> Inl e
      | Inr index' \<Rightarrow>
          (case index_srv_files fs root srv_index of
             Inl e \<Rightarrow> Inl e
           | Inr srv_index' \<Rightarrow> index_roots fs roots (index', srv_index')))"

definition msg_resolver_new :: "fs_node \<Rightarrow> path list \<Rightarrow> string + msg_resolver" where
  "msg_resolver_new fs include_paths =
     (case index_roots fs include_paths ([], []) of
        Inl e \<Rightarrow> Inl e
      | Inr (index, srv_index) \<Rightarrow>
          Inr \<lparr>rs_fs = fs, rs_index = index, rs_cache = [], rs_srv_index = srv_index,
               rs_srv_cache = [], rs_include_paths = include_paths\<rparr>)"

text \<open>\<open>candidates\<close> in alias order, the first indexed one.\<close>

definition find_path :: "(type_key, path) hmap \<Rightarrow> string \<Rightarrow> string \<Rightarrow> path option" where
  "find_path index package name =
     (case List.map_filter (\<lambda>c. hm_get index (c, name)) (package_aliases package) of
        [] \<Rightarrow> None | p # _ \<Rightarrow> Some p)"

definition find_msg_path :: "msg_resolver \<Rightarrow> string \<Rightarrow> string \<Rightarrow> path option" where
  "find_msg_path r = find_path (rs_index r)"

definition find_srv_path :: "msg_resolver \<Rightarrow> string \<Rightarrow> string \<Rightarrow> path option" where
  "find_srv_path r = find_path (rs_srv_index r)"

section \<open>Resolution\<close>

definition context_parts :: "resolve_context \<Rightarrow> string list" where
  "context_parts ctx =
     (case rc_namespace ctx of None \<Rightarrow> [] | Some ns \<Rightarrow> [''namespace '' @ quoted ns])
     @ (case (rc_interface_kind ctx, rc_interface_name ctx) of
          (Some kind, Some name) \<Rightarrow> [kind @ '' '' @ quoted name] | _ \<Rightarrow> [])
     @ (case rc_field_name ctx of None \<Rightarrow> [] | Some f \<Rightarrow> [''field '' @ quoted f])"

definition format_resolve_error ::
  "string \<Rightarrow> (string \<times> resolve_context) option \<Rightarrow> path list \<Rightarrow> string" where
  "format_resolve_error full_type origin include_paths =
     err_prefix @ '' failed to resolve ROS message type '' @ quoted full_type
     @ (case origin of
          None \<Rightarrow> []
        | Some (_, ctx) \<Rightarrow>
            (if context_parts ctx = [] then []
             else [CHR 0x0A] @ ''  referenced from: '' @ join '', '' (context_parts ctx)))
     @ [CHR 0x0A] @ ''  searched include paths:''
     @ concat (map (\<lambda>p. [CHR 0x0A] @ ''    - '' @ path_display p) include_paths)
     @ [CHR 0x0A] @ ''  hint: ensure the .msg file exists (e.g. <include>/common_interfaces/std_msgs/msg/Float64.msg)''"

text \<open>Each nested file adds a type with a file to \<open>visiting\<close>, and there are finitely many of those.\<close>

definition found_keys :: "msg_resolver \<Rightarrow> type_key set" where
  "found_keys r = {(p, n). find_msg_path r p n \<noteq> None}"

lemma package_aliases_range: "c \<in> set (package_aliases p) \<Longrightarrow> p = c \<or> p = ''robonix_msgs''"
  by (auto simp: package_aliases_def split: if_splits)

lemma find_path_Some: "find_path ix p n = Some x \<Longrightarrow>
    \<exists>c \<in> set (package_aliases p). hm_get ix (c, n) = Some x"
  by (auto simp: find_path_def split: list.splits dest!: arg_cong [where f = set])
    (force simp: List.map_filter_def dest!: equalityD2)

lemma finite_found_keys: "finite (found_keys r)"
proof -
  let ?D = "fst ` set (rs_index r)"
  have "found_keys r \<subseteq> ?D \<union> (\<lambda>k. (''robonix_msgs'', snd k)) ` ?D"
  proof clarify
    fix p n assume "(p, n) \<in> found_keys r" and nd: "(p, n) \<notin> (\<lambda>k. (''robonix_msgs'', snd k)) ` ?D"
    then obtain c x where c: "c \<in> set (package_aliases p)" "hm_get (rs_index r) (c, n) = Some x"
      by (auto simp: found_keys_def find_msg_path_def dest: find_path_Some)
    then have "(c, n) \<in> ?D" by (force dest: hm_get_in_set)
    with nd package_aliases_range [OF c(1)] show "(p, n) \<in> ?D" by force
  qed
  then show ?thesis by (rule finite_subset) simp
qed

type_synonym msg_cache = "(type_key, msg_spec) hmap"

function (sequential)
  resolve_inner :: "msg_resolver \<Rightarrow> string \<Rightarrow> string \<Rightarrow> (string \<times> resolve_context) option \<Rightarrow> type_key set
    \<Rightarrow> msg_cache \<Rightarrow> (string + unit) \<times> msg_cache"
and resolve_fields :: "msg_resolver \<Rightarrow> msg_spec \<Rightarrow> msg_field list \<Rightarrow> type_key set
    \<Rightarrow> msg_cache \<Rightarrow> (string + unit) \<times> msg_cache" where
  "resolve_inner r package name origin visiting cache =
     (let key = (package, name) in
      if hm_get cache key \<noteq> None then (Inr (), cache)
      else if key \<in> visiting then (Inr (), cache)
      else (case find_msg_path r package name of
              None \<Rightarrow> (Inl (format_resolve_error (ros_msg_type_fmt package name) origin (rs_include_paths r)), cache)
            | Some p \<Rightarrow>
                (case parse_msg_file (rs_fs r) package name p of
                   Inl e \<Rightarrow> (Inl e, cache)
                 | Inr spec \<Rightarrow>
                     (case resolve_fields r spec (ms_fields spec) (insert key visiting) cache of
                        (Inl e, cache') \<Rightarrow> (Inl e, cache')
                      | (Inr _, cache') \<Rightarrow> (Inr (), hm_insert key spec cache')))))"
| "resolve_fields r spec [] visiting cache = (Inr (), cache)"
| "resolve_fields r spec (f # fs) visiting cache =
     (case mf_type_ref f of
        Primitive _ \<Rightarrow> resolve_fields r spec fs visiting cache
      | Named package name \<Rightarrow>
          (let dep_ctx = \<lparr>rc_namespace = Some (ms_package spec), rc_interface_kind = Some ''msg'',
                          rc_interface_name = Some (ms_name spec), rc_field_name = Some (mf_name f)\<rparr>
           in (case resolve_inner r package name (Some (ros_msg_type_fmt package name, dep_ctx)) visiting cache of
                 (Inl e, cache') \<Rightarrow> (Inl e, cache')
               | (Inr _, cache') \<Rightarrow> resolve_fields r spec fs visiting cache')))"
  by pat_completeness auto

termination
proof (relation "measures
    [\<lambda>x. case x of Inl (r, p, n, origin, v, c) \<Rightarrow> card (found_keys r - v)
       | Inr (r, s, fs, v, c) \<Rightarrow> card (found_keys r - v),
     \<lambda>x. case x of Inl _ \<Rightarrow> 0 | Inr (r, s, fs, v, c) \<Rightarrow> Suc (length fs)]", goal_cases)
  case 1
  then show ?case by simp
next
  case (2 r package name origin visiting cache key p spec)
  then have "(package, name) \<in> found_keys r - visiting"
    by (simp add: found_keys_def)
  then have "card (found_keys r - insert (package, name) visiting) < card (found_keys r - visiting)"
    by (intro psubset_card_mono) (auto simp: finite_found_keys)
  with 2 show ?case by simp
qed auto

declare resolve_inner.simps [simp del]

definition resolve_named_type ::
  "msg_resolver \<Rightarrow> string \<Rightarrow> string \<Rightarrow> (string \<times> resolve_context) option \<Rightarrow> (string + unit) \<times> msg_resolver" where
  "resolve_named_type r package name origin =
     (case resolve_inner r package name origin {} (rs_cache r) of
        (res, cache) \<Rightarrow> (res, r\<lparr>rs_cache := cache\<rparr>))"

definition resolve_ridl_type ::
  "msg_resolver \<Rightarrow> string \<Rightarrow> resolve_context \<Rightarrow> (string + unit) \<times> msg_resolver" where
  "resolve_ridl_type r type_ref ctx =
     (case parse_ridl_type_ref type_ref of
        None \<Rightarrow> (Inr (), r)
      | Some (package, name) \<Rightarrow> resolve_named_type r package name (Some (type_ref, ctx)))"

fun resolve_srv_fields ::
  "msg_resolver \<Rightarrow> srv_spec \<Rightarrow> msg_field list \<Rightarrow> (string + unit) \<times> msg_resolver" where
  "resolve_srv_fields r spec [] = (Inr (), r)"
| "resolve_srv_fields r spec (f # fs) =
     (case mf_type_ref f of
        Primitive _ \<Rightarrow> resolve_srv_fields r spec fs
      | Named pkg nm \<Rightarrow>
          (let dep_ctx = \<lparr>rc_namespace = Some (ss_package spec), rc_interface_kind = Some ''srv'',
                          rc_interface_name = Some (ss_name spec), rc_field_name = Some (mf_name f)\<rparr>
           in (case resolve_named_type r pkg nm (Some (ros_msg_type_fmt pkg nm, dep_ctx)) of
                 (Inl e, r') \<Rightarrow> (Inl e, r')
               | (Inr _, r') \<Rightarrow> resolve_srv_fields r' spec fs)))"

definition resolve_srv :: "msg_resolver \<Rightarrow> string \<Rightarrow> string \<Rightarrow> (string + unit) \<times> msg_resolver" where
  "resolve_srv r package name =
     (if hm_get (rs_srv_cache r) (package, name) \<noteq> None then (Inr (), r)
      else (case find_srv_path r package name of
              None \<Rightarrow> (Inl (err_prefix @ '' .srv file not found: '' @ package @ ''/srv/'' @ name), r)
            | Some p \<Rightarrow>
                (case parse_srv_file (rs_fs r) package name p of
                   Inl e \<Rightarrow> (Inl e, r)
                 | Inr spec \<Rightarrow>
                     (case resolve_srv_fields r spec (ms_fields (ss_request spec) @ ms_fields (ss_response spec)) of
                        (Inl e, r') \<Rightarrow> (Inl e, r')
                      | (Inr _, r') \<Rightarrow>
                          (Inr (), r'\<lparr>rs_srv_cache := hm_insert (package, name) spec (rs_srv_cache r')\<rparr>)))))"

text \<open>The two loops over an index, which swallow each error: a warning when verbose, counted when not.\<close>

fun resolve_all_keys ::
  "(msg_resolver \<Rightarrow> string \<Rightarrow> string \<Rightarrow> (string + unit) \<times> msg_resolver) \<Rightarrow> string \<Rightarrow> bool
    \<Rightarrow> type_key list \<Rightarrow> msg_resolver \<Rightarrow> nat \<Rightarrow> string list \<times> nat \<times> msg_resolver" where
  "resolve_all_keys f what verbose [] r skip_count = ([], skip_count, r)"
| "resolve_all_keys f what verbose ((package, name) # keys) r skip_count =
     (case f r package name of
        (Inr _, r') \<Rightarrow> resolve_all_keys f what verbose keys r' skip_count
      | (Inl e, r') \<Rightarrow>
          if verbose then
            (case resolve_all_keys f what verbose keys r' skip_count of
               (out, n, r'') \<Rightarrow>
                 ((err_prefix @ '' warning: skipping '' @ what @ package @ ''/'' @ name @ '': '' @ e) # out, n, r''))
          else resolve_all_keys f what verbose keys r' (skip_count + 1))"

definition resolve_all_in_index :: "bool \<Rightarrow> msg_resolver \<Rightarrow> nat \<Rightarrow> string list \<times> nat \<times> msg_resolver" where
  "resolve_all_in_index verbose r skip_count =
     resolve_all_keys (\<lambda>r p n. resolve_named_type r p n None) [] verbose (map fst (rs_index r)) r skip_count"

definition resolve_all_srv :: "bool \<Rightarrow> msg_resolver \<Rightarrow> nat \<Rightarrow> string list \<times> nat \<times> msg_resolver" where
  "resolve_all_srv verbose r skip_count =
     resolve_all_keys resolve_srv ''srv '' verbose (map fst (rs_srv_index r)) r skip_count"

definition ordered_specs :: "msg_resolver \<Rightarrow> msg_spec list" where
  "ordered_specs r = List.map_filter (hm_get (rs_cache r)) (sort (map fst (rs_cache r)))"

definition ordered_srvs :: "msg_resolver \<Rightarrow> srv_spec list" where
  "ordered_srvs r = List.map_filter (hm_get (rs_srv_cache r)) (sort (map fst (rs_srv_cache r)))"

definition srv_spec_of :: "msg_resolver \<Rightarrow> string \<Rightarrow> string \<Rightarrow> srv_spec option" where
  "srv_spec_of r package name = hm_get (rs_srv_cache r) (package, name)"

section \<open>What a resolution promises\<close>

text \<open>The specification: \<open>loadable\<close> is a type whose file is found and parses, \<open>refs\<close> the named types
  of a message, \<open>type_dep\<close> the reference relation between types.\<close>

definition load :: "msg_resolver \<Rightarrow> type_key \<Rightarrow> msg_spec option" where
  "load r k = (case find_msg_path r (fst k) (snd k) of
     None \<Rightarrow> None
   | Some p \<Rightarrow> (case parse_msg_file (rs_fs r) (fst k) (snd k) p of Inl e \<Rightarrow> None | Inr spec \<Rightarrow> Some spec))"

definition field_refs :: "msg_field list \<Rightarrow> type_key set" where
  "field_refs fs = {(p, n). \<exists>f \<in> set fs. mf_type_ref f = Named p n}"

definition type_dep :: "msg_resolver \<Rightarrow> type_key \<Rightarrow> type_key \<Rightarrow> bool" where
  "type_dep r k k' \<longleftrightarrow> (\<exists>spec. load r k = Some spec \<and> k' \<in> field_refs (ms_fields spec))"

definition cached :: "msg_cache \<Rightarrow> type_key set" where
  "cached c = {k. hm_get c k \<noteq> None}"

text \<open>Every cached message is the parse of its file, and its references are cached or in \<open>V\<close>.\<close>

definition cache_sound :: "msg_resolver \<Rightarrow> msg_cache \<Rightarrow> bool" where
  "cache_sound r c \<longleftrightarrow> (\<forall>k spec. hm_get c k = Some spec \<longrightarrow> load r k = Some spec)"

definition cache_closed :: "type_key set \<Rightarrow> msg_cache \<Rightarrow> bool" where
  "cache_closed V c \<longleftrightarrow> (\<forall>k spec. hm_get c k = Some spec \<longrightarrow> field_refs (ms_fields spec) \<subseteq> cached c \<union> V)"

lemma field_refs_simps [simp]:
  "field_refs [] = {}"
  "field_refs (f # fs) = (case mf_type_ref f of Primitive _ \<Rightarrow> {} | Named p n \<Rightarrow> {(p, n)}) \<union> field_refs fs"
  by (auto simp: field_refs_def split: msg_type_ref.splits)

lemma field_refs_append [simp]: "field_refs (fs @ gs) = field_refs fs \<union> field_refs gs"
  by (auto simp: field_refs_def)

text \<open>The four ways a call goes: satisfied already, no file or a bad one, a reference that fails, success.\<close>

lemma resolve_inner_cases:
  obtains (hit) "hm_get c (p, n) \<noteq> None \<or> (p, n) \<in> V" "resolve_inner r p n origin V c = (Inr (), c)"
  | (bad) e where "hm_get c (p, n) = None" "(p, n) \<notin> V" "load r (p, n) = None"
      "resolve_inner r p n origin V c = (Inl e, c)"
  | (fail) path spec e c' where "hm_get c (p, n) = None" "(p, n) \<notin> V" "load r (p, n) = Some spec"
      "find_msg_path r p n = Some path" "parse_msg_file (rs_fs r) p n path = Inr spec"
      "resolve_fields r spec (ms_fields spec) (insert (p, n) V) c = (Inl e, c')"
      "resolve_inner r p n origin V c = (Inl e, c')"
  | (ok) path spec c' where "hm_get c (p, n) = None" "(p, n) \<notin> V" "load r (p, n) = Some spec"
      "find_msg_path r p n = Some path" "parse_msg_file (rs_fs r) p n path = Inr spec"
      "resolve_fields r spec (ms_fields spec) (insert (p, n) V) c = (Inr (), c')"
      "resolve_inner r p n origin V c = (Inr (), hm_insert (p, n) spec c')"
proof -
  show ?thesis
  proof (cases "hm_get c (p, n) \<noteq> None \<or> (p, n) \<in> V")
    case True
    then show ?thesis by (intro hit) (auto simp: resolve_inner.simps Let_def)
  next
    case nohit: False
    show ?thesis
    proof (cases "load r (p, n)")
      case None
      with nohit show ?thesis
        by (intro bad [of "case find_msg_path r p n of
              None \<Rightarrow> format_resolve_error (ros_msg_type_fmt p n) origin (rs_include_paths r)
            | Some q \<Rightarrow> projl (parse_msg_file (rs_fs r) p n q)"])
          (auto simp: resolve_inner.simps [of r p n] Let_def load_def split: option.splits sum.splits)
    next
      case (Some spec)
      then obtain path where path: "find_msg_path r p n = Some path"
          "parse_msg_file (rs_fs r) p n path = Inr spec"
        by (auto simp: load_def split: option.splits sum.splits)
      obtain res c' where f: "resolve_fields r spec (ms_fields spec) (insert (p, n) V) c = (res, c')"
        by fastforce
      with nohit path have eq: "resolve_inner r p n origin V c =
          (case res of Inl e \<Rightarrow> (Inl e, c') | Inr _ \<Rightarrow> (Inr (), hm_insert (p, n) spec c'))"
        by (simp add: resolve_inner.simps [of r p n] Let_def split: sum.splits)
      show ?thesis
        using nohit Some path f eq fail ok by (cases res) auto
    qed
  qed
qed

lemma resolve_sound:
  "cache_sound r c \<Longrightarrow> cache_sound r (snd (resolve_inner r p n origin V c))
     \<and> cached c \<subseteq> cached (snd (resolve_inner r p n origin V c))"
  "cache_sound r c \<Longrightarrow> cache_sound r (snd (resolve_fields r spec fs V c))
     \<and> cached c \<subseteq> cached (snd (resolve_fields r spec fs V c))"
proof (induction r p n origin V c and r spec fs V c rule: resolve_inner_resolve_fields.induct)
  case (1 r package name origin visiting cache)
  show ?case
  proof (cases rule: resolve_inner_cases [of cache package name visiting r origin])
    case (fail path spec e c')
    with "1.IH" [OF refl, of path spec] "1.prems" show ?thesis by simp
  next
    case (ok path spec c')
    with "1.IH" [OF refl, of path spec] "1.prems" have "cache_sound r c'" "cached cache \<subseteq> cached c'"
      by simp_all
    with ok show ?thesis by (auto simp: cache_sound_def cached_def)
  qed (use "1.prems" in simp_all)
next
  case (2 r spec visiting cache)
  then show ?case by simp
next
  case (3 r spec f fs visiting cache)
  show ?case
  proof (cases "mf_type_ref f")
    case (Primitive s)
    with 3 show ?thesis by simp
  next
    case (Named p n)
    obtain res c1 where c1: "resolve_inner r p n (Some (ros_msg_type_fmt p n,
        \<lparr>rc_namespace = Some (ms_package spec), rc_interface_kind = Some ''msg'',
         rc_interface_name = Some (ms_name spec), rc_field_name = Some (mf_name f)\<rparr>)) visiting cache = (res, c1)"
      by fastforce
    with "3.IH"(2) [OF Named refl "3.prems"] have 1: "cache_sound r c1" "cached cache \<subseteq> cached c1"
      by simp_all
    show ?thesis
    proof (cases res)
      case (Inl e)
      with Named c1 1 show ?thesis by (simp add: Let_def)
    next
      case (Inr u)
      with "3.IH"(3) [OF Named refl c1 [symmetric]] 1 have
        "cache_sound r (snd (resolve_fields r spec fs visiting c1))"
        "cached c1 \<subseteq> cached (snd (resolve_fields r spec fs visiting c1))" by simp_all
      with Named c1 1 Inr show ?thesis by (simp add: Let_def)
    qed
  qed
qed

text \<open>A success leaves the requested type cached or in progress, and every new reference satisfied.\<close>

lemma cache_closed_insert:
  assumes "cache_closed (insert k V) c" and "field_refs (ms_fields spec) \<subseteq> cached c \<union> insert k V"
  shows "cache_closed V (hm_insert k spec c)"
proof -
  have "cached (hm_insert k spec c) = insert k (cached c)" by (auto simp: cached_def)
  with assms show ?thesis unfolding cache_closed_def by (auto split: if_splits)
qed

lemma resolve_closed:
  "cache_closed V c \<Longrightarrow> fst (resolve_inner r p n origin V c) = Inr () \<Longrightarrow>
     cache_closed V (snd (resolve_inner r p n origin V c))
     \<and> (p, n) \<in> cached (snd (resolve_inner r p n origin V c)) \<union> V
     \<and> cached c \<subseteq> cached (snd (resolve_inner r p n origin V c))"
  "cache_closed V c \<Longrightarrow> fst (resolve_fields r spec fs V c) = Inr () \<Longrightarrow>
     cache_closed V (snd (resolve_fields r spec fs V c))
     \<and> field_refs fs \<subseteq> cached (snd (resolve_fields r spec fs V c)) \<union> V
     \<and> cached c \<subseteq> cached (snd (resolve_fields r spec fs V c))"
proof (induction r p n origin V c and r spec fs V c rule: resolve_inner_resolve_fields.induct)
  case (1 r package name origin visiting cache)
  show ?case
  proof (cases rule: resolve_inner_cases [of cache package name visiting r origin])
    case hit
    with "1.prems" show ?thesis by (auto simp: cached_def)
  next
    case (ok path spec c')
    have "cache_closed (insert (package, name) visiting) cache"
      using "1.prems"(1) by (auto simp: cache_closed_def)
    with "1.IH" [OF refl, of path spec] ok
    have c': "cache_closed (insert (package, name) visiting) c'"
      "field_refs (ms_fields spec) \<subseteq> cached c' \<union> insert (package, name) visiting"
      "cached cache \<subseteq> cached c'" by simp_all
    then have "cached cache \<subseteq> cached (hm_insert (package, name) spec c')" by (auto simp: cached_def)
    with cache_closed_insert [OF c'(1,2)] ok show ?thesis by (simp add: cached_def)
  qed (use "1.prems" in simp_all)
next
  case (2 r spec visiting cache)
  then show ?case by simp
next
  case (3 r spec f fs visiting cache)
  show ?case
  proof (cases "mf_type_ref f")
    case (Primitive s)
    with 3 show ?thesis by simp
  next
    case (Named p n)
    with "3.prems" obtain c1 where c1: "resolve_inner r p n (Some (ros_msg_type_fmt p n,
        \<lparr>rc_namespace = Some (ms_package spec), rc_interface_kind = Some ''msg'',
         rc_interface_name = Some (ms_name spec), rc_field_name = Some (mf_name f)\<rparr>)) visiting cache = (Inr (), c1)"
      by (auto simp: Let_def split: sum.splits prod.splits)
    with "3.IH"(2) [OF Named refl] "3.prems"(1)
    have 1: "cache_closed visiting c1" "(p, n) \<in> cached c1 \<union> visiting" "cached cache \<subseteq> cached c1" by auto
    have "resolve_fields r spec (f # fs) visiting cache = resolve_fields r spec fs visiting c1"
      using Named c1 by (simp add: Let_def)
    with "3.IH"(3) [OF Named refl c1 [symmetric] refl] 1 "3.prems"(2) Named show ?thesis by auto
  qed
qed

text \<open>When everything reachable is loadable, a resolution cannot fail.\<close>

lemma resolve_succeeds:
  "(\<forall>k'. (type_dep r)\<^sup>*\<^sup>* (p, n) k' \<longrightarrow> load r k' \<noteq> None) \<Longrightarrow> fst (resolve_inner r p n origin V c) = Inr ()"
  "(\<forall>k \<in> field_refs fs. \<forall>k'. (type_dep r)\<^sup>*\<^sup>* k k' \<longrightarrow> load r k' \<noteq> None)
     \<Longrightarrow> fst (resolve_fields r spec fs V c) = Inr ()"
proof (induction r p n origin V c and r spec fs V c rule: resolve_inner_resolve_fields.induct)
  case (1 r package name origin visiting cache)
  have here: "load r (package, name) \<noteq> None" using "1.prems" by blast
  have deps: "\<forall>k \<in> field_refs (ms_fields spec). \<forall>k'. (type_dep r)\<^sup>*\<^sup>* k k' \<longrightarrow> load r k' \<noteq> None"
    if "load r (package, name) = Some spec" for spec
    using that "1.prems" by (metis converse_rtranclp_into_rtranclp type_dep_def)
  show ?case
  proof (cases rule: resolve_inner_cases [of cache package name visiting r origin])
    case (fail path spec e c')
    with "1.IH" [OF refl, of path spec] deps show ?thesis by simp
  qed (use here in simp_all)
next
  case (2 r spec visiting cache)
  then show ?case by simp
next
  case (3 r spec f fs visiting cache)
  show ?case
  proof (cases "mf_type_ref f")
    case (Primitive s)
    with 3 show ?thesis by simp
  next
    case (Named p n)
    obtain res c1 where c1: "resolve_inner r p n (Some (ros_msg_type_fmt p n,
        \<lparr>rc_namespace = Some (ms_package spec), rc_interface_kind = Some ''msg'',
         rc_interface_name = Some (ms_name spec), rc_field_name = Some (mf_name f)\<rparr>)) visiting cache = (res, c1)"
      by fastforce
    with "3.IH"(2) [OF Named refl] "3.prems" Named have "res = Inr ()" by simp
    with "3.IH"(3) [OF Named refl c1 [symmetric]] c1 "3.prems" Named show ?thesis by (simp add: Let_def)
  qed
qed

lemma closed_reaches:
  assumes "cache_sound r c" and "cache_closed {} c" and "k \<in> cached c" and "(type_dep r)\<^sup>*\<^sup>* k k'"
  shows "k' \<in> cached c"
  using assms(4,3)
proof (induction rule: rtranclp_induct)
  case base
  then show ?case .
next
  case (step y z)
  then obtain spec where spec: "hm_get c y = Some spec" by (auto simp: cached_def)
  with assms(1) have "load r y = Some spec" unfolding cache_sound_def by blast
  with step have "z \<in> field_refs (ms_fields spec)" by (simp add: type_dep_def)
  with assms(2) spec show ?case unfolding cache_closed_def by blast
qed

text \<open>From a cache that is sound and closed, the empty one in particular, a resolution succeeds exactly when every type
  reachable through fields, over any number of cyclic references, has a file in the index that reads and parses.\<close>

lemma resolve_from_closed_cache:
  assumes "cache_sound r (rs_cache r)" and "cache_closed {} (rs_cache r)"
  shows "fst (resolve_named_type r p n origin) = Inr ()
    \<longleftrightarrow> (\<forall>k. (type_dep r)\<^sup>*\<^sup>* (p, n) k \<longrightarrow> load r k \<noteq> None)"
proof -
  let ?run = "resolve_inner r p n origin {} (rs_cache r)"
  have eq: "fst (resolve_named_type r p n origin) = fst ?run"
    by (simp add: resolve_named_type_def split: prod.split)
  show ?thesis
  proof
    assume "fst (resolve_named_type r p n origin) = Inr ()"
    with eq resolve_closed(1) [OF assms(2)] have cl: "cache_closed {} (snd ?run)" "(p, n) \<in> cached (snd ?run)"
      by auto
    have so: "cache_sound r (snd ?run)" using resolve_sound(1) [OF assms(1)] by blast
    show "\<forall>k. (type_dep r)\<^sup>*\<^sup>* (p, n) k \<longrightarrow> load r k \<noteq> None"
      using closed_reaches [OF so cl] so by (fastforce simp: cached_def cache_sound_def)
  next
    assume "\<forall>k. (type_dep r)\<^sup>*\<^sup>* (p, n) k \<longrightarrow> load r k \<noteq> None"
    with eq resolve_succeeds(1) show "fst (resolve_named_type r p n origin) = Inr ()" by simp
  qed
qed

text \<open>A successful resolution caches the requested type, keeps every entry's being the
  parse of its own file, and leaves no dangling reference: each named field of a cached message is
  cached too.\<close>

lemma resolve_named_type_closes:
  assumes "cache_sound r (rs_cache r)" and "cache_closed {} (rs_cache r)"
    and "resolve_named_type r p n origin = (Inr (), r')"
  shows "(p, n) \<in> cached (rs_cache r') \<and> cache_sound r (rs_cache r') \<and> cache_closed {} (rs_cache r')"
proof -
  have run: "resolve_inner r p n origin {} (rs_cache r) = (Inr (), rs_cache r')"
    using assms(3) by (auto simp: resolve_named_type_def split: prod.splits)
  from resolve_closed(1) [OF assms(2), of r p n origin] resolve_sound(1) [OF assms(1), of p n origin "{}"] run
  show ?thesis by simp
qed

text \<open>A concrete tree: \<open>p/A\<close> and \<open>p/B\<close> refer to each other, \<open>p/C\<close> to \<open>p/A\<close> and to a type without a file.\<close>

definition demo_fs :: fs_node where
  "demo_fs = FsDir [(''idl'', FsDir [(''p'', FsDir [(''msg'', FsDir
     [(''A.msg'', FsFile (''B b'' @ [CHR 0x0A] @ ''int32 n'')),
      (''B.msg'', FsFile ''p/A[] peers # back''),
      (''C.msg'', FsFile (''D d'' @ [CHR 0x0A] @ ''q/Missing m'')),
      (''D.msg'', FsFile ''C c'')])])])]"

definition demo_resolver :: msg_resolver where
  "demo_resolver = (case msg_resolver_new demo_fs [[''idl'']] of Inr r \<Rightarrow> r)"

lemma demo_resolver_eq: "msg_resolver_new demo_fs [[''idl'']] = Inr demo_resolver"
  by code_simp

lemma demo_cache [simp]: "rs_cache demo_resolver = []"
  by code_simp

lemma demo_empty: "cache_sound demo_resolver (rs_cache demo_resolver)" "cache_closed {} (rs_cache demo_resolver)"
  by (simp_all add: cache_sound_def cache_closed_def)

lemma demo_A: "resolve_named_type demo_resolver ''p'' ''A'' None = (Inr (), snd (resolve_named_type demo_resolver ''p'' ''A'' None))"
  by code_simp

lemma field_refs_code:
  "field_refs fs = set (List.map_filter (\<lambda>f. case mf_type_ref f of Named p n \<Rightarrow> Some (p, n) | _ \<Rightarrow> None) fs)"
  by (induction fs) (auto simp: map_filter_simps split: msg_type_ref.splits)

lemma type_dep_code:
  "type_dep r k k' \<longleftrightarrow> (case load r k of None \<Rightarrow> False | Some spec \<Rightarrow> k' \<in> field_refs (ms_fields spec))"
  by (auto simp: type_dep_def split: option.splits)

theorem resolve_named_type_closes_witness:
  "cache_closed {} (rs_cache (snd (resolve_named_type demo_resolver ''p'' ''A'' None)))"
  using resolve_named_type_closes [OF demo_empty demo_A] by blast

text \<open>What a failure leaves behind when the failed type is part of a cycle: \<open>p/C\<close> fails,
  because it refers to a type without a file, but \<open>p/D\<close>, which refers back to \<open>p/C\<close>, stays in the
  cache, and a later resolution of \<open>p/D\<close> reports success although its field's type \<open>p/C\<close> is not
  resolved and cannot be.\<close>

lemma resolve_failure_leaves_dangling:
  "let r = snd (resolve_named_type demo_resolver ''p'' ''C'' None) in
     fst (resolve_named_type demo_resolver ''p'' ''C'' None) \<noteq> Inr ()
     \<and> fst (resolve_named_type r ''p'' ''D'' None) = Inr ()
     \<and> fst (resolve_named_type demo_resolver ''p'' ''D'' None) \<noteq> Inr ()
     \<and> type_dep r (''p'', ''D'') (''p'', ''C'')
     \<and> hm_get (rs_cache (snd (resolve_named_type r ''p'' ''D'' None))) (''p'', ''C'') = None"
  unfolding Let_def type_dep_code field_refs_code by code_simp

section \<open>What the index holds\<close>

text \<open>The files under a directory in the order they are read; the first of a key is the one indexed.\<close>

fun files_under :: "path \<Rightarrow> fs_node \<Rightarrow> path list"
and files_in :: "path \<Rightarrow> (string \<times> fs_node) list \<Rightarrow> path list" where
  "files_under p (FsFile c) = [p]"
| "files_under p (FsDir es) = files_in p es"
| "files_in p [] = []"
| "files_in p ((n, nd) # es) = files_under (p @ [n]) nd @ files_in p es"

lemma walk_fold:
  "walk_entries f p nd m = fold f (files_under p nd) m"
  "walk_list f p es m = fold f (files_in p es) m"
  by (induction f p nd m and f p es m rule: walk_entries_walk_list.induct) auto

definition msg_key :: "path \<Rightarrow> type_key option" where
  "msg_key p = (if name_extension (last p) = Some ''msg''
     then map_option (\<lambda>package. (package, name_stem (last p))) (infer_package_name p) else None)"

lemma get_or_insert: "hm_get (or_insert k v m) k' = (if k' = k \<and> hm_get m k = None then Some v else hm_get m k')"
  by (auto simp: or_insert_def)

lemma get_index_entry:
  "hm_get (index_msg_entry p ix) k = (if hm_get ix k = None \<and> msg_key p = Some k then Some p else hm_get ix k)"
  by (auto simp: index_msg_entry_def msg_key_def get_or_insert split: option.splits)

lemma get_index_fold:
  "hm_get (fold index_msg_entry ps ix) k =
    (case hm_get ix k of Some p \<Rightarrow> Some p | None \<Rightarrow> find (\<lambda>p. msg_key p = Some k) ps)"
  by (induction ps arbitrary: ix) (auto simp: get_index_entry split: option.splits)

text \<open>\<open>index_msg_files\<close>: a type already indexed by an earlier include path keeps its
  file; otherwise it is found at the first \<open>.msg\<close> file under the root, in the order the directories
  list them, whose name and package directory spell it; nothing else is indexed.\<close>

lemma index_msg_files_lookup:
  "index_msg_files fs root ix = Inr ix' \<Longrightarrow> hm_get ix' k =
     (case hm_get ix k of
        Some p \<Rightarrow> Some p
      | None \<Rightarrow> (case fs_at fs root of
                  Some (FsDir es) \<Rightarrow> find (\<lambda>p. msg_key p = Some k) (files_in root es)
                | _ \<Rightarrow> None))"
  by (auto simp: index_msg_files_def walk_fold get_index_fold split: option.splits fs_node.splits)

theorem index_msg_files_lookup_witness:
  "hm_get (rs_index demo_resolver) (''p'', ''B'') = Some [''idl'', ''p'', ''msg'', ''B.msg'']"
proof -
  have "index_msg_files demo_fs [''idl''] [] = Inr (rs_index demo_resolver)" by code_simp
  from index_msg_files_lookup [OF this, of "(''p'', ''B'')"] show ?thesis
    unfolding hm_get_Nil option.case by (rule trans) code_simp
qed

section \<open>The resolver as a state machine\<close>

text \<open>Every operation, whatever its result, keeps the cache sound.\<close>

datatype resolver_op =
    Op_Named string string "(string \<times> resolve_context) option"
  | Op_Ridl string resolve_context
  | Op_Srv string string
  | Op_All bool
  | Op_All_Srv bool

fun resolver_step :: "resolver_op \<Rightarrow> msg_resolver \<Rightarrow> msg_resolver" where
  "resolver_step (Op_Named p n origin) r = snd (resolve_named_type r p n origin)"
| "resolver_step (Op_Ridl t ctx) r = snd (resolve_ridl_type r t ctx)"
| "resolver_step (Op_Srv p n) r = snd (resolve_srv r p n)"
| "resolver_step (Op_All v) r = snd (snd (resolve_all_in_index v r 0))"
| "resolver_step (Op_All_Srv v) r = snd (snd (resolve_all_srv v r 0))"

definition resolver_sound :: "msg_resolver \<Rightarrow> bool" where
  "resolver_sound r \<longleftrightarrow> cache_sound r (rs_cache r)
     \<and> (\<forall>k spec. hm_get (rs_srv_cache r) k = Some spec \<longrightarrow>
          (\<exists>p. find_srv_path r (fst k) (snd k) = Some p \<and> parse_srv_file (rs_fs r) (fst k) (snd k) p = Inr spec))"

text \<open>The files and the index never change, so \<open>load\<close> does not.\<close>

definition same_files :: "msg_resolver \<Rightarrow> msg_resolver \<Rightarrow> bool" where
  "same_files r r' \<longleftrightarrow> rs_fs r' = rs_fs r \<and> rs_index r' = rs_index r \<and> rs_srv_index r' = rs_srv_index r
     \<and> rs_srv_cache r' = rs_srv_cache r"

lemma same_files_load:
  assumes "same_files r r'"
  shows "load r' = load r \<and> find_srv_path r' = find_srv_path r \<and> rs_fs r' = rs_fs r
    \<and> rs_srv_cache r' = rs_srv_cache r"
proof -
  have e: "rs_fs r' = rs_fs r" "rs_index r' = rs_index r" "rs_srv_index r' = rs_srv_index r"
      "rs_srv_cache r' = rs_srv_cache r"
    using assms by (simp_all add: same_files_def)
  show ?thesis
    unfolding load_def [abs_def] find_msg_path_def find_srv_path_def e by simp
qed

lemma resolve_named_same: "same_files r (snd (resolve_named_type r p n origin))"
  by (simp add: resolve_named_type_def same_files_def split: prod.split)

lemma sound_same:
  assumes "resolver_sound r" and "same_files r r'" and "cache_sound r (rs_cache r')"
  shows "resolver_sound r'"
proof -
  have e: "load r' = load r" "find_srv_path r' = find_srv_path r" "rs_fs r' = rs_fs r"
      "rs_srv_cache r' = rs_srv_cache r"
    using same_files_load [OF assms(2)] by simp_all
  show ?thesis
    using assms(1,3) unfolding resolver_sound_def cache_sound_def e by blast
qed

lemma resolve_named_sound: "resolver_sound r \<Longrightarrow> resolver_sound (snd (resolve_named_type r p n origin))"
proof (rule sound_same [OF _ resolve_named_same])
  assume "resolver_sound r"
  then have "cache_sound r (rs_cache r)" by (simp add: resolver_sound_def)
  from resolve_sound(1) [OF this, of p n origin "{}"]
  show "cache_sound r (rs_cache (snd (resolve_named_type r p n origin)))"
    by (simp add: resolve_named_type_def case_prod_beta)
qed

lemma resolve_srv_fields_sound:
  "resolver_sound r \<Longrightarrow> resolver_sound (snd (resolve_srv_fields r spec fs))
     \<and> same_files r (snd (resolve_srv_fields r spec fs))"
proof (induction r spec fs rule: resolve_srv_fields.induct)
  case (1 r spec)
  then show ?case by (simp add: same_files_def)
next
  case (2 r spec f fs)
  show ?case
  proof (cases "mf_type_ref f")
    case (Primitive s)
    with 2 show ?thesis by simp
  next
    case (Named p n)
    obtain res r1 where r1: "resolve_named_type r p n (Some (ros_msg_type_fmt p n,
        \<lparr>rc_namespace = Some (ss_package spec), rc_interface_kind = Some ''srv'',
         rc_interface_name = Some (ss_name spec), rc_field_name = Some (mf_name f)\<rparr>)) = (res, r1)"
      by fastforce
    then have 1: "resolver_sound r1" "same_files r r1"
      using resolve_named_sound [OF "2.prems"] resolve_named_same by (metis snd_conv)+
    show ?thesis
    proof (cases res)
      case (Inl e)
      with r1 1 Named show ?thesis by (simp add: Let_def)
    next
      case (Inr u)
      with "2.IH"(2) [OF Named refl r1 [symmetric]] 1 r1 Named show ?thesis
        by (simp add: Let_def same_files_def)
    qed
  qed
qed

lemma srv_cache_sound:
  assumes "resolver_sound r" and "find_srv_path r p n = Some q" and "parse_srv_file (rs_fs r) p n q = Inr spec"
  shows "resolver_sound (r\<lparr>rs_srv_cache := hm_insert (p, n) spec (rs_srv_cache r)\<rparr>)"
proof -
  let ?r = "r\<lparr>rs_srv_cache := hm_insert (p, n) spec (rs_srv_cache r)\<rparr>"
  have e: "load ?r = load r" "find_srv_path ?r = find_srv_path r"
    by (simp_all add: load_def [abs_def] find_msg_path_def find_srv_path_def cong: option.case_cong)
  show ?thesis
    using assms unfolding resolver_sound_def cache_sound_def e
    by (auto split: if_splits)
qed

lemma resolve_srv_sound: "resolver_sound r \<Longrightarrow> resolver_sound (snd (resolve_srv r p n))"
proof -
  assume ok: "resolver_sound r"
  show ?thesis
  proof (cases "hm_get (rs_srv_cache r) (p, n) \<noteq> None \<or> find_srv_path r p n = None
      \<or> (\<exists>e. parse_srv_file (rs_fs r) p n (the (find_srv_path r p n)) = Inl e)")
    case True
    with ok show ?thesis by (auto simp: resolve_srv_def split: option.splits)
  next
    case False
    then obtain q spec where q: "find_srv_path r p n = Some q" "parse_srv_file (rs_fs r) p n q = Inr spec"
      "hm_get (rs_srv_cache r) (p, n) = None"
      by (cases "parse_srv_file (rs_fs r) p n (the (find_srv_path r p n))") auto
    obtain res r' where r': "resolve_srv_fields r spec (ms_fields (ss_request spec) @ ms_fields (ss_response spec)) = (res, r')"
      by fastforce
    with resolve_srv_fields_sound [OF ok, of spec] have 1: "resolver_sound r'" "same_files r r'"
      by (metis snd_conv)+
    then have "find_srv_path r' p n = Some q" "parse_srv_file (rs_fs r') p n q = Inr spec"
      using q same_files_load by simp_all
    with 1(1) have "resolver_sound (r'\<lparr>rs_srv_cache := hm_insert (p, n) spec (rs_srv_cache r')\<rparr>)"
      by (intro srv_cache_sound) auto
    with 1 q r' show ?thesis by (cases res) (simp_all add: resolve_srv_def)
  qed
qed

lemma resolve_all_keys_sound:
  assumes "\<And>r p n. resolver_sound r \<Longrightarrow> resolver_sound (snd (f r p n))"
  shows "resolver_sound r \<Longrightarrow> resolver_sound (snd (snd (resolve_all_keys f what v keys r k)))"
proof (induction keys arbitrary: r k)
  case (Cons key keys)
  obtain p n res r' where k: "key = (p, n)" "f r p n = (res, r')" by (metis prod.exhaust)
  with assms [OF Cons.prems] have "resolver_sound r'" by (metis snd_conv)
  from Cons.IH [OF this] k show ?case by (cases res) (auto simp: case_prod_beta)
qed simp

interpretation resolver: inv_system
  "\<lambda>r. rs_cache r = [] \<and> rs_srv_cache r = []" resolver_step resolver_sound
proof unfold_locales
  fix r :: msg_resolver and l
  show "rs_cache r = [] \<and> rs_srv_cache r = [] \<Longrightarrow> resolver_sound r"
    by (simp add: resolver_sound_def cache_sound_def)
  assume "resolver_sound r"
  then show "resolver_sound (resolver_step l r)"
    by (cases l)
      (auto simp: resolve_ridl_type_def resolve_all_in_index_def resolve_all_srv_def
        intro!: resolve_named_sound resolve_srv_sound resolve_all_keys_sound split: option.split)
qed

text \<open>Whatever sequence of resolutions runs on a new resolver, failing ones included,
  each message in the cache is the parse of the file the index holds for it, and each service too.\<close>

lemma resolver_cache_sound:
  "msg_resolver_new fs roots = Inr r \<Longrightarrow> resolver_sound (fold resolver_step ops r)"
  by (rule resolver.inv_reachable) (auto simp: msg_resolver_new_def split: sum.splits prod.splits)

theorem resolver_cache_sound_witness:
  "resolver_sound (fold resolver_step [Op_Named ''p'' ''C'' None, Op_All False] demo_resolver)"
  using resolver_cache_sound [OF demo_resolver_eq] .

section \<open>What a resolution says\<close>

text \<open>Whether an operation reported a failure: as its result, as a warning, or in the count of the types skipped.\<close>

fun reports_failure :: "resolver_op \<Rightarrow> msg_resolver \<Rightarrow> bool" where
  "reports_failure (Op_Named p n origin) r \<longleftrightarrow> isl (fst (resolve_named_type r p n origin))"
| "reports_failure (Op_Ridl type_ref ctx) r \<longleftrightarrow> isl (fst (resolve_ridl_type r type_ref ctx))"
| "reports_failure (Op_Srv p n) r \<longleftrightarrow> isl (fst (resolve_srv r p n))"
| "reports_failure (Op_All v) r \<longleftrightarrow> (case resolve_all_in_index v r 0 of (out, k, _) \<Rightarrow> out \<noteq> [] \<or> k \<noteq> 0)"
| "reports_failure (Op_All_Srv v) r \<longleftrightarrow> (case resolve_all_srv v r 0 of (out, k, _) \<Rightarrow> out \<noteq> [] \<or> k \<noteq> 0)"

fun all_succeed :: "resolver_op list \<Rightarrow> msg_resolver \<Rightarrow> bool" where
  "all_succeed [] r \<longleftrightarrow> True"
| "all_succeed (op # ops) r \<longleftrightarrow> \<not> reports_failure op r \<and> all_succeed ops (resolver_step op r)"

lemma closed_named:
  "cache_closed {} (rs_cache r) \<Longrightarrow> resolve_named_type r p n origin = (Inr (), r') \<Longrightarrow> cache_closed {} (rs_cache r')"
  using resolve_closed(1) [of "{}" "rs_cache r" r p n origin]
  by (auto simp: resolve_named_type_def split: prod.splits)

lemma closed_srv_fields:
  "cache_closed {} (rs_cache r) \<Longrightarrow> resolve_srv_fields r spec fs = (Inr (), r') \<Longrightarrow> cache_closed {} (rs_cache r')"
proof (induction r spec fs rule: resolve_srv_fields.induct)
  case (2 r spec f fs)
  then show ?case
    by (cases "mf_type_ref f") (auto simp: Let_def split: prod.splits sum.splits dest: closed_named)
qed simp

lemma closed_srv:
  "cache_closed {} (rs_cache r) \<Longrightarrow> resolve_srv r p n = (Inr (), r') \<Longrightarrow> cache_closed {} (rs_cache r')"
  by (auto simp: resolve_srv_def split: if_splits option.splits sum.splits prod.splits dest: closed_srv_fields)

lemma skip_count_grows: "resolve_all_keys f what v keys r k = (out, k', r') \<Longrightarrow> k \<le> k'"
  by (induction keys arbitrary: r k out)
    (auto split: prod.splits sum.splits if_splits, fastforce)

lemma closed_all:
  assumes "\<And>r p n r'. cache_closed {} (rs_cache r) \<Longrightarrow> f r p n = (Inr (), r') \<Longrightarrow> cache_closed {} (rs_cache r')"
  shows "cache_closed {} (rs_cache r) \<Longrightarrow> resolve_all_keys f what v keys r k = ([], k, r') \<Longrightarrow> cache_closed {} (rs_cache r')"
proof (induction keys arbitrary: r)
  case (Cons key keys)
  obtain p n where key: "key = (p, n)" by fastforce
  obtain res r1 where f: "f r p n = (res, r1)" by fastforce
  show ?case
  proof (cases res)
    case (Inl e)
    with Cons.prems(2) skip_count_grows [of f what False keys r1 "k + 1" "[]" k r'] show ?thesis
      by (simp add: key f split: if_splits prod.splits)
  next
    case (Inr u)
    with assms [OF Cons.prems(1)] f have "cache_closed {} (rs_cache r1)" by simp
    with Cons.IH [of r1] Cons.prems(2) Inr show ?thesis by (simp add: key f)
  qed
qed simp

lemma closed_step: "cache_closed {} (rs_cache r) \<Longrightarrow> \<not> reports_failure op r \<Longrightarrow> cache_closed {} (rs_cache (resolver_step op r))"
proof (cases op)
  case (Op_Named p n origin)
  assume "cache_closed {} (rs_cache r)" "\<not> reports_failure op r"
  with Op_Named closed_named [of r p n origin] show ?thesis
    by (cases "resolve_named_type r p n origin"; cases "fst (resolve_named_type r p n origin)") auto
next
  case (Op_Ridl type_ref ctx)
  assume c: "cache_closed {} (rs_cache r)" "\<not> reports_failure op r"
  show ?thesis
  proof (cases "parse_ridl_type_ref type_ref")
    case (Some x)
    obtain p n where "x = (p, n)" by fastforce
    with Op_Ridl Some c closed_named [of r p n "Some (type_ref, ctx)"] show ?thesis
      by (cases "resolve_named_type r p n (Some (type_ref, ctx))";
          cases "fst (resolve_named_type r p n (Some (type_ref, ctx)))") (auto simp: resolve_ridl_type_def)
  qed (use Op_Ridl c in \<open>simp add: resolve_ridl_type_def\<close>)
next
  case (Op_Srv p n)
  assume "cache_closed {} (rs_cache r)" "\<not> reports_failure op r"
  with Op_Srv closed_srv [of r p n] show ?thesis
    by (cases "resolve_srv r p n"; cases "fst (resolve_srv r p n)") auto
next
  case (Op_All v)
  assume c: "cache_closed {} (rs_cache r)" "\<not> reports_failure op r"
  obtain out k r' where run: "resolve_all_in_index v r 0 = (out, k, r')" by (metis prod.exhaust)
  with c(2) Op_All have "resolve_all_keys (\<lambda>r p n. resolve_named_type r p n None) [] v (map fst (rs_index r)) r 0 = ([], 0, r')"
    by (simp add: resolve_all_in_index_def)
  from closed_all [OF _ c(1) this] closed_named have "cache_closed {} (rs_cache r')" by blast
  with run Op_All show ?thesis by simp
next
  case (Op_All_Srv v)
  assume c: "cache_closed {} (rs_cache r)" "\<not> reports_failure op r"
  obtain out k r' where run: "resolve_all_srv v r 0 = (out, k, r')" by (metis prod.exhaust)
  with c(2) Op_All_Srv have "resolve_all_keys resolve_srv ''srv '' v (map fst (rs_srv_index r)) r 0 = ([], 0, r')"
    by (simp add: resolve_all_srv_def)
  from closed_all [OF _ c(1) this] closed_srv have "cache_closed {} (rs_cache r')" by blast
  with run Op_All_Srv show ?thesis by simp
qed

lemma closed_run: "cache_closed {} (rs_cache r) \<Longrightarrow> all_succeed ops r \<Longrightarrow> cache_closed {} (rs_cache (fold resolver_step ops r))"
  by (induction ops arbitrary: r) (auto intro: closed_step)

text \<open>C6 (equivalence). \<open>MsgResolver::resolve_named_type\<close> on a resolver that was used before, for messages, services or whole
  indexes: it succeeds whenever every message type reachable from the requested one through fields, over any number of
  cyclic references, has a file in the index that reads and parses; and as long as no earlier use reported a failure,
  it succeeds only then.\<close>

theorem resolve_named_type_iff:
  assumes "msg_resolver_new fs roots = Inr r0" and "r = fold resolver_step ops r0"
  shows "((\<forall>k. (type_dep r)\<^sup>*\<^sup>* (p, n) k \<longrightarrow> load r k \<noteq> None) \<longrightarrow> fst (resolve_named_type r p n origin) = Inr ())
    \<and> (all_succeed ops r0 \<longrightarrow>
        (fst (resolve_named_type r p n origin) = Inr () \<longleftrightarrow> (\<forall>k. (type_dep r)\<^sup>*\<^sup>* (p, n) k \<longrightarrow> load r k \<noteq> None)))"
proof
  have empty: "rs_cache r0 = []" using assms(1) by (auto simp: msg_resolver_new_def split: sum.splits prod.splits)
  show "(\<forall>k. (type_dep r)\<^sup>*\<^sup>* (p, n) k \<longrightarrow> load r k \<noteq> None) \<longrightarrow> fst (resolve_named_type r p n origin) = Inr ()"
    using resolve_succeeds(1) [where r = r and p = p and n = n and origin = origin and V = "{}" and c = "rs_cache r"]
    by (simp add: resolve_named_type_def case_prod_beta)
  show "all_succeed ops r0 \<longrightarrow>
      (fst (resolve_named_type r p n origin) = Inr () \<longleftrightarrow> (\<forall>k. (type_dep r)\<^sup>*\<^sup>* (p, n) k \<longrightarrow> load r k \<noteq> None))"
  proof
    assume "all_succeed ops r0"
    moreover have "cache_closed {} (rs_cache r0)" by (simp add: empty cache_closed_def)
    ultimately have "cache_closed {} (rs_cache r)" unfolding assms(2) by (intro closed_run)
    moreover have "cache_sound r (rs_cache r)"
      using resolver_cache_sound [OF assms(1), of ops] assms(2) by (simp add: resolver_sound_def)
    ultimately show "fst (resolve_named_type r p n origin) = Inr ()
        \<longleftrightarrow> (\<forall>k. (type_dep r)\<^sup>*\<^sup>* (p, n) k \<longrightarrow> load r k \<noteq> None)"
      by (rule resolve_from_closed_cache [rotated])
  qed
qed

text \<open>After \<open>p/A\<close> has been resolved, \<open>p/C\<close> is refused; so something it needs does not load.\<close>

theorem resolve_named_type_iff_witness:
  "let r = resolver_step (Op_Named ''p'' ''A'' None) demo_resolver in
     \<exists>k. (type_dep r)\<^sup>*\<^sup>* (''p'', ''C'') k \<and> load r k = None"
proof -
  have "all_succeed [Op_Named ''p'' ''A'' None] demo_resolver"
    and "fst (resolve_named_type (resolver_step (Op_Named ''p'' ''A'' None) demo_resolver) ''p'' ''C'' None) \<noteq> Inr ()"
    by code_simp+
  with resolve_named_type_iff [OF demo_resolver_eq refl, of "[Op_Named ''p'' ''A'' None]" "''p''" "''C''" None]
  have "\<not> (\<forall>k. (type_dep (resolver_step (Op_Named ''p'' ''A'' None) demo_resolver))\<^sup>*\<^sup>* (''p'', ''C'') k
      \<longrightarrow> load (resolver_step (Op_Named ''p'' ''A'' None) demo_resolver) k \<noteq> None)" by simp
  then show ?thesis unfolding Let_def by metis
qed

end
