(* ===== verification/Contract_Registry.thy ===== *)
theory Contract_Registry
  imports Msg_Resolver Atlas_Pb
begin

text \<open>
  \<open>system/atlas/src/contract_registry.rs\<close>: the contracts loaded from the capability roots, keyed by id,
  their message and service types, and the field schemas attached from the IDL files. The TOML
  deserialiser is the parameter \<open>from_toml\<close>: the parsed document or its error. Log lines are left out.
\<close>

section \<open>Parsed files\<close>

record raw_contract =
  raw_id :: string
  raw_version :: "string option"
  raw_kind :: "string option"
  raw_idl :: "string option"
  raw_description :: "string option"
  raw_cross_namespace :: bool
  raw_llm_callable :: bool
  raw_mode :: "string option option"
  raw_io :: "(string option option \<times> string option option) option"

text \<open>\<open>parse_idl_path\<close>: the package, \<open>msg\<close> or \<open>srv\<close> by the extension, and the name. The package is the
  directory above a \<open>msg\<close> or \<open>srv\<close> directory, and empty otherwise.\<close>

definition parse_idl_path :: "string \<Rightarrow> (string \<times> string \<times> string) option" where
  "parse_idl_path s =
     (case (case strip_suffix ''.srv'' s of
              Some rest \<Rightarrow> Some (rest, ''srv'')
            | None \<Rightarrow> map_option (\<lambda>rest. (rest, ''msg'')) (strip_suffix ''.msg'' s)) of
        None \<Rightarrow> None
      | Some (stem, kind) \<Rightarrow>
          (let parts = filter (\<lambda>p. p \<noteq> []) (split_on (CHR ''/'') stem); n = length parts
           in if parts = [] then None
              else Some (if 3 \<le> n \<and> (parts ! (n - 2) = ''srv'' \<or> parts ! (n - 2) = ''msg'')
                         then parts ! (n - 3) else [],
                         kind, parts ! (n - 1))))"

definition or_default :: "string option \<Rightarrow> string" where
  "or_default x = (case x of None \<Rightarrow> [] | Some s \<Rightarrow> trim s)"

definition io_types_from_parsed :: "raw_contract \<Rightarrow> string \<times> string" where
  "io_types_from_parsed parsed =
     (case (case raw_idl parsed of
              None \<Rightarrow> None
            | Some idl_raw \<Rightarrow> if trim idl_raw = [] then None else parse_idl_path (trim idl_raw)) of
        Some (pkg, kind, name) \<Rightarrow>
          (let composed = pkg @ ''/'' @ kind @ ''/'' @ name
           in if kind = ''msg'' then (composed, [])
              else if kind = ''srv'' then ([], composed) else ([], []))
      | None \<Rightarrow>
          (case raw_io parsed of
             None \<Rightarrow> ([], [])
           | Some (msg, srv) \<Rightarrow> (or_default (Option.bind msg id), or_default (Option.bind srv id))))"

definition parse_contract_kind :: "string \<Rightarrow> string \<Rightarrow> string + kind" where
  "parse_contract_kind i kind_str =
     (if kind_str = ''primitive'' then Inr Kind_Primitive
      else if kind_str = ''service'' then Inr Kind_Service
      else if kind_str = ''skill'' then Inr Kind_Skill
      else if kind_str = [] then Inr Kind_Unspecified
      else Inl (''contract '' @ quoted i @ '': unknown kind '' @ quoted kind_str
                @ '' (want primitive|service|skill)''))"

definition load_one ::
  "(string \<Rightarrow> string + raw_contract) \<Rightarrow> fs_node \<Rightarrow> path \<Rightarrow> string + contract_descriptor" where
  "load_one from_toml fs p =
     (case with_context (''read contract toml: '' @ path_display p) (read_to_string fs p) of
        Inl e \<Rightarrow> Inl e
      | Inr raw \<Rightarrow>
          (case with_context (''parse contract toml: '' @ path_display p) (from_toml raw) of
             Inl e \<Rightarrow> Inl e
           | Inr parsed \<Rightarrow>
               (let i = trim (raw_id parsed)
                in if i = [] then Inl ''[contract].id is empty''
                   else
                     (let (io_msg_type, io_srv_type) = io_types_from_parsed parsed
                      in (case parse_contract_kind i (or_default (raw_kind parsed)) of
                            Inl e \<Rightarrow> Inl e
                          | Inr k \<Rightarrow>
                              Inr \<lparr>cd_id = i, cd_version = or_default (raw_version parsed),
                                   cd_kind = kind_i32 k, cd_mode = or_default (Option.bind (raw_mode parsed) id),
                                   cd_io_msg_type = io_msg_type, cd_io_srv_type = io_srv_type,
                                   cd_source_toml_path = path_display p,
                                   cd_msg_fields = [], cd_srv_request_fields = [], cd_srv_response_fields = [],
                                   cd_description = or_default (raw_description parsed),
                                   cd_cross_namespace = raw_cross_namespace parsed,
                                   cd_llm_callable = Some (raw_llm_callable parsed)\<rparr>)))))"

section \<open>The directory walk\<close>

text \<open>\<open>WalkDir\<close> with \<open>filter_entry\<close>: directories named \<open>lib\<close> below the root are pruned.\<close>

fun is_dir :: "fs_node \<Rightarrow> bool" where
  "is_dir (FsFile c) = False"
| "is_dir (FsDir es) = True"

fun contract_files :: "path \<Rightarrow> fs_node \<Rightarrow> path list"
and contract_entries :: "path \<Rightarrow> (string \<times> fs_node) list \<Rightarrow> path list" where
  "contract_files p (FsFile c) = (if p \<noteq> [] \<and> name_extension (last p) = Some ''toml'' then [p] else [])"
| "contract_files p (FsDir es) = contract_entries p es"
| "contract_entries p [] = []"
| "contract_entries p ((n, nd) # es) =
     (if is_dir nd \<and> n = ''lib'' then [] else contract_files (p @ [n]) nd) @ contract_entries p es"

type_synonym contract_map = "(string, contract_descriptor) hmap"

definition load_file ::
  "(string \<Rightarrow> string + raw_contract) \<Rightarrow> fs_node \<Rightarrow> path \<Rightarrow> contract_map \<Rightarrow> contract_map" where
  "load_file from_toml fs p by_id =
     (case load_one from_toml fs p of Inl e \<Rightarrow> by_id | Inr desc \<Rightarrow> hm_insert (cd_id desc) desc by_id)"

definition load_root ::
  "(string \<Rightarrow> string + raw_contract) \<Rightarrow> fs_node \<Rightarrow> path \<Rightarrow> contract_map \<Rightarrow> contract_map" where
  "load_root from_toml fs root by_id =
     (case fs_at fs root of
        None \<Rightarrow> by_id
      | Some nd \<Rightarrow> fold (load_file from_toml fs) (contract_files root nd) by_id)"

section \<open>Field schemas\<close>

definition spec_to_field_specs :: "msg_spec \<Rightarrow> field_spec list" where
  "spec_to_field_specs spec =
     map (\<lambda>f. let (type_name, is_primitive) =
                   (case mf_type_ref f of Primitive s \<Rightarrow> (s, True) | Named p n \<Rightarrow> (p @ ''/'' @ n, False))
              in \<lparr>fsp_name = mf_name f, fsp_type_name = type_name, fsp_is_primitive = is_primitive,
                  fsp_is_array = mf_is_array f,
                  fsp_array_size = of_nat (case mf_array_size f of None \<Rightarrow> 0 | Some n \<Rightarrow> n)\<rparr>)
       (ms_fields spec)"

definition resolve_msg_fields :: "msg_resolver \<Rightarrow> string \<Rightarrow> (string + field_spec list) \<times> msg_resolver" where
  "resolve_msg_fields r type_ref =
     (case parse_ridl_type_ref type_ref of
        None \<Rightarrow> (Inl (''not a fully-qualified IDL type ref: '' @ type_ref), r)
      | Some (pkg, name) \<Rightarrow>
          (let ctx = \<lparr>rc_namespace = None, rc_interface_kind = Some ''msg'',
                      rc_interface_name = Some name, rc_field_name = None\<rparr>
           in (case resolve_named_type r pkg name (Some (type_ref, ctx)) of
                 (Inl e, r') \<Rightarrow> (Inl e, r')
               | (Inr _, r') \<Rightarrow>
                   (case hm_get (rs_cache r') (pkg, name) of
                      None \<Rightarrow> (Inl (''MsgResolver cache miss for '' @ pkg @ ''/'' @ name), r')
                    | Some spec \<Rightarrow> (Inr (spec_to_field_specs spec), r')))))"

definition resolve_srv_fields_of ::
  "msg_resolver \<Rightarrow> string \<Rightarrow> (string + field_spec list \<times> field_spec list) \<times> msg_resolver" where
  "resolve_srv_fields_of r type_ref =
     (case parse_ridl_type_ref type_ref of
        None \<Rightarrow> (Inl (''not a fully-qualified srv type ref: '' @ type_ref), r)
      | Some key \<Rightarrow>
          (case (if hm_get (rs_srv_cache r) key \<noteq> None then (Inr (), r)
                 else (case hm_get (rs_srv_index r) key of
                         None \<Rightarrow> (Inl (''MsgResolver srv_index has no entry for '' @ fst key @ ''/'' @ snd key), r)
                       | Some p \<Rightarrow>
                           (case parse_srv_file (rs_fs r) (fst key) (snd key) p of
                              Inl e \<Rightarrow> (Inl e, r)
                            | Inr parsed \<Rightarrow>
                                (Inr (), r\<lparr>rs_srv_cache := hm_insert key parsed (rs_srv_cache r)\<rparr>)))) of
             (Inl e, r') \<Rightarrow> (Inl e, r')
           | (Inr _, r') \<Rightarrow>
               (case hm_get (rs_srv_cache r') key of
                  None \<Rightarrow> (Inl (''srv_cache miss for '' @ fst key @ ''/'' @ snd key), r')
                | Some spec \<Rightarrow>
                    (Inr (spec_to_field_specs (ss_request spec), spec_to_field_specs (ss_response spec)), r'))))"

text \<open>One contract of the attachment loop, then the loop over the table in its iteration order.\<close>

definition attach_one :: "contract_descriptor \<Rightarrow> msg_resolver \<Rightarrow> contract_descriptor \<times> msg_resolver" where
  "attach_one desc r =
     (let (desc1, r1) =
        (if cd_io_msg_type desc = [] then (desc, r)
         else (case resolve_msg_fields r (cd_io_msg_type desc) of
                 (Inl e, r') \<Rightarrow> (desc, r')
               | (Inr flds, r') \<Rightarrow> (desc\<lparr>cd_msg_fields := flds\<rparr>, r')))
      in (if cd_io_srv_type desc1 = [] then (desc1, r1)
          else (case resolve_srv_fields_of r1 (cd_io_srv_type desc1) of
                  (Inl e, r') \<Rightarrow> (desc1, r')
                | (Inr (req, resp), r') \<Rightarrow>
                    (desc1\<lparr>cd_srv_request_fields := req, cd_srv_response_fields := resp\<rparr>, r'))))"

fun attach_all :: "contract_map \<Rightarrow> msg_resolver \<Rightarrow> contract_map" where
  "attach_all [] r = []"
| "attach_all ((k, desc) # m) r = (let (desc', r') = attach_one desc r in (k, desc') # attach_all m r')"

definition attach_idl_fields :: "fs_node \<Rightarrow> contract_map \<Rightarrow> path list \<Rightarrow> contract_map" where
  "attach_idl_fields fs by_id roots =
     (let lib_paths = filter (path_exists fs) (map (\<lambda>r. r @ [''lib'']) roots)
      in if lib_paths = [] then by_id
         else (case msg_resolver_new fs lib_paths of
                 Inl e \<Rightarrow> by_id
               | Inr resolver \<Rightarrow> attach_all by_id resolver))"

definition load_from_capability_roots ::
  "(string \<Rightarrow> string + raw_contract) \<Rightarrow> fs_node \<Rightarrow> path list \<Rightarrow> contract_map" where
  "load_from_capability_roots from_toml fs roots =
     attach_idl_fields fs (fold (load_root from_toml fs) roots []) roots"

section \<open>Queries\<close>

definition contract_get :: "contract_map \<Rightarrow> string \<Rightarrow> contract_descriptor option" where
  "contract_get by_id contract_id = hm_get by_id contract_id"

definition list_with_prefix :: "contract_map \<Rightarrow> string \<Rightarrow> contract_descriptor list" where
  "list_with_prefix by_id prefix0 =
     (let prefix = trim prefix0
      in sort_key cd_id (filter (\<lambda>c. prefix = [] \<or> starts_with prefix (cd_id c)) (map snd by_id)))"

definition resolve_capabilities_roots :: "string option \<Rightarrow> string list \<Rightarrow> string list" where
  "resolve_capabilities_roots source_path explicit =
     (let cleaned = filter (\<lambda>s. s \<noteq> []) (map trim explicit)
      in if cleaned \<noteq> [] then cleaned
         else (case source_path of
                 None \<Rightarrow> []
               | Some root \<Rightarrow> if trim root = [] then [] else [trim root @ ''/capabilities'']))"

section \<open>Properties\<close>

text \<open>The descriptors the walk yields, in the order it reads the files.\<close>

definition loaded_from :: "(string \<Rightarrow> string + raw_contract) \<Rightarrow> fs_node \<Rightarrow> path \<Rightarrow> contract_descriptor list" where
  "loaded_from from_toml fs root =
     (case fs_at fs root of
        None \<Rightarrow> []
      | Some nd \<Rightarrow> List.map_filter
          (\<lambda>p. case load_one from_toml fs p of Inl e \<Rightarrow> None | Inr d \<Rightarrow> Some d) (contract_files root nd))"

lemma load_files_fold:
  "fold (load_file ft fs) ps m =
    fold (\<lambda>d. hm_insert (cd_id d) d)
      (List.map_filter (\<lambda>p. case load_one ft fs p of Inl e \<Rightarrow> None | Inr d \<Rightarrow> Some d) ps) m"
  by (induction ps arbitrary: m) (auto simp: load_file_def map_filter_simps split: sum.splits)

lemma load_roots_fold:
  "fold (load_root ft fs) roots m =
    fold (\<lambda>d. hm_insert (cd_id d) d) (concat (map (loaded_from ft fs) roots)) m"
  by (induction roots arbitrary: m)
    (auto simp: load_root_def loaded_from_def load_files_fold split: option.splits)

lemma get_insert_fold:
  "hm_get (fold (\<lambda>d. hm_insert (cd_id d) d) ds m) k =
    (case find (\<lambda>d. cd_id d = k) (rev ds) of Some d \<Rightarrow> Some d | None \<Rightarrow> hm_get m k)"
proof (induction ds rule: rev_induct)
  case (snoc d ds)
  then show ?case by (simp add: eq_commute [of k])
qed simp

lemma wf_insert_fold: "hm_wf m \<Longrightarrow> hm_wf (fold (\<lambda>d. hm_insert (cd_id d) d) ds m)"
  by (induction ds arbitrary: m) auto

text \<open>The attachment changes the three field lists only.\<close>

definition no_fields :: "contract_descriptor \<Rightarrow> contract_descriptor" where
  "no_fields d = d\<lparr>cd_msg_fields := [], cd_srv_request_fields := [], cd_srv_response_fields := []\<rparr>"

lemma no_fields_msg: "cd_msg_fields (no_fields d) = []"
  by (simp add: no_fields_def)

lemma attach_one_no_fields: "no_fields (fst (attach_one d r)) = no_fields d"
  by (auto simp: attach_one_def no_fields_def Let_def split: prod.splits sum.splits)

lemma attach_all_keys: "map fst (attach_all m r) = map fst m"
  by (induction m r rule: attach_all.induct) (auto split: prod.splits)

lemma attach_all_no_fields: "map (no_fields \<circ> snd) (attach_all m r) = map (no_fields \<circ> snd) m"
proof (induction m r rule: attach_all.induct)
  case (2 k d m r)
  obtain d' r' where a: "attach_one d r = (d', r')" by fastforce
  with attach_one_no_fields [of d r] have "no_fields d' = no_fields d" by simp
  with a 2 show ?case by simp
qed simp

lemma map_of_same_keys:
  assumes "map fst m = map fst m'" and "map (f \<circ> snd) m = map (f \<circ> snd) m'"
  shows "map_option f (map_of m k) = map_option f (map_of m' k)"
  using assms
proof (induction m arbitrary: m')
  case (Cons a m)
  then obtain b m2 where "m' = b # m2" by (cases m') auto
  with Cons show ?case by (cases a; cases b) auto
qed simp

lemma attach_keys:
  "map fst (attach_idl_fields fs m roots) = map fst m
    \<and> map (no_fields \<circ> snd) (attach_idl_fields fs m roots) = map (no_fields \<circ> snd) m"
  by (auto simp: attach_idl_fields_def Let_def attach_all_keys attach_all_no_fields split: sum.splits)

lemma load_one_no_fields: "load_one ft fs p = Inr d \<Longrightarrow> no_fields d = d"
  by (auto simp: load_one_def no_fields_def Let_def split: sum.splits if_splits prod.splits)

lemma loaded_no_fields: "d \<in> set (concat (map (loaded_from ft fs) roots)) \<Longrightarrow> no_fields d = d"
  by (auto simp: loaded_from_def List.map_filter_def split: option.splits sum.splits dest!: load_one_no_fields)

text \<open>\<open>load_from_capability_roots\<close>: a contract id resolves to the last file, over all
  roots in their order, that loads with this id (a later root overrides an earlier one, files under a
  \<open>lib\<close> directory and unreadable ones count for nothing); IDL attachment changes only field lists.\<close>

lemma load_roots_lookup:
  "map_option no_fields (contract_get (load_from_capability_roots ft fs roots) k)
    = find (\<lambda>d. cd_id d = k) (rev (concat (map (loaded_from ft fs) roots)))"
proof -
  let ?ds = "concat (map (loaded_from ft fs) roots)"
  have "map_option no_fields (contract_get (load_from_capability_roots ft fs roots) k)
      = map_option no_fields (hm_get (fold (load_root ft fs) roots []) k)"
    unfolding contract_get_def load_from_capability_roots_def hm_get_def
    using attach_keys by (intro map_of_same_keys) blast+
  also have "\<dots> = map_option no_fields (find (\<lambda>d. cd_id d = k) (rev ?ds))"
    unfolding load_roots_fold get_insert_fold by (auto split: option.split)
  also have "\<dots> = find (\<lambda>d. cd_id d = k) (rev ?ds)"
  proof (cases "find (\<lambda>d. cd_id d = k) (rev ?ds)")
    case (Some d)
    then have "d \<in> set (rev ?ds)" unfolding find_Some_iff by (metis nth_mem)
    with Some loaded_no_fields [of d ft fs roots] show ?thesis by simp
  qed simp
  finally show ?thesis .
qed

text \<open>Well-formedness of the table: distinct keys, each the non-empty trimmed id of its descriptor.\<close>

definition contracts_ok :: "contract_map \<Rightarrow> bool" where
  "contracts_ok m \<longleftrightarrow> hm_wf m \<and> (\<forall>k d. hm_get m k = Some d \<longrightarrow> cd_id d = k \<and> k \<noteq> [] \<and> trim k = k)"

lemma load_one_id: "load_one ft fs p = Inr d \<Longrightarrow> cd_id d \<noteq> [] \<and> trim (cd_id d) = cd_id d"
  by (auto simp: load_one_def Let_def split: sum.splits if_splits prod.splits)

lemma contracts_ok_insert: "contracts_ok m \<Longrightarrow> cd_id d \<noteq> [] \<Longrightarrow> trim (cd_id d) = cd_id d
    \<Longrightarrow> contracts_ok (hm_insert (cd_id d) d m)"
  by (auto simp: contracts_ok_def split: if_splits)

lemma load_roots_ok: "contracts_ok m \<Longrightarrow> contracts_ok (fold (load_root ft fs) roots m)"
proof -
  have "contracts_ok m \<Longrightarrow> contracts_ok (fold (load_file ft fs) ps m)" for ps m
    by (induction ps arbitrary: m)
      (auto simp: load_file_def split: sum.split intro!: contracts_ok_insert dest: load_one_id)
  then show "contracts_ok m \<Longrightarrow> contracts_ok (fold (load_root ft fs) roots m)"
    by (induction roots arbitrary: m) (auto simp: load_root_def split: option.split)
qed

lemma no_fields_id: "no_fields d = no_fields d' \<Longrightarrow> cd_id d = cd_id d'"
  by (auto simp: no_fields_def dest: arg_cong [where f = cd_id])

lemma contracts_ok_loaded: "contracts_ok (load_from_capability_roots ft fs roots)"
proof -
  let ?m = "fold (load_root ft fs) roots []" and ?m' = "load_from_capability_roots ft fs roots"
  have ok: "contracts_ok ?m" by (rule load_roots_ok) (simp add: contracts_ok_def)
  have keys: "map fst ?m' = map fst ?m" and nf: "map (no_fields \<circ> snd) ?m' = map (no_fields \<circ> snd) ?m"
    using attach_keys by (simp_all add: load_from_capability_roots_def)
  have "cd_id d = k \<and> k \<noteq> [] \<and> trim k = k" if "hm_get ?m' k = Some d" for k d
  proof -
    have "map_option no_fields (hm_get ?m k) = Some (no_fields d)"
      using map_of_same_keys [OF keys nf, of k] that by (simp add: hm_get_def)
    then obtain d0 where "hm_get ?m k = Some d0" "no_fields d0 = no_fields d" by auto
    with ok no_fields_id [of d0 d] show ?thesis by (auto simp: contracts_ok_def)
  qed
  with ok keys show ?thesis by (simp add: contracts_ok_def hm_wf_def)
qed

text \<open>\<open>list_with_prefix\<close> on a loaded registry: the contracts whose id starts with the
  trimmed prefix, each exactly once, strictly ascending by id.\<close>

lemma list_with_prefix_spec:
  "let m = load_from_capability_roots ft fs roots; cs = list_with_prefix m prefix in
     sorted_wrt (<) (map cd_id cs)
     \<and> set cs = {d. \<exists>k. contract_get m k = Some d \<and> starts_with (trim prefix) (cd_id d)}"
proof -
  let ?m = "load_from_capability_roots ft fs roots"
  let ?cs = "list_with_prefix ?m prefix"
  have ok: "contracts_ok ?m" by (rule contracts_ok_loaded)
  then have wf: "hm_wf ?m" by (simp add: contracts_ok_def)
  have eq: "map (cd_id \<circ> snd) ?m = map fst ?m"
    using ok hm_in_set [OF wf] by (intro map_cong) (auto simp: contracts_ok_def)
  have "distinct (map (cd_id \<circ> snd) ?m)" using wf unfolding hm_wf_def eq .
  then have "distinct (map cd_id (map snd ?m))" by simp
  then have "distinct (map cd_id ?cs)"
    using distinct_map_filter [of cd_id "map snd ?m"]
    unfolding list_with_prefix_def Let_def distinct_map set_sort distinct_sort by blast
  moreover have "sorted (map cd_id ?cs)" by (simp add: list_with_prefix_def Let_def)
  ultimately have "sorted_wrt (<) (map cd_id ?cs)" by (simp add: strict_sorted_iff)
  moreover have "set ?cs = {d. \<exists>k. contract_get ?m k = Some d \<and> starts_with (trim prefix) (cd_id d)}"
    using hm_snd_set [OF wf] by (auto simp: list_with_prefix_def Let_def contract_get_def)
  ultimately show ?thesis by (simp add: Let_def)
qed

text \<open>\<open>parse_idl_path\<close> on the path of an interface file in any directory of a package, and
  \<open>parse_ridl_type_ref\<close> on the type reference composed from its result: package and name come back.\<close>

definition kind_dir :: "idl_kind \<Rightarrow> string" where
  "kind_dir k = (case k of Msg \<Rightarrow> ''msg'' | Srv \<Rightarrow> ''srv'')"

definition idl_file :: "string list \<Rightarrow> string \<Rightarrow> idl_kind \<Rightarrow> string \<Rightarrow> string" where
  "idl_file dirs package k name = join ''/'' (dirs @ [package, kind_dir k, name @ ''.'' @ kind_dir k])"

lemma split_on_join:
  assumes "\<forall>x \<in> set xs. CHR ''/'' \<notin> set x" and "xs \<noteq> []"
  shows "split_on (CHR ''/'') (join ''/'' xs) = xs"
  using assms
proof (induction xs)
  case (Cons x xs)
  then show ?case
    by (cases xs) (auto simp: split_on_single split_on_append_sep)
qed simp

lemma join_snoc: "join sep (xs @ [y @ z]) = join sep (xs @ [y]) @ z"
proof (induction xs)
  case (Cons x xs)
  then show ?case by (cases xs) auto
qed simp

lemma idl_path_roundtrip:
  assumes "\<forall>x \<in> set (package # name # dirs). ident x"
  shows "parse_idl_path (idl_file dirs package k name) = Some (package, kind_dir k, name)
    \<and> parse_qualified_type_ref (package @ ''/'' @ kind_dir k @ ''/'' @ name) = Some (k, package, name)"
proof
  let ?parts = "dirs @ [package, kind_dir k, name]"
  have kd: "ident (kind_dir k)" by (cases k) (simp_all add: kind_dir_def ident_def ident_char_def)
  have id: "ident x" if "x \<in> set ?parts" for x
    using assms kd that by auto
  then have ns: "\<forall>x \<in> set ?parts. CHR ''/'' \<notin> set x"
    using ident_chars ident_char_not by blast
  have stem: "idl_file dirs package k name = join ''/'' ?parts @ ''.'' @ kind_dir k"
    using join_snoc [of "''/''" "dirs @ [package, kind_dir k]"] by (simp add: idl_file_def)
  have fp: "filter (\<lambda>p. p \<noteq> []) ?parts = ?parts"
    using id by (intro filter_True) (auto simp: ident_def)
  have sp: "split_on (CHR ''/'') (join ''/'' ?parts) = ?parts"
    using ns by (intro split_on_join) auto
  have suffix: "(case strip_suffix ''.srv'' (x @ ''.'' @ kind_dir k) of
              Some rest \<Rightarrow> Some (rest, ''srv'')
            | None \<Rightarrow> map_option (\<lambda>rest. (rest, ''msg'')) (strip_suffix ''.msg'' (x @ ''.'' @ kind_dir k)))
      = Some (x, kind_dir k)" for x
    by (cases k) (simp_all add: kind_dir_def strip_suffix_def ends_with_def)
  have nth: "?parts ! (length ?parts - 1) = name" "?parts ! (length ?parts - 2) = kind_dir k"
      "?parts ! (length ?parts - 3) = package" "3 \<le> length ?parts" "?parts \<noteq> []"
    by (simp_all add: nth_append)
  have kk: "kind_dir k = ''srv'' \<or> kind_dir k = ''msg''" by (cases k) (simp_all add: kind_dir_def)
  show "parse_idl_path (idl_file dirs package k name) = Some (package, kind_dir k, name)"
    unfolding parse_idl_path_def stem suffix option.case prod.case sp fp Let_def nth
    using kk nth(4,5) by auto
next
  let ?ref = "package @ ''/'' @ kind_dir k @ ''/'' @ name"
  have pn: "ident package" "ident name" using assms by auto
  then have n: "CHR ''/'' \<notin> set package" "CHR ''/'' \<notin> set name"
    using ident_chars ident_char_not by blast+
  have k: "CHR ''/'' \<notin> set (kind_dir k)" "\<And>c. c \<in> set (kind_dir k) \<Longrightarrow> \<not> is_ws c"
    by (cases k; auto simp: kind_dir_def is_ws_def)+
  have "\<not> is_ws c" if "c \<in> set ?ref" for c
  proof -
    have "\<not> is_ws (CHR ''/'')" by (simp add: is_ws_def)
    moreover from that have "c \<in> set package \<or> c = CHR ''/'' \<or> c \<in> set (kind_dir k) \<or> c \<in> set name" by auto
    ultimately show ?thesis
      using k(2) ident_chars [OF pn(1)] ident_chars [OF pn(2)] ident_char_not by blast
  qed
  then have tr: "trim ?ref = ?ref" by (rule trim_no_ws)
  have sp: "split_on (CHR ''/'') ?ref = [package, kind_dir k, name]"
    using split_on_append_sep [OF n(1), of "kind_dir k @ ''/'' @ name"]
      split_on_append_sep [OF k(1), of name] split_on_single [OF n(2)] by simp
  have ne: "\<not> ends_with ''[]'' name"
    using ident_chars [OF pn(2), of "CHR ''[''"] ident_char_not [of "CHR ''[''"] by (auto simp: ends_with_iff)
  show "parse_qualified_type_ref ?ref = Some (k, package, name)"
    unfolding parse_qualified_type_ref_def tr sp using pn ne
    by (cases k) (auto simp: kind_dir_def ident_def)
qed

theorem idl_path_roundtrip_witness:
  "parse_idl_path ''system/pilot/srv/SubmitTask.srv'' = Some (''pilot'', ''srv'', ''SubmitTask'')"
proof -
  have "\<forall>x \<in> set [''pilot'', ''SubmitTask'', ''system'']. ident x" by code_simp
  from idl_path_roundtrip [OF this, of Srv] show ?thesis by (simp add: idl_file_def kind_dir_def)
qed

section \<open>Attached fields\<close>

text \<open>Each field list that the attachment fills in is that of the file the index holds for the
  contract's type; the other lists stay as they were.\<close>

definition fields_faithful :: "msg_resolver \<Rightarrow> contract_descriptor \<Rightarrow> bool" where
  "fields_faithful r d \<longleftrightarrow>
     (cd_msg_fields d = [] \<or> (\<exists>k spec. parse_ridl_type_ref (cd_io_msg_type d) = Some k
        \<and> load r k = Some spec \<and> cd_msg_fields d = spec_to_field_specs spec))"

lemma resolve_msg_fields_faithful:
  assumes "resolver_sound r"
  shows "resolver_sound (snd (resolve_msg_fields r t)) \<and> load (snd (resolve_msg_fields r t)) = load r
    \<and> (\<forall>fl. fst (resolve_msg_fields r t) = Inr fl \<longrightarrow> (\<exists>k spec. parse_ridl_type_ref t = Some k
        \<and> load r k = Some spec \<and> fl = spec_to_field_specs spec))"
proof (cases "parse_ridl_type_ref t")
  case None
  with assms show ?thesis by (simp add: resolve_msg_fields_def)
next
  case (Some k)
  obtain pkg name where k: "k = (pkg, name)" by fastforce
  let ?o = "Some (t, \<lparr>rc_namespace = None, rc_interface_kind = Some ''msg'',
      rc_interface_name = Some name, rc_field_name = None\<rparr>)"
  obtain res r' where r': "resolve_named_type r pkg name ?o = (res, r')" by fastforce
  have 1: "resolver_sound r'" "load r' = load r"
    using resolve_named_sound [OF assms, of pkg name ?o]
      same_files_load [OF resolve_named_same [of r pkg name ?o]] unfolding r' by simp_all
  have eq: "resolve_msg_fields r t = (case res of Inl e \<Rightarrow> (Inl e, r') | Inr _ \<Rightarrow>
      (case hm_get (rs_cache r') (pkg, name) of
         None \<Rightarrow> (Inl (''MsgResolver cache miss for '' @ pkg @ ''/'' @ name), r')
       | Some spec \<Rightarrow> (Inr (spec_to_field_specs spec), r')))"
    using Some k r' by (simp add: resolve_msg_fields_def split: sum.split)
  from 1 have "load r (pkg, name) = Some spec" if "hm_get (rs_cache r') (pkg, name) = Some spec" for spec
    using that unfolding resolver_sound_def cache_sound_def by metis
  then have "\<exists>k spec. parse_ridl_type_ref t = Some k \<and> load r k = Some spec \<and> spec_to_field_specs s = spec_to_field_specs spec"
    if "hm_get (rs_cache r') (pkg, name) = Some s" for s
    using that Some k by blast
  then show ?thesis
    unfolding eq using 1 by (cases res; cases "hm_get (rs_cache r') (pkg, name)") auto
qed

lemma resolve_srv_fields_of_sound:
  assumes "resolver_sound r"
  shows "resolver_sound (snd (resolve_srv_fields_of r t)) \<and> load (snd (resolve_srv_fields_of r t)) = load r"
proof (cases "\<exists>key p parsed. parse_ridl_type_ref t = Some key \<and> hm_get (rs_srv_cache r) key = None
    \<and> hm_get (rs_srv_index r) key = Some p \<and> parse_srv_file (rs_fs r) (fst key) (snd key) p = Inr parsed")
  case False
  with assms show ?thesis
    by (auto simp: resolve_srv_fields_of_def split: option.splits sum.splits)
next
  case True
  then obtain key p parsed where *: "parse_ridl_type_ref t = Some key" "hm_get (rs_srv_cache r) key = None"
    "hm_get (rs_srv_index r) key = Some p" "parse_srv_file (rs_fs r) (fst key) (snd key) p = Inr parsed"
    by blast
  let ?r = "r\<lparr>rs_srv_cache := hm_insert key parsed (rs_srv_cache r)\<rparr>"
  have "find_srv_path r (fst key) (snd key) = Some p"
    using *(3) by (cases "fst key = ''robonix_msgs''"; cases key)
      (simp_all add: find_srv_path_def find_path_def package_aliases_def map_filter_simps)
  from srv_cache_sound [OF assms this *(4)] have "resolver_sound ?r" by simp
  moreover have "load ?r = load r"
    by (simp add: load_def [abs_def] find_msg_path_def cong: option.case_cong)
  ultimately show ?thesis
    using * by (simp add: resolve_srv_fields_of_def)
qed

lemma attach_one_faithful:
  assumes "resolver_sound r" and "cd_msg_fields d = []"
  shows "resolver_sound (snd (attach_one d r)) \<and> load (snd (attach_one d r)) = load r
    \<and> fields_faithful r (fst (attach_one d r))"
proof -
  define d1r1 where "d1r1 = (if cd_io_msg_type d = [] then (d, r)
         else (case resolve_msg_fields r (cd_io_msg_type d) of
                 (Inl e, r') \<Rightarrow> (d, r')
               | (Inr flds, r') \<Rightarrow> (d\<lparr>cd_msg_fields := flds\<rparr>, r')))"
  obtain d1 r1 where 1: "d1r1 = (d1, r1)" by fastforce
  have A: "resolver_sound r1 \<and> load r1 = load r \<and> fields_faithful r d1"
    using 1 assms resolve_msg_fields_faithful [OF assms(1), of "cd_io_msg_type d"]
    unfolding d1r1_def fields_faithful_def by (auto split: if_splits prod.splits sum.splits)
  have B: "attach_one d r = (if cd_io_srv_type d1 = [] then (d1, r1)
          else (case resolve_srv_fields_of r1 (cd_io_srv_type d1) of
                  (Inl e, r') \<Rightarrow> (d1, r')
                | (Inr (req, resp), r') \<Rightarrow>
                    (d1\<lparr>cd_srv_request_fields := req, cd_srv_response_fields := resp\<rparr>, r')))"
    unfolding attach_one_def d1r1_def [symmetric] 1 by simp
  have C: "resolver_sound (snd (resolve_srv_fields_of r1 (cd_io_srv_type d1)))"
    "load (snd (resolve_srv_fields_of r1 (cd_io_srv_type d1))) = load r1"
    using resolve_srv_fields_of_sound A by blast+
  show ?thesis
    unfolding B using A C by (auto simp: fields_faithful_def split: prod.split sum.split)
qed

lemma attach_all_faithful:
  "\<lbrakk>resolver_sound r; \<forall>d \<in> snd ` set m. cd_msg_fields d = []\<rbrakk>
    \<Longrightarrow> \<forall>d \<in> snd ` set (attach_all m r). fields_faithful r d"
proof (induction m r rule: attach_all.induct)
  case (2 k d m r)
  obtain d' r' where a: "attach_one d r = (d', r')" by fastforce
  with attach_one_faithful [of r d] "2.prems"
  have 1: "resolver_sound r'" "load r' = load r" "fields_faithful r d'" by auto
  then have "fields_faithful r' = fields_faithful r" by (simp add: fields_faithful_def fun_eq_iff)
  with 1 a "2.IH" [of "(d', r')" d' r'] "2.prems" show ?case by auto
qed simp

text \<open>IDL attachment is faithful: with the resolver built over the \<open>lib\<close> directories of
  the roots, the message fields a loaded contract carries are none, or exactly the fields of the file
  that the index holds for the type its \<open>io_msg_type\<close> names.\<close>

lemma attached_fields_faithful:
  assumes "msg_resolver_new fs (filter (path_exists fs) (map (\<lambda>r. r @ [''lib'']) roots)) = Inr r"
    and "contract_get (load_from_capability_roots ft fs roots) k = Some d"
  shows "cd_msg_fields d = [] \<or> (\<exists>key spec. parse_ridl_type_ref (cd_io_msg_type d) = Some key
    \<and> load r key = Some spec \<and> cd_msg_fields d = spec_to_field_specs spec)"
proof -
  let ?m = "fold (load_root ft fs) roots []"
  have nf: "no_fields d = d" if "d \<in> snd ` set ?m" for d
  proof -
    have "hm_wf ?m" using load_roots_ok [of "[]"] by (simp add: contracts_ok_def)
    with that obtain k where "hm_get ?m k = Some d" by (auto simp: hm_in_set [symmetric])
    then have "find (\<lambda>d. cd_id d = k) (rev (concat (map (loaded_from ft fs) roots))) = Some d"
      unfolding load_roots_fold get_insert_fold by (simp split: option.splits)
    then have "d \<in> set (rev (concat (map (loaded_from ft fs) roots)))"
      unfolding find_Some_iff by (metis nth_mem)
    then show ?thesis using loaded_no_fields [of d ft fs roots] by simp
  qed
  have empty: "cd_msg_fields d = []" if "d \<in> snd ` set ?m" for d
    using no_fields_msg [of d] unfolding nf [OF that] .
  have sound: "resolver_sound r"
    using assms(1) by (auto simp: msg_resolver_new_def resolver_sound_def cache_sound_def split: sum.splits prod.splits)
  have "d \<in> snd ` set (attach_idl_fields fs ?m roots)"
    using assms(2) hm_get_in_set unfolding contract_get_def load_from_capability_roots_def by force
  moreover have "attach_idl_fields fs ?m roots = ?m \<or> attach_idl_fields fs ?m roots = attach_all ?m r"
    unfolding attach_idl_fields_def Let_def assms(1) by simp
  ultimately consider "d \<in> snd ` set ?m" | "d \<in> snd ` set (attach_all ?m r)" by metis
  then have "fields_faithful r d"
  proof cases
    case 1
    then show ?thesis using empty by (simp add: fields_faithful_def)
  next
    case 2
    then show ?thesis using attach_all_faithful [OF sound] empty by blast
  qed
  then show ?thesis by (simp add: fields_faithful_def)
qed

text \<open>A concrete deployment: two contracts over the interface tree of \<open>demo_fs\<close>.\<close>

definition demo_toml :: "string \<Rightarrow> string + raw_contract" where
  "demo_toml s =
     (if s = [] then Inl ''missing field `contract`''
      else Inr \<lparr>raw_id = s, raw_version = None, raw_kind = Some ''service'',
                raw_idl = Some (''p/msg/'' @ s @ ''.msg''), raw_description = None,
                raw_cross_namespace = False, raw_llm_callable = True, raw_mode = None, raw_io = None\<rparr>)"

definition demo_caps :: "string list \<Rightarrow> fs_node" where
  "demo_caps ids = FsDir [(''caps'', FsDir ((''lib'', demo_fs) # (''bad.toml'', FsFile [])
     # map (\<lambda>i. (i @ ''.toml'', FsFile i)) ids))]"

theorem attached_fields_faithful_witness:
  "map cd_msg_fields (map snd (load_from_capability_roots demo_toml (demo_caps [''A'']) [[''caps'']])) \<noteq> [[]]
   \<and> (let d = the (contract_get (load_from_capability_roots demo_toml (demo_caps [''A'']) [[''caps'']]) ''A'') in
      \<exists>key spec r. parse_ridl_type_ref (cd_io_msg_type d) = Some key
        \<and> load r key = Some spec \<and> cd_msg_fields d = spec_to_field_specs spec)"
proof
  let ?fs = "demo_caps [''A'']" and ?roots = "[[''caps'']]"
  let ?m = "load_from_capability_roots demo_toml ?fs ?roots"
  show ne: "map cd_msg_fields (map snd ?m) \<noteq> [[]]" by code_simp
  let ?new = "msg_resolver_new ?fs (filter (path_exists ?fs) (map (\<lambda>r. r @ [''lib'']) ?roots))"
  have "case ?new of Inl e \<Rightarrow> False | Inr r \<Rightarrow> True" by code_simp
  then obtain r where r: "?new = Inr r" by (auto split: sum.splits)
  have d: "contract_get ?m ''A'' = Some (the (contract_get ?m ''A''))"
    and "cd_msg_fields (the (contract_get ?m ''A'')) \<noteq> []" by code_simp+
  with attached_fields_faithful [OF r d] show "let d = the (contract_get ?m ''A'') in
      \<exists>key spec r. parse_ridl_type_ref (cd_io_msg_type d) = Some key
        \<and> load r key = Some spec \<and> cd_msg_fields d = spec_to_field_specs spec"
    unfolding Let_def by blast
qed

text \<open>The attachment depends on the iteration order of the table, which a Rust hash map
  leaves open: the contract over \<open>p/D\<close>, whose field refers to the unresolvable \<open>p/C\<close>, gets its fields
  when the contract over \<open>p/C\<close> is attached (and fails) before it, and none when it comes first.\<close>

theorem attachment_order_dependent:
  "let m1 = load_from_capability_roots demo_toml (demo_caps [''C'', ''D'']) [[''caps'']];
       m2 = load_from_capability_roots demo_toml (demo_caps [''D'', ''C'']) [[''caps'']] in
     map_option cd_msg_fields (contract_get m1 ''D'') \<noteq> Some []
     \<and> map_option cd_msg_fields (contract_get m2 ''D'') = Some []"
  by code_simp

end
