(* ===== verification/Atlas_Registry.thy ===== *)
theory Atlas_Registry
  imports Atlas_State Contract_Registry
begin

text \<open>
  The operations of \<open>AtlasRegistry\<close> (\<open>system/atlas/src/service.rs\<close>), each a function from the state to a
  result and the next state: every method holds the write lock for all of its state changes, so each is
  one atomic step. Clock readings and uuids are arguments; log lines are left out. \<open>contracts\<close> is the
  contract registry, \<open>json\<close> the JSON parser that \<open>parse_params\<close> uses.
\<close>

section \<open>Operations\<close>

definition require :: "string \<Rightarrow> string \<Rightarrow> status + string" where
  "require field value =
     (if trim value = [] then Inl (Invalid_Argument (field @ '' required'')) else Inr (trim value))"

definition unknown_provider :: "string \<Rightarrow> status" where
  "unknown_provider provider_id = Not_Found (''unknown provider_id: '' @ provider_id)"

definition assign_id :: "string \<Rightarrow> string" where
  "assign_id uuid = ''com.robonix.ephemeral.'' @ uuid"

definition register ::
  "string \<Rightarrow> string \<Rightarrow> u64 \<Rightarrow> string \<Rightarrow> kind \<Rightarrow> string \<Rightarrow> string \<Rightarrow> string \<Rightarrow> atlas \<Rightarrow> (status + string) \<times> atlas" where
  "register uuid reg_uuid now provider_id0 k namespace0 md_path md st =
     (let provider_id = (if trim provider_id0 = [] then assign_id uuid else trim provider_id0)
      in (case require ''namespace'' namespace0 of
            Inl e \<Rightarrow> (Inl e, st)
          | Inr namespace \<Rightarrow>
              (case hm_get (at_providers st) provider_id of
                 Some existing \<Rightarrow>
                   if ps_kind existing \<noteq> k then
                     (Inl (Already_Exists (quoted provider_id @ '' already registered as ''
                        @ kind_debug (ps_kind existing) @ ''; cannot re-register as '' @ kind_debug k)), st)
                   else
                     (Inr provider_id,
                      drop_channels_of provider_id
                        (st\<lparr>at_providers := hm_insert provider_id
                           (existing\<lparr>ps_namespace := namespace, ps_registration_id := reg_uuid,
                              ps_capability_md_path := trim md_path, ps_capability_md := md,
                              ps_last_heartbeat_ms := now, ps_endpoints := [], ps_pushed_state := None,
                              ps_state_detail := []\<rparr>) (at_providers st)\<rparr>))
               | None \<Rightarrow>
                   (Inr provider_id,
                    st\<lparr>at_providers := hm_insert provider_id
                         \<lparr>ps_id = provider_id, ps_registration_id = reg_uuid, ps_kind = k,
                          ps_namespace = namespace, ps_capability_md_path = trim md_path,
                          ps_capability_md = md, ps_last_heartbeat_ms = now, ps_endpoints = [],
                          ps_pushed_state = None, ps_state_detail = []\<rparr> (at_providers st)\<rparr>))))"

definition unregister :: "string \<Rightarrow> atlas \<Rightarrow> bool \<times> atlas" where
  "unregister provider_id0 st =
     (let provider_id = trim provider_id0
      in if provider_id = [] then (False, st)
         else (hm_get (at_providers st) provider_id \<noteq> None,
               drop_channels_of provider_id (st\<lparr>at_providers := hm_remove provider_id (at_providers st)\<rparr>)))"

definition set_lifecycle_state ::
  "string \<Rightarrow> lifecycle_state \<Rightarrow> string \<Rightarrow> atlas \<Rightarrow> (status + lifecycle_state) \<times> atlas" where
  "set_lifecycle_state provider_id0 new_state detail st =
     (case require ''provider_id'' provider_id0 of
        Inl e \<Rightarrow> (Inl e, st)
      | Inr provider_id \<Rightarrow>
          if new_state = State_Unspecified then
            (Inl (Invalid_Argument ''state: must not be STATE_UNSPECIFIED''), st)
          else
            (case hm_get (at_providers st) provider_id of
               None \<Rightarrow> (Inl (unknown_provider provider_id), st)
             | Some provider \<Rightarrow>
                 (let prev = provider_lifecycle provider
                  in if new_state = State_Active \<and> \<not> has_driver provider then
                       (Inl (Failed_Precondition (''provider '' @ quoted provider_id
                          @ '' cannot become ACTIVE without lifecycle Driver ''
                          @ quoted shared_lifecycle_driver_contract @ '' or exact legacy ''
                          @ quoted (trim_slashes (ps_namespace provider) @ ''/driver''))), st)
                     else if \<not> is_legal_transition prev new_state then
                       (Inl (Failed_Precondition (''illegal lifecycle transition for provider ''
                          @ quoted provider_id @ '': '' @ lifecycle_debug prev @ '' -> ''
                          @ lifecycle_debug new_state)), st)
                     else
                       (Inr prev,
                        st\<lparr>at_providers := hm_insert provider_id
                             (provider\<lparr>ps_pushed_state := Some new_state, ps_state_detail := trim detail\<rparr>)
                             (at_providers st)\<rparr>))))"

definition heartbeat :: "u64 \<Rightarrow> string \<Rightarrow> atlas \<Rightarrow> (status + u64) \<times> atlas" where
  "heartbeat now provider_id0 st =
     (case require ''provider_id'' provider_id0 of
        Inl e \<Rightarrow> (Inl e, st)
      | Inr provider_id \<Rightarrow>
          (case hm_get (at_providers st) provider_id of
             None \<Rightarrow> (Inl (unknown_provider provider_id), st)
           | Some provider \<Rightarrow>
               (Inr now, st\<lparr>at_providers := hm_insert provider_id
                              (provider\<lparr>ps_last_heartbeat_ms := now\<rparr>) (at_providers st)\<rparr>)))"

text \<open>The checks of \<open>declare\<close> against the provider's record, in the order the code makes them.\<close>

definition declare_checks ::
  "provider_state \<Rightarrow> string \<Rightarrow> string \<Rightarrow> transport \<Rightarrow> transport_params_state \<Rightarrow> status + unit" where
  "declare_checks provider provider_id contract_id transport params =
     (case validate_driver_abi (ps_namespace provider) contract_id transport params of
        Inl e \<Rightarrow> Inl e
      | Inr _ \<Rightarrow>
          (case (if is_driver_contract (ps_namespace provider) contract_id
                 then find (\<lambda>e. is_driver_contract (ps_namespace provider) (de_contract_id e)) (ps_endpoints provider)
                 else None) of
             Some existing \<Rightarrow>
               Inl (Failed_Precondition (''provider '' @ quoted provider_id
                 @ '' already declares lifecycle Driver '' @ quoted (de_contract_id existing)
                 @ ''; cannot also declare '' @ quoted contract_id))
           | None \<Rightarrow>
               if list_ex (\<lambda>e. de_contract_id e = contract_id \<and> de_transport e = transport) (ps_endpoints provider)
               then Inl (Already_Exists (''('' @ contract_id @ '', '' @ transport_debug transport
                      @ '') already declared by '' @ provider_id))
               else Inr ()))"

definition declare_capability ::
  "(string \<Rightarrow> string + bool) \<Rightarrow> contract_map \<Rightarrow> (nat \<Rightarrow> string) \<Rightarrow> string \<Rightarrow> string \<Rightarrow> transport \<Rightarrow> string
    \<Rightarrow> transport_params \<Rightarrow> string \<Rightarrow> atlas \<Rightarrow> (status + string) \<times> atlas" where
  "declare_capability json contracts uuids provider_id0 contract_id0 transport proposed0 wire_params description st =
     (case require ''provider_id'' provider_id0 of
        Inl e \<Rightarrow> (Inl e, st)
      | Inr provider_id \<Rightarrow>
     (case require ''contract_id'' contract_id0 of
        Inl e \<Rightarrow> (Inl e, st)
      | Inr contract_id \<Rightarrow>
     (case parse_params json transport (Some wire_params) of
        Inl e \<Rightarrow> (Inl e, st)
      | Inr params \<Rightarrow>
     (case hm_get (at_providers st) provider_id of
        None \<Rightarrow> (Inl (unknown_provider provider_id), st)
      | Some provider \<Rightarrow>
     (case declare_checks provider provider_id contract_id transport params of
        Inl e \<Rightarrow> (Inl e, st)
      | Inr _ \<Rightarrow>
     (case resolve_endpoint st transport (trim proposed0) contract_id provider_id uuids of
        Inl e \<Rightarrow> (Inl e, st)
      | Inr endpoint \<Rightarrow>
          (let cross_namespace = (case contract_get contracts contract_id of
                                    None \<Rightarrow> False | Some c \<Rightarrow> cd_cross_namespace c)
           in (Inr endpoint,
               st\<lparr>at_providers := hm_insert provider_id
                    (provider\<lparr>ps_endpoints := ps_endpoints provider @
                       [\<lparr>de_contract_id = contract_id, de_transport = transport, de_endpoint = endpoint,
                         de_params = params, de_description = description,
                         de_namespace_mismatch =
                           has_namespace_mismatch (ps_namespace provider) contract_id cross_namespace\<rparr>]\<rparr>)
                    (at_providers st)\<rparr>))))))))"

text \<open>\<open>capability_at\<close>, and \<open>query_with_prefix\<close>: the records that pass the filters, each with the
  capabilities that pass the contract and transport filters.\<close>

definition capability_at :: "provider_state \<Rightarrow> declared_endpoint \<Rightarrow> capability" where
  "capability_at p e =
     \<lparr>c_provider_id = ps_id p, c_provider_kind = kind_i32 (ps_kind p), c_contract_id = de_contract_id e,
      c_transport = transport_i32 (de_transport e), c_params = Some (params_to_wire (de_params e)),
      c_description = de_description e, c_namespace_mismatch = de_namespace_mismatch e\<rparr>"

definition query_match :: "string \<Rightarrow> kind \<Rightarrow> string \<Rightarrow> string \<Rightarrow> provider_state \<Rightarrow> bool" where
  "query_match f_cap_id f_kind f_contract f_ns_prefix p \<longleftrightarrow>
     (f_cap_id = [] \<or> ps_id p = f_cap_id)
     \<and> (f_kind = Kind_Unspecified \<or> ps_kind p = f_kind)
     \<and> (f_ns_prefix = [] \<or> starts_with f_ns_prefix (ps_namespace p))
     \<and> (f_contract = [] \<or> list_ex (\<lambda>e. de_contract_id e = f_contract) (ps_endpoints p))"

definition query_capabilities :: "string \<Rightarrow> transport \<Rightarrow> provider_state \<Rightarrow> capability list" where
  "query_capabilities f_contract f_transport p =
     map (capability_at p)
       (filter (\<lambda>e. (f_contract = [] \<or> de_contract_id e = f_contract)
            \<and> (f_transport = Transport_Unspecified \<or> de_transport e = f_transport)) (ps_endpoints p))"

definition query_with_prefix ::
  "string \<Rightarrow> kind \<Rightarrow> string \<Rightarrow> string \<Rightarrow> transport \<Rightarrow> atlas \<Rightarrow> capability_provider list" where
  "query_with_prefix provider_id k contract namespace_prefix transport st =
     map (\<lambda>p. \<lparr>cp_id = ps_id p, cp_kind = kind_i32 (ps_kind p), cp_namespace = ps_namespace p,
               cp_capability_md_path = ps_capability_md_path p, cp_last_heartbeat_ms = ps_last_heartbeat_ms p,
               cp_state = lifecycle_i32 (provider_lifecycle p), cp_state_detail = ps_state_detail p,
               cp_capabilities = query_capabilities (trim contract) transport p,
               cp_capability_md = ps_capability_md p, cp_registration_id = ps_registration_id p\<rparr>)
       (filter (query_match (trim provider_id) k (trim contract) (trim namespace_prefix))
         (map snd (at_providers st)))"

definition connect ::
  "string \<Rightarrow> u64 \<Rightarrow> string \<Rightarrow> string \<Rightarrow> string \<Rightarrow> transport \<Rightarrow> atlas
    \<Rightarrow> (status + string \<times> string \<times> transport_params) \<times> atlas" where
  "connect uuid now consumer_id0 provider_id0 contract_id0 transport st =
     (case require ''consumer_id'' consumer_id0 of
        Inl e \<Rightarrow> (Inl e, st)
      | Inr consumer_id \<Rightarrow>
     (case require ''provider_id'' provider_id0 of
        Inl e \<Rightarrow> (Inl e, st)
      | Inr provider_id \<Rightarrow>
     (case require ''contract_id'' contract_id0 of
        Inl e \<Rightarrow> (Inl e, st)
      | Inr contract_id \<Rightarrow>
          if transport = Transport_Unspecified then
            (Inl (Invalid_Argument ''transport: must not be UNSPECIFIED''), st)
          else
            (case hm_get (at_providers st) provider_id of
               None \<Rightarrow> (Inl (unknown_provider provider_id), st)
             | Some provider \<Rightarrow>
                 (case find (\<lambda>e. de_contract_id e = contract_id \<and> de_transport e = transport)
                         (ps_endpoints provider) of
                    None \<Rightarrow> (Inl (Not_Found (''provider '' @ quoted provider_id @ '' has not declared (''
                              @ contract_id @ '', '' @ transport_debug transport @ '')'')), st)
                  | Some ep \<Rightarrow>
                      (let channel_id = ''ch-'' @ uuid
                       in (Inr (channel_id, de_endpoint ep, params_to_wire (de_params ep)),
                           st\<lparr>at_channels := hm_insert channel_id
                                \<lparr>oc_channel_id = channel_id, oc_consumer_id = consumer_id,
                                 oc_provider_id = provider_id, oc_contract_id = contract_id,
                                 oc_transport = transport, oc_endpoint = de_endpoint ep,
                                 oc_opened_at_ms = now\<rparr> (at_channels st)\<rparr>)))))))"

definition disconnect :: "string \<Rightarrow> atlas \<Rightarrow> bool \<times> atlas" where
  "disconnect channel_id0 st =
     (let channel_id = trim channel_id0
      in if channel_id = [] then (False, st)
         else (hm_get (at_channels st) channel_id \<noteq> None,
               st\<lparr>at_channels := hm_remove channel_id (at_channels st)\<rparr>))"

definition capability_md :: "string \<Rightarrow> atlas \<Rightarrow> status + string" where
  "capability_md provider_id0 st =
     (case require ''provider_id'' provider_id0 of
        Inl e \<Rightarrow> Inl e
      | Inr provider_id \<Rightarrow>
          (case hm_get (at_providers st) provider_id of
             None \<Rightarrow> Inl (unknown_provider provider_id)
           | Some provider \<Rightarrow> Inr (ps_capability_md provider)))"

section \<open>Heartbeat eviction\<close>

text \<open>One round of \<open>eviction_loop\<close>, with the clock reading of the round. \<open>timeout_ms + gc_after_ms\<close> is
  the addition of the release build, modulo \<open>2 ^ 64\<close>.\<close>

definition lapsed :: "u64 \<Rightarrow> u64 \<Rightarrow> provider_state \<Rightarrow> bool" where
  "lapsed now timeout_ms p \<longleftrightarrow>
     saturating_sub now (ps_last_heartbeat_ms p) > timeout_ms \<and> provider_lifecycle p \<noteq> State_Terminated"

definition stale :: "u64 \<Rightarrow> u64 \<Rightarrow> u64 \<Rightarrow> provider_state \<Rightarrow> bool" where
  "stale now timeout_ms gc_after_ms p \<longleftrightarrow>
     provider_lifecycle p = State_Terminated
     \<and> saturating_sub now (ps_last_heartbeat_ms p) > timeout_ms + gc_after_ms"

definition evict_one :: "u64 \<Rightarrow> string \<Rightarrow> atlas \<Rightarrow> atlas" where
  "evict_one timeout_ms i st =
     drop_channels_of i (st\<lparr>at_providers := hm_modify i
       (\<lambda>p. p\<lparr>ps_pushed_state := Some State_Terminated,
              ps_state_detail := ''heartbeat lapsed > '' @ show_u64 timeout_ms @ ''ms''\<rparr>) (at_providers st)\<rparr>)"

definition gc_one :: "string \<Rightarrow> atlas \<Rightarrow> atlas" where
  "gc_one i st = st\<lparr>at_providers := hm_remove i (at_providers st)\<rparr>"

definition eviction_phase1 :: "u64 \<Rightarrow> u64 \<Rightarrow> atlas \<Rightarrow> atlas" where
  "eviction_phase1 now timeout_ms st =
     fold (evict_one timeout_ms) (map fst (filter (\<lambda>(_, p). lapsed now timeout_ms p) (at_providers st))) st"

definition eviction_phase2 :: "u64 \<Rightarrow> u64 \<Rightarrow> u64 \<Rightarrow> atlas \<Rightarrow> atlas" where
  "eviction_phase2 now timeout_ms gc_after_ms st =
     fold gc_one (map fst (filter (\<lambda>(_, p). stale now timeout_ms gc_after_ms p) (at_providers st))) st"

definition eviction_round :: "u64 \<Rightarrow> u64 \<Rightarrow> u64 \<Rightarrow> atlas \<Rightarrow> atlas" where
  "eviction_round now timeout_ms gc_after_ms st =
     eviction_phase2 now timeout_ms gc_after_ms (eviction_phase1 now timeout_ms st)"

text \<open>The task itself: no round when the timeout is 0, else a round per tick.\<close>

definition eviction_task :: "u64 \<Rightarrow> u64 \<Rightarrow> u64 list \<Rightarrow> atlas \<Rightarrow> atlas" where
  "eviction_task timeout_ms gc_after_ms ticks st =
     (if timeout_ms = 0 then st else fold (\<lambda>now. eviction_round now timeout_ms gc_after_ms) ticks st)"

end
