(* ===== verification/Atlas_Invariant.thy ===== *)
theory Atlas_Invariant
  imports Atlas_Registry
begin

text \<open>
  The invariant of the registry and its preservation by every operation, as an instance of the locale
  \<open>inv_system\<close> over the type \<open>atlas_op\<close> of all operations with their arguments.
\<close>

section \<open>Invariant\<close>

definition endpoint_ok :: "string \<Rightarrow> declared_endpoint \<Rightarrow> bool" where
  "endpoint_ok namespace e \<longleftrightarrow>
     params_transport (de_params e) = de_transport e \<and> de_endpoint e \<noteq> [] \<and> de_contract_id e \<noteq> []
     \<and> trim (de_contract_id e) = de_contract_id e
     \<and> validate_driver_abi namespace (de_contract_id e) (de_transport e) (de_params e) = Inr ()"

definition drivers :: "provider_state \<Rightarrow> declared_endpoint list" where
  "drivers p = filter (\<lambda>e. is_driver_contract (ps_namespace p) (de_contract_id e)) (ps_endpoints p)"

definition provider_ok :: "string \<Rightarrow> provider_state \<Rightarrow> bool" where
  "provider_ok i p \<longleftrightarrow>
     ps_id p = i \<and> i \<noteq> [] \<and> ps_namespace p \<noteq> []
     \<and> distinct (map (\<lambda>e. (de_contract_id e, de_transport e)) (ps_endpoints p))
     \<and> (\<forall>e \<in> set (ps_endpoints p). endpoint_ok (ps_namespace p) e)
     \<and> length (drivers p) \<le> 1
     \<and> (provider_lifecycle p = State_Active \<longrightarrow> has_driver p)
     \<and> ps_pushed_state p \<noteq> Some State_Unspecified"

text \<open>No other provider holds an address of \<open>p\<close>.\<close>

definition no_collision :: "atlas \<Rightarrow> string \<Rightarrow> provider_state \<Rightarrow> bool" where
  "no_collision st i p \<longleftrightarrow>
     (\<forall>e \<in> set (ps_endpoints p). \<forall>j q f. hm_get (at_providers st) j = Some q \<longrightarrow> j \<noteq> i \<longrightarrow>
        f \<in> set (ps_endpoints q) \<longrightarrow> (de_transport f, de_endpoint f) \<noteq> (de_transport e, de_endpoint e))"

definition atlas_inv :: "atlas \<Rightarrow> bool" where
  "atlas_inv st \<longleftrightarrow>
     hm_wf (at_providers st) \<and> hm_wf (at_channels st)
     \<and> (\<forall>i p. hm_get (at_providers st) i = Some p \<longrightarrow> provider_ok i p \<and> no_collision st i p)
     \<and> (\<forall>c ch. hm_get (at_channels st) c = Some ch \<longrightarrow> oc_channel_id ch = c)"

definition put_provider :: "string \<Rightarrow> provider_state \<Rightarrow> atlas \<Rightarrow> atlas" where
  "put_provider i p st = st\<lparr>at_providers := hm_insert i p (at_providers st)\<rparr>"

lemma inv_put:
  assumes inv: "atlas_inv st" and "provider_ok i p" and nc: "no_collision st i p"
  shows "atlas_inv (put_provider i p st)"
proof -
  have "no_collision (put_provider i p st) j q"
    if "hm_get (at_providers (put_provider i p st)) j = Some q" for j q
  proof (cases "j = i")
    case True
    with that nc show ?thesis by (auto simp: no_collision_def put_provider_def)
  next
    case False
    with that have q: "hm_get (at_providers st) j = Some q" by (simp add: put_provider_def)
    with inv have "no_collision st j q" by (simp add: atlas_inv_def)
    moreover have "(de_transport f, de_endpoint f) \<noteq> (de_transport e, de_endpoint e)"
      if "e \<in> set (ps_endpoints q)" "f \<in> set (ps_endpoints p)" for e f
      using nc q False that unfolding no_collision_def by metis
    ultimately show ?thesis
      using False unfolding no_collision_def by (auto simp: put_provider_def split: if_splits)
  qed
  with assms show ?thesis by (auto simp: atlas_inv_def put_provider_def)
qed

lemma inv_provider: "atlas_inv st \<Longrightarrow> hm_get (at_providers st) i = Some p \<Longrightarrow> provider_ok i p \<and> no_collision st i p"
  by (simp add: atlas_inv_def)

lemma inv_wf: "atlas_inv st \<Longrightarrow> hm_wf (at_providers st) \<and> hm_wf (at_channels st)"
  by (simp add: atlas_inv_def)

lemma inv_drop_channels: "atlas_inv st \<Longrightarrow> atlas_inv (drop_channels_of i st)"
  by (auto simp: atlas_inv_def drop_channels_of_def no_collision_def hm.get_keep split: option.splits if_splits)

lemma inv_remove: "atlas_inv st \<Longrightarrow> atlas_inv (st\<lparr>at_providers := hm_remove i (at_providers st)\<rparr>)"
  by (auto simp: atlas_inv_def no_collision_def)

lemma inv_put_channel:
  "atlas_inv st \<Longrightarrow> oc_channel_id ch = c \<Longrightarrow> atlas_inv (st\<lparr>at_channels := hm_insert c ch (at_channels st)\<rparr>)"
  by (auto simp: atlas_inv_def no_collision_def)

lemma inv_remove_channel: "atlas_inv st \<Longrightarrow> atlas_inv (st\<lparr>at_channels := hm_remove c (at_channels st)\<rparr>)"
  by (auto simp: atlas_inv_def no_collision_def)

section \<open>Preservation\<close>

lemma require_Inr [simp]: "require f v = Inr w \<longleftrightarrow> w = trim v \<and> trim v \<noteq> []"
  by (auto simp: require_def)

lemma require_ok [simp]: "trim v \<noteq> [] \<Longrightarrow> require f v = Inr (trim v)"
  by (simp add: require_def)

lemma no_collision_endpoints:
  "no_collision st i p \<Longrightarrow> set (ps_endpoints q) \<subseteq> set (ps_endpoints p) \<Longrightarrow> no_collision st i q"
  by (auto simp: no_collision_def)

lemma assign_id_not_Nil: "assign_id u \<noteq> []"
  by (simp add: assign_id_def)

text \<open>A record with no endpoints and no pushed state.\<close>

lemma inv_fresh:
  assumes "atlas_inv st" and "ps_id p = i" "i \<noteq> []" "ps_namespace p \<noteq> []" "ps_endpoints p = []" "ps_pushed_state p = None"
  shows "atlas_inv (st\<lparr>at_providers := hm_insert i p (at_providers st)\<rparr>)"
proof -
  have "provider_ok i p" "no_collision st i p"
    using assms by (auto simp: provider_ok_def drivers_def provider_lifecycle_def no_collision_def)
  with assms(1) inv_put show ?thesis unfolding put_provider_def by blast
qed

lemma register_inv:
  assumes inv: "atlas_inv st"
  shows "atlas_inv (snd (register u ru now i k ns mp md st))"
proof -
  define i' where "i' = (if trim i = [] then assign_id u else trim i)"
  have ne: "i' \<noteq> []" by (simp add: i'_def assign_id_not_Nil)
  show ?thesis
  proof (cases "trim ns = []")
    case True
    with inv show ?thesis by (simp add: register_def require_def Let_def)
  next
    case False
    note eq = register_def Let_def require_ok [OF False] i'_def [symmetric]
    show ?thesis
    proof (cases "hm_get (at_providers st) i'")
      case None
      with inv ne False show ?thesis by (auto simp: eq intro!: inv_fresh)
    next
      case (Some p)
      with inv have "ps_id p = i'" by (auto dest: inv_provider simp: provider_ok_def)
      with inv ne False Some show ?thesis by (auto simp: eq intro!: inv_drop_channels inv_fresh)
    qed
  qed
qed

lemma unregister_inv: "atlas_inv st \<Longrightarrow> atlas_inv (snd (unregister i st))"
  by (simp add: unregister_def Let_def inv_drop_channels inv_remove)

lemma provider_ok_state:
  assumes "provider_ok i p" and "s \<noteq> State_Unspecified" and "s = State_Active \<longrightarrow> has_driver p"
  shows "provider_ok i (p\<lparr>ps_pushed_state := Some s, ps_state_detail := d\<rparr>)"
  using assms by (simp add: provider_ok_def drivers_def provider_lifecycle_def has_driver_def)

lemma inv_state:
  assumes "atlas_inv st" and "hm_get (at_providers st) i = Some p"
    and "s \<noteq> State_Unspecified" and "s = State_Active \<longrightarrow> has_driver p"
  shows "atlas_inv (st\<lparr>at_providers := hm_insert i (p\<lparr>ps_pushed_state := Some s, ps_state_detail := d\<rparr>)
    (at_providers st)\<rparr>)"
  using inv_put [of st i "p\<lparr>ps_pushed_state := Some s, ps_state_detail := d\<rparr>"] inv_provider [OF assms(1,2)]
    provider_ok_state [of i p s d] assms
  by (simp add: put_provider_def no_collision_def)

lemma set_lifecycle_state_inv: "atlas_inv st \<Longrightarrow> atlas_inv (snd (set_lifecycle_state i s d st))"
  by (auto simp: set_lifecycle_state_def Let_def intro!: inv_state split: sum.split option.split)

lemma heartbeat_inv: "atlas_inv st \<Longrightarrow> atlas_inv (snd (heartbeat now i st))"
  by (auto simp: heartbeat_def put_provider_def [symmetric] provider_ok_def drivers_def provider_lifecycle_def
      has_driver_def no_collision_def dest: inv_provider intro!: inv_put split: sum.split option.split)

lemma declare_provider_ok:
  assumes ok: "provider_ok i p" and "c \<noteq> []" and "trim c = c" and "params_transport ps = t" and "ep \<noteq> []"
    and checks: "declare_checks p i c t ps = Inr ()"
  shows "provider_ok i (p\<lparr>ps_endpoints := ps_endpoints p @
    [\<lparr>de_contract_id = c, de_transport = t, de_endpoint = ep, de_params = ps,
      de_description = d, de_namespace_mismatch = nm\<rparr>]\<rparr>)"
proof -
  from checks have abi: "validate_driver_abi (ps_namespace p) c t ps = Inr ()"
    and dup: "\<not> list_ex (\<lambda>e. de_contract_id e = c \<and> de_transport e = t) (ps_endpoints p)"
    and one: "is_driver_contract (ps_namespace p) c \<longrightarrow> drivers p = []"
    by (auto simp: declare_checks_def drivers_def find_None_iff filter_empty_conv
        split: sum.splits option.splits if_splits)
  from dup have "(c, t) \<notin> (\<lambda>e. (de_contract_id e, de_transport e)) ` set (ps_endpoints p)"
    by (auto simp: list_ex_iff)
  with ok abi one assms(2-5) show ?thesis
    by (auto simp: provider_ok_def endpoint_ok_def drivers_def has_driver_def provider_lifecycle_def)
qed

lemma declare_inv:
  assumes inv: "atlas_inv st"
  shows "atlas_inv (snd (declare_capability json cts us i0 c0 t pr wp d st))"
proof (cases "\<exists>p ps ep. trim i0 \<noteq> [] \<and> trim c0 \<noteq> [] \<and> parse_params json t (Some wp) = Inr ps
    \<and> hm_get (at_providers st) (trim i0) = Some p \<and> declare_checks p (trim i0) (trim c0) t ps = Inr ()
    \<and> resolve_endpoint st t (trim pr) (trim c0) (trim i0) us = Inr ep")
  case False
  then show ?thesis
    using inv by (auto simp: declare_capability_def split: sum.splits option.splits)
next
  case True
  then obtain p ps ep where *: "trim i0 \<noteq> []" "trim c0 \<noteq> []" "parse_params json t (Some wp) = Inr ps"
    "hm_get (at_providers st) (trim i0) = Some p" "declare_checks p (trim i0) (trim c0) t ps = Inr ()"
    "resolve_endpoint st t (trim pr) (trim c0) (trim i0) us = Inr ep" by blast
  let ?p = "\<lambda>nm. p\<lparr>ps_endpoints := ps_endpoints p @
    [\<lparr>de_contract_id = trim c0, de_transport = t, de_endpoint = ep, de_params = ps,
      de_description = d, de_namespace_mismatch = nm\<rparr>]\<rparr>"
  have ok: "provider_ok (trim i0) (?p nm)" for nm
    using inv_provider [OF inv *(4)] parse_params_transport [OF *(3)] resolve_endpoint_not_Nil [OF *(6)] *
    by (intro declare_provider_ok) auto
  have "\<not> endpoint_collides st t (trim i0) ep" by (rule resolve_endpoint_free [OF *(6)])
  then have "no_collision st (trim i0) (?p nm)" for nm
    using inv_provider [OF inv *(4)] inv_wf [OF inv]
    by (auto simp: endpoint_collides_iff no_collision_def)
  with inv ok have "atlas_inv (put_provider (trim i0) (?p nm) st)" for nm
    by (intro inv_put)
  with * show ?thesis
    by (simp add: declare_capability_def Let_def put_provider_def)
qed

lemma connect_inv: "atlas_inv st \<Longrightarrow> atlas_inv (snd (connect u now cons i c t st))"
  by (auto simp: connect_def Let_def intro!: inv_put_channel split: sum.split option.split)

lemma disconnect_inv: "atlas_inv st \<Longrightarrow> atlas_inv (snd (disconnect c st))"
  by (simp add: disconnect_def Let_def inv_remove_channel)

lemma evict_one_inv: "atlas_inv st \<Longrightarrow> atlas_inv (evict_one t i st)"
  unfolding evict_one_def hm.modify_eq
  by (auto intro!: inv_drop_channels inv_state split: option.split)

lemma fold_inv: "(\<And>x s. P s \<Longrightarrow> P (f x s)) \<Longrightarrow> P s \<Longrightarrow> P (fold f xs s)"
  by (induction xs arbitrary: s) auto

lemma eviction_round_inv: "atlas_inv st \<Longrightarrow> atlas_inv (eviction_round now t g st)"
  unfolding eviction_round_def eviction_phase1_def eviction_phase2_def
  by (intro fold_inv [where P = atlas_inv]) (auto simp: gc_one_def intro: evict_one_inv inv_remove)

section \<open>The registry as a state machine\<close>

datatype atlas_op =
    Op_Register string string u64 string kind string string string
  | Op_Unregister string
  | Op_Set_State string lifecycle_state string
  | Op_Heartbeat u64 string
  | Op_Declare "nat \<Rightarrow> string" string string transport string transport_params string
  | Op_Connect string u64 string string string transport
  | Op_Disconnect string
  | Op_Evict u64 u64 u64

fun atlas_step :: "(string \<Rightarrow> string + bool) \<Rightarrow> contract_map \<Rightarrow> atlas_op \<Rightarrow> atlas \<Rightarrow> atlas" where
  "atlas_step json cts (Op_Register u ru now i k ns mp md) st = snd (register u ru now i k ns mp md st)"
| "atlas_step json cts (Op_Unregister i) st = snd (unregister i st)"
| "atlas_step json cts (Op_Set_State i s d) st = snd (set_lifecycle_state i s d st)"
| "atlas_step json cts (Op_Heartbeat now i) st = snd (heartbeat now i st)"
| "atlas_step json cts (Op_Declare us i c t pr wp d) st = snd (declare_capability json cts us i c t pr wp d st)"
| "atlas_step json cts (Op_Connect u now cons i c t) st = snd (connect u now cons i c t st)"
| "atlas_step json cts (Op_Disconnect c) st = snd (disconnect c st)"
| "atlas_step json cts (Op_Evict now t g) st = eviction_round now t g st"

lemma atlas_step_inv: "atlas_inv st \<Longrightarrow> atlas_inv (atlas_step json cts op st)"
  by (cases op) (simp_all add: register_inv unregister_inv set_lifecycle_state_inv heartbeat_inv
      declare_inv connect_inv disconnect_inv eviction_round_inv)

lemma atlas_inv_empty: "atlas_inv atlas_empty"
  by (simp add: atlas_inv_def atlas_empty_def)

interpretation atlas: inv_system "\<lambda>st. st = atlas_empty" "atlas_step json cts" atlas_inv for json cts
  by unfold_locales (simp_all add: atlas_inv_empty atlas_step_inv)

end
