(* ===== verification/Atlas_Properties.thy ===== *)
theory Atlas_Properties
  imports Atlas_Invariant
begin

text \<open>
  What the registry promises: the invariant in every reachable state, the directory (which endpoint a
  provider declares for a contract on a transport) as its abstract view with each operation's effect on
  it, the lifecycle, the backing of open channels, and the exact effect of an eviction round.
\<close>

section \<open>Reachable states\<close>

definition atlas_run :: "(string \<Rightarrow> string + bool) \<Rightarrow> contract_map \<Rightarrow> atlas_op list \<Rightarrow> atlas" where
  "atlas_run json cts ops = fold (atlas_step json cts) ops atlas_empty"

lemma atlas_run_inv: "atlas_inv (atlas_run json cts ops)"
  unfolding atlas_run_def by (rule atlas.inv_reachable) simp

text \<open>C5 (invariant). In every state the registry reaches, by any sequence of calls and eviction rounds:
  provider ids and channel ids are the keys they are stored under, each (contract, transport) is declared
  at most once per provider, each declaration's parameters are of its transport, at most one lifecycle
  driver is declared and it has the generated gRPC service and method, an ACTIVE provider has one, and no
  two providers hold the same endpoint on a transport.\<close>

theorem atlas_reachable_inv: "atlas_inv (atlas_run json cts ops)"
  by (rule atlas_run_inv)

section \<open>Lifecycle\<close>

definition lifecycle_update_ok :: "string \<Rightarrow> lifecycle_state \<Rightarrow> atlas \<Rightarrow> bool" where
  "lifecycle_update_ok i s st \<longleftrightarrow> trim i \<noteq> [] \<and> s \<noteq> State_Unspecified
     \<and> (case hm_get (at_providers st) (trim i) of
          None \<Rightarrow> False
        | Some p \<Rightarrow> (if s = State_Active then has_driver p else True)
            \<and> is_legal_transition (provider_lifecycle p) s)"

text \<open>\<open>set_lifecycle_state\<close> on every branch: it succeeds exactly when the id names a
  provider, the state is not UNSPECIFIED, ACTIVE comes with a declared driver, and the transition is one of
  the table; it then returns the previous state and stores the new one, and otherwise changes nothing.\<close>

lemma set_lifecycle_state_spec:
  "if lifecycle_update_ok i s st
   then (\<exists>p. hm_get (at_providers st) (trim i) = Some p
     \<and> set_lifecycle_state i s d st = (Inr (provider_lifecycle p),
          put_provider (trim i) (p\<lparr>ps_pushed_state := Some s, ps_state_detail := trim d\<rparr>) st))
   else (\<exists>e. set_lifecycle_state i s d st = (Inl e, st))"
  by (cases "trim i = []")
    (auto simp: lifecycle_update_ok_def set_lifecycle_state_def require_def Let_def put_provider_def
      split: option.splits)

text \<open>In every reachable state an ACTIVE provider has exactly one lifecycle driver, declared
  over gRPC with exactly the service and method names generated from its contract id.\<close>

lemma active_has_driver:
  assumes "hm_get (at_providers (atlas_run json cts ops)) i = Some p"
    and "provider_lifecycle p = State_Active"
  shows "\<exists>e f. drivers p = [e] \<and> de_transport e = Transport_Grpc
    \<and> de_params e = Params_Grpc f (driver_service (de_contract_id e)) (driver_method (de_contract_id e))"
proof -
  have ok: "provider_ok i p"
    using inv_provider [OF atlas_run_inv assms(1)] by blast
  then have "has_driver p" "length (drivers p) \<le> 1" using assms(2) by (auto simp: provider_ok_def)
  then obtain e where e: "drivers p = [e]"
    by (cases "drivers p") (auto simp: drivers_def has_driver_def list_ex_iff filter_empty_conv)
  then have "e \<in> set (ps_endpoints p)" "is_driver_contract (ps_namespace p) (de_contract_id e)"
    unfolding drivers_def by (auto simp: filter_eq_Cons_iff)
  with ok e show ?thesis by (auto simp: provider_ok_def endpoint_ok_def validate_driver_abi_ok)
qed

section \<open>The directory\<close>

type_synonym directory = "string \<times> string \<times> transport \<Rightarrow> string option"

definition find_endpoint :: "string \<Rightarrow> transport \<Rightarrow> provider_state \<Rightarrow> declared_endpoint option" where
  "find_endpoint c t p = find (\<lambda>e. de_contract_id e = c \<and> de_transport e = t) (ps_endpoints p)"

definition directory_of :: "atlas \<Rightarrow> directory" where
  "directory_of st = (\<lambda>(i, c, t). case hm_get (at_providers st) i of
     None \<Rightarrow> None | Some p \<Rightarrow> map_option de_endpoint (find_endpoint c t p))"

definition forget :: "string \<Rightarrow> directory \<Rightarrow> directory" where
  "forget i d = (\<lambda>(j, c, t). if j = i then None else d (j, c, t))"

text \<open>The abstract step: what each call does to the directory.\<close>

fun directory_step ::
  "(string \<Rightarrow> string + bool) \<Rightarrow> contract_map \<Rightarrow> atlas_op \<Rightarrow> atlas \<Rightarrow> directory \<Rightarrow> directory" where
  "directory_step json cts (Op_Register u ru now i k ns mp md) st d =
     (case fst (register u ru now i k ns mp md st) of Inl e \<Rightarrow> d | Inr j \<Rightarrow> forget j d)"
| "directory_step json cts (Op_Unregister i) st d = (if trim i = [] then d else forget (trim i) d)"
| "directory_step json cts (Op_Declare us i c t pr wp ds) st d =
     (case fst (declare_capability json cts us i c t pr wp ds st) of
        Inl e \<Rightarrow> d | Inr ep \<Rightarrow> d((trim i, trim c, t) \<mapsto> ep))"
| "directory_step json cts (Op_Evict now t g) st d =
     (\<lambda>(i, c, tr). if hm_get (at_providers (eviction_round now t g st)) i = None then None else d (i, c, tr))"
| "directory_step json cts op st d = d"

lemma directory_same:
  assumes "\<And>i. map_option ps_endpoints (hm_get (at_providers st') i) = map_option ps_endpoints (hm_get (at_providers st) i)"
  shows "directory_of st' = directory_of st"
proof
  fix x :: "string \<times> string \<times> transport"
  obtain i c t where x: "x = (i, c, t)" by (metis prod.exhaust)
  from assms [of i] show "directory_of st' x = directory_of st x"
    by (cases "hm_get (at_providers st') i"; cases "hm_get (at_providers st) i")
      (simp_all add: directory_of_def find_endpoint_def x)
qed

lemma drop_channels_providers [simp]: "at_providers (drop_channels_of i st) = at_providers st"
  by (simp add: drop_channels_of_def)

lemma directory_register:
  "directory_of (snd (register u ru now i k ns mp md st)) =
    (case fst (register u ru now i k ns mp md st) of Inl e \<Rightarrow> directory_of st | Inr j \<Rightarrow> forget j (directory_of st))"
  by (auto simp: register_def Let_def directory_of_def forget_def find_endpoint_def fun_eq_iff
      split: option.split sum.split)

lemma directory_declare:
  "directory_of (snd (declare_capability json cts us i c t pr wp ds st)) =
    (case fst (declare_capability json cts us i c t pr wp ds st) of
       Inl e \<Rightarrow> directory_of st | Inr ep \<Rightarrow> (directory_of st)((trim i, trim c, t) \<mapsto> ep))"
proof (cases "fst (declare_capability json cts us i c t pr wp ds st)")
  case (Inl e)
  then have "snd (declare_capability json cts us i c t pr wp ds st) = st"
    by (auto simp: declare_capability_def Let_def split: sum.splits option.splits)
  with Inl show ?thesis by simp
next
  case (Inr ep)
  then obtain p ps nm where p: "hm_get (at_providers st) (trim i) = Some p"
    and ck: "declare_checks p (trim i) (trim c) t ps = Inr ()"
    and st': "snd (declare_capability json cts us i c t pr wp ds st) = put_provider (trim i)
      (p\<lparr>ps_endpoints := ps_endpoints p @ [\<lparr>de_contract_id = trim c, de_transport = t, de_endpoint = ep,
        de_params = ps, de_description = ds, de_namespace_mismatch = nm\<rparr>]\<rparr>) st"
    by (auto simp: declare_capability_def put_provider_def Let_def split: sum.splits option.splits)
  from ck have "\<not> list_ex (\<lambda>e. de_contract_id e = trim c \<and> de_transport e = t) (ps_endpoints p)"
    by (auto simp: declare_checks_def split: sum.splits option.splits if_splits)
  then have "find (\<lambda>e. de_contract_id e = trim c \<and> de_transport e = t) (ps_endpoints p) = None"
    by (simp add: find_None_iff list_ex_iff)
  moreover have "find P (xs @ [x]) = (case find P xs of Some y \<Rightarrow> Some y | None \<Rightarrow> if P x then Some x else None)"
    for P and xs :: "declared_endpoint list" and x
    by (induction xs) auto
  ultimately show ?thesis
    unfolding st' Inr
    by (auto simp: directory_of_def put_provider_def find_endpoint_def p fun_eq_iff split: option.split)
qed

section \<open>Eviction\<close>

definition terminated :: "u64 \<Rightarrow> provider_state \<Rightarrow> provider_state" where
  "terminated timeout_ms p = p\<lparr>ps_pushed_state := Some State_Terminated,
     ps_state_detail := ''heartbeat lapsed > '' @ show_u64 timeout_ms @ ''ms''\<rparr>"

lemma fold_evict_one:
  assumes "distinct ids" and "hm_wf (at_channels st)"
  shows "hm_get (at_providers (fold (evict_one t) ids st)) i =
       (if i \<in> set ids then map_option (terminated t) (hm_get (at_providers st) i) else hm_get (at_providers st) i)
    \<and> hm_get (at_channels (fold (evict_one t) ids st)) c =
       (case hm_get (at_channels st) c of None \<Rightarrow> None
        | Some ch \<Rightarrow> if oc_provider_id ch \<in> set ids then None else Some ch)
    \<and> hm_wf (at_channels (fold (evict_one t) ids st))"
  using assms
proof (induction ids arbitrary: st)
  case Nil
  then show ?case by (simp split: option.split)
next
  case (Cons x ids)
  have ch: "at_channels (evict_one t x st) = hm_retain (\<lambda>_ ch. oc_provider_id ch \<noteq> x) (at_channels st)"
    by (simp add: evict_one_def drop_channels_of_def)
  have pr: "hm_get (at_providers (evict_one t x st)) j =
      (if j = x then map_option (terminated t) (hm_get (at_providers st) x) else hm_get (at_providers st) j)" for j
    by (simp add: evict_one_def drop_channels_of_def terminated_def [abs_def])
  have wf: "hm_wf (at_channels (evict_one t x st))"
    using Cons.prems(2) by (simp add: ch)
  from Cons.IH [OF _ wf] Cons.prems show ?case
    by (auto simp: pr ch hm.get_keep split: option.split)
qed

lemma fold_gc_one:
  "hm_get (at_providers (fold gc_one ids st)) i = (if i \<in> set ids then None else hm_get (at_providers st) i)
    \<and> at_channels (fold gc_one ids st) = at_channels st"
  by (induction ids arbitrary: st) (auto simp: gc_one_def)

lemma selected_ids:
  assumes "hm_wf m"
  shows "i \<in> set (map fst (filter (\<lambda>(_, p). P p) m)) \<longleftrightarrow> (\<exists>p. hm_get m i = Some p \<and> P p)"
    and "distinct (map fst (filter (\<lambda>(_, p). P p) m))"
  using assms by (force simp: hm_in_set [symmetric], simp add: hm_wf_def distinct_map_filter)

definition evicted :: "u64 \<Rightarrow> u64 \<Rightarrow> provider_state \<Rightarrow> provider_state" where
  "evicted now timeout_ms p = (if lapsed now timeout_ms p then terminated timeout_ms p else p)"

lemma eviction_phase1_wf: "hm_wf (at_providers st) \<Longrightarrow> hm_wf (at_providers (eviction_phase1 now t st))"
  unfolding eviction_phase1_def
  by (rule fold_inv [where P = "\<lambda>st. hm_wf (at_providers st)"]) (auto simp: evict_one_def)

lemma eviction_round_effect:
  assumes "hm_wf (at_providers st)" and "hm_wf (at_channels st)"
  shows "hm_get (at_providers (eviction_round now t g st)) i =
       (case hm_get (at_providers st) i of
          None \<Rightarrow> None
        | Some p \<Rightarrow> if stale now t g (evicted now t p) then None else Some (evicted now t p))
    \<and> hm_get (at_channels (eviction_round now t g st)) c =
       (case hm_get (at_channels st) c of
          None \<Rightarrow> None
        | Some ch \<Rightarrow> (case hm_get (at_providers st) (oc_provider_id ch) of
             None \<Rightarrow> Some ch
           | Some p \<Rightarrow> if lapsed now t p then None else Some ch))"
proof -
  let ?ids = "map fst (filter (\<lambda>(_, p). lapsed now t p) (at_providers st))"
  let ?st1 = "eviction_phase1 now t st"
  note ids = selected_ids [OF assms(1), where P = "lapsed now t"]
  have 1: "hm_get (at_providers ?st1) i = map_option (evicted now t) (hm_get (at_providers st) i)"
    "hm_get (at_channels ?st1) c = (case hm_get (at_channels st) c of None \<Rightarrow> None
        | Some ch \<Rightarrow> if \<exists>p. hm_get (at_providers st) (oc_provider_id ch) = Some p \<and> lapsed now t p
            then None else Some ch)" for i c
    using fold_evict_one [OF ids(2) assms(2), of t i c] unfolding eviction_phase1_def ids(1)
    by (cases "hm_get (at_providers st) i"; auto simp: evicted_def)+
  note ids2 = selected_ids [OF eviction_phase1_wf [OF assms(1)], where P = "stale now t g"]
  show ?thesis
    unfolding eviction_round_def eviction_phase2_def
    using fold_gc_one [of "map fst (filter (\<lambda>(_, p). stale now t g p) (at_providers ?st1))" ?st1 i]
    unfolding ids2(1) by (auto simp: 1 split: option.splits)
qed

text \<open>One eviction round, exactly: a provider whose heartbeat is older than the timeout
  and is not TERMINATED becomes TERMINATED and loses its channels; after that, a TERMINATED one whose
  heartbeat is older than timeout plus grace (added modulo 2^64) is removed; all else is as before.\<close>

lemma eviction_round_spec:
  assumes "hm_wf (at_providers st)" and "hm_wf (at_channels st)"
  shows "hm_get (at_providers (eviction_round now t g st)) i =
       (case hm_get (at_providers st) i of
          None \<Rightarrow> None
        | Some p \<Rightarrow> if stale now t g (evicted now t p) then None else Some (evicted now t p))
    \<and> hm_get (at_channels (eviction_round now t g st)) c =
       (case hm_get (at_channels st) c of
          None \<Rightarrow> None
        | Some ch \<Rightarrow> (case hm_get (at_providers st) (oc_provider_id ch) of
             None \<Rightarrow> Some ch
           | Some p \<Rightarrow> if lapsed now t p then None else Some ch))"
  using assms by (rule eviction_round_effect)

lemma evicted_endpoints [simp]: "ps_endpoints (evicted now t p) = ps_endpoints p"
  by (simp add: evicted_def terminated_def)

lemma directory_evict:
  assumes "atlas_inv st"
  shows "directory_of (eviction_round now t g st) =
    (\<lambda>(i, c, tr). if hm_get (at_providers (eviction_round now t g st)) i = None then None
       else directory_of st (i, c, tr))"
proof
  fix x :: "string \<times> string \<times> transport"
  obtain i c tr where x: "x = (i, c, tr)" by (metis prod.exhaust)
  have wf: "hm_wf (at_providers st)" "hm_wf (at_channels st)" using inv_wf [OF assms] by auto
  show "directory_of (eviction_round now t g st) x = (case x of (i, c, tr) \<Rightarrow>
      if hm_get (at_providers (eviction_round now t g st)) i = None then None else directory_of st (i, c, tr))"
    using eviction_round_effect [OF wf, of now t g i]
    by (cases "hm_get (at_providers st) i") (auto simp: x directory_of_def find_endpoint_def)
qed

lemma directory_follows:
  assumes "atlas_inv st"
  shows "directory_of (atlas_step json cts op st) = directory_step json cts op st (directory_of st)"
proof (cases op)
  case (Op_Register u ru now i k ns mp md)
  then show ?thesis by (simp add: directory_register)
next
  case (Op_Unregister i)
  then show ?thesis
    by (auto simp: unregister_def Let_def directory_of_def forget_def fun_eq_iff)
next
  case (Op_Set_State i s d)
  then show ?thesis
    by (auto simp: set_lifecycle_state_def Let_def intro!: directory_same split: sum.split option.split)
next
  case (Op_Heartbeat now i)
  then show ?thesis
    by (auto simp: heartbeat_def intro!: directory_same split: sum.split option.split)
next
  case (Op_Declare us i c t pr wp ds)
  then show ?thesis by (simp add: directory_declare)
next
  case (Op_Connect u now cons i c t)
  then show ?thesis
    by (auto simp: connect_def Let_def intro!: directory_same split: sum.split option.split)
next
  case (Op_Disconnect c)
  then show ?thesis by (auto simp: disconnect_def Let_def intro!: directory_same)
next
  case (Op_Evict now t g)
  then show ?thesis by (simp add: directory_evict [OF assms])
qed

text \<open>C10 (refinement). The registry implements its directory: on a state with the invariant, every call and
  eviction round changes which endpoint is declared for which (provider, contract, transport) exactly as the
  abstract step says: registering or removing a provider forgets its entries, a successful declaration
  adds the endpoint it returned, eviction forgets those of the providers it removed, and heartbeats,
  lifecycle changes, connects and disconnects change nothing.\<close>

theorem directory_refinement:
  assumes "atlas_inv st"
  shows "directory_of (atlas_step json cts op st) = directory_step json cts op st (directory_of st)"
  using assms by (rule directory_follows)

section \<open>Connecting\<close>

definition channel_at :: "string \<Rightarrow> u64 \<Rightarrow> string \<Rightarrow> string \<Rightarrow> string \<Rightarrow> transport \<Rightarrow> string \<Rightarrow> open_channel" where
  "channel_at uuid now consumer i c t ep =
     \<lparr>oc_channel_id = ''ch-'' @ uuid, oc_consumer_id = consumer, oc_provider_id = i, oc_contract_id = c,
      oc_transport = t, oc_endpoint = ep, oc_opened_at_ms = now\<rparr>"

lemma connect_cases:
  "case connect uuid now cons i c t st of
     (Inr (ch, ep, ps), st') \<Rightarrow>
       trim cons \<noteq> [] \<and> trim i \<noteq> [] \<and> trim c \<noteq> [] \<and> t \<noteq> Transport_Unspecified
       \<and> directory_of st (trim i, trim c, t) = Some ep \<and> ch = ''ch-'' @ uuid
       \<and> st' = st\<lparr>at_channels := hm_insert ch (channel_at uuid now (trim cons) (trim i) (trim c) t ep)
                  (at_channels st)\<rparr>
   | (Inl e, st') \<Rightarrow> st' = st \<and>
       (trim cons = [] \<or> trim i = [] \<or> trim c = [] \<or> t = Transport_Unspecified
        \<or> directory_of st (trim i, trim c, t) = None)"
proof (cases "trim cons = [] \<or> trim i = [] \<or> trim c = [] \<or> t = Transport_Unspecified")
  case True
  then show ?thesis
    by (cases "trim cons = []"; cases "trim i = []"; cases "trim c = []") (auto simp: connect_def require_def)
next
  case False
  then show ?thesis
    by (auto simp: connect_def Let_def directory_of_def find_endpoint_def channel_at_def
        split: option.split)
qed

text \<open>\<open>connect\<close> on every branch: it succeeds exactly when consumer, provider and contract
  are not blank, the transport is given and the directory has an endpoint for them; it returns that
  endpoint and opens one channel recording it, and otherwise leaves the state unchanged.\<close>

lemma connect_spec:
  "case connect uuid now cons i c t st of
     (Inr (ch, ep, ps), st') \<Rightarrow>
       trim cons \<noteq> [] \<and> trim i \<noteq> [] \<and> trim c \<noteq> [] \<and> t \<noteq> Transport_Unspecified
       \<and> directory_of st (trim i, trim c, t) = Some ep \<and> ch = ''ch-'' @ uuid
       \<and> st' = st\<lparr>at_channels := hm_insert ch (channel_at uuid now (trim cons) (trim i) (trim c) t ep)
                  (at_channels st)\<rparr>
   | (Inl e, st') \<Rightarrow> st' = st \<and>
       (trim cons = [] \<or> trim i = [] \<or> trim c = [] \<or> t = Transport_Unspecified
        \<or> directory_of st (trim i, trim c, t) = None)"
  by (rule connect_cases)

text \<open>Every open channel points at an endpoint its provider declares.\<close>

definition channel_backed :: "atlas \<Rightarrow> bool" where
  "channel_backed st \<longleftrightarrow> (\<forall>c ch. hm_get (at_channels st) c = Some ch \<longrightarrow>
     directory_of st (oc_provider_id ch, oc_contract_id ch, oc_transport ch) = Some (oc_endpoint ch))"

text \<open>The condition under which an eviction round orphans no channel: no open channel leads to a
  provider that the round removes without dropping its channels.\<close>

definition evict_safe :: "atlas_op \<Rightarrow> atlas \<Rightarrow> bool" where
  "evict_safe op st \<longleftrightarrow> (case op of
     Op_Evict now t g \<Rightarrow> (\<forall>c ch p. hm_get (at_channels st) c = Some ch \<longrightarrow>
        hm_get (at_providers st) (oc_provider_id ch) = Some p \<longrightarrow> \<not> stale now t g p)
   | _ \<Rightarrow> True)"

lemma declare_fresh:
  assumes "fst (declare_capability json cts us i c t pr wp ds st) = Inr ep"
  shows "directory_of st (trim i, trim c, t) = None"
proof -
  from assms obtain p ps where p: "hm_get (at_providers st) (trim i) = Some p"
    and ck: "declare_checks p (trim i) (trim c) t ps = Inr ()"
    by (auto simp: declare_capability_def Let_def split: sum.splits option.splits)
  from ck have "\<not> list_ex (\<lambda>e. de_contract_id e = trim c \<and> de_transport e = t) (ps_endpoints p)"
    by (auto simp: declare_checks_def split: sum.splits option.splits if_splits)
  with p show ?thesis by (auto simp: directory_of_def find_endpoint_def find_None_iff list_ex_iff)
qed

lemma channels_declare: "at_channels (snd (declare_capability json cts us i c t pr wp ds st)) = at_channels st"
  by (auto simp: declare_capability_def Let_def split: sum.splits option.splits)

lemma backedD: "channel_backed st \<Longrightarrow> hm_get (at_channels st) c = Some ch \<Longrightarrow>
    directory_of st (oc_provider_id ch, oc_contract_id ch, oc_transport ch) = Some (oc_endpoint ch)"
  by (simp add: channel_backed_def)

lemma backed_provider: "channel_backed st \<Longrightarrow> hm_get (at_channels st) c = Some ch \<Longrightarrow>
    \<exists>p. hm_get (at_providers st) (oc_provider_id ch) = Some p"
  by (drule (1) backedD) (auto simp: directory_of_def split: option.splits)

lemma backed_mono:
  assumes "channel_backed st"
    and "\<And>c ch. hm_get (at_channels st') c = Some ch \<Longrightarrow> hm_get (at_channels st) c = Some ch
      \<and> directory_of st' (oc_provider_id ch, oc_contract_id ch, oc_transport ch)
        = directory_of st (oc_provider_id ch, oc_contract_id ch, oc_transport ch)"
  shows "channel_backed st'"
  using assms unfolding channel_backed_def by metis

lemma register_channels:
  assumes "hm_wf (at_channels st)" and "channel_backed st"
    and "hm_get (at_channels (snd (register u ru now i k ns mp md st))) c = Some ch"
  shows "hm_get (at_channels st) c = Some ch
    \<and> (\<forall>j. fst (register u ru now i k ns mp md st) = Inr j \<longrightarrow> oc_provider_id ch \<noteq> j)"
  using assms backed_provider [OF assms(2)]
  by (fastforce simp: register_def Let_def drop_channels_of_def hm.get_keep
      split: sum.splits option.splits if_splits)

lemma eviction_keeps_backed:
  assumes wf: "hm_wf (at_providers st)" "hm_wf (at_channels st)" and backed: "channel_backed st"
    and safe: "evict_safe (Op_Evict now t g) st"
    and ch: "hm_get (at_channels (eviction_round now t g st)) c = Some ch"
  shows "hm_get (at_channels st) c = Some ch
    \<and> hm_get (at_providers (eviction_round now t g st)) (oc_provider_id ch) \<noteq> None"
proof -
  note sp = eviction_round_effect [OF wf, of now t g "oc_provider_id ch" c]
  from ch sp have c: "hm_get (at_channels st) c = Some ch"
    by (auto split: option.splits if_splits)
  from backedD [OF backed c] obtain p where p: "hm_get (at_providers st) (oc_provider_id ch) = Some p"
    by (auto simp: directory_of_def split: option.splits)
  with ch c sp have "\<not> lapsed now t p" by (auto split: if_splits)
  moreover from safe c p have "\<not> stale now t g p" by (auto simp: evict_safe_def)
  ultimately show ?thesis using c p sp by (auto simp: evicted_def)
qed

text \<open>Each operation keeps every open channel backed by a live declaration with the same
  endpoint, takeovers, removals and declarations included; an eviction round does when no open channel
  leads to a provider that was TERMINATED before the round and is now collected.\<close>

lemma channels_stay_backed:
  assumes inv: "atlas_inv st" and backed: "channel_backed st" and "evict_safe op st"
  shows "channel_backed (atlas_step json cts op st)"
proof -
  have wf: "hm_wf (at_channels st)" "hm_wf (at_providers st)" using inv_wf [OF inv] by auto
  note ref = directory_follows [OF inv, of json cts op]
  show ?thesis
  proof (cases op)
    case (Op_Register u ru now i k ns mp md)
    show ?thesis
      using ref Op_Register register_channels [OF wf(1) backed, of u ru now i k ns mp md]
      by (intro backed_mono [OF backed]) (auto simp: forget_def split: sum.splits)
  next
    case (Op_Unregister i)
    then show ?thesis
      using ref wf by (intro backed_mono [OF backed])
        (auto simp: unregister_def Let_def drop_channels_of_def forget_def hm.get_keep split: option.splits if_splits)
  next
    case (Op_Declare us i c t pr wp ds)
    then show ?thesis
      using ref declare_fresh [of json cts us i c t pr wp ds st] backedD [OF backed]
      by (intro backed_mono [OF backed])
        (auto simp: channels_declare split: sum.splits, metis option.distinct(1))
  next
    case (Op_Connect u now cons i c t)
    then show ?thesis
      using ref connect_cases [where uuid = u and now = now and cons = cons and i = i and c = c and t = t and st = st]
        backed
      by (auto simp: channel_backed_def channel_at_def split: prod.splits sum.splits if_splits)
  next
    case (Op_Evict now t g)
    from eviction_keeps_backed [OF wf(2,1) backed] assms(3) Op_Evict
    have "hm_get (at_channels (eviction_round now t g st)) c = Some ch \<Longrightarrow> hm_get (at_channels st) c = Some ch
        \<and> hm_get (at_providers (eviction_round now t g st)) (oc_provider_id ch) \<noteq> None" for c ch by blast
    then show ?thesis
      using ref Op_Evict by (intro backed_mono [OF backed]) fastforce
  next
    case (Op_Disconnect c)
    then show ?thesis
      using ref by (intro backed_mono [OF backed]) (auto simp: disconnect_def Let_def split: if_splits)
  next
    case (Op_Set_State i s d)
    then show ?thesis
      using ref by (intro backed_mono [OF backed])
        (auto simp: set_lifecycle_state_def Let_def split: sum.splits option.splits if_splits)
  next
    case (Op_Heartbeat now i)
    then show ?thesis
      using ref by (intro backed_mono [OF backed]) (auto simp: heartbeat_def split: sum.splits option.splits)
  qed
qed

section \<open>Discovery\<close>

lemma find_distinct:
  assumes "distinct (map (\<lambda>e. (de_contract_id e, de_transport e)) es)" and "e \<in> set es"
  shows "find (\<lambda>x. de_contract_id x = de_contract_id e \<and> de_transport x = de_transport e) es = Some e"
  using assms
proof (induction es)
  case (Cons a es)
  then show ?case by (auto simp: image_iff)
qed simp

lemma queried_connects:
  assumes inv: "atlas_inv st"
    and r: "r \<in> set (query_with_prefix i k c np t st)" and cap: "e \<in> set (cp_capabilities r)"
    and id: "trim (cp_id r) = cp_id r" and "trim cons \<noteq> []"
  shows "\<exists>tr ep ps. transport_try_from (c_transport e) = Some tr \<and> c_params e = Some ps
    \<and> fst (connect u now cons (cp_id r) (c_contract_id e) tr st) = Inr (''ch-'' @ u, ep, ps)"
proof -
  from r obtain p where p: "p \<in> snd ` set (at_providers st)" and rp: "cp_id r = ps_id p"
      "cp_capabilities r = query_capabilities (trim c) t p"
    by (auto simp: query_with_prefix_def) (metis imageI snd_conv)
  from cap rp obtain d where d: "d \<in> set (ps_endpoints p)" and e: "e = capability_at p d"
    by (auto simp: query_capabilities_def)
  have "hm_wf (at_providers st)" using inv_wf [OF inv] by simp
  from p hm_snd_set [OF this, of p] obtain j where j: "hm_get (at_providers st) j = Some p" by auto
  then have ok: "provider_ok j p" using inv_provider [OF inv] by blast
  then have "cp_id r = j" "j \<noteq> []" "endpoint_ok (ps_namespace p) d"
    using rp d by (auto simp: provider_ok_def)
  moreover have "find (\<lambda>x. de_contract_id x = de_contract_id d \<and> de_transport x = de_transport d) (ps_endpoints p) = Some d"
    using find_distinct [OF _ d] ok by (simp add: provider_ok_def)
  moreover have "de_transport d \<noteq> Transport_Unspecified"
    using \<open>endpoint_ok (ps_namespace p) d\<close> by (cases "de_params d") (auto simp: endpoint_ok_def)
  moreover have "transport_try_from (c_transport e) = Some (de_transport d)"
    by (simp add: e capability_at_def transport_roundtrip)
  ultimately show ?thesis
    using id assms(5) j by (simp add: e capability_at_def connect_def endpoint_ok_def Let_def)
qed

text \<open>What a query returns can be used: for every capability in a query's answer, connecting
  to its provider, contract and transport, on the state the query saw and whatever the lifecycle state,
  succeeds with the parameters the query showed.\<close>

lemma query_then_connect:
  assumes inv: "atlas_inv st"
    and r: "r \<in> set (query_with_prefix i k c np t st)" and cap: "e \<in> set (cp_capabilities r)"
    and id: "trim (cp_id r) = cp_id r" and "trim cons \<noteq> []"
  shows "\<exists>tr ep ps. transport_try_from (c_transport e) = Some tr \<and> c_params e = Some ps
    \<and> fst (connect u now cons (cp_id r) (c_contract_id e) tr st) = Inr (''ch-'' @ u, ep, ps)"
  using assms by (rule queried_connects)

section \<open>Minted endpoints\<close>

lemma mint_total:
  assumes "finite S" and "card S < mint_attempts" and "inj_on (\<lambda>i. take 8 (u i)) {..<mint_attempts}"
    and "\<And>s. collides s \<Longrightarrow> s \<in> S"
  shows "mint_endpoint collides prefix u \<noteq> None"
proof
  let ?f = "\<lambda>i. prefix @ take 8 (u i)"
  assume "mint_endpoint collides prefix u = None"
  then have "?f ` {..<mint_attempts} \<subseteq> S"
    using assms(4) unfolding mint_endpoint_def find_None_iff by auto
  then have "card (?f ` {..<mint_attempts}) \<le> card S" using assms(1) by (intro card_mono)
  moreover have "inj_on ?f {..<mint_attempts}" using assms(3) by (auto simp: inj_on_def)
  ultimately show False using assms(2) by (simp add: card_image)
qed

definition ros2_addresses :: "atlas \<Rightarrow> string \<Rightarrow> string list" where
  "ros2_addresses st own = concat (map (\<lambda>(i, p). if i = own then [] else
     map de_endpoint (filter (\<lambda>e. de_transport e = Transport_Ros2) (ps_endpoints p))) (at_providers st))"

lemma collides_ros2: "endpoint_collides st Transport_Ros2 own s \<Longrightarrow> s \<in> set (ros2_addresses st own)"
  by (auto simp: endpoint_collides_def ros2_addresses_def list_ex_iff)

text \<open>Choosing a ROS 2 endpoint cannot fail when the 16 random suffixes of one call differ
  and the other providers hold fewer than 16 ROS 2 endpoints: the result is the proposal itself, or the
  proposal with a double underscore and 8 digits, or a generated name, and no other provider holds it.\<close>

lemma ros2_endpoint_resolves:
  assumes "inj_on (\<lambda>i. take 8 (u i)) {..<mint_attempts}" and "length (ros2_addresses st own) < mint_attempts"
  shows "\<exists>s. resolve_endpoint st Transport_Ros2 proposed c own u = Inr s
    \<and> \<not> endpoint_collides st Transport_Ros2 own s
    \<and> (s = proposed \<or> (\<exists>i < mint_attempts. s = (if proposed = [] then ''/rbnx/'' @ replace_char (CHR ''/'') (CHR ''.'') c @ ''/''
          else proposed @ ''__'') @ take 8 (u i)))"
proof -
  have "card (set (ros2_addresses st own)) < mint_attempts"
    using assms(2) card_length [of "ros2_addresses st own"] by linarith
  then have total: "mint_endpoint (endpoint_collides st Transport_Ros2 own) pre u \<noteq> None" for pre
    using assms(1) collides_ros2 by (intro mint_total) auto
  show ?thesis
  proof (cases "proposed \<noteq> [] \<and> \<not> endpoint_collides st Transport_Ros2 own proposed")
    case True
    then show ?thesis by (simp add: resolve_endpoint_def Let_def)
  next
    case False
    define pre where "pre = (if proposed = [] then ''/rbnx/'' @ replace_char (CHR ''/'') (CHR ''.'') c @ ''/''
          else proposed @ ''__'')"
    from total obtain s where s: "mint_endpoint (endpoint_collides st Transport_Ros2 own) pre u = Some s"
      by blast
    with False have "resolve_endpoint st Transport_Ros2 proposed c own u = Inr s"
      by (cases "proposed = []") (simp_all add: resolve_endpoint_def Let_def atlas_can_mint_def pre_def)
    with mint_endpoint_Some [OF s] show ?thesis unfolding pre_def [symmetric] by blast
  qed
qed

section \<open>Concrete runs\<close>

text \<open>One provider with the shared lifecycle driver: registered, declared, made ACTIVE.\<close>

definition no_json :: "string \<Rightarrow> string + bool" where
  "no_json s = Inr True"

definition demo_driver :: transport_params where
  "demo_driver = Some (Wire_Grpc ''d.proto'' (driver_service shared_lifecycle_driver_contract)
     (driver_method shared_lifecycle_driver_contract))"

definition demo_boot :: "atlas_op list" where
  "demo_boot =
     [Op_Register ''u0'' ''r0'' 0 ''cam'' Kind_Primitive ''robonix/camera'' [] [],
      Op_Declare (\<lambda>_. ''00000000'') ''cam'' shared_lifecycle_driver_contract Transport_Grpc ''h:1'' demo_driver [],
      Op_Set_State ''cam'' State_Inactive [],
      Op_Set_State ''cam'' State_Active []]"

definition demo_atlas :: atlas where
  "demo_atlas = atlas_run no_json [] demo_boot"

theorem active_has_driver_witness:
  "\<exists>p e f. hm_get (at_providers demo_atlas) ''cam'' = Some p \<and> drivers p = [e] \<and> de_transport e = Transport_Grpc
    \<and> de_params e = Params_Grpc f (driver_service (de_contract_id e)) (driver_method (de_contract_id e))"
proof -
  let ?p = "the (hm_get (at_providers demo_atlas) ''cam'')"
  have p: "hm_get (at_providers (atlas_run no_json [] demo_boot)) ''cam'' = Some ?p"
    and a: "provider_lifecycle ?p = State_Active"
    by code_simp+
  from active_has_driver [OF p a] p show ?thesis
    unfolding demo_atlas_def by blast
qed

lemma demo_inv: "atlas_inv demo_atlas"
  unfolding demo_atlas_def atlas_run_def by (rule atlas.inv_reachable) simp

theorem directory_refinement_witness:
  "directory_of (atlas_step no_json [] (Op_Unregister ''cam'') demo_atlas) = forget ''cam'' (directory_of demo_atlas)"
proof -
  have t: "trim ''cam'' = ''cam''" by code_simp
  show ?thesis
    using directory_refinement [OF demo_inv, of no_json "[]" "Op_Unregister ''cam''"] by (simp add: t)
qed

theorem eviction_round_spec_witness:
  "hm_get (at_providers (eviction_round 200000 90000 600000 demo_atlas)) ''cam'' =
     map_option (terminated 90000) (hm_get (at_providers demo_atlas) ''cam'')"
proof -
  have wf: "hm_wf (at_providers demo_atlas)" "hm_wf (at_channels demo_atlas)" using inv_wf [OF demo_inv] by auto
  have "case hm_get (at_providers demo_atlas) ''cam'' of None \<Rightarrow> False
      | Some p \<Rightarrow> lapsed 200000 90000 p \<and> \<not> stale 200000 90000 600000 (evicted 200000 90000 p)"
    by code_simp
  then obtain p where "hm_get (at_providers demo_atlas) ''cam'' = Some p" "lapsed 200000 90000 p"
    "\<not> stale 200000 90000 600000 (evicted 200000 90000 p)" by (auto split: option.splits)
  with eviction_round_spec [OF wf, of 200000 90000 600000 "''cam''"] show ?thesis
    by (simp add: evicted_def)
qed

text \<open>A second provider on the same ROS 2 topic, a channel to it, and what discovery shows.\<close>

definition demo_pair :: "atlas_op list" where
  "demo_pair = demo_boot @
     [Op_Register ''u1'' ''r1'' 5 ''nav'' Kind_Service ''robonix/nav'' [] [],
      Op_Declare (\<lambda>_. ''00000000'') ''cam'' ''robonix/camera/odom'' Transport_Ros2 ''/odom'' (Some (Wire_Ros2 [])) [],
      Op_Declare show_nat ''nav'' ''robonix/nav/odom'' Transport_Ros2 ''/odom'' (Some (Wire_Ros2 [])) [],
      Op_Connect ''c0'' 7 ''pilot'' ''nav'' ''robonix/nav/odom'' Transport_Ros2]"

definition demo_atlas2 :: atlas where
  "demo_atlas2 = atlas_run no_json [] demo_pair"

lemma demo_inv2: "atlas_inv demo_atlas2"
  unfolding demo_atlas2_def atlas_run_def by (rule atlas.inv_reachable) simp

lemma backed_code:
  assumes "hm_wf (at_channels st)"
  shows "channel_backed st \<longleftrightarrow> list_all (\<lambda>(c, ch). directory_of st (oc_provider_id ch, oc_contract_id ch, oc_transport ch)
    = Some (oc_endpoint ch)) (at_channels st)"
  unfolding channel_backed_def hm_all [OF assms] ..

theorem channels_stay_backed_witness:
  "channel_backed (atlas_step no_json [] (Op_Unregister ''cam'') demo_atlas2)
    \<and> length (at_channels (atlas_step no_json [] (Op_Unregister ''cam'') demo_atlas2)) = 1"
proof
  have wf: "hm_wf (at_channels demo_atlas2)" using inv_wf [OF demo_inv2] by simp
  have b: "channel_backed demo_atlas2" unfolding backed_code [OF wf] by code_simp
  have e: "evict_safe (Op_Unregister ''cam'') demo_atlas2" by (simp add: evict_safe_def)
  show "channel_backed (atlas_step no_json [] (Op_Unregister ''cam'') demo_atlas2)"
    by (rule channels_stay_backed [OF demo_inv2 b e])
  show "length (at_channels (atlas_step no_json [] (Op_Unregister ''cam'') demo_atlas2)) = 1"
    by code_simp
qed

theorem query_then_connect_witness:
  "let r = hd (query_with_prefix ''nav'' Kind_Unspecified [] [] Transport_Unspecified demo_atlas2);
       e = hd (cp_capabilities r) in
     \<exists>tr ep ps. transport_try_from (c_transport e) = Some tr \<and> c_params e = Some ps
       \<and> fst (connect ''c1'' 9 ''pilot'' (cp_id r) (c_contract_id e) tr demo_atlas2) = Inr (''ch-c1'', ep, ps)"
proof -
  let ?rs = "query_with_prefix ''nav'' Kind_Unspecified [] [] Transport_Unspecified demo_atlas2"
  have "?rs \<noteq> []" and "cp_capabilities (hd ?rs) \<noteq> []" and "trim (cp_id (hd ?rs)) = cp_id (hd ?rs)"
    and "trim ''pilot'' \<noteq> []" by code_simp+
  from query_then_connect [OF demo_inv2 hd_in_set [OF this(1)] hd_in_set [OF this(2)] this(3,4), of "''c1''" 9]
  show ?thesis by simp
qed

theorem ros2_endpoint_resolves_witness:
  "\<exists>s. resolve_endpoint demo_atlas Transport_Ros2 ''/odom'' ''robonix/nav/odom'' ''nav'' show_nat = Inr s"
proof -
  have "card ((\<lambda>i. take 8 (show_nat i)) ` {..<mint_attempts}) = card {..<mint_attempts}" by code_simp
  then have "inj_on (\<lambda>i. take 8 (show_nat i)) {..<mint_attempts}" by (rule eq_card_imp_inj_on [rotated]) simp
  moreover have "length (ros2_addresses demo_atlas ''nav'') < mint_attempts" by code_simp
  ultimately show ?thesis using ros2_endpoint_resolves by blast
qed

text \<open>Garbage collection leaves a channel behind: a provider that was set TERMINATED can still
  be connected to, and the round that removes its record keeps the channel, which then names a provider
  the registry does not know.\<close>

lemma gc_orphans_channel:
  "let st = atlas_run no_json [] (demo_boot @
     [Op_Set_State ''cam'' State_Terminated [],
      Op_Connect ''c'' 1 ''pilot'' ''cam'' shared_lifecycle_driver_contract Transport_Grpc,
      Op_Evict 700000 90000 600000]) in
     hm_get (at_providers st) ''cam'' = None
     \<and> map_option oc_provider_id (hm_get (at_channels st) ''ch-c'') = Some ''cam''"
  by code_simp

text \<open>The grace period of the eviction wraps: with a grace of 2^64 - 1 ms, which should keep
  a dead provider's record forever, a round removes the record together with the lapse it detects.\<close>

lemma eviction_grace_wraps:
  "hm_get (at_providers (eviction_round 200000 90000 (- 1) demo_atlas)) ''cam'' = None
   \<and> hm_get (at_providers (eviction_round 200000 90000 600000 demo_atlas)) ''cam'' \<noteq> None"
  by code_simp

text \<open>The lifecycle table has no terminal state: a TERMINATED provider becomes ACTIVE again
  through ERROR and INACTIVE, and an illegal transition is refused without a change.\<close>

theorem terminated_not_terminal:
  "let st = atlas_run no_json [] (demo_boot @
     [Op_Set_State ''cam'' State_Terminated [], Op_Set_State ''cam'' State_Error [],
      Op_Set_State ''cam'' State_Inactive [], Op_Set_State ''cam'' State_Active []]);
       st0 = atlas_run no_json [] (take 2 demo_boot) in
     map_option provider_lifecycle (hm_get (at_providers st) ''cam'') = Some State_Active
     \<and> set_lifecycle_state ''cam'' State_Active [] st0 =
        (Inl (Failed_Precondition
          ''illegal lifecycle transition for provider 'cam': StateRegistered -> StateActive''), st0)"
  by code_simp

text \<open>A query by contract and transport keeps a provider that declares the contract on
  another transport only, with an empty capability list.\<close>

theorem query_keeps_empty_provider:
  "map (\<lambda>r. (cp_id r, cp_capabilities r))
     (query_with_prefix [] Kind_Unspecified shared_lifecycle_driver_contract [] Transport_Mcp demo_atlas)
   = [(''cam'', [])]"
  by code_simp

end
