(* ===== verification/Atlas_Service.thy ===== *)
theory Atlas_Service
  imports Atlas_Properties
begin

text \<open>
  The gRPC facade \<open>AtlasService\<close> of \<open>system/atlas/src/service.rs\<close>: each handler takes the decoded wire
  request, parses the enumerations, calls the registry and builds the response. \<open>inspect_atlas\<close> is left
  out: it serialises the whole state for debugging with an unstable schema.
\<close>

section \<open>Requests and responses\<close>

record register_request =
  rq_id :: string
  rq_namespace :: string
  rq_capability_md_path :: string
  rq_capability_md :: string

record declare_request =
  dr_provider_id :: string
  dr_contract_id :: string
  dr_transport :: int
  dr_endpoint :: string
  dr_params :: "transport_params option"
  dr_description :: string

record query_request =
  qr_kind :: int
  qr_id :: string
  qr_contract_id :: string
  qr_transport :: int
  qr_namespace_prefix :: string

record connect_request =
  cr_consumer_id :: string
  cr_provider_id :: string
  cr_contract_id :: string
  cr_transport :: int

datatype atlas_request =
    Req_Register_Primitive register_request
  | Req_Register_Service register_request
  | Req_Register_Skill register_request
  | Req_Unregister string
  | Req_Heartbeat string
  | Req_Set_Lifecycle_State string int string
  | Req_Declare_Capability declare_request
  | Req_Query query_request
  | Req_Connect_Capability connect_request
  | Req_Disconnect_Capability string
  | Req_Query_Contract string
  | Req_List_Contracts string

datatype atlas_response =
    Resp_Register string
  | Resp_Unregister bool
  | Resp_Heartbeat
  | Resp_Set_Lifecycle_State int
  | Resp_Declare_Capability string
  | Resp_Query "capability_provider list"
  | Resp_Connect_Capability string string "transport_params option"
  | Resp_Disconnect_Capability bool
  | Resp_Query_Contract contract_descriptor bool
  | Resp_List_Contracts "contract_descriptor list"

text \<open>What one call draws from outside: the clock, two uuids and the supply for minting.\<close>

record call_env =
  ce_now :: u64
  ce_uuid :: string
  ce_reg_uuid :: string
  ce_supply :: "nat \<Rightarrow> string"

section \<open>Handlers\<close>

definition map_result :: "('a \<Rightarrow> 'b) \<Rightarrow> (status + 'a) \<times> 's \<Rightarrow> (status + 'b) \<times> 's" where
  "map_result f r = (case r of (Inl e, s) \<Rightarrow> (Inl e, s) | (Inr x, s) \<Rightarrow> (Inr (f x), s))"

definition handle_register :: "call_env \<Rightarrow> kind \<Rightarrow> register_request \<Rightarrow> atlas \<Rightarrow> (status + atlas_response) \<times> atlas" where
  "handle_register env k r st =
     map_result Resp_Register
       (register (ce_uuid env) (ce_reg_uuid env) (ce_now env) (rq_id r) k (rq_namespace r)
         (rq_capability_md_path r) (rq_capability_md r) st)"

definition handle_set_lifecycle_state :: "string \<Rightarrow> int \<Rightarrow> string \<Rightarrow> atlas \<Rightarrow> (status + atlas_response) \<times> atlas" where
  "handle_set_lifecycle_state i state detail st =
     (case lifecycle_try_from state of
        None \<Rightarrow> (Inl (Invalid_Argument (''unknown LifecycleState value: '' @ show_int state)), st)
      | Some new_state \<Rightarrow>
          map_result (\<lambda>prev. Resp_Set_Lifecycle_State (lifecycle_i32 prev)) (set_lifecycle_state i new_state detail st))"

definition handle_declare_capability ::
  "(string \<Rightarrow> string + bool) \<Rightarrow> contract_map \<Rightarrow> call_env \<Rightarrow> declare_request \<Rightarrow> atlas \<Rightarrow> (status + atlas_response) \<times> atlas" where
  "handle_declare_capability json contracts env r st =
     (case parse_transport (dr_transport r) of
        Inl e \<Rightarrow> (Inl e, st)
      | Inr transport \<Rightarrow>
          map_result Resp_Declare_Capability
            (declare_capability json contracts (ce_supply env) (dr_provider_id r) (dr_contract_id r) transport
              (dr_endpoint r) (case dr_params r of None \<Rightarrow> None | Some ps \<Rightarrow> ps) (dr_description r) st))"

definition handle_query :: "query_request \<Rightarrow> atlas \<Rightarrow> atlas_response" where
  "handle_query r st =
     (let transport = (case transport_try_from (qr_transport r) of None \<Rightarrow> Transport_Unspecified | Some t \<Rightarrow> t);
          k = (case kind_try_from (qr_kind r) of None \<Rightarrow> Kind_Unspecified | Some k \<Rightarrow> k)
      in Resp_Query (query_with_prefix (qr_id r) k (qr_contract_id r) (qr_namespace_prefix r) transport st))"

definition handle_connect_capability ::
  "call_env \<Rightarrow> connect_request \<Rightarrow> atlas \<Rightarrow> (status + atlas_response) \<times> atlas" where
  "handle_connect_capability env r st =
     (case parse_transport (cr_transport r) of
        Inl e \<Rightarrow> (Inl e, st)
      | Inr transport \<Rightarrow>
          map_result (\<lambda>(ch, ep, ps). Resp_Connect_Capability ch ep (Some ps))
            (connect (ce_uuid env) (ce_now env) (cr_consumer_id r) (cr_provider_id r) (cr_contract_id r) transport st))"

definition handle_query_contract :: "contract_map \<Rightarrow> string \<Rightarrow> status + atlas_response" where
  "handle_query_contract contracts contract_id =
     (if trim contract_id = [] then Inl (Invalid_Argument ''contract_id required'')
      else (case contract_get contracts (trim contract_id) of
              Some d \<Rightarrow> Inr (Resp_Query_Contract d True)
            | None \<Rightarrow> Inr (Resp_Query_Contract default_contract_descriptor False)))"

fun handle_atlas ::
  "(string \<Rightarrow> string + bool) \<Rightarrow> contract_map \<Rightarrow> call_env \<Rightarrow> atlas_request \<Rightarrow> atlas
    \<Rightarrow> (status + atlas_response) \<times> atlas" where
  "handle_atlas json cts env (Req_Register_Primitive r) st = handle_register env Kind_Primitive r st"
| "handle_atlas json cts env (Req_Register_Service r) st = handle_register env Kind_Service r st"
| "handle_atlas json cts env (Req_Register_Skill r) st = handle_register env Kind_Skill r st"
| "handle_atlas json cts env (Req_Unregister i) st =
     (case unregister i st of (was_present, st') \<Rightarrow> (Inr (Resp_Unregister was_present), st'))"
| "handle_atlas json cts env (Req_Heartbeat i) st = map_result (\<lambda>_. Resp_Heartbeat) (heartbeat (ce_now env) i st)"
| "handle_atlas json cts env (Req_Set_Lifecycle_State i s d) st = handle_set_lifecycle_state i s d st"
| "handle_atlas json cts env (Req_Declare_Capability r) st = handle_declare_capability json cts env r st"
| "handle_atlas json cts env (Req_Query r) st = (Inr (handle_query r st), st)"
| "handle_atlas json cts env (Req_Connect_Capability r) st = handle_connect_capability env r st"
| "handle_atlas json cts env (Req_Disconnect_Capability c) st =
     (case disconnect c st of (was_open, st') \<Rightarrow> (Inr (Resp_Disconnect_Capability was_open), st'))"
| "handle_atlas json cts env (Req_Query_Contract c) st = (handle_query_contract cts c, st)"
| "handle_atlas json cts env (Req_List_Contracts p) st = (Inr (Resp_List_Contracts (list_with_prefix cts p)), st)"

section \<open>Properties\<close>

lemma snd_map_result [simp]: "snd (map_result f r) = snd r"
  by (auto simp: map_result_def split: prod.split sum.split)

lemma fst_map_result: "(\<exists>e. fst (map_result f r) = Inl e) \<longleftrightarrow> (\<exists>e. fst r = Inl e)"
  by (auto simp: map_result_def split: prod.split sum.split)

text \<open>The registry call a request makes, when it makes one.\<close>

fun request_op :: "call_env \<Rightarrow> atlas_request \<Rightarrow> atlas_op option" where
  "request_op env (Req_Register_Primitive r) = Some (Op_Register (ce_uuid env) (ce_reg_uuid env) (ce_now env)
     (rq_id r) Kind_Primitive (rq_namespace r) (rq_capability_md_path r) (rq_capability_md r))"
| "request_op env (Req_Register_Service r) = Some (Op_Register (ce_uuid env) (ce_reg_uuid env) (ce_now env)
     (rq_id r) Kind_Service (rq_namespace r) (rq_capability_md_path r) (rq_capability_md r))"
| "request_op env (Req_Register_Skill r) = Some (Op_Register (ce_uuid env) (ce_reg_uuid env) (ce_now env)
     (rq_id r) Kind_Skill (rq_namespace r) (rq_capability_md_path r) (rq_capability_md r))"
| "request_op env (Req_Unregister i) = Some (Op_Unregister i)"
| "request_op env (Req_Heartbeat i) = Some (Op_Heartbeat (ce_now env) i)"
| "request_op env (Req_Set_Lifecycle_State i s d) = map_option (\<lambda>st. Op_Set_State i st d) (lifecycle_try_from s)"
| "request_op env (Req_Declare_Capability r) = (case parse_transport (dr_transport r) of Inl e \<Rightarrow> None | Inr t \<Rightarrow>
     Some (Op_Declare (ce_supply env) (dr_provider_id r) (dr_contract_id r) t (dr_endpoint r)
       (case dr_params r of None \<Rightarrow> None | Some ps \<Rightarrow> ps) (dr_description r)))"
| "request_op env (Req_Connect_Capability r) = (case parse_transport (cr_transport r) of Inl e \<Rightarrow> None | Inr t \<Rightarrow>
     Some (Op_Connect (ce_uuid env) (ce_now env) (cr_consumer_id r) (cr_provider_id r) (cr_contract_id r) t))"
| "request_op env (Req_Disconnect_Capability c) = Some (Op_Disconnect c)"
| "request_op env r = None"

text \<open>Every wire request changes the registry exactly as the one registry operation it
  decodes to does, and not at all when it decodes to none: an unknown or unspecified enum value, a query, a
  contract lookup. So the invariant holds after any sequence of wire requests.\<close>

lemma handle_atlas_refines:
  "snd (handle_atlas json cts env req st) =
    (case request_op env req of None \<Rightarrow> st | Some op \<Rightarrow> atlas_step json cts op st)"
  by (cases req)
    (auto simp: handle_register_def handle_set_lifecycle_state_def handle_declare_capability_def
      handle_connect_capability_def split: option.splits sum.splits prod.splits)

lemma error_unchanged_op:
  assumes "fst (handle_atlas json cts env req st) = Inl e"
  shows "snd (handle_atlas json cts env req st) = st"
proof -
  have reg: "snd (register u ru now i k ns mp md st) = st" if "fst (register u ru now i k ns mp md st) = Inl e"
    for u ru now i k ns mp md
    using that by (auto simp: register_def Let_def split: sum.splits option.splits if_splits)
  have hb: "snd (heartbeat now i st) = st" if "fst (heartbeat now i st) = Inl e" for now i
    using that by (auto simp: heartbeat_def split: sum.splits option.splits)
  have ls: "snd (set_lifecycle_state i s d st) = st" if "fst (set_lifecycle_state i s d st) = Inl e" for i s d
    using that by (auto simp: set_lifecycle_state_def Let_def split: sum.splits option.splits if_splits)
  have dc: "snd (declare_capability json cts us i c t pr wp ds st) = st"
    if "fst (declare_capability json cts us i c t pr wp ds st) = Inl e" for us i c t pr wp ds
    using that by (auto simp: declare_capability_def Let_def split: sum.splits option.splits)
  have cn: "snd (connect u now cons i c t st) = st" if "fst (connect u now cons i c t st) = Inl e" for u now cons i c t
    using that by (auto simp: connect_def Let_def split: sum.splits option.splits if_splits)
  have inl: "fst r = Inl e" if "fst (map_result f r) = Inl e" for f :: "'b \<Rightarrow> atlas_response" and r :: "(status + 'b) \<times> atlas"
    using that by (auto simp: map_result_def split: prod.splits sum.splits)
  show ?thesis
    using assms
    by (cases req)
      (auto simp: handle_register_def handle_set_lifecycle_state_def handle_declare_capability_def
        handle_connect_capability_def dest!: inl intro: reg hb ls dc cn split: option.splits sum.splits prod.splits)
qed

text \<open>A request that is answered with an error status has changed nothing.\<close>

lemma handle_atlas_error_unchanged:
  "handle_atlas json cts env req st = (Inl e, st') \<Longrightarrow> st' = st"
  using error_unchanged_op [of json cts env req st e] by simp

definition demo_env :: call_env where
  "demo_env = \<lparr>ce_now = 1, ce_uuid = ''u'', ce_reg_uuid = ''r'', ce_supply = show_nat\<rparr>"

theorem handle_atlas_error_unchanged_witness:
  "snd (handle_atlas no_json [] demo_env (Req_Set_Lifecycle_State ''cam'' 1 []) demo_atlas) = demo_atlas"
proof -
  have "case fst (handle_atlas no_json [] demo_env (Req_Set_Lifecycle_State ''cam'' 1 []) demo_atlas) of
      Inl e \<Rightarrow> True | Inr r \<Rightarrow> False" by code_simp
  then obtain e st' where "handle_atlas no_json [] demo_env (Req_Set_Lifecycle_State ''cam'' 1 []) demo_atlas = (Inl e, st')"
    by (metis old.sum.simps(6) prod.collapse sum.exhaust_sel)
  with handle_atlas_error_unchanged [OF this] show ?thesis by simp
qed

end
