(* ===== verification/Plan_Validate.thy ===== *)
theory Plan_Validate
  imports Rust_Str
begin

text \<open>
  Plans and their validation: the messages of \<open>capabilities/lib/pilot/msg\<close>, the wire events of
  \<open>system/executor/src/rtdl_wire.rs\<close>, and \<open>validate_plan\<close> with its depth-first cycle check from
  \<open>system/executor/src/service.rs\<close>. Node kinds, states and indices are 32-bit numbers on the wire that
  are only compared and used as indices: they are naturals here.

  The main result: a plan is accepted exactly when it is well formed and no cycle is reachable from its
  root.
\<close>

section \<open>Messages\<close>

record capability_call =
  cc_call_id :: string
  cc_provider_id :: string
  cc_contract_id :: string
  cc_args_json :: string

record call_result =
  cr_call_id :: string
  cr_result_provider_id :: string
  cr_result_contract_id :: string
  cr_success :: bool
  cr_output :: string
  cr_error :: string

record rtdl_node =
  rn_node_kind :: nat
  rn_children :: "nat list"
  rn_call :: "capability_call option"
  rn_op_id :: string
  rn_description :: string

record plan =
  pl_plan_id :: string
  pl_root_index :: nat
  pl_nodes :: "rtdl_node list"

definition rtdl_sequence :: nat where "rtdl_sequence = 0"
definition rtdl_parallel :: nat where "rtdl_parallel = 1"
definition rtdl_do :: nat where "rtdl_do = 2"

text \<open>\<open>RtdlNodeStateEnum\<close> by its wire numbers.\<close>

definition st_pending :: nat where "st_pending = 0"
definition st_running :: nat where "st_running = 1"
definition st_succeeded :: nat where "st_succeeded = 2"
definition st_failed :: nat where "st_failed = 3"
definition st_canceled :: nat where "st_canceled = 4"
definition st_timeout :: nat where "st_timeout = 5"
definition st_paused :: nat where "st_paused = 6"
definition st_verifying :: nat where "st_verifying = 7"

lemmas st_defs = st_pending_def st_running_def st_succeeded_def st_failed_def st_canceled_def
  st_timeout_def st_paused_def st_verifying_def

lemmas rtdl_defs = rtdl_sequence_def rtdl_parallel_def rtdl_do_def

definition is_terminal_state :: "nat \<Rightarrow> bool" where
  "is_terminal_state state \<longleftrightarrow> state \<in> {st_succeeded, st_failed, st_canceled, st_timeout}"

section \<open>Events\<close>

record node_event_context =
  ne_plan_id :: string
  ne_node_index :: nat
  ne_node_kind :: nat
  ne_op_id :: string
  ne_description :: string

datatype rtdl_event =
    Plan_Started string
  | Node_State node_event_context nat string "call_result option"
  | Plan_Complete string bool

definition node_state_from_result :: "node_event_context \<Rightarrow> call_result \<Rightarrow> nat \<Rightarrow> rtdl_event" where
  "node_state_from_result node result state = Node_State node state [] (Some result)"

definition operator_node_state :: "node_event_context \<Rightarrow> nat \<Rightarrow> string \<Rightarrow> rtdl_event" where
  "operator_node_state node state detail = Node_State node state detail None"

section \<open>Validation\<close>

definition validate_call :: "nat \<Rightarrow> capability_call \<Rightarrow> string + unit" where
  "validate_call node_index call =
     (if cc_call_id call = [] then Inl (''do node '' @ show_nat node_index @ '' call_id must not be empty'')
      else if cc_provider_id call = [] then
        Inl (''do node '' @ show_nat node_index @ '' provider_id must not be empty'')
      else if cc_contract_id call = [] then
        Inl (''do node '' @ show_nat node_index @ '' contract_id must not be empty'')
      else Inr ())"

fun validate_children :: "nat \<Rightarrow> nat \<Rightarrow> nat list \<Rightarrow> string + unit" where
  "validate_children idx len [] = Inr ()"
| "validate_children idx len (c # cs) =
     (if c \<ge> len then Inl (''node '' @ show_nat idx @ '' child index '' @ show_nat c @ '' is out of bounds'')
      else validate_children idx len cs)"

definition validate_node_kind :: "nat \<Rightarrow> nat \<Rightarrow> rtdl_node \<Rightarrow> string + unit" where
  "validate_node_kind len idx node =
     (if rn_node_kind node = rtdl_sequence \<or> rn_node_kind node = rtdl_parallel then
        validate_children idx len (rn_children node)
      else if rn_node_kind node = rtdl_do then
        (if rn_children node \<noteq> [] then Inl (''do node '' @ show_nat idx @ '' must not have children'')
         else (case rn_call node of
                 None \<Rightarrow> Inl (''do node '' @ show_nat idx @ '' must contain a call'')
               | Some call \<Rightarrow> validate_call idx call))
      else Inl (''node '' @ show_nat idx @ '' has invalid node_kind '' @ show_nat (rn_node_kind node)))"

text \<open>The loop over the nodes, with the set of op ids seen so far.\<close>

fun validate_nodes :: "nat \<Rightarrow> nat \<Rightarrow> string set \<Rightarrow> rtdl_node list \<Rightarrow> string + unit" where
  "validate_nodes len idx op_ids [] = Inr ()"
| "validate_nodes len idx op_ids (node # nodes) =
     (let op_id = trim (rn_op_id node)
      in if op_id = [] then Inl (''node '' @ show_nat idx @ '' op_id must not be empty'')
         else if op_id \<in> op_ids then
           Inl (''node '' @ show_nat idx @ '' has duplicate op_id '' @ quoted op_id)
         else if trim (rn_description node) = [] then
           Inl (''node '' @ show_nat idx @ '' description must not be empty'')
         else (case validate_node_kind len idx node of
                 Inl e \<Rightarrow> Inl e
               | Inr _ \<Rightarrow> validate_nodes len (Suc idx) (insert op_id op_ids) nodes))"

datatype visit_color = White | Gray | Black

definition whites :: "visit_color list \<Rightarrow> nat" where
  "whites cs = length (filter (\<lambda>c. c = White) cs)"

text \<open>The children the cycle check follows.\<close>

definition cycle_children :: "plan \<Rightarrow> nat \<Rightarrow> nat list" where
  "cycle_children pl i =
     (let node = pl_nodes pl ! i
      in if rn_node_kind node = rtdl_sequence \<or> rn_node_kind node = rtdl_parallel
         then rn_children node else [])"

text \<open>\<open>visit_for_cycles\<close> with the colour array threaded. An index out of bounds panics in the code; it is
  a left value here, and a validated plan has none.\<close>

function (sequential)
  visit_for_cycles :: "plan \<Rightarrow> nat \<Rightarrow> visit_color list \<Rightarrow> (string + unit) \<times> visit_color list"
and visit_children :: "plan \<Rightarrow> nat list \<Rightarrow> visit_color list \<Rightarrow> (string + unit) \<times> visit_color list" where
  "visit_for_cycles pl i colors =
     (if i \<ge> length colors \<or> i \<ge> length (pl_nodes pl) then (Inl ''index out of bounds'', colors)
      else if colors ! i = Gray then (Inl (''cycle detected at node '' @ show_nat i), colors)
      else if colors ! i = Black then (Inr (), colors)
      else (case visit_children pl (cycle_children pl i) (colors[i := Gray]) of
              (Inl e, colors') \<Rightarrow> (Inl e, colors')
            | (Inr _, colors') \<Rightarrow> (Inr (), colors'[i := Black])))"
| "visit_children pl [] colors = (Inr (), colors)"
| "visit_children pl (c # cs) colors =
     (case visit_for_cycles pl c colors of
        (Inl e, colors') \<Rightarrow> (Inl e, colors')
      | (Inr _, colors') \<Rightarrow> visit_children pl cs colors')"
  by pat_completeness auto
text \<open>No call turns a node white, so the number of white nodes and then the length of the child list
  decrease.\<close>

lemma whites_not_more: "x \<noteq> White \<Longrightarrow> whites (cs[i := x]) \<le> whites cs"
proof (induction cs arbitrary: i)
  case (Cons c cs)
  show ?case
  proof (cases i)
    case 0
    with Cons.prems show ?thesis by (simp add: whites_def)
  next
    case (Suc j)
    with Cons.IH [OF Cons.prems, of j] show ?thesis by (simp add: whites_def)
  qed
qed simp

lemma whites_less: "x \<noteq> White \<Longrightarrow> i < length cs \<Longrightarrow> cs ! i = White \<Longrightarrow> whites (cs[i := x]) < whites cs"
proof (induction cs arbitrary: i)
  case (Cons c cs)
  show ?case
  proof (cases i)
    case 0
    with Cons.prems show ?thesis by (simp add: whites_def)
  next
    case (Suc j)
    with Cons.IH [OF Cons.prems(1), of j] Cons.prems show ?thesis by (simp add: whites_def)
  qed
qed simp

lemma visit_whites:
  "visit_for_cycles_visit_children_dom (Inl (pl, i, colors)) \<Longrightarrow>
     whites (snd (visit_for_cycles pl i colors)) \<le> whites colors"
  "visit_for_cycles_visit_children_dom (Inr (pl, cs, colors)) \<Longrightarrow>
     whites (snd (visit_children pl cs colors)) \<le> whites colors"
proof (induction pl i colors and pl cs colors rule: visit_for_cycles_visit_children.pinduct)
  case (1 pl i colors)
  show ?case
  proof (cases "i \<ge> length colors \<or> i \<ge> length (pl_nodes pl) \<or> colors ! i = Gray \<or> colors ! i = Black")
    case True
    then show ?thesis
      by (auto simp: visit_for_cycles.psimps [OF "1.hyps"])
  next
    case False
    obtain r colors' where r: "visit_children pl (cycle_children pl i) (colors[i := Gray]) = (r, colors')"
      by fastforce
    with "1.IH" False have "whites colors' \<le> whites (colors[i := Gray])" by auto
    also have "\<dots> \<le> whites colors" by (rule whites_not_more) simp
    finally show ?thesis
      using False r whites_not_more [of Black colors' i]
      by (cases r) (auto simp: visit_for_cycles.psimps [OF "1.hyps"])
  qed
next
  case (2 pl colors)
  then show ?case by (simp add: visit_children.psimps)
next
  case (3 pl c cs colors)
  obtain r colors' where r: "visit_for_cycles pl c colors = (r, colors')" by fastforce
  with "3.IH"(1) have 1: "whites colors' \<le> whites colors" by simp
  show ?case
  proof (cases r)
    case (Inl e)
    with r 1 show ?thesis by (simp add: visit_children.psimps(2) [OF "3.hyps"])
  next
    case (Inr u)
    with "3.IH"(2) [OF r [symmetric]] r 1 show ?thesis
      by (simp add: visit_children.psimps(2) [OF "3.hyps"])
  qed
qed

termination visit_for_cycles
proof (relation "measures
    [\<lambda>x. case x of Inl (pl, i, colors) \<Rightarrow> whites colors | Inr (pl, cs, colors) \<Rightarrow> whites colors,
     \<lambda>x. case x of Inl _ \<Rightarrow> 0 | Inr (pl, cs, colors) \<Rightarrow> Suc (length cs)]", goal_cases)
  case 1
  then show ?case by simp
next
  case (2 pl i colors)
  then have "colors ! i = White" by (cases "colors ! i") auto
  with 2 whites_less [of Gray i colors] show ?case by simp
next
  case (3 pl c cs colors)
  then show ?case by simp
next
  case (4 pl c cs colors r colors' u)
  then have "whites colors' \<le> whites colors"
    using visit_whites(1) [of pl c colors] by (metis snd_conv)
  then show ?case by auto
qed

declare visit_for_cycles.simps [simp del]

definition validate_plan :: "plan \<Rightarrow> string + unit" where
  "validate_plan pl =
     (let len = length (pl_nodes pl) in
      if pl_nodes pl = [] then Inl ''Plan.nodes must not be empty''
      else if pl_root_index pl \<ge> len then
        Inl (''Plan.root_index '' @ show_nat (pl_root_index pl) @ '' is out of bounds for ''
             @ show_nat len @ '' nodes'')
      else (case validate_nodes len 0 {} (pl_nodes pl) of
              Inl e \<Rightarrow> Inl e
            | Inr _ \<Rightarrow> fst (visit_for_cycles pl (pl_root_index pl) (replicate len White))))"

section \<open>The cycle check is exact\<close>

definition edge :: "plan \<Rightarrow> nat \<Rightarrow> nat \<Rightarrow> bool" where
  "edge pl i j \<longleftrightarrow> j \<in> set (cycle_children pl i)"

definition in_range :: "plan \<Rightarrow> bool" where
  "in_range pl \<longleftrightarrow> (\<forall>i < length (pl_nodes pl). \<forall>j. edge pl i j \<longrightarrow> j < length (pl_nodes pl))"

definition having :: "visit_color \<Rightarrow> visit_color list \<Rightarrow> nat set" where
  "having c colors = {i. i < length colors \<and> colors ! i = c}"

text \<open>Finished nodes lead to finished nodes only, and lie on no cycle.\<close>

definition dfs_inv :: "plan \<Rightarrow> visit_color list \<Rightarrow> bool" where
  "dfs_inv pl colors \<longleftrightarrow> length colors = length (pl_nodes pl)
     \<and> (\<forall>i \<in> having Black colors. \<forall>j. edge pl i j \<longrightarrow> j \<in> having Black colors)
     \<and> (\<forall>i \<in> having Black colors. \<not> (edge pl)\<^sup>+\<^sup>+ i i)"

lemma having_update:
  "i < length colors \<Longrightarrow> having c (colors[i := d]) = (if c = d then insert i (having c colors) else having c colors - {i})"
  by (auto simp: having_def nth_list_update split: if_splits)

lemma black_closed:
  assumes "dfs_inv pl colors" and "(edge pl)\<^sup>*\<^sup>* i j" and "i \<in> having Black colors"
  shows "j \<in> having Black colors"
  using assms(2,3)
  by (induction rule: rtranclp_induct) (use assms(1) in \<open>auto simp: dfs_inv_def\<close>)

lemma dfs_inv_gray:
  assumes "dfs_inv pl colors" and "i < length colors" and "colors ! i = White"
  shows "dfs_inv pl (colors[i := Gray])" and "having Black (colors[i := Gray]) = having Black colors"
    and "having Gray (colors[i := Gray]) = insert i (having Gray colors)"
proof -
  have "i \<notin> having Black colors" using assms(3) by (simp add: having_def)
  then show b: "having Black (colors[i := Gray]) = having Black colors"
    using having_update [OF assms(2), of Black Gray] by simp
  show "having Gray (colors[i := Gray]) = insert i (having Gray colors)"
    using having_update [OF assms(2), of Gray Gray] by simp
  show "dfs_inv pl (colors[i := Gray])"
    using assms(1) by (simp add: dfs_inv_def b)
qed

lemma dfs_inv_black:
  assumes inv: "dfs_inv pl colors" and "i \<in> having Gray colors" and ch: "\<And>j. edge pl i j \<Longrightarrow> j \<in> having Black colors"
  shows "dfs_inv pl (colors[i := Black])" and "having Black (colors[i := Black]) = insert i (having Black colors)"
    and "having Gray (colors[i := Black]) = having Gray colors - {i}"
proof -
  have i: "i < length colors" "i \<notin> having Black colors" using assms(2) by (auto simp: having_def)
  show b: "having Black (colors[i := Black]) = insert i (having Black colors)"
    using having_update [OF i(1), of Black Black] by simp
  show "having Gray (colors[i := Black]) = having Gray colors - {i}"
    using having_update [OF i(1), of Gray Black] by simp
  have "\<not> (edge pl)\<^sup>+\<^sup>+ i i"
  proof
    assume "(edge pl)\<^sup>+\<^sup>+ i i"
    then obtain c where "edge pl i c" "(edge pl)\<^sup>*\<^sup>* c i" by (metis tranclpD)
    with ch black_closed [OF inv] i(2) show False by blast
  qed
  with inv ch show "dfs_inv pl (colors[i := Black])" unfolding dfs_inv_def b by auto
qed

lemma visit_sound:
  "\<lbrakk>dfs_inv pl colors; fst (visit_for_cycles pl i colors) = Inr ()\<rbrakk> \<Longrightarrow>
     dfs_inv pl (snd (visit_for_cycles pl i colors)) \<and> i \<in> having Black (snd (visit_for_cycles pl i colors))
     \<and> having Black colors \<subseteq> having Black (snd (visit_for_cycles pl i colors))
     \<and> having Gray (snd (visit_for_cycles pl i colors)) = having Gray colors"
  "\<lbrakk>dfs_inv pl colors; fst (visit_children pl cs colors) = Inr ()\<rbrakk> \<Longrightarrow>
     dfs_inv pl (snd (visit_children pl cs colors)) \<and> set cs \<subseteq> having Black (snd (visit_children pl cs colors))
     \<and> having Black colors \<subseteq> having Black (snd (visit_children pl cs colors))
     \<and> having Gray (snd (visit_children pl cs colors)) = having Gray colors"
proof (induction pl i colors and pl cs colors rule: visit_for_cycles_visit_children.induct)
  case (1 pl i colors)
  have i: "i < length colors" "i < length (pl_nodes pl)" "colors ! i \<noteq> Gray"
    using "1.prems"(2) by (auto simp: visit_for_cycles.simps [of pl i colors] split: if_splits)
  show ?case
  proof (cases "colors ! i")
    case Black
    with "1.prems" i show ?thesis by (simp add: visit_for_cycles.simps [of pl i colors] having_def)
  next
    case Gray
    with i show ?thesis by simp
  next
    case White
    note g = dfs_inv_gray [OF "1.prems"(1) i(1) White]
    obtain r c' where r: "visit_children pl (cycle_children pl i) (colors[i := Gray]) = (r, c')" by fastforce
    with "1.prems"(2) i White have v: "visit_for_cycles pl i colors = (Inr (), c'[i := Black])" "r = Inr ()"
      by (auto simp: visit_for_cycles.simps [of pl i colors] split: sum.splits)
    with "1.IH" g(1) i White r have c': "dfs_inv pl c'" "set (cycle_children pl i) \<subseteq> having Black c'"
      "having Black (colors[i := Gray]) \<subseteq> having Black c'" "having Gray c' = having Gray (colors[i := Gray])"
      by simp_all
    have "i \<in> having Gray c'" using c'(4) g(3) by simp
    note b = dfs_inv_black [OF c'(1) this]
    have "\<And>j. edge pl i j \<Longrightarrow> j \<in> having Black c'" using c'(2) by (auto simp: edge_def)
    note b = b [OF this]
    have "i \<notin> having Gray colors" using White by (simp add: having_def)
    then show ?thesis
      unfolding v using b c' g by auto
  qed
next
  case (2 pl colors)
  then show ?case by simp
next
  case (3 pl c cs colors)
  obtain r c1 where r: "visit_for_cycles pl c colors = (r, c1)" by fastforce
  with "3.prems"(2) have "r = Inr ()" by (cases r) auto
  with "3.IH"(1) [OF "3.prems"(1)] r have 1: "dfs_inv pl c1" "c \<in> having Black c1"
    "having Black colors \<subseteq> having Black c1" "having Gray c1 = having Gray colors" by simp_all
  have "visit_children pl (c # cs) colors = visit_children pl cs c1"
    using r \<open>r = Inr ()\<close> by simp
  with "3.IH"(2) [OF r [symmetric] \<open>r = Inr ()\<close>] 1 "3.prems"(2) show ?case by auto
qed

lemma visit_complete:
  "\<lbrakk>in_range pl; dfs_inv pl colors; i < length (pl_nodes pl); \<forall>g \<in> having Gray colors. (edge pl)\<^sup>+\<^sup>+ g i;
     fst (visit_for_cycles pl i colors) = Inl e\<rbrakk> \<Longrightarrow> \<exists>n. (edge pl)\<^sup>*\<^sup>* i n \<and> (edge pl)\<^sup>+\<^sup>+ n n"
  "\<lbrakk>in_range pl; dfs_inv pl colors; \<forall>c \<in> set cs. c < length (pl_nodes pl) \<and> (\<forall>g \<in> having Gray colors. (edge pl)\<^sup>+\<^sup>+ g c);
     fst (visit_children pl cs colors) = Inl e\<rbrakk> \<Longrightarrow> \<exists>c \<in> set cs. \<exists>n. (edge pl)\<^sup>*\<^sup>* c n \<and> (edge pl)\<^sup>+\<^sup>+ n n"
proof (induction pl i colors and pl cs colors arbitrary: e and e rule: visit_for_cycles_visit_children.induct)
  case (1 pl i colors)
  have len: "i < length colors" using "1.prems"(2,3) by (simp add: dfs_inv_def)
  show ?case
  proof (cases "colors ! i")
    case Black
    with "1.prems" len show ?thesis by (simp add: visit_for_cycles.simps [of pl i colors])
  next
    case Gray
    with "1.prems"(4) len have "(edge pl)\<^sup>+\<^sup>+ i i" by (simp add: having_def)
    then show ?thesis by blast
  next
    case White
    note g = dfs_inv_gray [OF "1.prems"(2) len White]
    have "fst (visit_children pl (cycle_children pl i) (colors[i := Gray])) = Inl e"
      using "1.prems"(3,5) len White
      by (auto simp: visit_for_cycles.simps [of pl i colors] split: prod.splits sum.splits)
    moreover have "\<forall>c \<in> set (cycle_children pl i). c < length (pl_nodes pl)
        \<and> (\<forall>x \<in> having Gray (colors[i := Gray]). (edge pl)\<^sup>+\<^sup>+ x c)"
      using "1.prems"(1,3,4) unfolding g(3) in_range_def
      by (auto simp: edge_def [symmetric] intro: tranclp.r_into_trancl tranclp_trans tranclp.trancl_into_trancl)
    ultimately obtain c n where "c \<in> set (cycle_children pl i)" "(edge pl)\<^sup>*\<^sup>* c n" "(edge pl)\<^sup>+\<^sup>+ n n"
      using "1.IH" [OF _ _ _ "1.prems"(1) g(1)] "1.prems"(3) len White by auto
    then show ?thesis by (metis converse_rtranclp_into_rtranclp edge_def)
  qed
next
  case (2 pl colors)
  then show ?case by simp
next
  case (3 pl c cs colors)
  obtain r c1 where r: "visit_for_cycles pl c colors = (r, c1)" by fastforce
  show ?case
  proof (cases r)
    case (Inl e')
    with r "3.IH"(1) [OF "3.prems"(1,2), of e'] "3.prems"(3) show ?thesis by auto
  next
    case (Inr u)
    with visit_sound(1) [OF "3.prems"(2), of c] r have 1: "dfs_inv pl c1" "having Gray c1 = having Gray colors"
      by simp_all
    from r Inr "3.prems"(4) have "fst (visit_children pl cs c1) = Inl e" by simp
    with "3.IH"(2) [OF r [symmetric] Inr "3.prems"(1) 1(1)] "3.prems"(3) 1(2) show ?thesis by auto
  qed
qed

section \<open>What validation accepts\<close>

definition call_wf :: "capability_call \<Rightarrow> bool" where
  "call_wf call \<longleftrightarrow> cc_call_id call \<noteq> [] \<and> cc_provider_id call \<noteq> [] \<and> cc_contract_id call \<noteq> []"

definition node_wf :: "nat \<Rightarrow> rtdl_node \<Rightarrow> bool" where
  "node_wf len node \<longleftrightarrow> trim (rn_op_id node) \<noteq> [] \<and> trim (rn_description node) \<noteq> []
     \<and> (if rn_node_kind node = rtdl_do
        then rn_children node = [] \<and> (case rn_call node of None \<Rightarrow> False | Some call \<Rightarrow> call_wf call)
        else rn_node_kind node \<in> {rtdl_sequence, rtdl_parallel} \<and> list_all (\<lambda>c. c < len) (rn_children node))"

definition plan_wf :: "plan \<Rightarrow> bool" where
  "plan_wf pl \<longleftrightarrow> pl_root_index pl < length (pl_nodes pl)
     \<and> list_all (node_wf (length (pl_nodes pl))) (pl_nodes pl)
     \<and> distinct (map (\<lambda>n. trim (rn_op_id n)) (pl_nodes pl))"

lemma unit_result: "(r :: string + unit) \<noteq> Inr () \<longleftrightarrow> (\<exists>e. r = Inl e)"
  by (cases r) auto

lemma validate_call_iff: "validate_call i call = Inr () \<longleftrightarrow> call_wf call"
  by (simp add: validate_call_def call_wf_def)

lemma validate_children_iff: "validate_children idx len cs = Inr () \<longleftrightarrow> list_all (\<lambda>c. c < len) cs"
  by (induction idx len cs rule: validate_children.induct) (auto simp: not_le)

lemma validate_node_kind_iff:
  assumes "trim (rn_op_id node) \<noteq> []" and "trim (rn_description node) \<noteq> []"
  shows "validate_node_kind len idx node = Inr () \<longleftrightarrow> node_wf len node"
  using assms by (auto simp: validate_node_kind_def node_wf_def validate_children_iff validate_call_iff rtdl_defs
      split: option.splits)

lemma validate_nodes_iff:
  "validate_nodes len idx seen nodes = Inr () \<longleftrightarrow>
     list_all (node_wf len) nodes \<and> distinct (map (\<lambda>n. trim (rn_op_id n)) nodes)
     \<and> seen \<inter> set (map (\<lambda>n. trim (rn_op_id n)) nodes) = {}"
proof (induction nodes arbitrary: idx seen)
  case (Cons node nodes)
  show ?case
  proof (cases "trim (rn_op_id node) = [] \<or> trim (rn_description node) = [] \<or> trim (rn_op_id node) \<in> seen")
    case True
    then show ?thesis by (auto simp: node_wf_def Let_def)
  next
    case False
    then show ?thesis
      using Cons.IH [of "Suc idx" "insert (trim (rn_op_id node)) seen"] validate_node_kind_iff [of node len idx]
      by (auto simp: Let_def split: sum.split)
  qed
qed simp

lemma wf_in_range: "list_all (node_wf (length (pl_nodes pl))) (pl_nodes pl) \<Longrightarrow> in_range pl"
  by (fastforce simp: in_range_def edge_def cycle_children_def Let_def node_wf_def list_all_iff rtdl_defs
      dest: nth_mem split: if_splits)

lemma validated_wf_acyclic:
  "validate_plan pl = Inr () \<longleftrightarrow>
     plan_wf pl \<and> (\<forall>n. (edge pl)\<^sup>*\<^sup>* (pl_root_index pl) n \<longrightarrow> \<not> (edge pl)\<^sup>+\<^sup>+ n n)"
proof (cases "plan_wf pl")
  case False
  then show ?thesis
    using validate_nodes_iff [of "length (pl_nodes pl)" 0 "{}" "pl_nodes pl"]
    by (auto simp: validate_plan_def plan_wf_def Let_def not_le split: sum.splits)
next
  case True
  let ?n = "length (pl_nodes pl)" and ?r = "pl_root_index pl"
  let ?c = "replicate ?n White"
  have root: "?r < ?n" and rng: "in_range pl" using True wf_in_range by (auto simp: plan_wf_def)
  have "validate_nodes ?n 0 {} (pl_nodes pl) = Inr ()"
    using True by (simp add: validate_nodes_iff plan_wf_def)
  with root have v: "validate_plan pl = fst (visit_for_cycles pl ?r ?c)"
    by (auto simp: validate_plan_def Let_def)
  have none: "having Black ?c = {}" "having Gray ?c = {}" by (auto simp: having_def)
  then have inv: "dfs_inv pl ?c" by (simp add: dfs_inv_def)
  show ?thesis
  proof (cases "fst (visit_for_cycles pl ?r ?c)")
    case (Inl e)
    with visit_complete(1) [OF rng inv root, of e] none v show ?thesis by auto
  next
    case (Inr u)
    then have f: "fst (visit_for_cycles pl ?r ?c) = Inr ()" by simp
    note s = visit_sound(1) [OF inv f]
    then have "n \<in> having Black (snd (visit_for_cycles pl ?r ?c))" if "(edge pl)\<^sup>*\<^sup>* ?r n" for n
      using black_closed that by blast
    with s f v True show ?thesis by (auto simp: dfs_inv_def)
  qed
qed

text \<open>C7 (equivalence). \<open>validate_plan\<close> accepts exactly the executable plans: a root in range, distinct
  non-blank op ids, non-blank descriptions, operators whose children are in range, leaves with a complete
  call and no children, and no cycle that the root reaches.\<close>

theorem validate_plan_iff:
  "validate_plan pl = Inr () \<longleftrightarrow>
     plan_wf pl \<and> \<not> (\<exists>n. (edge pl)\<^sup>*\<^sup>* (pl_root_index pl) n \<and> (edge pl)\<^sup>+\<^sup>+ n n)"
  unfolding validated_wf_acyclic by blast

end
