(* ===== verification/Plan_Runtime.thy ===== *)
theory Plan_Runtime
  imports Plan_Validate
begin

text \<open>
  The table of active plans of \<open>system/executor/src/plan_runtime.rs\<close>: registration, live node states, stop
  points, the async calls a cancellation must reach, and the plan-control operations. Every method takes
  the table's lock once for its state change; provider cancel calls are made after the lock is released,
  so an operation returns the calls to send. The deserialiser of call arguments and the JSON printer are
  parameters; a JSON document is a value of the type \<open>json\<close>.
\<close>

section \<open>State\<close>

record running_async_call =
  ra_call_id :: string
  ra_provider_id :: string
  ra_cancel_contract :: string
  ra_run_id :: string

datatype stop_when = On_Enter | On_Complete

record op_meta =
  om_op_id :: string
  om_description :: string
  om_node_kind :: nat
  om_provider_id :: string
  om_contract_id :: string

record plan_run =
  pr_cancelled :: bool
  pr_running_async :: "(string, running_async_call) hmap"
  pr_stop_points :: "(string, stop_when) hmap"
  pr_description :: string
  pr_ops :: "op_meta list"
  pr_op_state :: "(string, nat) hmap"

type_synonym plan_runtime = "(string, plan_run) hmap"

definition default_cancel_wait_ms :: u64 where
  "default_cancel_wait_ms = 5000"

definition parse_stop_when :: "string \<Rightarrow> stop_when option" where
  "parse_stop_when s =
     (if trim s = ''on_enter'' \<or> trim s = ''before'' then Some On_Enter
      else if trim s = ''on_complete'' \<or> trim s = ''after'' then Some On_Complete
      else None)"

section \<open>Registration and progress\<close>

definition fresh_run :: plan_run where
  "fresh_run = \<lparr>pr_cancelled = False, pr_running_async = [], pr_stop_points = [], pr_description = [],
     pr_ops = [], pr_op_state = []\<rparr>"

definition register_plan :: "string \<Rightarrow> plan_runtime \<Rightarrow> plan_runtime" where
  "register_plan plan_id rt = hm_insert plan_id fresh_run rt"

definition op_meta_of :: "rtdl_node \<Rightarrow> op_meta" where
  "op_meta_of n = \<lparr>om_op_id = rn_op_id n, om_description = rn_description n, om_node_kind = rn_node_kind n,
     om_provider_id = (case rn_call n of None \<Rightarrow> [] | Some call \<Rightarrow> cc_provider_id call),
     om_contract_id = (case rn_call n of None \<Rightarrow> [] | Some call \<Rightarrow> cc_contract_id call)\<rparr>"

definition record_plan_ops :: "plan \<Rightarrow> plan_runtime \<Rightarrow> plan_runtime" where
  "record_plan_ops pl rt =
     hm_modify (pl_plan_id pl)
       (\<lambda>run. run\<lparr>pr_ops := map op_meta_of (pl_nodes pl),
                  pr_description := (if pl_root_index pl < length (pl_nodes pl)
                    then rn_description (pl_nodes pl ! pl_root_index pl) else [])\<rparr>) rt"

definition record_op_state :: "string \<Rightarrow> string \<Rightarrow> nat \<Rightarrow> plan_runtime \<Rightarrow> plan_runtime" where
  "record_op_state plan_id op_id state rt =
     hm_modify plan_id (\<lambda>run. run\<lparr>pr_op_state := hm_insert op_id state (pr_op_state run)\<rparr>) rt"

definition complete_plan :: "string \<Rightarrow> plan_runtime \<Rightarrow> plan_runtime" where
  "complete_plan plan_id rt = hm_remove plan_id rt"

definition is_cancelled :: "string \<Rightarrow> plan_runtime \<Rightarrow> bool" where
  "is_cancelled plan_id rt = (case hm_get rt plan_id of None \<Rightarrow> False | Some run \<Rightarrow> pr_cancelled run)"

definition should_stop_at :: "string \<Rightarrow> string \<Rightarrow> stop_when \<Rightarrow> plan_runtime \<Rightarrow> bool" where
  "should_stop_at plan_id op_id w rt =
     (case hm_get rt plan_id of
        None \<Rightarrow> False
      | Some run \<Rightarrow> (case hm_get (pr_stop_points run) op_id of None \<Rightarrow> False | Some w' \<Rightarrow> w' = w))"

section \<open>Async calls\<close>

text \<open>\<open>register_or_cancel_async_call\<close>: whether the call is accepted for polling, the calls to cancel now,
  and the next table.\<close>

definition register_or_cancel_async_call ::
  "string \<Rightarrow> running_async_call \<Rightarrow> plan_runtime \<Rightarrow> bool \<times> running_async_call list \<times> plan_runtime" where
  "register_or_cancel_async_call plan_id call rt =
     (case hm_get rt plan_id of
        None \<Rightarrow> (True, [], rt)
      | Some run \<Rightarrow>
          if pr_cancelled run then (False, [call], rt)
          else (True, [], hm_insert plan_id
                 (run\<lparr>pr_running_async := hm_insert (ra_call_id call) call (pr_running_async run)\<rparr>) rt))"

definition unregister_async_call :: "string \<Rightarrow> string \<Rightarrow> plan_runtime \<Rightarrow> plan_runtime" where
  "unregister_async_call plan_id call_id rt =
     hm_modify plan_id (\<lambda>run. run\<lparr>pr_running_async := hm_remove call_id (pr_running_async run)\<rparr>) rt"

definition cancel_async_call_for_plan ::
  "string \<Rightarrow> string \<Rightarrow> plan_runtime \<Rightarrow> running_async_call list \<times> plan_runtime" where
  "cancel_async_call_for_plan plan_id call_id rt =
     (case hm_get rt plan_id of
        None \<Rightarrow> ([], rt)
      | Some run \<Rightarrow>
          if pr_cancelled run then
            (case hm_get (pr_running_async run) call_id of
               None \<Rightarrow> ([], rt)
             | Some running \<Rightarrow>
                 ([running], hm_insert plan_id
                    (run\<lparr>pr_running_async := hm_remove call_id (pr_running_async run)\<rparr>) rt))
          else ([], rt))"

section \<open>Cancellation\<close>

definition begin_cancel :: "string \<Rightarrow> plan_runtime \<Rightarrow> (string + running_async_call list) \<times> plan_runtime" where
  "begin_cancel plan_id rt =
     (case hm_get rt plan_id of
        None \<Rightarrow> (Inl (''unknown plan_id '' @ quoted plan_id), rt)
      | Some run \<Rightarrow>
          (Inr (map snd (pr_running_async run)),
           hm_insert plan_id (run\<lparr>pr_cancelled := True, pr_running_async := []\<rparr>) rt))"

fun begin_cancel_all ::
  "string option \<Rightarrow> plan_runtime \<Rightarrow> (running_async_call list \<times> string list) \<times> plan_runtime" where
  "begin_cancel_all except [] = (([], []), [])"
| "begin_cancel_all except ((plan_id, run) # rt) =
     (case begin_cancel_all except rt of
        ((calls, ids), rt') \<Rightarrow>
          if except = Some plan_id then ((calls, ids), (plan_id, run) # rt')
          else ((map snd (pr_running_async run) @ calls, plan_id # ids),
                (plan_id, run\<lparr>pr_cancelled := True, pr_running_async := []\<rparr>) # rt'))"

text \<open>\<open>wait_until_all_inactive\<close> on the tables it samples, every 10 ms until the deadline.\<close>

definition wait_until_all_inactive :: "string list \<Rightarrow> plan_runtime list \<Rightarrow> bool" where
  "wait_until_all_inactive plan_ids samples =
     list_ex (\<lambda>rt. list_all (\<lambda>p. hm_get rt p = None) plan_ids) samples"

text \<open>\<open>cancel_plan_control\<close>: \<open>send\<close> is the outcome of each provider cancel call, \<open>samples\<close> what the wait
  then observes. The table after the call is the one \<open>begin_cancel\<close> leaves.\<close>

definition cancel_message :: "string \<Rightarrow> bool \<Rightarrow> nat \<Rightarrow> string list \<Rightarrow> string" where
  "cancel_message plan_id completed attempts errors =
     ''Cancellation was requested for RTDL plan '' @ quoted plan_id
     @ ''; cancelled=true, completed='' @ show_bool completed
     @ '', async_cancel_attempts='' @ show_nat attempts @ ''.''
     @ (if errors = [] then [] else '' Some async cancel requests failed: '' @ join ''; '' errors)"

definition not_running_message :: "string \<Rightarrow> string" where
  "not_running_message plan_id =
     ''RTDL plan '' @ quoted plan_id
     @ '' is not running (already finished or cancelled); nothing to cancel.''"

definition cancel_plan_control ::
  "(running_async_call \<Rightarrow> string + unit) \<Rightarrow> plan_runtime list \<Rightarrow> string \<Rightarrow> plan_runtime
    \<Rightarrow> (bool \<times> string) \<times> running_async_call list \<times> plan_runtime" where
  "cancel_plan_control send samples plan_id rt =
     (case begin_cancel plan_id rt of
        (Inl _, rt') \<Rightarrow> ((True, not_running_message plan_id), [], rt')
      | (Inr calls, rt') \<Rightarrow>
          (let errors = List.map_filter
                 (\<lambda>c. case send c of Inl e \<Rightarrow> Some (ra_call_id c @ '': '' @ e) | Inr _ \<Rightarrow> None) calls;
               completed = wait_until_all_inactive [plan_id] samples
           in ((completed, cancel_message plan_id completed (length calls) errors), calls, rt')))"

definition cancel_all_plans_except ::
  "string option \<Rightarrow> plan_runtime list \<Rightarrow> plan_runtime
    \<Rightarrow> (nat \<times> bool) \<times> running_async_call list \<times> plan_runtime" where
  "cancel_all_plans_except except samples rt =
     (case begin_cancel_all except rt of
        ((calls, ids), rt') \<Rightarrow> ((length ids, wait_until_all_inactive ids samples), calls, rt'))"

text \<open>\<open>trigger_stop\<close>: the calls to cancel and the next table.\<close>

definition trigger_stop :: "string \<Rightarrow> plan_runtime \<Rightarrow> running_async_call list \<times> plan_runtime" where
  "trigger_stop plan_id rt =
     (case begin_cancel plan_id rt of
        (Inl _, rt') \<Rightarrow> ([], rt')
      | (Inr calls, rt') \<Rightarrow> (calls, rt'))"

section \<open>Stop points\<close>

definition when_label :: "stop_when \<Rightarrow> string" where
  "when_label w = (case w of On_Enter \<Rightarrow> ''on_enter'' | On_Complete \<Rightarrow> ''on_complete'')"

definition put_stop_point :: "string \<Rightarrow> string \<Rightarrow> stop_when \<Rightarrow> plan_run \<Rightarrow> plan_runtime \<Rightarrow> plan_runtime" where
  "put_stop_point plan_id op_id w run rt =
     hm_insert plan_id (run\<lparr>pr_stop_points := hm_insert op_id w (pr_stop_points run)\<rparr>) rt"

definition stop_plan_at_control ::
  "string \<Rightarrow> string \<Rightarrow> string \<Rightarrow> plan_runtime \<Rightarrow> (string + string) \<times> plan_runtime" where
  "stop_plan_at_control plan_id op_id0 when0 rt =
     (let op_id = trim op_id0 in
      if op_id = [] then (Inl ''stop_plan_at requires non-empty op_id'', rt)
      else (case parse_stop_when (if trim when0 = [] then ''on_complete'' else when0) of
              None \<Rightarrow> (Inl (''invalid when '' @ quoted when0 @ '' (expected on_enter or on_complete)''), rt)
            | Some w \<Rightarrow>
                (case hm_get rt plan_id of
                   None \<Rightarrow> (Inr (''RTDL plan '' @ quoted plan_id
                     @ '' is not running (already finished or cancelled); no stop point needed.''), rt)
                 | Some run \<Rightarrow>
                     if \<not> list_ex (\<lambda>op. om_op_id op = op_id) (pr_ops run) then
                       (Inl (''RTDL plan '' @ quoted plan_id @ '' has no op_id '' @ quoted op_id), rt)
                     else
                       (Inr (''Stop point set: RTDL plan '' @ quoted plan_id @ '' will be cancelled ''
                          @ when_label w @ '' op_id='' @ op_id @ ''.''),
                        put_stop_point plan_id op_id w run rt))))"

definition error_result :: "capability_call \<Rightarrow> string \<Rightarrow> call_result" where
  "error_result call err =
     \<lparr>cr_call_id = cc_call_id call, cr_result_provider_id = cc_provider_id call,
      cr_result_contract_id = cc_contract_id call, cr_success = False, cr_output = [], cr_error = err\<rparr>"

definition ok_result :: "capability_call \<Rightarrow> string \<Rightarrow> call_result" where
  "ok_result call output =
     \<lparr>cr_call_id = cc_call_id call, cr_result_provider_id = cc_provider_id call,
      cr_result_contract_id = cc_contract_id call, cr_success = True, cr_output = output, cr_error = []\<rparr>"

text \<open>The builtin: the parsed arguments are the plan id, the op id and the optional phase. It does not
  check that the op exists.\<close>

definition stop_plan_at_builtin ::
  "(string \<Rightarrow> string + string \<times> string \<times> string option) \<Rightarrow> capability_call \<Rightarrow> plan_runtime
    \<Rightarrow> call_result \<times> plan_runtime" where
  "stop_plan_at_builtin parse call rt =
     (case parse (cc_args_json call) of
        Inl e \<Rightarrow> (error_result call (''invalid stop_plan_at args: '' @ e), rt)
      | Inr (plan_id, op_id0, when0) \<Rightarrow>
          (let op_id = trim op_id0; when_str = (case when0 of None \<Rightarrow> ''on_complete'' | Some w \<Rightarrow> w) in
           if op_id = [] then (error_result call ''stop_plan_at: op_id must not be empty'', rt)
           else (case parse_stop_when when_str of
                   None \<Rightarrow> (error_result call (''stop_plan_at: invalid when '' @ quoted when_str
                             @ '' (expected on_enter or on_complete)''), rt)
                 | Some w \<Rightarrow>
                     (case hm_get rt plan_id of
                        Some run \<Rightarrow>
                          (ok_result call (''Stop point set: RTDL plan '' @ quoted plan_id
                             @ '' will be cancelled '' @ when_str @ '' op_id='' @ op_id @ ''.''),
                           put_stop_point plan_id op_id w run rt)
                      | None \<Rightarrow>
                          (ok_result call (''RTDL plan '' @ quoted plan_id
                             @ '' is not running (already finished or cancelled); no stop point needed.''), rt)))))"

definition cancel_plan_builtin ::
  "(string \<Rightarrow> string + string \<times> u64 option) \<Rightarrow> (running_async_call \<Rightarrow> string + unit)
    \<Rightarrow> (u64 \<Rightarrow> plan_runtime list) \<Rightarrow> capability_call \<Rightarrow> plan_runtime
    \<Rightarrow> call_result \<times> running_async_call list \<times> plan_runtime" where
  "cancel_plan_builtin parse send samples call rt =
     (case parse (cc_args_json call) of
        Inl e \<Rightarrow> (error_result call (''invalid cancel_plan args: '' @ e), [], rt)
      | Inr (plan_id, wait_ms) \<Rightarrow>
          (case cancel_plan_control send
                  (samples (case wait_ms of None \<Rightarrow> default_cancel_wait_ms | Some w \<Rightarrow> w)) plan_id rt of
             ((_, output), calls, rt') \<Rightarrow> (ok_result call output, calls, rt')))"

section \<open>Status documents\<close>

datatype json =
    JNull | JBool bool | JNum nat | JOtherNum string | JStr string | JArr "json list" | JObj "(string \<times> json) list"

definition state_label :: "nat \<Rightarrow> string" where
  "state_label state =
     (if state = st_pending then ''pending'' else if state = st_running then ''running''
      else if state = st_succeeded then ''succeeded'' else if state = st_failed then ''failed''
      else if state = st_canceled then ''canceled'' else if state = st_timeout then ''timeout''
      else if state = st_paused then ''paused'' else if state = st_verifying then ''verifying''
      else ''unknown'')"

definition kind_label :: "nat \<Rightarrow> string" where
  "kind_label node_kind =
     (if node_kind = 0 then ''sequence'' else if node_kind = 1 then ''parallel''
      else if node_kind = 2 then ''do'' else ''unknown'')"

definition op_label :: "plan_run \<Rightarrow> string \<Rightarrow> string" where
  "op_label run op_id = (case hm_get (pr_op_state run) op_id of None \<Rightarrow> ''pending'' | Some s \<Rightarrow> state_label s)"

definition op_document :: "plan_run \<Rightarrow> op_meta \<Rightarrow> (string \<times> json) list" where
  "op_document run op =
     [(''op_id'', JStr (om_op_id op)), (''kind'', JStr (kind_label (om_node_kind op))),
      (''description'', JStr (om_description op)), (''provider_id'', JStr (om_provider_id op)),
      (''contract_id'', JStr (om_contract_id op)), (''state'', JStr (op_label run (om_op_id op)))]"

definition plan_status_document :: "string \<Rightarrow> plan_run \<Rightarrow> json" where
  "plan_status_document plan_id run =
     JObj [(''plan_id'', JStr plan_id), (''running'', JBool True), (''cancelled'', JBool (pr_cancelled run)),
       (''ops'', JArr (map (\<lambda>op. JObj (op_document run op @
          [(''stop_point'', case hm_get (pr_stop_points run) (om_op_id op) of
              None \<Rightarrow> JNull | Some w \<Rightarrow> JStr (when_label w))])) (pr_ops run)))]"

definition get_plan_status_builtin ::
  "(string \<Rightarrow> string + string) \<Rightarrow> (json \<Rightarrow> string) \<Rightarrow> capability_call \<Rightarrow> plan_runtime \<Rightarrow> call_result" where
  "get_plan_status_builtin parse render call rt =
     (case parse (cc_args_json call) of
        Inl e \<Rightarrow> error_result call (''invalid get_plan_status args: '' @ e)
      | Inr plan_id \<Rightarrow>
          (case hm_get rt plan_id of
             None \<Rightarrow> error_result call (''get_plan_status: no active RTDL plan '' @ quoted plan_id
               @ '' (it never existed or already finished/cancelled); call get_all_plans to list running plans'')
           | Some run \<Rightarrow> ok_result call (render (plan_status_document plan_id run))))"

definition plan_sort_key :: "string \<times> plan_run \<Rightarrow> nat" where
  "plan_sort_key e = (case parse_usize (fst e) of None \<Rightarrow> 2 ^ 64 - 1 | Some n \<Rightarrow> n)"

definition plan_document :: "string \<times> plan_run \<Rightarrow> json" where
  "plan_document e = (case e of (plan_id, run) \<Rightarrow>
     JObj [(''plan_id'', JStr plan_id), (''description'', JStr (pr_description run)),
       (''op_count'', JNum (length (pr_ops run))), (''cancelled'', JBool (pr_cancelled run)),
       (''stop_points'', JNum (length (pr_stop_points run))),
       (''ops'', JArr (map (\<lambda>op. JObj (op_document run op)) (pr_ops run)))])"

definition active_plans_document :: "plan_runtime \<Rightarrow> json" where
  "active_plans_document rt =
     (let list = map plan_document (sort_key plan_sort_key rt)
      in JObj [(''count'', JNum (length list)), (''plans'', JArr list)])"

definition get_all_plans_builtin :: "(json \<Rightarrow> string) \<Rightarrow> capability_call \<Rightarrow> plan_runtime \<Rightarrow> call_result" where
  "get_all_plans_builtin render call rt = ok_result call (render (active_plans_document rt))"

end
