(* ===== verification/Plan_Control.thy ===== *)
theory Plan_Control
  imports Plan_Runtime
begin

text \<open>
  The plan table as a state machine, with the log of the provider cancel calls it orders and the history
  of the async calls that were registered: its invariant, and what cancellation guarantees.
\<close>

section \<open>Steps\<close>

datatype rt_op =
    RT_Register string
  | RT_Record_Ops plan
  | RT_Record_State string string nat
  | RT_Complete string
  | RT_Async_Register string running_async_call
  | RT_Async_Unregister string string
  | RT_Async_Cancel string string
  | RT_Cancel string
  | RT_Cancel_All "string option"
  | RT_Stop_At string string string
  | RT_Stop_Builtin "string \<Rightarrow> string + string \<times> string \<times> string option" capability_call

text \<open>The calls the operation orders to cancel (with their plan), and the next table.\<close>

fun rt_effect :: "rt_op \<Rightarrow> plan_runtime \<Rightarrow> running_async_call list \<times> plan_runtime" where
  "rt_effect (RT_Register p) rt = ([], register_plan p rt)"
| "rt_effect (RT_Record_Ops pl) rt = ([], record_plan_ops pl rt)"
| "rt_effect (RT_Record_State p i s) rt = ([], record_op_state p i s rt)"
| "rt_effect (RT_Complete p) rt = ([], complete_plan p rt)"
| "rt_effect (RT_Async_Register p call) rt = snd (register_or_cancel_async_call p call rt)"
| "rt_effect (RT_Async_Unregister p c) rt = ([], unregister_async_call p c rt)"
| "rt_effect (RT_Async_Cancel p c) rt = cancel_async_call_for_plan p c rt"
| "rt_effect (RT_Cancel p) rt = trigger_stop p rt"
| "rt_effect (RT_Cancel_All except) rt =
     (case begin_cancel_all except rt of ((calls, ids), rt') \<Rightarrow> (calls, rt'))"
| "rt_effect (RT_Stop_At p i w) rt = ([], snd (stop_plan_at_control p i w rt))"
| "rt_effect (RT_Stop_Builtin parse call) rt = ([], snd (stop_plan_at_builtin parse call rt))"

record rt_log =
  rl_runtime :: plan_runtime
  rl_sent :: "running_async_call list"
  rl_regs :: "running_async_call list"

definition rt_start :: rt_log where
  "rt_start = \<lparr>rl_runtime = [], rl_sent = [], rl_regs = []\<rparr>"

definition rt_step :: "rt_op \<Rightarrow> rt_log \<Rightarrow> rt_log" where
  "rt_step op s =
     (case rt_effect op (rl_runtime s) of (calls, rt') \<Rightarrow>
        \<lparr>rl_runtime = rt', rl_sent = rl_sent s @ calls,
         rl_regs = rl_regs s @ (case op of RT_Async_Register p call \<Rightarrow> [call] | _ \<Rightarrow> [])\<rparr>)"

section \<open>Invariant\<close>

text \<open>A cancelled plan owns no running async call, and the calls are stored under their ids.\<close>

definition run_ok :: "plan_run \<Rightarrow> bool" where
  "run_ok run \<longleftrightarrow> (pr_cancelled run \<longrightarrow> pr_running_async run = []) \<and> hm_wf (pr_running_async run)
     \<and> (\<forall>c call. hm_get (pr_running_async run) c = Some call \<longrightarrow> ra_call_id call = c)"

definition rt_inv :: "plan_runtime \<Rightarrow> bool" where
  "rt_inv rt \<longleftrightarrow> hm_wf rt \<and> (\<forall>p run. hm_get rt p = Some run \<longrightarrow> run_ok run)"

lemma rt_inv_insert: "rt_inv rt \<Longrightarrow> run_ok run \<Longrightarrow> rt_inv (hm_insert p run rt)"
  by (auto simp: rt_inv_def split: if_splits)

lemma rt_inv_modify: "rt_inv rt \<Longrightarrow> (\<And>run. run_ok run \<Longrightarrow> run_ok (f run)) \<Longrightarrow> rt_inv (hm_modify p f rt)"
  unfolding hm.modify_eq by (auto simp: rt_inv_def split: option.split if_splits)

lemma run_ok_simps [simp]:
  "run_ok fresh_run"
  "run_ok (run\<lparr>pr_op_state := x\<rparr>) = run_ok run"
  "run_ok (run\<lparr>pr_stop_points := y\<rparr>) = run_ok run"
  "run_ok (run\<lparr>pr_ops := z, pr_description := d\<rparr>) = run_ok run"
  "run_ok (run\<lparr>pr_cancelled := True, pr_running_async := []\<rparr>)"
  by (auto simp: run_ok_def fresh_run_def)

lemma run_ok_remove: "run_ok run \<Longrightarrow> run_ok (run\<lparr>pr_running_async := hm_remove c (pr_running_async run)\<rparr>)"
  by (auto simp: run_ok_def split: if_splits)

lemma run_ok_add: "run_ok run \<Longrightarrow> \<not> pr_cancelled run \<Longrightarrow>
    run_ok (run\<lparr>pr_running_async := hm_insert (ra_call_id call) call (pr_running_async run)\<rparr>)"
  by (auto simp: run_ok_def split: if_splits)

lemma begin_cancel_all_get:
  "begin_cancel_all except rt = ((calls, ids), rt') \<Longrightarrow>
    hm_get rt' p = (if except = Some p then hm_get rt p
      else map_option (\<lambda>run. run\<lparr>pr_cancelled := True, pr_running_async := []\<rparr>) (hm_get rt p))
    \<and> map fst rt' = map fst rt"
  by (induction except rt arbitrary: calls ids rt' rule: begin_cancel_all.induct)
    (auto simp: hm_get_def split: prod.splits if_splits)

lemma rt_effect_inv: "rt_inv rt \<Longrightarrow> rt_inv (snd (rt_effect op rt))"
proof (cases op)
  case (RT_Cancel_All except)
  assume inv: "rt_inv rt"
  obtain calls ids rt' where b: "begin_cancel_all except rt = ((calls, ids), rt')" by (metis prod.exhaust)
  have "rt_inv rt'"
    using inv begin_cancel_all_get [OF b] by (auto simp: rt_inv_def hm_wf_def)
  with b RT_Cancel_All show ?thesis by simp
next
  case (RT_Async_Cancel p c)
  assume "rt_inv rt"
  then show ?thesis
    using RT_Async_Cancel by (auto simp: cancel_async_call_for_plan_def rt_inv_def split: option.split
        intro!: rt_inv_insert [unfolded rt_inv_def] run_ok_remove)
next
  case (RT_Async_Register p call)
  assume "rt_inv rt"
  then show ?thesis
    using RT_Async_Register by (auto simp: register_or_cancel_async_call_def split: option.split
        intro!: rt_inv_insert run_ok_add simp: rt_inv_def)
next
  case (RT_Complete p)
  assume "rt_inv rt"
  then show ?thesis using RT_Complete by (auto simp: complete_plan_def rt_inv_def)
next
  case (RT_Stop_At p i w)
  assume "rt_inv rt"
  then show ?thesis
    using RT_Stop_At by (auto simp: stop_plan_at_control_def Let_def put_stop_point_def split: option.split
        intro!: rt_inv_insert simp: rt_inv_def)
next
  case (RT_Stop_Builtin parse call)
  assume "rt_inv rt"
  then show ?thesis
    using RT_Stop_Builtin by (auto simp: stop_plan_at_builtin_def Let_def put_stop_point_def
        split: option.split sum.split prod.split intro!: rt_inv_insert simp: rt_inv_def)
qed (auto simp: register_plan_def record_plan_ops_def record_op_state_def unregister_async_call_def
    trigger_stop_def begin_cancel_def intro!: rt_inv_insert rt_inv_modify run_ok_remove split: option.split)

lemma rt_step_inv: "rt_inv (rl_runtime s) \<Longrightarrow> rt_inv (rl_runtime (rt_step op s))"
  using rt_effect_inv [of "rl_runtime s" op] by (simp add: rt_step_def case_prod_beta)

interpretation plans: inv_system "\<lambda>s. s = rt_start" rt_step "\<lambda>s. rt_inv (rl_runtime s)"
  by unfold_locales (simp_all add: rt_step_inv, simp add: rt_start_def rt_inv_def)

section \<open>Who is running\<close>

definition running_at :: "plan_runtime \<Rightarrow> string \<Rightarrow> running_async_call \<Rightarrow> bool" where
  "running_at rt p call \<longleftrightarrow> (\<exists>run c. hm_get rt p = Some run \<and> hm_get (pr_running_async run) c = Some call)"

text \<open>A call runs under one plan at most.\<close>

definition one_owner :: "plan_runtime \<Rightarrow> bool" where
  "one_owner rt \<longleftrightarrow> (\<forall>p q call. running_at rt p call \<longrightarrow> running_at rt q call \<longrightarrow> p = q)"

lemma running_simps [simp]:
  "running_at (hm_insert p run rt) q call \<longleftrightarrow>
     (if q = p then \<exists>c. hm_get (pr_running_async run) c = Some call else running_at rt q call)"
  "running_at (hm_remove p rt) q call \<longleftrightarrow> q \<noteq> p \<and> running_at rt q call"
  by (auto simp: running_at_def)

lemma running_modify: "(\<And>run. pr_running_async (f run) = pr_running_async run) \<Longrightarrow>
    running_at (hm_modify p f rt) q call = running_at rt q call"
  by (auto simp: running_at_def)

lemma running_cancel_all:
  assumes "begin_cancel_all except rt = ((calls, ids), rt')"
  shows "running_at rt' p call \<longleftrightarrow> except = Some p \<and> running_at rt p call"
  using begin_cancel_all_get [OF assms, of p] by (auto simp: running_at_def)

lemma effect_running:
  "running_at (snd (rt_effect op rt)) p call \<Longrightarrow>
     running_at rt p call \<or> (op = RT_Async_Register p call \<and> fst (rt_effect op rt) = [])"
proof (cases op)
  case (RT_Cancel_All except)
  assume r: "running_at (snd (rt_effect op rt)) p call"
  obtain calls ids rt' where b: "begin_cancel_all except rt = ((calls, ids), rt')" by (metis prod.exhaust)
  with r RT_Cancel_All running_cancel_all [OF b] show ?thesis by simp
next
  case (RT_Async_Register q c)
  assume "running_at (snd (rt_effect op rt)) p call"
  with RT_Async_Register show ?thesis
    by (auto simp: register_or_cancel_async_call_def running_at_def split: option.splits if_splits)
next
  case (RT_Async_Unregister q c)
  assume "running_at (snd (rt_effect op rt)) p call"
  with RT_Async_Unregister show ?thesis
    by (auto simp: unregister_async_call_def running_at_def split: option.splits if_splits)
next
  case (RT_Async_Cancel q c)
  assume "running_at (snd (rt_effect op rt)) p call"
  with RT_Async_Cancel show ?thesis
    by (auto simp: cancel_async_call_for_plan_def running_at_def split: option.splits if_splits)
next
  case (RT_Cancel q)
  assume "running_at (snd (rt_effect op rt)) p call"
  with RT_Cancel show ?thesis
    by (auto simp: trigger_stop_def begin_cancel_def running_at_def split: option.splits if_splits)
next
  case (RT_Stop_At q i w)
  assume "running_at (snd (rt_effect op rt)) p call"
  with RT_Stop_At show ?thesis
    by (auto simp: stop_plan_at_control_def put_stop_point_def Let_def running_at_def split: option.splits if_splits)
next
  case (RT_Stop_Builtin parse c)
  assume "running_at (snd (rt_effect op rt)) p call"
  with RT_Stop_Builtin show ?thesis
    by (auto simp: stop_plan_at_builtin_def put_stop_point_def Let_def running_at_def
        split: option.splits sum.splits prod.splits if_splits)
qed (auto simp: register_plan_def fresh_run_def complete_plan_def record_plan_ops_def record_op_state_def
    running_modify split: if_splits)

lemma cancel_all_calls:
  "begin_cancel_all except rt = ((calls, ids), rt') \<Longrightarrow>
    calls = concat (map (\<lambda>(p, run). if except = Some p then [] else map snd (pr_running_async run)) rt)"
  by (induction except rt arbitrary: calls ids rt' rule: begin_cancel_all.induct)
    (auto split: prod.splits if_splits)

lemma running_values: "rt_inv rt \<Longrightarrow> hm_get rt p = Some run \<Longrightarrow>
    set (map snd (pr_running_async run)) = {call. \<exists>c. hm_get (pr_running_async run) c = Some call}
    \<and> distinct (map snd (pr_running_async run))"
proof -
  assume "rt_inv rt" "hm_get rt p = Some run"
  then have ok: "run_ok run" by (simp add: rt_inv_def)
  then have wf: "hm_wf (pr_running_async run)" by (simp add: run_ok_def)
  have eq: "map (ra_call_id \<circ> snd) (pr_running_async run) = map fst (pr_running_async run)"
    using ok hm_in_set [OF wf] by (intro map_cong) (auto simp: run_ok_def)
  have "distinct (map ra_call_id (map snd (pr_running_async run)))"
    using wf unfolding map_map eq hm_wf_def .
  then have "distinct (map snd (pr_running_async run))" by (auto simp: distinct_map inj_on_def)
  moreover have "set (map snd (pr_running_async run)) = {call. \<exists>c. hm_get (pr_running_async run) c = Some call}"
    using hm_snd_set [OF wf] by auto
  ultimately show ?thesis by blast
qed

lemma effect_sent:
  assumes inv: "rt_inv rt" and "call \<in> set (fst (rt_effect op rt))"
  shows "(\<exists>p. running_at rt p call \<and> \<not> running_at (snd (rt_effect op rt)) p call)
    \<or> (\<exists>p. op = RT_Async_Register p call \<and> snd (rt_effect op rt) = rt)"
proof (cases op)
  case (RT_Cancel_All except)
  obtain calls ids rt' where b: "begin_cancel_all except rt = ((calls, ids), rt')" by (metis prod.exhaust)
  with assms(2) RT_Cancel_All cancel_all_calls [OF b]
  obtain p run where "(p, run) \<in> set rt" "except \<noteq> Some p" "call \<in> set (map snd (pr_running_async run))"
    by (auto split: if_splits)
  moreover have wf: "hm_wf rt" using inv by (simp add: rt_inv_def)
  ultimately have "running_at rt p call" "except \<noteq> Some p"
    using running_values [OF inv, of p run] hm_in_set [OF wf] by (auto simp: running_at_def)
  with b RT_Cancel_All running_cancel_all [OF b] show ?thesis by auto
next
  case (RT_Cancel p)
  with assms(2) obtain run where run: "hm_get rt p = Some run" "call \<in> set (map snd (pr_running_async run))"
    by (auto simp: trigger_stop_def begin_cancel_def split: option.splits)
  with running_values [OF inv run(1)] have "running_at rt p call" by (auto simp: running_at_def)
  with RT_Cancel run show ?thesis by (auto simp: trigger_stop_def begin_cancel_def)
next
  case (RT_Async_Cancel p c)
  with assms show ?thesis
    by (auto simp: cancel_async_call_for_plan_def rt_inv_def run_ok_def split: option.splits if_splits)
next
  case (RT_Async_Register p c)
  with assms show ?thesis
    by (auto simp: register_or_cancel_async_call_def split: option.splits if_splits)
qed (use assms(2) in auto)

lemma effect_distinct:
  assumes inv: "rt_inv rt" and one: "one_owner rt"
  shows "distinct (fst (rt_effect op rt))"
proof (cases op)
  case (RT_Cancel_All except)
  obtain calls ids rt' where b: "begin_cancel_all except rt = ((calls, ids), rt')" by (metis prod.exhaust)
  have wf: "hm_wf rt" using inv by (simp add: rt_inv_def)
  have "distinct (concat (map (\<lambda>(p, run). if except = Some p then [] else map snd (pr_running_async run)) m))"
    if "set m \<subseteq> set rt" "distinct (map fst m)" for m
    using that
  proof (induction m)
    case (Cons e m)
    obtain p run where e: "e = (p, run)" by fastforce
    have *: "running_at rt q x" if "(q, r) \<in> set rt" "x \<in> set (map snd (pr_running_async r))" for q r x
      using that running_values [OF inv, of q r] hm_in_set [OF wf] by (auto simp: running_at_def)
    have "x \<notin> set (map snd (pr_running_async r))"
      if "x \<in> set (map snd (pr_running_async run))" "(q, r) \<in> set m" for x q r
    proof
      assume "x \<in> set (map snd (pr_running_async r))"
      with that * Cons.prems(1) e have "running_at rt q x" "running_at rt p x" by auto
      with one have "q = p" by (auto simp: one_owner_def)
      with that(2) Cons.prems(2) e show False by force
    qed
    moreover have "distinct (map snd (pr_running_async run))"
      using Cons.prems(1) e running_values [OF inv, of p run] hm_in_set [OF wf] by auto
    ultimately show ?case using Cons e by (auto split: if_splits)
  qed simp
  from this [of rt] wf b RT_Cancel_All cancel_all_calls [OF b] show ?thesis by (simp add: hm_wf_def)
next
  case (RT_Cancel p)
  with running_values [OF inv, of p] show ?thesis
    by (auto simp: trigger_stop_def begin_cancel_def split: option.split)
next
  case (RT_Async_Cancel p c)
  then show ?thesis by (auto simp: cancel_async_call_for_plan_def split: option.split)
next
  case (RT_Async_Register p c)
  then show ?thesis by (auto simp: register_or_cancel_async_call_def split: option.split)
qed auto

section \<open>What cancellation guarantees\<close>

definition reachable_log :: "rt_op list \<Rightarrow> rt_log" where
  "reachable_log ops = fold rt_step ops rt_start"

lemma reachable_rt_inv: "rt_inv (rl_runtime (reachable_log ops))"
  unfolding reachable_log_def by (rule plans.inv_reachable) simp

text \<open>As long as no call is registered twice: sent calls were registered and run no more.\<close>

definition log_inv :: "rt_log \<Rightarrow> bool" where
  "log_inv s \<longleftrightarrow> rt_inv (rl_runtime s) \<and> (distinct (rl_regs s) \<longrightarrow>
     distinct (rl_sent s) \<and> set (rl_sent s) \<subseteq> set (rl_regs s) \<and> one_owner (rl_runtime s)
     \<and> (\<forall>p call. running_at (rl_runtime s) p call \<longrightarrow> call \<in> set (rl_regs s) - set (rl_sent s)))"

lemma log_inv_step:
  assumes "log_inv s"
  shows "log_inv (rt_step op s)"
proof -
  obtain calls rt' where e: "rt_effect op (rl_runtime s) = (calls, rt')" by fastforce
  define new where "new = (case op of RT_Async_Register p call \<Rightarrow> [call] | _ \<Rightarrow> [])"
  have s': "rl_runtime (rt_step op s) = rt'" "rl_sent (rt_step op s) = rl_sent s @ calls"
    "rl_regs (rt_step op s) = rl_regs s @ new"
    by (simp_all add: rt_step_def e new_def)
  have inv: "rt_inv (rl_runtime s)" using assms by (simp add: log_inv_def)
  show ?thesis
    unfolding log_inv_def s'
  proof (intro conjI impI)
    show "rt_inv rt'" using rt_effect_inv [OF inv, of op] e by simp
    assume d: "distinct (rl_regs s @ new)"
    with assms have old: "distinct (rl_sent s)" "set (rl_sent s) \<subseteq> set (rl_regs s)" "one_owner (rl_runtime s)"
      and run: "\<And>p call. running_at (rl_runtime s) p call \<Longrightarrow> call \<in> set (rl_regs s) - set (rl_sent s)"
      by (auto simp: log_inv_def)
    have new: "call \<in> set new \<Longrightarrow> call \<notin> set (rl_regs s)" for call using d by auto
    have sent: "(\<exists>p. running_at (rl_runtime s) p call \<and> \<not> running_at rt' p call)
        \<or> (call \<in> set new \<and> rt' = rl_runtime s)" if "call \<in> set calls" for call
      using effect_sent [OF inv, of call op] that by (auto simp: e new_def)
    have run': "running_at (rl_runtime s) p call \<or> (call \<in> set new \<and> calls = [] \<and> op = RT_Async_Register p call)"
      if "running_at rt' p call" for p call
      using effect_running [of op "rl_runtime s" p call] that by (auto simp: e new_def)
    have "set (rl_sent s) \<inter> set calls = {}"
    proof (rule equals0I)
      fix x assume "x \<in> set (rl_sent s) \<inter> set calls"
      then have x: "x \<in> set (rl_sent s)" "x \<in> set calls" by auto
      from sent [OF x(2)] show False using run x(1) old(2) new by blast
    qed
    then show "distinct (rl_sent s @ calls)"
      using old(1) effect_distinct [OF inv old(3), of op] by (simp add: e)
    show "set (rl_sent s @ calls) \<subseteq> set (rl_regs s @ new)"
      using old(2) sent run by auto
    show "one_owner rt'"
      unfolding one_owner_def
    proof (intro allI impI)
      fix p q call assume "running_at rt' p call" "running_at rt' q call"
      with run' [of p call] run' [of q call] run new old(3) show "p = q"
        unfolding one_owner_def by blast
    qed
    show "\<forall>p call. running_at rt' p call \<longrightarrow> call \<in> set (rl_regs s @ new) - set (rl_sent s @ calls)"
    proof (intro allI impI)
      fix p call assume r: "running_at rt' p call"
      have "call \<notin> set calls"
      proof
        assume c: "call \<in> set calls"
        with run' [OF r] have rp: "running_at (rl_runtime s) p call" by auto
        from sent [OF c] run [OF rp] new obtain q where q: "running_at (rl_runtime s) q call" "\<not> running_at rt' q call"
          by blast
        with rp old(3) have "q = p" unfolding one_owner_def by blast
        with q r show False by simp
      qed
      with run' [OF r] run new old(2) show "call \<in> set (rl_regs s @ new) - set (rl_sent s @ calls)" by auto
    qed
  qed
qed

interpretation plan_log: inv_system "\<lambda>s. s = rt_start" rt_step log_inv
  by unfold_locales (simp_all add: log_inv_step,
      simp add: rt_start_def log_inv_def rt_inv_def one_owner_def running_at_def)

text \<open>C12 (safety). Over any history of registrations, progress, cancellations and completions in which
  each async call is registered once, the executor orders the provider cancel of a call at most once, only
  for registered calls, and never for one that is still tracked as running afterwards.\<close>

theorem cancel_at_most_once:
  assumes "distinct (rl_regs (reachable_log ops))"
  shows "distinct (rl_sent (reachable_log ops))
    \<and> set (rl_sent (reachable_log ops)) \<subseteq> set (rl_regs (reachable_log ops))
    \<and> {call. \<exists>p. running_at (rl_runtime (reachable_log ops)) p call} \<inter> set (rl_sent (reachable_log ops)) = {}"
  using plan_log.inv_reachable [of rt_start ops] assms
  by (fastforce simp: reachable_log_def log_inv_def)

text \<open>C11 (liveness). Cancelling an active plan reaches its work: every async call tracked under the plan
  is in the list of cancels to send, exactly once, the plan is cancelled and tracks nothing any more, and a
  call that reports in later is refused and its cancel ordered at once.\<close>

theorem cancel_reaches_all:
  assumes "hm_get (rl_runtime (reachable_log ops)) p = Some run"
  shows "\<exists>calls rt'. begin_cancel p (rl_runtime (reachable_log ops)) = (Inr calls, rt')
    \<and> distinct calls \<and> set calls = {call. running_at (rl_runtime (reachable_log ops)) p call}
    \<and> is_cancelled p rt' \<and> {call. running_at rt' p call} = {}
    \<and> register_or_cancel_async_call p late rt' = (False, [late], rt')"
  using running_values [OF reachable_rt_inv assms] assms
  by (auto simp: begin_cancel_def is_cancelled_def running_at_def register_or_cancel_async_call_def)

text \<open>In every reachable table a cancelled plan tracks no async call, so the second chance
  of the polling loop, \<open>cancel_async_call_for_plan\<close>, never finds a call to cancel and changes nothing.\<close>

theorem poll_cancel_is_noop:
  "cancel_async_call_for_plan p c (rl_runtime (reachable_log ops)) = ([], rl_runtime (reachable_log ops))"
  using reachable_rt_inv [of ops]
  by (auto simp: cancel_async_call_for_plan_def rt_inv_def run_ok_def split: option.split)

definition clears_cancel :: "string \<Rightarrow> rt_op \<Rightarrow> bool" where
  "clears_cancel p op \<longleftrightarrow> op = RT_Register p \<or> op = RT_Complete p"

lemma cancel_kept:
  assumes "is_cancelled p rt" and "\<not> clears_cancel p op"
  shows "is_cancelled p (snd (rt_effect op rt))"
proof (cases op)
  case (RT_Cancel_All except)
  obtain calls ids rt' where b: "begin_cancel_all except rt = ((calls, ids), rt')" by (metis prod.exhaust)
  with assms RT_Cancel_All begin_cancel_all_get [OF b, of p] show ?thesis
    by (auto simp: is_cancelled_def split: option.splits)
next
  case (RT_Stop_At q i w)
  with assms show ?thesis
    by (auto simp: stop_plan_at_control_def put_stop_point_def Let_def is_cancelled_def split: option.splits)
next
  case (RT_Stop_Builtin parse c)
  with assms show ?thesis
    by (auto simp: stop_plan_at_builtin_def put_stop_point_def Let_def is_cancelled_def
        split: option.splits sum.splits prod.splits)
next
  case (RT_Async_Register q c)
  with assms show ?thesis
    by (auto simp: register_or_cancel_async_call_def is_cancelled_def split: option.splits)
next
  case (RT_Async_Cancel q c)
  with assms show ?thesis
    by (auto simp: cancel_async_call_for_plan_def is_cancelled_def split: option.splits)
next
  case (RT_Cancel q)
  with assms show ?thesis
    by (auto simp: trigger_stop_def begin_cancel_def is_cancelled_def split: option.splits)
qed (use assms in \<open>auto simp: clears_cancel_def is_cancelled_def register_plan_def complete_plan_def
    record_plan_ops_def record_op_state_def unregister_async_call_def split: option.splits\<close>)

text \<open>Cancellation is sticky: while the plan stays in the table, no operation but
  registering the same id again clears its cancelled flag.\<close>

lemma cancellation_is_sticky:
  assumes "is_cancelled p rt" and "\<not> clears_cancel p op"
  shows "is_cancelled p (snd (rt_effect op rt))"
  using assms by (rule cancel_kept)

text \<open>Arming a stop point by the control operation: on success either the plan is not
  active and nothing changed, or the op is one of the plan's and the executor will stop at it in exactly the
  requested phase; on an error nothing changed.\<close>

lemma stop_plan_at_control_spec:
  "case stop_plan_at_control p i w rt of
     (Inl e, rt') \<Rightarrow> rt' = rt
   | (Inr msg, rt') \<Rightarrow> (case hm_get rt p of
        None \<Rightarrow> rt' = rt
      | Some run \<Rightarrow> trim i \<in> set (map om_op_id (pr_ops run))
          \<and> (\<exists>phase. parse_stop_when (if trim w = [] then ''on_complete'' else w) = Some phase
               \<and> (\<forall>ph. should_stop_at p (trim i) ph rt' = (ph = phase))))"
  by (auto simp: stop_plan_at_control_def Let_def put_stop_point_def should_stop_at_def list_ex_iff image_iff
      split: option.split intro: bexI [rotated])

lemma stop_plan_at_control_example:
  "stop_plan_at_control ''p'' '' a '' ''before'' (hm_insert ''p'' (fresh_run\<lparr>pr_ops := [op_meta_of
      \<lparr>rn_node_kind = 0, rn_children = [], rn_call = None, rn_op_id = ''a'', rn_description = ''d''\<rparr>]\<rparr>) [])
    = (Inr ''Stop point set: RTDL plan 'p' will be cancelled on_enter op_id=a.'',
       [(''p'', fresh_run\<lparr>pr_ops := [\<lparr>om_op_id = ''a'', om_description = ''d'', om_node_kind = 0,
          om_provider_id = [], om_contract_id = []\<rparr>], pr_stop_points := [(''a'', On_Enter)]\<rparr>)])"
  by code_simp

text \<open>A stop point is stored under the trimmed op id, while the executor looks it up by the node's op id as
  the plan gives it.\<close>

definition stops_trimmed :: "plan_runtime \<Rightarrow> bool" where
  "stops_trimmed rt \<longleftrightarrow>
     (\<forall>p run k w. hm_get rt p = Some run \<longrightarrow> hm_get (pr_stop_points run) k = Some w \<longrightarrow> trim k = k)"

lemma stops_trimmed_insert:
  "\<lbrakk>stops_trimmed rt; \<And>k w. hm_get (pr_stop_points run) k = Some w \<Longrightarrow> trim k = k\<rbrakk> \<Longrightarrow>
    stops_trimmed (hm_insert p run rt)"
  by (auto simp: stops_trimmed_def split: if_splits)

lemma stops_trimmed_keep:
  "\<lbrakk>stops_trimmed rt; hm_get rt p = Some old; pr_stop_points run = pr_stop_points old\<rbrakk> \<Longrightarrow>
    stops_trimmed (hm_insert p run rt)"
  by (rule stops_trimmed_insert) (auto simp: stops_trimmed_def)

lemma stops_trimmed_put:
  "\<lbrakk>stops_trimmed rt; hm_get rt p = Some run\<rbrakk> \<Longrightarrow> stops_trimmed (put_stop_point p (trim k) w run rt)"
  unfolding put_stop_point_def by (rule stops_trimmed_insert) (auto simp: stops_trimmed_def split: if_splits)

lemma stops_trimmed_modify:
  "\<lbrakk>stops_trimmed rt; \<And>run. pr_stop_points (f run) = pr_stop_points run\<rbrakk> \<Longrightarrow> stops_trimmed (hm_modify p f rt)"
  unfolding hm.modify_eq by (auto intro: stops_trimmed_keep split: option.split)

lemma effect_stops_trimmed: "stops_trimmed rt \<Longrightarrow> stops_trimmed (snd (rt_effect op rt))"
proof (cases op)
  case (RT_Cancel_All except)
  assume t: "stops_trimmed rt"
  obtain calls ids rt' where b: "begin_cancel_all except rt = ((calls, ids), rt')" by (metis prod.exhaust)
  have "stops_trimmed rt'"
    unfolding stops_trimmed_def
  proof (intro allI impI)
    fix p run k w assume "hm_get rt' p = Some run" "hm_get (pr_stop_points run) k = Some w"
    with begin_cancel_all_get [OF b, of p]
    obtain old where "hm_get rt p = Some old" "hm_get (pr_stop_points old) k = Some w"
      by (cases "hm_get rt p") (auto split: if_splits)
    with t show "trim k = k" unfolding stops_trimmed_def by blast
  qed
  with b RT_Cancel_All show ?thesis by simp
next
  case (RT_Complete p)
  assume "stops_trimmed rt"
  with RT_Complete show ?thesis by (auto simp: complete_plan_def stops_trimmed_def split: if_splits)
next
  case (RT_Stop_At p i w)
  assume "stops_trimmed rt"
  with RT_Stop_At show ?thesis
    by (auto simp: stop_plan_at_control_def Let_def intro: stops_trimmed_put split: option.split)
next
  case (RT_Stop_Builtin parse call)
  assume "stops_trimmed rt"
  with RT_Stop_Builtin show ?thesis
    by (auto simp: stop_plan_at_builtin_def Let_def intro: stops_trimmed_put
        split: option.split sum.split prod.split)
qed (auto simp: register_plan_def fresh_run_def record_plan_ops_def record_op_state_def
    unregister_async_call_def trigger_stop_def begin_cancel_def register_or_cancel_async_call_def
    cancel_async_call_for_plan_def intro: stops_trimmed_modify stops_trimmed_keep stops_trimmed_insert
    split: option.split)

interpretation stop_points: inv_system "\<lambda>s. s = rt_start" rt_step "\<lambda>s. stops_trimmed (rl_runtime s)"
proof unfold_locales
  show "stops_trimmed (rl_runtime s)" if "s = rt_start" for s
    using that by (simp add: rt_start_def stops_trimmed_def)
  show "stops_trimmed (rl_runtime (rt_step op s))" if "stops_trimmed (rl_runtime s)" for op s
    using effect_stops_trimmed [OF that, of op] by (simp add: rt_step_def case_prod_beta)
qed

text \<open>A node whose op id has blanks around it passes validation, but no sequence of control
  requests makes the executor stop at it: the stop points are kept under trimmed ids only.\<close>

theorem padded_op_never_stops:
  assumes "trim i \<noteq> i"
  shows "\<not> should_stop_at p i ph (rl_runtime (reachable_log ops))"
proof
  assume "should_stop_at p i ph (rl_runtime (reachable_log ops))"
  then obtain run where "hm_get (rl_runtime (reachable_log ops)) p = Some run"
      "hm_get (pr_stop_points run) i = Some ph"
    by (auto simp: should_stop_at_def split: option.splits)
  moreover have "stops_trimmed (rl_runtime (reachable_log ops))"
    unfolding reachable_log_def by (rule stop_points.inv_reachable) simp
  ultimately show False using assms unfolding stops_trimmed_def by blast
qed

definition padded_plan :: plan where
  "padded_plan = \<lparr>pl_plan_id = ''p'', pl_root_index = 0, pl_nodes = [
     \<lparr>rn_node_kind = rtdl_sequence, rn_children = [], rn_call = None, rn_op_id = '' a'',
      rn_description = ''padded''\<rparr>]\<rparr>"

lemma padded_op_never_stops_witness:
  "validate_plan padded_plan = Inr ()
   \<and> \<not> should_stop_at ''p'' '' a'' On_Enter (rl_runtime (reachable_log
        [RT_Register ''p'', RT_Record_Ops padded_plan, RT_Stop_At ''p'' '' a'' ''on_enter'']))"
proof (rule conjI)
  show "validate_plan padded_plan = Inr ()" by code_simp
  have "trim '' a'' \<noteq> '' a''" by code_simp
  then show "\<not> should_stop_at ''p'' '' a'' On_Enter (rl_runtime (reachable_log
        [RT_Register ''p'', RT_Record_Ops padded_plan, RT_Stop_At ''p'' '' a'' ''on_enter'']))"
    by (rule padded_op_never_stops)
qed

section \<open>Concrete histories\<close>

definition demo_async :: "string \<Rightarrow> string \<Rightarrow> running_async_call" where
  "demo_async call_id run_id = \<lparr>ra_call_id = call_id, ra_provider_id = ''arm'',
     ra_cancel_contract = ''robonix/service/arm/move/cancel'', ra_run_id = run_id\<rparr>"

lemma cancel_at_most_once_witness:
  "rl_sent (reachable_log [RT_Register ''p'', RT_Async_Register ''p'' (demo_async ''c1'' ''r1''),
      RT_Cancel ''p'', RT_Async_Register ''p'' (demo_async ''c2'' ''r2''), RT_Cancel ''p''])
    = [demo_async ''c1'' ''r1'', demo_async ''c2'' ''r2'']
   \<and> distinct (rl_sent (reachable_log [RT_Register ''p'', RT_Async_Register ''p'' (demo_async ''c1'' ''r1''),
      RT_Cancel ''p'', RT_Async_Register ''p'' (demo_async ''c2'' ''r2''), RT_Cancel ''p'']))"
  (is "rl_sent (reachable_log ?ops) = _ \<and> _")
proof (rule conjI)
  show "rl_sent (reachable_log ?ops) = [demo_async ''c1'' ''r1'', demo_async ''c2'' ''r2'']" by code_simp
  have "distinct (rl_regs (reachable_log ?ops))" by code_simp
  then show "distinct (rl_sent (reachable_log ?ops))" using cancel_at_most_once [of ?ops] by blast
qed

lemma cancel_reaches_all_witness:
  "\<exists>calls rt'. begin_cancel ''p'' (rl_runtime (reachable_log
      [RT_Register ''p'', RT_Async_Register ''p'' (demo_async ''c1'' ''r1'')])) = (Inr calls, rt')
    \<and> is_cancelled ''p'' rt'"
proof -
  let ?ops = "[RT_Register ''p'', RT_Async_Register ''p'' (demo_async ''c1'' ''r1'')]"
  have "hm_get (rl_runtime (reachable_log ?ops)) ''p''
      = Some (fresh_run\<lparr>pr_running_async := [(''c1'', demo_async ''c1'' ''r1'')]\<rparr>)" by code_simp
  from cancel_reaches_all [OF this] show ?thesis by blast
qed

lemma cancellation_is_sticky_witness:
  "is_cancelled ''p'' (snd (rt_effect (RT_Stop_At ''p'' ''a'' ''before'') (snd (rt_effect (RT_Cancel ''p'')
     (snd (rt_effect (RT_Register ''p'') []))))))"
proof -
  have "is_cancelled ''p'' (snd (rt_effect (RT_Cancel ''p'') (snd (rt_effect (RT_Register ''p'') []))))"
    by code_simp
  moreover have "\<not> clears_cancel ''p'' (RT_Stop_At ''p'' ''a'' ''before'')" by (simp add: clears_cancel_def)
  ultimately show ?thesis by (rule cancellation_is_sticky)
qed

text \<open>Registering a plan under the id of one that is still active starts over: the cancellation, the stop
  points and the async calls of the first plan are forgotten.\<close>

lemma reregistration_forgets:
  "hm_get (snd (rt_effect (RT_Register p) rt)) p = Some fresh_run
   \<and> fst (rt_effect (RT_Register p) rt) = []
   \<and> \<not> is_cancelled p (snd (rt_effect (RT_Register p) rt))
   \<and> fst (rt_effect (RT_Cancel p) (snd (rt_effect (RT_Register p) rt))) = []"
  by (simp add: register_plan_def fresh_run_def is_cancelled_def trigger_stop_def begin_cancel_def)

definition twin_leaf :: "string \<Rightarrow> string \<Rightarrow> rtdl_node" where
  "twin_leaf op args = \<lparr>rn_node_kind = rtdl_do, rn_children = [],
     rn_call = Some \<lparr>cc_call_id = ''c'', cc_provider_id = ''arm'',
       cc_contract_id = ''robonix/service/arm/move'', cc_args_json = args\<rparr>,
     rn_op_id = op, rn_description = ''move''\<rparr>"

definition twin_plan :: plan where
  "twin_plan = \<lparr>pl_plan_id = ''p'', pl_root_index = 0, pl_nodes = [
     \<lparr>rn_node_kind = rtdl_parallel, rn_children = [1, 2], rn_call = None, rn_op_id = ''both'',
      rn_description = ''move both''\<rparr>, twin_leaf ''l'' ''{}'', twin_leaf ''r'' ''{}'']\<rparr>"

text \<open>Validation does not ask the calls of a plan for distinct call ids. Two parallel leaves
  with one call id pass it; when both have registered their async run, the first is no longer tracked, and
  cancelling the plan orders the cancel of the second run only.\<close>

lemma duplicate_call_ids_lose_a_cancel:
  "validate_plan twin_plan = Inr ()
   \<and> rl_sent (reachable_log [RT_Register ''p'', RT_Record_Ops twin_plan,
        RT_Async_Register ''p'' (demo_async ''c'' r1), RT_Async_Register ''p'' (demo_async ''c'' r2),
        RT_Cancel ''p'', RT_Complete ''p'']) = [demo_async ''c'' r2]"
proof (rule conjI)
  show "validate_plan twin_plan = Inr ()" by code_simp
  show "rl_sent (reachable_log [RT_Register ''p'', RT_Record_Ops twin_plan,
        RT_Async_Register ''p'' (demo_async ''c'' r1), RT_Async_Register ''p'' (demo_async ''c'' r2),
        RT_Cancel ''p'', RT_Complete ''p'']) = [demo_async ''c'' r2]"
    by (simp add: reachable_log_def rt_step_def rt_start_def register_plan_def record_plan_ops_def
        register_or_cancel_async_call_def trigger_stop_def begin_cancel_def fresh_run_def demo_async_def
        hm_insert_def hm_modify_def twin_plan_def hm_get_def complete_plan_def)
qed

end
