(* ===== verification/Verification.thy ===== *)
theory Verification
  imports Plan_Runtime
begin

text \<open>
  Result verification: the rules of \<open>system/executor/src/config.rs\<close> and the policy of
  \<open>system/executor/src/verification.rs\<close>. \<open>verify_result\<close> is split at the verifier's call: what is sent,
  and what its answer makes of the original result. The JSON reader and printer are parameters.
\<close>

section \<open>Rules\<close>

record verification_rule =
  vr_target_contract_id :: string
  vr_target_provider_id :: "string option"
  vr_verifier_provider_id :: string
  vr_verifier_args :: json

record verification_policy =
  vp_overlap :: bool
  vp_rules :: "verification_rule list"

definition is_object :: "json \<Rightarrow> bool" where
  "is_object j = (case j of JObj _ \<Rightarrow> True | _ \<Rightarrow> False)"

definition normalize_rule :: "verification_rule \<Rightarrow> verification_rule" where
  "normalize_rule rule = rule
     \<lparr>vr_target_contract_id := trim (vr_target_contract_id rule),
      vr_verifier_provider_id := trim (vr_verifier_provider_id rule),
      vr_target_provider_id := (case vr_target_provider_id rule of
         None \<Rightarrow> None
       | Some p \<Rightarrow> if trim p = [] then None else Some (trim p))\<rparr>"

definition rule_key :: "verification_rule \<Rightarrow> string \<times> string option" where
  "rule_key rule = (vr_target_contract_id rule, vr_target_provider_id rule)"

fun validate_rules ::
  "(string \<times> string option) set \<Rightarrow> verification_rule list \<Rightarrow> string + verification_rule list" where
  "validate_rules seen [] = Inr []"
| "validate_rules seen (rule0 # rules) =
     (let rule = normalize_rule rule0 in
      if vr_target_contract_id rule = [] then Inl ''verification target_contract_id must not be empty''
      else if vr_verifier_provider_id rule = [] then
        Inl (''verification verifier_provider_id must not be empty for '' @ quoted (vr_target_contract_id rule))
      else if \<not> is_object (vr_verifier_args rule) then
        Inl (''verification verifier_args must be a JSON object for '' @ quoted (vr_target_contract_id rule))
      else if rule_key rule \<in> seen then
        Inl (''duplicate verification rule for contract '' @ quoted (vr_target_contract_id rule)
             @ '' and provider ''
             @ quoted (case vr_target_provider_id rule of None \<Rightarrow> ''*'' | Some p \<Rightarrow> p))
      else (case validate_rules (insert (rule_key rule) seen) rules of
              Inl e \<Rightarrow> Inl e
            | Inr normalized \<Rightarrow> Inr (rule # normalized)))"

definition validate_verification_rules :: "verification_rule list \<Rightarrow> string + verification_rule list" where
  "validate_verification_rules rules = validate_rules {} rules"

definition rule_for :: "verification_policy \<Rightarrow> capability_call \<Rightarrow> verification_rule option" where
  "rule_for policy call =
     (case find (\<lambda>rule. vr_target_contract_id rule = cc_contract_id call
                   \<and> vr_target_provider_id rule = Some (cc_provider_id call)) (vp_rules policy) of
        Some rule \<Rightarrow> Some rule
      | None \<Rightarrow> find (\<lambda>rule. vr_target_contract_id rule = cc_contract_id call
                   \<and> vr_target_provider_id rule = None) (vp_rules policy))"

section \<open>Asking the verifier\<close>

definition verify_contract_id :: string where
  "verify_contract_id = ''robonix/service/verifier/verify''"

definition json_or_string :: "(string \<Rightarrow> json option) \<Rightarrow> string \<Rightarrow> json" where
  "json_or_string read raw = (case read raw of Some j \<Rightarrow> j | None \<Rightarrow> JStr raw)"

definition verifier_payload ::
  "(string \<Rightarrow> json option) \<Rightarrow> verification_rule \<Rightarrow> capability_call \<Rightarrow> string \<Rightarrow> call_result \<Rightarrow> json" where
  "verifier_payload read rule call description result =
     JObj [(''target_provider_id'', JStr (cc_provider_id call)),
       (''target_contract_id'', JStr (cc_contract_id call)),
       (''target_description'', JStr description),
       (''target_args'', json_or_string read (cc_args_json call)),
       (''target_output'', json_or_string read (cr_output result)),
       (''verifier_args'', vr_verifier_args rule)]"

definition build_verifier_call ::
  "(string \<Rightarrow> json option) \<Rightarrow> (json \<Rightarrow> string) \<Rightarrow> verification_rule \<Rightarrow> capability_call \<Rightarrow> string \<Rightarrow> call_result
    \<Rightarrow> capability_call" where
  "build_verifier_call read render rule call description result =
     \<lparr>cc_call_id = cc_call_id call @ '':verify'', cc_provider_id = vr_verifier_provider_id rule,
      cc_contract_id = verify_contract_id,
      cc_args_json = render (JObj [(''call_id'', JStr (cc_call_id call)),
        (''args_json'', JStr (render (verifier_payload read rule call description result)))])\<rparr>"

record verify_response =
  vs_passed :: bool
  vs_detail :: string

definition apply_verdict :: "call_result \<Rightarrow> verify_response \<Rightarrow> call_result" where
  "apply_verdict original verdict =
     (if vs_passed verdict then original
      else original\<lparr>cr_success := False,
             cr_error := ''result verification failed: ''
               @ (if trim (vs_detail verdict) = [] then ''verifier rejected the capability result''
                  else vs_detail verdict)\<rparr>)"

definition unavailable :: "call_result \<Rightarrow> string \<Rightarrow> call_result" where
  "unavailable original reason =
     original\<lparr>cr_success := False, cr_error := ''result verification unavailable: '' @ reason\<rparr>"

text \<open>What \<open>verify_result\<close> returns once the verifier's call has returned \<open>response\<close>; \<open>parse\<close> reads the
  verdict out of its output.\<close>

definition verify_outcome ::
  "(string \<Rightarrow> string + verify_response) \<Rightarrow> verification_rule \<Rightarrow> call_result \<Rightarrow> call_result \<Rightarrow> call_result" where
  "verify_outcome parse rule original response =
     (if \<not> cr_success response then
        unavailable original (''verifier '' @ quoted (vr_verifier_provider_id rule) @ '' failed: ''
          @ cr_error response)
      else (case parse (cr_output response) of
              Inl e \<Rightarrow> unavailable original (''verifier '' @ quoted (vr_verifier_provider_id rule)
                @ '' returned invalid response: '' @ e)
            | Inr verdict \<Rightarrow> apply_verdict original verdict))"

text \<open>\<open>verify_result\<close> with the verifier's call as a function.\<close>

definition verify_result ::
  "(string \<Rightarrow> json option) \<Rightarrow> (json \<Rightarrow> string) \<Rightarrow> (string \<Rightarrow> string + verify_response)
    \<Rightarrow> (capability_call \<Rightarrow> call_result) \<Rightarrow> verification_policy \<Rightarrow> capability_call \<Rightarrow> string \<Rightarrow> call_result
    \<Rightarrow> call_result" where
  "verify_result read render parse dispatch policy call description original =
     (case rule_for policy call of
        None \<Rightarrow> original
      | Some rule \<Rightarrow>
          verify_outcome parse rule original
            (dispatch (build_verifier_call read render rule call description original)))"

section \<open>Verification fails closed\<close>

lemma verify_outcome_success:
  "cr_success (verify_outcome parse rule original response) \<longleftrightarrow>
     cr_success response \<and> (\<exists>v. parse (cr_output response) = Inr v \<and> (vs_passed v \<and> cr_success original))"
  by (auto simp: verify_outcome_def unavailable_def apply_verdict_def split: sum.split)

lemma verify_outcome_kept:
  "cr_success (verify_outcome parse rule original response) \<Longrightarrow> verify_outcome parse rule original response = original"
  by (auto simp: verify_outcome_def unavailable_def apply_verdict_def split: sum.splits if_splits)

text \<open>C14 (error). Verification fails closed: a call that has a rule ends successful exactly when it was
  successful, its verifier answered, the answer is a verdict and the verdict passed; the result is then the
  original one, and in every other case only the success flag and the error text change.\<close>

theorem verify_fails_closed:
  "verify_result read render parse dispatch policy call description original =
     (case rule_for policy call of
        None \<Rightarrow> original
      | Some rule \<Rightarrow>
          (let response = dispatch (build_verifier_call read render rule call description original);
               checked = verify_result read render parse dispatch policy call description original
           in if cr_success response \<and> (\<exists>v. parse (cr_output response) = Inr v \<and> vs_passed v)
              then original
              else original\<lparr>cr_success := False, cr_error := cr_error checked\<rparr>))"
  by (auto simp: verify_result_def verify_outcome_def unavailable_def apply_verdict_def Let_def
      split: option.split sum.split)

section \<open>Validated rules are a function of the call\<close>

lemma validate_rules_ok:
  "validate_rules seen rules = Inr out \<Longrightarrow>
     out = map normalize_rule rules \<and> distinct (map rule_key out) \<and> seen \<inter> set (map rule_key out) = {}
     \<and> list_all (\<lambda>r. vr_target_contract_id r \<noteq> [] \<and> vr_verifier_provider_id r \<noteq> []
          \<and> vr_target_provider_id r \<noteq> Some [] \<and> is_object (vr_verifier_args r)) out"
proof (induction seen rules arbitrary: out rule: validate_rules.induct)
  case (2 seen rule0 rules)
  let ?r = "normalize_rule rule0"
  from "2.prems" obtain rest where rest: "validate_rules (insert (rule_key ?r) seen) rules = Inr rest" "out = ?r # rest"
    and ok: "vr_target_contract_id ?r \<noteq> []" "vr_verifier_provider_id ?r \<noteq> []" "is_object (vr_verifier_args ?r)"
      "rule_key ?r \<notin> seen"
    by (auto simp: Let_def split: if_splits sum.splits)
  have "vr_target_provider_id ?r \<noteq> Some []" by (auto simp: normalize_rule_def split: option.splits)
  with rest ok "2.IH" [OF refl _ _ _ _ rest(1)] show ?case by auto
qed simp

lemma find_unique_perm:
  assumes "distinct (map f xs)" and "set ys = set xs" and "distinct (map f ys)"
  shows "find (\<lambda>x. f x = k) xs = find (\<lambda>x. f x = k) ys"
proof -
  have *: "find (\<lambda>x. f x = k) zs = Some z \<longleftrightarrow> z \<in> set zs \<and> f z = k" if "distinct (map f zs)" for zs z
    using that by (induction zs) (auto simp: image_iff)
  show ?thesis
    using * [OF assms(1)] * [OF assms(3)] assms(2) by (metis option.exhaust)
qed

lemma rule_for_key: "rule_for policy call =
    (case find (\<lambda>r. rule_key r = (cc_contract_id call, Some (cc_provider_id call))) (vp_rules policy) of
       Some rule \<Rightarrow> Some rule
     | None \<Rightarrow> find (\<lambda>r. rule_key r = (cc_contract_id call, None)) (vp_rules policy))"
  by (simp add: rule_for_def rule_key_def cong: option.case_cong)

text \<open>Validated rules are a table: no two share a target, so the rule of a call does not
  depend on the order in which the configuration lists them, and an exact provider rule wins over the
  contract-wide one.\<close>

lemma rule_for_unambiguous:
  assumes "validate_verification_rules rules = Inr out" and "set out' = set out" and "length out' = length out"
  shows "rule_for \<lparr>vp_overlap = b, vp_rules = out\<rparr> call = rule_for \<lparr>vp_overlap = b', vp_rules = out'\<rparr> call
    \<and> rule_for \<lparr>vp_overlap = b, vp_rules = out\<rparr> call =
        (let table = map_of (map (\<lambda>r. (rule_key r, r)) (map normalize_rule rules))
         in case table (cc_contract_id call, Some (cc_provider_id call)) of
              Some rule \<Rightarrow> Some rule
            | None \<Rightarrow> table (cc_contract_id call, None))"
proof -
  have out: "out = map normalize_rule rules" "distinct (map rule_key out)"
    using validate_rules_ok [of "{}" rules out] assms(1) by (auto simp: validate_verification_rules_def)
  then have "distinct out" using distinct_map by blast
  with assms(2,3) have "distinct out'" by (metis card_distinct distinct_card)
  with out(2) assms(2) have d: "distinct (map rule_key out')" by (simp add: distinct_map)
  have "find (\<lambda>r. rule_key r = k) xs = map_of (map (\<lambda>r. (rule_key r, r)) xs) k" for k xs
    by (induction xs) auto
  with find_unique_perm [OF out(2) assms(2) d] out(1) show ?thesis
    by (simp add: rule_for_key Let_def cong: option.case_cong)
qed

definition demo_rule :: "string option \<Rightarrow> string \<Rightarrow> verification_rule" where
  "demo_rule provider verifier = \<lparr>vr_target_contract_id = ''cap/target'', vr_target_provider_id = provider,
     vr_verifier_provider_id = verifier, vr_verifier_args = JObj []\<rparr>"

lemma rule_for_unambiguous_witness:
  "rule_for \<lparr>vp_overlap = False, vp_rules = [demo_rule None ''any'', demo_rule (Some ''arm'') ''exact'']\<rparr>
       \<lparr>cc_call_id = ''c'', cc_provider_id = ''arm'', cc_contract_id = ''cap/target'', cc_args_json = []\<rparr>
     = rule_for \<lparr>vp_overlap = False, vp_rules = [demo_rule (Some ''arm'') ''exact'', demo_rule None ''any'']\<rparr>
       \<lparr>cc_call_id = ''c'', cc_provider_id = ''arm'', cc_contract_id = ''cap/target'', cc_args_json = []\<rparr>
   \<and> rule_for \<lparr>vp_overlap = False, vp_rules = [demo_rule None ''any'', demo_rule (Some ''arm'') ''exact'']\<rparr>
       \<lparr>cc_call_id = ''c'', cc_provider_id = ''arm'', cc_contract_id = ''cap/target'', cc_args_json = []\<rparr>
     = Some (demo_rule (Some ''arm'') ''exact'')"
proof (rule conjI)
  have "validate_verification_rules [demo_rule None '' any'', demo_rule (Some ''arm '') ''exact'']
      = Inr [demo_rule None ''any'', demo_rule (Some ''arm'') ''exact'']" by code_simp
  then show "rule_for \<lparr>vp_overlap = False, vp_rules = [demo_rule None ''any'', demo_rule (Some ''arm'') ''exact'']\<rparr>
       \<lparr>cc_call_id = ''c'', cc_provider_id = ''arm'', cc_contract_id = ''cap/target'', cc_args_json = []\<rparr>
     = rule_for \<lparr>vp_overlap = False, vp_rules = [demo_rule (Some ''arm'') ''exact'', demo_rule None ''any'']\<rparr>
       \<lparr>cc_call_id = ''c'', cc_provider_id = ''arm'', cc_contract_id = ''cap/target'', cc_args_json = []\<rparr>"
    by (rule rule_for_unambiguous [THEN conjunct1]) auto
qed code_simp

end
