(* ===== verification/Async_Poll.thy ===== *)
theory Async_Poll
  imports Verification Atlas_Properties
begin

text \<open>
  Asynchronous capabilities: how \<open>dispatch/async_registry.rs\<close> recognises one, and how
  \<open>dispatch/async_poll.rs\<close> reads its answers. The JSON reader is a parameter.
\<close>

section \<open>Which calls are asynchronous\<close>

record async_group =
  ag_status_contract :: string
  ag_cancel_contract :: string

definition contract_leaf :: "string \<Rightarrow> string" where
  "contract_leaf contract_id = leaf_after (CHR ''/'') contract_id"

text \<open>\<open>answer\<close> is Atlas' reply to the query for the provider with the MCP transport filter.\<close>

definition resolve_async_group ::
  "string + capability_provider list \<Rightarrow> string \<Rightarrow> string \<Rightarrow> string + async_group option" where
  "resolve_async_group answer provider_id contract_id =
     (if contract_leaf contract_id = ''status'' \<or> contract_leaf contract_id = ''cancel'' then Inr None
      else (let status_contract = contract_id @ ''/status''; cancel_contract = contract_id @ ''/cancel''
            in case answer of
                 Inl e \<Rightarrow> Inl (''query_capabilities('' @ provider_id @ '') failed: '' @ e)
               | Inr providers \<Rightarrow>
                   (case find (\<lambda>p. cp_id p = provider_id) providers of
                      None \<Rightarrow> Inr None
                    | Some provider \<Rightarrow>
                        (let has_status = list_ex (\<lambda>c. c_contract_id c = status_contract) (cp_capabilities provider);
                             has_cancel = list_ex (\<lambda>c. c_contract_id c = cancel_contract) (cp_capabilities provider)
                         in if \<not> has_status \<and> \<not> has_cancel then Inr None
                            else if has_status \<and> has_cancel then
                              Inr (Some \<lparr>ag_status_contract = status_contract, ag_cancel_contract = cancel_contract\<rparr>)
                            else Inl (''async capability '' @ quoted contract_id @ '' on provider ''
                              @ quoted provider_id @ '' must register both '' @ quoted status_contract
                              @ '' and '' @ quoted cancel_contract)))))"

section \<open>Reading the provider's answers\<close>

definition json_get :: "string \<Rightarrow> json \<Rightarrow> json option" where
  "json_get k j = (case j of JObj kvs \<Rightarrow> map_of kvs k | _ \<Rightarrow> None)"

definition as_str :: "json option \<Rightarrow> string option" where
  "as_str j = (case j of Some (JStr s) \<Rightarrow> Some s | _ \<Rightarrow> None)"

definition extract_run_id :: "(string \<Rightarrow> json option) \<Rightarrow> string \<Rightarrow> string" where
  "extract_run_id read output =
     (case read output of
        None \<Rightarrow> []
      | Some v \<Rightarrow> (case as_str (json_get ''run_id'' v) of None \<Rightarrow> [] | Some s \<Rightarrow> s))"

definition parse_state_name :: "string \<Rightarrow> nat option" where
  "parse_state_name s =
     (let u = map ascii_upper s
      in if u = ''PENDING'' then Some st_pending
         else if u = ''RUNNING'' then Some st_running
         else if u = ''SUCCEEDED'' then Some st_succeeded
         else if u = ''FAILED'' then Some st_failed
         else if u = ''CANCELED'' \<or> u = ''CANCELLED'' then Some st_canceled
         else if u = ''TIMEOUT'' then Some st_timeout
         else if u = ''PAUSED'' then Some st_paused
         else None)"

definition parse_status_json :: "(string \<Rightarrow> json option) \<Rightarrow> string \<Rightarrow> nat \<times> string" where
  "parse_status_json read output =
     (case read output of
        None \<Rightarrow> (st_running, output)
      | Some v \<Rightarrow>
          (case as_str (json_get ''state'' v) of
             None \<Rightarrow> (st_failed, ''status response missing required 'state' field: '' @ output)
           | Some state_str \<Rightarrow>
               (let detail = (case as_str (json_get ''detail'' v) of None \<Rightarrow> [] | Some d \<Rightarrow> d)
                in case parse_state_name state_str of
                     Some state \<Rightarrow> (state, detail)
                   | None \<Rightarrow> (st_failed, ''status response has unknown state '' @ quoted state_str
                       @ '': '' @ output))))"

definition failed_result :: "capability_call \<Rightarrow> string \<Rightarrow> call_result" where
  "failed_result call error =
     \<lparr>cr_call_id = cc_call_id call, cr_result_provider_id = cc_provider_id call,
      cr_result_contract_id = cc_contract_id call, cr_success = False, cr_output = [], cr_error = error\<rparr>"

definition canceled_result :: "capability_call \<Rightarrow> string \<Rightarrow> call_result" where
  "canceled_result call error = failed_result call error"

definition terminal_result :: "capability_call \<Rightarrow> nat \<Rightarrow> string \<Rightarrow> string \<Rightarrow> call_result" where
  "terminal_result call state detail raw =
     (let success = (state = st_succeeded)
      in \<lparr>cr_call_id = cc_call_id call, cr_result_provider_id = cc_provider_id call,
          cr_result_contract_id = cc_contract_id call, cr_success = success,
          cr_output = (if success then raw else []), cr_error = (if success then [] else detail)\<rparr>)"

text \<open>The arguments of a status or cancel call.\<close>

definition run_args :: "(json \<Rightarrow> string) \<Rightarrow> string \<Rightarrow> string" where
  "run_args render run_id = (if run_id = [] then ''{}'' else render (JObj [(''run_id'', JStr run_id)]))"

section \<open>Facts\<close>

lemma parse_state_name_not_verifying: "parse_state_name s \<noteq> Some st_verifying"
  by (simp add: parse_state_name_def Let_def st_defs)

lemma str_field: "as_str (json_get k v) = Some n \<longleftrightarrow> (\<exists>kvs. v = JObj kvs \<and> map_of kvs k = Some (JStr n))"
proof (cases v)
  case (JObj kvs)
  show ?thesis
  proof (cases "map_of kvs k")
    case (Some j)
    with JObj show ?thesis by (cases j) (simp_all add: as_str_def json_get_def)
  qed (simp add: as_str_def json_get_def JObj)
qed (simp_all add: as_str_def json_get_def)

lemma terminal_result_success: "cr_success (terminal_result call state detail raw) \<longleftrightarrow> state = st_succeeded"
  by (simp add: terminal_result_def Let_def)

text \<open>The async poller succeeds only on an explicit SUCCEEDED: an answer that is not JSON
  keeps the poll running, an answer without a known state ends the call as failed, and the only way to a
  successful result is a JSON object whose state, up to letter case, is SUCCEEDED.\<close>

lemma status_succeeds_only_explicitly:
  "parse_status_json read output =
     (case read output of
        None \<Rightarrow> (st_running, output)
      | Some v \<Rightarrow> (case Option.bind (as_str (json_get ''state'' v)) parse_state_name of
          None \<Rightarrow> (st_failed, snd (parse_status_json read output))
        | Some s \<Rightarrow> (s, snd (parse_status_json read output))))
   \<and> {out. fst (parse_status_json read out) = st_succeeded}
     = {out. \<exists>kvs n. read out = Some (JObj kvs) \<and> map_of kvs ''state'' = Some (JStr n)
          \<and> map ascii_upper n = ''SUCCEEDED''}"
proof (rule conjI)
  show "{out. fst (parse_status_json read out) = st_succeeded}
     = {out. \<exists>kvs n. read out = Some (JObj kvs) \<and> map_of kvs ''state'' = Some (JStr n)
          \<and> map ascii_upper n = ''SUCCEEDED''}"
  proof -
    have name: "parse_state_name n = Some st_succeeded \<longleftrightarrow> map ascii_upper n = ''SUCCEEDED''" for n
      by (simp add: parse_state_name_def Let_def st_defs)
    have "fst (parse_status_json read out) = st_succeeded \<longleftrightarrow>
        (\<exists>v n. read out = Some v \<and> as_str (json_get ''state'' v) = Some n \<and> parse_state_name n = Some st_succeeded)" for out
    proof (cases "read out")
      case (Some v)
      then show ?thesis
      proof (cases "as_str (json_get ''state'' v)")
        case (Some n)
        with \<open>read out = Some v\<close> show ?thesis
          by (cases "parse_state_name n") (simp_all add: parse_status_json_def Let_def st_defs)
      qed (simp add: parse_status_json_def st_defs)
    qed (simp add: parse_status_json_def st_defs)
    then have "fst (parse_status_json read out) = st_succeeded \<longleftrightarrow> (\<exists>kvs n. read out = Some (JObj kvs)
        \<and> map_of kvs ''state'' = Some (JStr n) \<and> map ascii_upper n = ''SUCCEEDED'')" for out
      unfolding name str_field by (simp only: ex_simps(1-2) simp_thms ex_comm) metis
    then show ?thesis by simp
  qed
  show "parse_status_json read output =
     (case read output of
        None \<Rightarrow> (st_running, output)
      | Some v \<Rightarrow> (case Option.bind (as_str (json_get ''state'' v)) parse_state_name of
          None \<Rightarrow> (st_failed, snd (parse_status_json read output))
        | Some s \<Rightarrow> (s, snd (parse_status_json read output))))"
  proof (cases "read output")
    case (Some v)
    then show ?thesis
      by (cases "as_str (json_get ''state'' v)")
        (simp_all add: parse_status_json_def Let_def split: option.split)
  qed (simp add: parse_status_json_def)
qed

definition declares_mcp :: "provider_state \<Rightarrow> string \<Rightarrow> bool" where
  "declares_mcp p c = list_ex (\<lambda>e. de_transport e = Transport_Mcp \<and> de_contract_id e = c) (ps_endpoints p)"

lemma query_one_provider:
  assumes inv: "atlas_inv st" and "trim i = i" and "i \<noteq> []"
  shows "find (\<lambda>q. cp_id q = i) (query_with_prefix i Kind_Unspecified [] [] tr st)
    = map_option (\<lambda>p. \<lparr>cp_id = ps_id p, cp_kind = kind_i32 (ps_kind p), cp_namespace = ps_namespace p,
               cp_capability_md_path = ps_capability_md_path p, cp_last_heartbeat_ms = ps_last_heartbeat_ms p,
               cp_state = lifecycle_i32 (provider_lifecycle p), cp_state_detail = ps_state_detail p,
               cp_capabilities = query_capabilities [] tr p,
               cp_capability_md = ps_capability_md p, cp_registration_id = ps_registration_id p\<rparr>)
        (hm_get (at_providers st) i)"
proof -
  have only: "filter (\<lambda>p. ps_id p = i) (map snd m) = (case hm_get m i of None \<Rightarrow> [] | Some p \<Rightarrow> [p])"
    if "hm_wf m" "\<forall>j p. hm_get m j = Some p \<longrightarrow> ps_id p = j" for m
    using that
  proof (induction m)
    case (Cons a m)
    obtain j p where a: "a = (j, p)" by fastforce
    from Cons.prems(1) a have m: "hm_wf m" "hm_get m j = None"
      by (auto simp: hm_wf_def hm_get_def map_of_eq_None_iff)
    have get: "hm_get (a # m) k = (if k = j then Some p else hm_get m k)" for k
      by (simp add: a hm_get_def)
    have "ps_id p = j" using Cons.prems(2) [rule_format, of j p] by (simp add: get)
    moreover have "ps_id q = k" if "hm_get m k = Some q" for k q
      using Cons.prems(2) [rule_format, of k q] that m(2) by (cases "k = j") (simp_all add: get)
    then have "filter (\<lambda>p. ps_id p = i) (map snd m) = (case hm_get m i of None \<Rightarrow> [] | Some p \<Rightarrow> [p])"
      by (intro Cons.IH [OF m(1)]) blast
    moreover note get
    ultimately show ?case using a m(2) by (cases "i = j") (simp_all cong: option.case_cong)
  qed simp
  have "query_match i Kind_Unspecified [] [] = (\<lambda>p. ps_id p = i)"
    using assms(3) by (simp add: query_match_def fun_eq_iff)
  with only [of "at_providers st"] inv show ?thesis
    by (auto simp: query_with_prefix_def assms(2) atlas_inv_def provider_ok_def split: option.split)
qed

text \<open>A call is polled exactly when its provider declares both companion contracts over
  MCP; one of the two alone is an error before anything is dispatched, none makes the call synchronous.\<close>

lemma async_group_complete:
  assumes "atlas_inv st" and "hm_get (at_providers st) i = Some p" and "trim i = i"
    and "contract_leaf c \<notin> {''status'', ''cancel''}"
  shows "resolve_async_group (Inr (query_with_prefix i Kind_Unspecified [] [] Transport_Mcp st)) i c =
    (case (declares_mcp p (c @ ''/status''), declares_mcp p (c @ ''/cancel'')) of
       (True, True) \<Rightarrow> Inr (Some \<lparr>ag_status_contract = c @ ''/status'', ag_cancel_contract = c @ ''/cancel''\<rparr>)
     | (False, False) \<Rightarrow> Inr None
     | _ \<Rightarrow> Inl (''async capability '' @ quoted c @ '' on provider '' @ quoted i @ '' must register both ''
              @ quoted (c @ ''/status'') @ '' and '' @ quoted (c @ ''/cancel'')))"
proof -
  have "i \<noteq> []" using assms(1,2) by (auto simp: atlas_inv_def provider_ok_def)
  note q = query_one_provider [OF assms(1,3) this, of Transport_Mcp]
  have caps: "list_ex (\<lambda>k. c_contract_id k = x) (query_capabilities [] Transport_Mcp p) = declares_mcp p x" for x
    by (auto simp: query_capabilities_def capability_at_def declares_mcp_def list_ex_iff)
  show ?thesis
    using assms(4) by (simp add: resolve_async_group_def q assms(2) caps Let_def split: bool.split)
qed

definition demo_async_atlas :: atlas where
  "demo_async_atlas = atlas_run no_json [] [Op_Register ''u'' ''r'' 0 ''arm'' Kind_Service ''robonix/service/arm'' [] [],
     Op_Declare show_nat ''arm'' ''robonix/service/arm/move'' Transport_Mcp ''h:1'' (Some (Wire_Mcp [])) [],
     Op_Declare show_nat ''arm'' ''robonix/service/arm/move/status'' Transport_Mcp ''h:2'' (Some (Wire_Mcp [])) [],
     Op_Declare show_nat ''arm'' ''robonix/service/arm/move/cancel'' Transport_Mcp ''h:3'' (Some (Wire_Mcp [])) []]"

lemma async_group_complete_witness:
  "resolve_async_group (Inr (query_with_prefix ''arm'' Kind_Unspecified [] [] Transport_Mcp demo_async_atlas)) ''arm''
      ''robonix/service/arm/move'' =
    Inr (Some \<lparr>ag_status_contract = ''robonix/service/arm/move/status'',
               ag_cancel_contract = ''robonix/service/arm/move/cancel''\<rparr>)"
proof -
  have inv: "atlas_inv demo_async_atlas"
    unfolding demo_async_atlas_def atlas_run_def by (rule atlas.inv_reachable) simp
  let ?p = "the (hm_get (at_providers demo_async_atlas) ''arm'')"
  have p: "hm_get (at_providers demo_async_atlas) ''arm'' = Some ?p"
    and s: "declares_mcp ?p (''robonix/service/arm/move'' @ ''/status'')"
      "declares_mcp ?p (''robonix/service/arm/move'' @ ''/cancel'')"
    and t: "trim ''arm'' = ''arm''" and l: "contract_leaf ''robonix/service/arm/move'' = ''move''"
    by code_simp+
  have "contract_leaf ''robonix/service/arm/move'' \<notin> {''status'', ''cancel''}" unfolding l by simp
  from async_group_complete [OF inv p t this] show ?thesis by (simp only: s) simp
qed

end
