(* ===== verification/Exec_Engine.thy ===== *)
theory Exec_Engine
  imports Plan_Control Async_Poll
begin

text \<open>
  The plan interpreter of \<open>system/executor/src/service.rs\<close>: \<open>execute\<close>, \<open>execute_node\<close>, \<open>execute_call\<close>,
  \<open>complete_operator\<close> and the overlap verifiers, with the polling loop of \<open>dispatch/async_poll.rs\<close> and the
  in-process builtins. A task is a program over the points where it awaits: taking the lock of the plan table,
  sending an event, calling out, spawning and joining. Between two such points nothing else runs in the task,
  so the interleavings of the tasks are those of these steps.

  A call to a provider (activation, connect, MCP call, disconnect) is one step whose answer is arbitrary; it
  is logged, with its answer, when it returns. Sending on the event channel is one step.
\<close>

section \<open>Programs\<close>

datatype ext_call =
    Ext_Provider capability_call "nat option"
  | Ext_Builtin capability_call
  | Ext_Status string string string
  | Ext_Cancel running_async_call

record poll_context =
  pc_call :: capability_call
  pc_status_contract :: string
  pc_run_id :: string
  pc_plan_id :: string
  pc_op_id :: string

text \<open>\<open>Done (failed, verifiers)\<close> is a finished task with its \<open>NodeExecution\<close>; handles are numbers. \<open>Panic\<close>
  is a Rust panic: a failed \<open>expect\<close>, an index out of bounds, or the recursion that never ends.\<close>

datatype prog =
    Done "bool \<times> nat list"
  | Look "plan_runtime \<Rightarrow> prog"
  | Table rt_op "plan_runtime \<Rightarrow> prog"
  | Emit rtdl_event prog
  | Query string "string + capability_provider list \<Rightarrow> prog"
  | Ext ext_call "string + string \<Rightarrow> prog"
  | Wait "string list" "bool \<Rightarrow> prog"
  | Spawn prog "nat \<Rightarrow> prog"
  | Join nat "bool \<times> nat list \<Rightarrow> prog"
  | Poll poll_context "call_result \<times> nat \<Rightarrow> prog"
  | Panic

lemma prog_induct [case_names Done Look Table Emit Query Ext Wait Spawn Join Poll Panic]:
  assumes "\<And>x. P (Done x)" and "\<And>k. (\<And>rt. P (k rt)) \<Longrightarrow> P (Look k)"
    and "\<And>op k. (\<And>rt. P (k rt)) \<Longrightarrow> P (Table op k)" and "\<And>ev k. P k \<Longrightarrow> P (Emit ev k)"
    and "\<And>i k. (\<And>a. P (k a)) \<Longrightarrow> P (Query i k)" and "\<And>c k. (\<And>a. P (k a)) \<Longrightarrow> P (Ext c k)"
    and "\<And>ids k. (\<And>b. P (k b)) \<Longrightarrow> P (Wait ids k)"
    and "\<And>q k. P q \<Longrightarrow> (\<And>h. P (k h)) \<Longrightarrow> P (Spawn q k)" and "\<And>h k. (\<And>x. P (k x)) \<Longrightarrow> P (Join h k)"
    and "\<And>ctx k. (\<And>x. P (k x)) \<Longrightarrow> P (Poll ctx k)" and "P Panic"
  shows "P p"
  by (induction p) (auto intro: assms)

text \<open>The executor's identity and policy, and the readers of JSON documents.\<close>

record exec_env =
  en_self :: string
  en_policy :: verification_policy
  en_read :: "string \<Rightarrow> json option"
  en_render :: "json \<Rightarrow> string"
  en_verdict :: "string \<Rightarrow> string + verify_response"
  en_cancel_args :: "string \<Rightarrow> string + string \<times> u64 option"
  en_stop_args :: "string \<Rightarrow> string + string \<times> string \<times> string option"
  en_status_args :: "string \<Rightarrow> string + string"

section \<open>Events and states\<close>

definition is_operator_node :: "nat \<Rightarrow> bool" where
  "is_operator_node k \<longleftrightarrow> k = rtdl_sequence \<or> k = rtdl_parallel"

definition leaf_terminal_state :: "bool \<Rightarrow> bool \<Rightarrow> nat" where
  "leaf_terminal_state success cancelled =
     (if cancelled then st_canceled else if success then st_succeeded else st_failed)"

definition node_context :: "plan \<Rightarrow> nat \<Rightarrow> node_event_context" where
  "node_context pl i =
     (let node = pl_nodes pl ! i
      in \<lparr>ne_plan_id = pl_plan_id pl, ne_node_index = i, ne_node_kind = rn_node_kind node,
          ne_op_id = rn_op_id node, ne_description = rn_description node\<rparr>)"

definition record_state :: "node_event_context \<Rightarrow> nat \<Rightarrow> prog \<Rightarrow> prog" where
  "record_state node state k = Table (RT_Record_State (ne_plan_id node) (ne_op_id node) state) (\<lambda>_. k)"

definition send_operator_state :: "node_event_context \<Rightarrow> nat \<Rightarrow> string \<Rightarrow> prog \<Rightarrow> prog" where
  "send_operator_state node state reason k =
     (let op = (if ne_node_kind node = rtdl_sequence then ''sequence''
                else if ne_node_kind node = rtdl_parallel then ''parallel'' else ''operator'');
          detail = ''RTDL '' @ op @ '' op_id='' @ ne_op_id node @ '' '' @ reason @ '': '' @ ne_description node
      in record_state node state (Emit (operator_node_state node state detail) k))"

definition send_operator_final :: "node_event_context \<Rightarrow> bool \<Rightarrow> bool \<Rightarrow> prog \<Rightarrow> prog" where
  "send_operator_final node failed cancelled k =
     (if cancelled then send_operator_state node st_canceled ''was canceled'' k
      else if failed then
        send_operator_state node st_failed ''failed because one or more child nodes failed'' k
      else send_operator_state node st_succeeded ''completed successfully'' k)"

definition send_stop_on_enter :: "node_event_context \<Rightarrow> prog \<Rightarrow> prog" where
  "send_stop_on_enter node k =
     (let detail = ''stopped on entering op_id='' @ ne_op_id node @ '': plan cancelled''
      in record_state node st_canceled
           (if is_operator_node (ne_node_kind node) then Emit (operator_node_state node st_canceled detail) k
            else Emit (Node_State node st_canceled detail None) k))"

section \<open>Cancelling from inside\<close>

text \<open>The provider cancel calls, one after the other, with the errors they return.\<close>

fun send_cancels :: "running_async_call list \<Rightarrow> string list \<Rightarrow> (string list \<Rightarrow> prog) \<Rightarrow> prog" where
  "send_cancels [] errors k = k errors"
| "send_cancels (call # calls) errors k =
     Ext (Ext_Cancel call) (\<lambda>r. send_cancels calls
       (errors @ (case r of Inl e \<Rightarrow> [ra_call_id call @ '': '' @ e] | Inr _ \<Rightarrow> [])) k)"

definition stop_plan :: "string \<Rightarrow> prog \<Rightarrow> prog" where
  "stop_plan plan_id k =
     Table (RT_Cancel plan_id) (\<lambda>rt. send_cancels (fst (trigger_stop plan_id rt)) [] (\<lambda>_. k))"

definition trigger_stop_on_complete :: "node_event_context \<Rightarrow> prog \<Rightarrow> prog" where
  "trigger_stop_on_complete node k =
     Look (\<lambda>rt. if should_stop_at (ne_plan_id node) (ne_op_id node) On_Complete rt
                then stop_plan (ne_plan_id node) k else k)"

section \<open>Dispatch\<close>

definition result_of :: "capability_call \<Rightarrow> string + string \<Rightarrow> call_result" where
  "result_of call r = (case r of Inl e \<Rightarrow> error_result call e | Inr out \<Rightarrow> ok_result call out)"

definition builtin :: "exec_env \<Rightarrow> capability_call \<Rightarrow> (call_result \<Rightarrow> prog) \<Rightarrow> prog" where
  "builtin env call k =
     (let op = contract_leaf (cc_contract_id call) in
      if op = ''cancel_plan'' then
        (case en_cancel_args env (cc_args_json call) of
           Inl e \<Rightarrow> k (error_result call (''invalid cancel_plan args: '' @ e))
         | Inr (plan_id, _) \<Rightarrow>
             Table (RT_Cancel plan_id) (\<lambda>rt.
               case begin_cancel plan_id rt of
                 (Inl _, _) \<Rightarrow> k (ok_result call (not_running_message plan_id))
               | (Inr calls, _) \<Rightarrow>
                   send_cancels calls [] (\<lambda>errors.
                     Wait [plan_id] (\<lambda>completed.
                       k (ok_result call (cancel_message plan_id completed (length calls) errors))))))
      else if op = ''stop_plan_at'' then
        Table (RT_Stop_Builtin (en_stop_args env) call)
          (\<lambda>rt. k (fst (stop_plan_at_builtin (en_stop_args env) call rt)))
      else if op = ''get_plan_status'' then
        Look (\<lambda>rt. k (get_plan_status_builtin (en_status_args env) (en_render env) call rt))
      else if op = ''get_all_plans'' then
        Look (\<lambda>rt. k (get_all_plans_builtin (en_render env) call rt))
      else Ext (Ext_Builtin call) (\<lambda>r. k (result_of call r)))"

definition dispatch_with_timeout ::
  "exec_env \<Rightarrow> capability_call \<Rightarrow> nat option \<Rightarrow> (call_result \<Rightarrow> prog) \<Rightarrow> prog" where
  "dispatch_with_timeout env call timeout k =
     (if cc_provider_id call = en_self env then builtin env call k
      else Ext (Ext_Provider call timeout) (\<lambda>r. k (result_of call r)))"

definition dispatch :: "exec_env \<Rightarrow> capability_call \<Rightarrow> (call_result \<Rightarrow> prog) \<Rightarrow> prog" where
  "dispatch env call k = dispatch_with_timeout env call None k"

definition verify_prog ::
  "exec_env \<Rightarrow> capability_call \<Rightarrow> node_event_context \<Rightarrow> call_result \<Rightarrow> (call_result \<Rightarrow> prog) \<Rightarrow> prog" where
  "verify_prog env call node original k =
     (case rule_for (en_policy env) call of
        None \<Rightarrow> k original
      | Some rule \<Rightarrow>
          dispatch_with_timeout env
            (build_verifier_call (en_read env) (en_render env) rule call (ne_description node) original)
            (Some 60) (\<lambda>response. k (verify_outcome (en_verdict env) rule original response)))"

section \<open>Polling\<close>

text \<open>One turn of the loop after its tick; a live state goes round again.\<close>

definition poll_turn :: "exec_env \<Rightarrow> poll_context \<Rightarrow> (call_result \<times> nat \<Rightarrow> prog) \<Rightarrow> prog" where
  "poll_turn env ctx k =
     (let call = pc_call ctx; plan_id = pc_plan_id ctx;
          unregister = (\<lambda>p. Table (RT_Async_Unregister plan_id (cc_call_id call)) (\<lambda>_. p))
      in Look (\<lambda>rt.
           if is_cancelled plan_id rt then
             Table (RT_Async_Cancel plan_id (cc_call_id call)) (\<lambda>rt.
               send_cancels (fst (cancel_async_call_for_plan plan_id (cc_call_id call) rt)) []
                 (\<lambda>_. k (canceled_result call ''plan was cancelled'', st_canceled)))
           else
             Ext (Ext_Status (cc_provider_id call) (pc_status_contract ctx) (pc_run_id ctx)) (\<lambda>r.
               case r of
                 Inl e \<Rightarrow>
                   unregister (k (failed_result call (''status poll failed for '' @ cc_contract_id call
                     @ '': '' @ e), st_failed))
               | Inr out \<Rightarrow>
                   (case parse_status_json (en_read env) out of
                      (state, detail) \<Rightarrow>
                        if is_terminal_state state
                        then unregister (k (terminal_result call state detail out, state))
                        else Table (RT_Record_State plan_id (pc_op_id ctx) state) (\<lambda>_. Poll ctx k)))))"

definition run_until_terminal ::
  "exec_env \<Rightarrow> capability_call \<Rightarrow> async_group \<Rightarrow> node_event_context \<Rightarrow> (call_result \<times> nat \<Rightarrow> prog) \<Rightarrow> prog" where
  "run_until_terminal env call grp node k =
     dispatch env call (\<lambda>initial.
       if \<not> cr_success initial then k (initial, st_failed)
       else
         (let run_id = extract_run_id (en_read env) (cr_output initial);
              running = \<lparr>ra_call_id = cc_call_id call, ra_provider_id = cc_provider_id call,
                         ra_cancel_contract = ag_cancel_contract grp, ra_run_id = run_id\<rparr>
          in Table (RT_Async_Register (ne_plan_id node) running) (\<lambda>rt.
               case register_or_cancel_async_call (ne_plan_id node) running rt of
                 (accepted, calls, _) \<Rightarrow>
                   send_cancels calls [] (\<lambda>_.
                     if \<not> accepted then
                       k (canceled_result call ''plan was cancelled before async polling began'', st_canceled)
                     else
                       Poll \<lparr>pc_call = call, pc_status_contract = ag_status_contract grp, pc_run_id = run_id,
                             pc_plan_id = ne_plan_id node, pc_op_id = ne_op_id node\<rparr> k))))"

section \<open>Leaves\<close>

definition overlap_verifier ::
  "exec_env \<Rightarrow> capability_call \<Rightarrow> node_event_context \<Rightarrow> call_result \<Rightarrow> prog" where
  "overlap_verifier env call node original =
     verify_prog env call node original (\<lambda>verified.
       let state = leaf_terminal_state (cr_success verified) False
       in record_state node state (Emit (node_state_from_result node verified state)
            (trigger_stop_on_complete node (Done (\<not> cr_success verified, [])))))"

definition publish_leaf ::
  "node_event_context \<Rightarrow> call_result \<Rightarrow> nat \<Rightarrow> (bool \<times> nat list \<Rightarrow> prog) \<Rightarrow> prog" where
  "publish_leaf node result state0 k =
     Look (\<lambda>rt.
       let state = (if is_cancelled (ne_plan_id node) rt then st_canceled else state0)
       in record_state node state (Emit (node_state_from_result node result state)
            (k (\<not> cr_success result, []))))"

definition finish_leaf ::
  "exec_env \<Rightarrow> capability_call \<Rightarrow> node_event_context \<Rightarrow> call_result \<Rightarrow> nat \<Rightarrow> bool
    \<Rightarrow> (bool \<times> nat list \<Rightarrow> prog) \<Rightarrow> prog" where
  "finish_leaf env call node result state eligible k =
     (if eligible \<and> vp_overlap (en_policy env) \<and> rule_for (en_policy env) call \<noteq> None then
        record_state node st_verifying (Emit (node_state_from_result node result st_verifying)
          (Spawn (overlap_verifier env call node result) (\<lambda>h. k (False, [h]))))
      else if eligible then
        verify_prog env call node result (\<lambda>verified.
          publish_leaf node verified (if \<not> cr_success verified then st_failed else state) k)
      else publish_leaf node result state k)"

definition resolve_prog ::
  "exec_env \<Rightarrow> capability_call \<Rightarrow> (string + async_group option \<Rightarrow> prog) \<Rightarrow> prog" where
  "resolve_prog env call k =
     (if cc_provider_id call = en_self env then k (Inr None)
      else if contract_leaf (cc_contract_id call) = ''status'' \<or> contract_leaf (cc_contract_id call) = ''cancel''
      then k (Inr None)
      else Query (cc_provider_id call)
             (\<lambda>answer. k (resolve_async_group answer (cc_provider_id call) (cc_contract_id call))))"

definition execute_call ::
  "exec_env \<Rightarrow> capability_call \<Rightarrow> node_event_context \<Rightarrow> (bool \<times> nat list \<Rightarrow> prog) \<Rightarrow> prog" where
  "execute_call env call node k =
     (let conclude = (\<lambda>(result, state).
            if cr_success result \<and> state = st_succeeded then
              Look (\<lambda>rt. finish_leaf env call node result state (\<not> is_cancelled (ne_plan_id node) rt) k)
            else finish_leaf env call node result state False k)
      in record_state node st_running
           (resolve_prog env call (\<lambda>async_group.
              case async_group of
                Inl error \<Rightarrow> conclude (error_result call error, st_failed)
              | Inr (Some grp) \<Rightarrow> run_until_terminal env call grp node conclude
              | Inr None \<Rightarrow>
                  dispatch env call (\<lambda>r. Look (\<lambda>rt.
                    conclude (r, leaf_terminal_state (cr_success r) (is_cancelled (ne_plan_id node) rt)))))))"

section \<open>Operators\<close>

fun wait_for_verifiers :: "nat list \<Rightarrow> bool \<Rightarrow> (bool \<Rightarrow> prog) \<Rightarrow> prog" where
  "wait_for_verifiers [] any_failed k = k any_failed"
| "wait_for_verifiers (h # hs) any_failed k =
     Join h (\<lambda>(failed, _). wait_for_verifiers hs (any_failed \<or> failed) k)"

text \<open>\<open>cancelled || runtime.is_cancelled(...).await\<close>.\<close>

definition or_cancelled :: "string \<Rightarrow> bool \<Rightarrow> (bool \<Rightarrow> prog) \<Rightarrow> prog" where
  "or_cancelled plan_id cancelled k =
     (if cancelled then k True else Look (\<lambda>rt. k (is_cancelled plan_id rt)))"

definition operator_verifier :: "node_event_context \<Rightarrow> nat list \<Rightarrow> bool \<Rightarrow> bool \<Rightarrow> prog" where
  "operator_verifier node verifiers immediate_failed cancelled0 =
     wait_for_verifiers verifiers False (\<lambda>verification_failed.
       or_cancelled (ne_plan_id node) cancelled0 (\<lambda>cancelled.
         let failed = immediate_failed \<or> verification_failed \<or> cancelled
         in send_operator_final node failed cancelled
              (trigger_stop_on_complete node (Done (failed, [])))))"

definition complete_operator ::
  "nat list \<Rightarrow> bool \<Rightarrow> bool \<Rightarrow> node_event_context \<Rightarrow> (bool \<times> nat list \<Rightarrow> prog) \<Rightarrow> prog" where
  "complete_operator verifiers immediate_failed cancelled node k =
     (if verifiers = [] then
        (let failed = immediate_failed \<or> cancelled
         in send_operator_final node failed cancelled (k (failed, [])))
      else
        send_operator_state node st_verifying ''is waiting for descendant verification''
          (Spawn (operator_verifier node verifiers immediate_failed cancelled)
             (\<lambda>h. k (immediate_failed \<or> cancelled, [h]))))"

text \<open>The loop of a sequence over its children: \<open>k\<close> takes \<open>any_failed\<close>, \<open>cancelled\<close> and the verifiers.\<close>

fun run_sequence ::
  "(nat \<Rightarrow> (bool \<times> nat list \<Rightarrow> prog) \<Rightarrow> prog) \<Rightarrow> string \<Rightarrow> nat list \<Rightarrow> nat list
    \<Rightarrow> (bool \<Rightarrow> bool \<Rightarrow> nat list \<Rightarrow> prog) \<Rightarrow> prog" where
  "run_sequence exec plan_id [] verifiers k = k False False verifiers"
| "run_sequence exec plan_id (c # cs) verifiers k =
     Look (\<lambda>rt.
       if is_cancelled plan_id rt then k True True verifiers
       else exec c (\<lambda>(failed, vs).
              if failed then k True False (verifiers @ vs)
              else run_sequence exec plan_id cs (verifiers @ vs) k))"

fun spawn_children ::
  "(nat \<Rightarrow> (bool \<times> nat list \<Rightarrow> prog) \<Rightarrow> prog) \<Rightarrow> nat list \<Rightarrow> nat list \<Rightarrow> (nat list \<Rightarrow> prog) \<Rightarrow> prog" where
  "spawn_children exec [] handles k = k handles"
| "spawn_children exec (c # cs) handles k =
     Spawn (exec c Done) (\<lambda>h. spawn_children exec cs (handles @ [h]) k)"

fun join_children ::
  "nat list \<Rightarrow> bool \<Rightarrow> nat list \<Rightarrow> (bool \<Rightarrow> nat list \<Rightarrow> prog) \<Rightarrow> prog" where
  "join_children [] any_failed verifiers k = k any_failed verifiers"
| "join_children (h # hs) any_failed verifiers k =
     Join h (\<lambda>(failed, vs). join_children hs (any_failed \<or> failed) (verifiers @ vs) k)"

section \<open>Nodes and plans\<close>

text \<open>\<open>fuel\<close> bounds the depth of the recursion, which the code does not; a validated plan never needs more
  than its number of nodes.\<close>

primrec execute_node ::
  "nat \<Rightarrow> exec_env \<Rightarrow> plan \<Rightarrow> nat \<Rightarrow> (bool \<times> nat list \<Rightarrow> prog) \<Rightarrow> prog" where
  "execute_node 0 env pl i k = Panic"
| "execute_node (Suc fuel) env pl i k =
     (if i \<ge> length (pl_nodes pl) then Panic
      else
        (let node = pl_nodes pl ! i; ctx = node_context pl i; plan_id = pl_plan_id pl;
             after = (\<lambda>(failed, verifiers).
               if verifiers = [] then trigger_stop_on_complete ctx (k (failed, verifiers))
               else k (failed, verifiers))
         in Look (\<lambda>rt.
              if is_cancelled plan_id rt then
                (if is_operator_node (rn_node_kind node)
                 then send_operator_state ctx st_canceled ''canceled'' (k (True, []))
                 else k (True, []))
              else
                Look (\<lambda>rt.
                  if should_stop_at plan_id (rn_op_id node) On_Enter rt then
                    stop_plan plan_id (send_stop_on_enter ctx (k (True, [])))
                  else if rn_node_kind node = rtdl_sequence then
                    run_sequence (execute_node fuel env pl) plan_id (rn_children node) []
                      (\<lambda>any_failed cancelled verifiers.
                         or_cancelled plan_id cancelled (\<lambda>cancelled.
                           complete_operator verifiers any_failed cancelled ctx after))
                  else if rn_node_kind node = rtdl_parallel then
                    spawn_children (execute_node fuel env pl) (rn_children node) [] (\<lambda>handles.
                      join_children handles False [] (\<lambda>any_failed verifiers.
                        Look (\<lambda>rt. complete_operator verifiers any_failed (is_cancelled plan_id rt) ctx after)))
                  else if rn_node_kind node = rtdl_do then
                    (case rn_call node of
                       None \<Rightarrow> Panic
                     | Some call \<Rightarrow> execute_call env call ctx after)
                  else after (True, [])))))"

definition finish_plan :: "string \<Rightarrow> bool \<times> nat list \<Rightarrow> prog" where
  "finish_plan plan_id execution =
     wait_for_verifiers (snd execution) False (\<lambda>verification_failed.
       Look (\<lambda>rt.
         let cancelled = is_cancelled plan_id rt
         in Table (RT_Complete plan_id) (\<lambda>_.
              Emit (Plan_Complete plan_id (fst execution \<or> verification_failed \<or> cancelled)) (Done (False, [])))))"

definition plan_task :: "exec_env \<Rightarrow> plan \<Rightarrow> prog" where
  "plan_task env pl =
     Table (RT_Register (pl_plan_id pl)) (\<lambda>_.
       Table (RT_Record_Ops pl) (\<lambda>_.
         Emit (Plan_Started (pl_plan_id pl))
           (execute_node (length (pl_nodes pl)) env pl (pl_root_index pl) (finish_plan (pl_plan_id pl)))))"

text \<open>The \<open>execute\<close> handler: the validation error, or the task it spawns.\<close>

definition execute :: "exec_env \<Rightarrow> plan \<Rightarrow> string + prog" where
  "execute env pl =
     (case validate_plan pl of
        Inl e \<Rightarrow> Inl e
      | Inr _ \<Rightarrow> Inr (plan_task env pl))"

section \<open>Steps\<close>

datatype obs = Sent rtdl_event | Called ext_call "string + string" | Changed rt_op

record exec_state =
  es_table :: plan_runtime
  es_trace :: "obs list"
  es_tasks :: "prog list"

datatype actor = Task nat | Poller nat | Others rt_op

text \<open>What other plans and control requests may do to the table while the plan \<open>p\<close> runs: anything but
  starting or completing the plan itself.\<close>

definition foreign :: "string \<Rightarrow> rt_op \<Rightarrow> bool" where
  "foreign p op \<longleftrightarrow> \<not> clears_cancel p op"

definition advance :: "nat \<Rightarrow> prog \<Rightarrow> exec_state \<Rightarrow> exec_state" where
  "advance t p s = s\<lparr>es_tasks := (es_tasks s)[t := p]\<rparr>"

definition observe :: "obs \<Rightarrow> exec_state \<Rightarrow> exec_state" where
  "observe e s = s\<lparr>es_trace := es_trace s @ [e]\<rparr>"

definition apply_op :: "rt_op \<Rightarrow> exec_state \<Rightarrow> exec_state" where
  "apply_op op s = observe (Changed op) (s\<lparr>es_table := snd (rt_effect op (es_table s))\<rparr>)"

definition at :: "exec_state \<Rightarrow> nat \<Rightarrow> prog \<Rightarrow> bool" where
  "at s t p \<longleftrightarrow> t < length (es_tasks s) \<and> es_tasks s ! t = p"

inductive exec_step :: "exec_env \<Rightarrow> string \<Rightarrow> actor \<Rightarrow> exec_state \<Rightarrow> exec_state \<Rightarrow> bool"
  for env :: exec_env and p :: string where
  look: "at s t (Look k) \<Longrightarrow> exec_step env p (Task t) s (advance t (k (es_table s)) s)"
| tab: "at s t (Table op k) \<Longrightarrow> exec_step env p (Task t) s (advance t (k (es_table s)) (apply_op op s))"
| emit: "at s t (Emit ev k) \<Longrightarrow> exec_step env p (Task t) s (advance t k (observe (Sent ev) s))"
| query: "at s t (Query i k) \<Longrightarrow> exec_step env p (Task t) s (advance t (k answer) s)"
| ext: "at s t (Ext c k) \<Longrightarrow> exec_step env p (Task t) s (advance t (k r) (observe (Called c r) s))"
| wait_over: "at s t (Wait ids k) \<Longrightarrow> list_all (\<lambda>i. hm_get (es_table s) i = None) ids \<Longrightarrow>
    exec_step env p (Task t) s (advance t (k True) s)"
| wait_out: "at s t (Wait ids k) \<Longrightarrow> exec_step env p (Task t) s (advance t (k False) s)"
| spawn: "at s t (Spawn q k) \<Longrightarrow> exec_step env p (Task t) s
    (s\<lparr>es_tasks := (es_tasks s)[t := k (length (es_tasks s))] @ [q]\<rparr>)"
| joined: "at s t (Join h k) \<Longrightarrow> at s h (Done r) \<Longrightarrow> exec_step env p (Task t) s (advance t (k r) s)"
| poll: "at s t (Poll ctx k) \<Longrightarrow> exec_step env p (Poller t) s (advance t (poll_turn env ctx k) s)"
| others: "foreign p op \<Longrightarrow> exec_step env p (Others op) s (apply_op op s)"

definition exec_start :: "exec_env \<Rightarrow> plan \<Rightarrow> plan_runtime \<Rightarrow> exec_state" where
  "exec_start env pl rt = \<lparr>es_table = rt, es_trace = [], es_tasks = [plan_task env pl]\<rparr>"

definition step_any :: "exec_env \<Rightarrow> string \<Rightarrow> exec_state \<Rightarrow> exec_state \<Rightarrow> bool" where
  "step_any env p s s' \<longleftrightarrow> (\<exists>a. exec_step env p a s s')"

definition exec_reachable :: "exec_env \<Rightarrow> plan \<Rightarrow> plan_runtime \<Rightarrow> exec_state \<Rightarrow> bool" where
  "exec_reachable env pl rt s \<longleftrightarrow> (step_any env (pl_plan_id pl))\<^sup>*\<^sup>* (exec_start env pl rt) s"

end
