(* ===== verification/Exec_Progress.thy ===== *)
theory Exec_Progress
  imports Exec_Engine "HOL-Library.Multiset"
begin

text \<open>
  Running a validated plan: no panic, no deadlock, and termination up to polling. Tasks are typed by a rank,
  such that a task only waits for tasks of a smaller rank; a typing of all tasks is an invariant of the steps.
\<close>

section \<open>Typing by ranks\<close>

type_synonym ranking = "nat \<rightharpoonup> nat"

definition ranked :: "ranking \<Rightarrow> nat \<Rightarrow> bool \<times> nat list \<Rightarrow> bool" where
  "ranked \<Sigma> n x \<longleftrightarrow> (\<forall>v \<in> set (snd x). \<exists>q < n. \<Sigma> v = Some q)"

primrec wt :: "prog \<Rightarrow> ranking \<Rightarrow> nat \<Rightarrow> bool" where
  "wt (Done x) \<Sigma> r = ranked \<Sigma> r x"
| "wt (Look k) \<Sigma> r = (\<forall>rt. wt (k rt) \<Sigma> r)"
| "wt (Table op k) \<Sigma> r = (\<forall>rt. wt (k rt) \<Sigma> r)"
| "wt (Emit ev k) \<Sigma> r = wt k \<Sigma> r"
| "wt (Query i k) \<Sigma> r = (\<forall>a. wt (k a) \<Sigma> r)"
| "wt (Ext c k) \<Sigma> r = (\<forall>a. wt (k a) \<Sigma> r)"
| "wt (Wait ids k) \<Sigma> r = (\<forall>a. wt (k a) \<Sigma> r)"
| "wt (Spawn q k) \<Sigma> r =
     (\<exists>n < r. wt q \<Sigma> n \<and> (\<forall>\<Sigma>' h. \<Sigma> \<subseteq>\<^sub>m \<Sigma>' \<and> \<Sigma>' h = Some n \<longrightarrow> wt (k h) \<Sigma>' r))"
| "wt (Join h k) \<Sigma> r =
     (\<exists>n < r. \<Sigma> h = Some n \<and> (\<forall>\<Sigma>' x. \<Sigma> \<subseteq>\<^sub>m \<Sigma>' \<and> ranked \<Sigma>' n x \<longrightarrow> wt (k x) \<Sigma>' r))"
| "wt (Poll ctx k) \<Sigma> r = (\<forall>x. wt (k x) \<Sigma> r)"
| "wt Panic \<Sigma> r = False"

lemma ranked_mono: "ranked \<Sigma> n x \<Longrightarrow> \<Sigma> \<subseteq>\<^sub>m \<Sigma>' \<Longrightarrow> n \<le> m \<Longrightarrow> ranked \<Sigma>' m x"
  unfolding ranked_def map_le_def by (metis domI order_less_le_trans)

lemma ranked_Nil [simp]: "ranked \<Sigma> n (b, [])"
  by (simp add: ranked_def)

lemma wt_mono: "wt p \<Sigma> r \<Longrightarrow> \<Sigma> \<subseteq>\<^sub>m \<Sigma>' \<Longrightarrow> wt p \<Sigma>' r"
proof (induction p arbitrary: \<Sigma> \<Sigma>' r rule: prog_induct)
  case (Done x)
  then show ?case by (auto intro: ranked_mono)
next
  case (Spawn q k)
  then obtain n where n: "n < r" "wt q \<Sigma> n" "\<And>\<Sigma>' h. \<Sigma> \<subseteq>\<^sub>m \<Sigma>' \<and> \<Sigma>' h = Some n \<Longrightarrow> wt (k h) \<Sigma>' r" by auto
  with Spawn.IH(1) Spawn.prems(2) have "wt q \<Sigma>' n" by blast
  with n Spawn.prems(2) show ?case by (auto intro: map_le_trans)
next
  case (Join h k)
  then obtain n where n: "n < r" "\<Sigma> h = Some n" "\<And>\<Sigma>' x. \<Sigma> \<subseteq>\<^sub>m \<Sigma>' \<and> ranked \<Sigma>' n x \<Longrightarrow> wt (k x) \<Sigma>' r" by auto
  with Join.prems(2) have "\<Sigma>' h = Some n" by (metis domI map_le_def)
  with n Join.prems(2) show ?case by (auto intro: map_le_trans)
qed (simp_all, blast+)

text \<open>A continuation that accepts results with handles of rank below \<open>n\<close>.\<close>

definition accepts :: "ranking \<Rightarrow> nat \<Rightarrow> nat \<Rightarrow> (bool \<times> nat list \<Rightarrow> prog) \<Rightarrow> bool" where
  "accepts \<Sigma> r n k \<longleftrightarrow> (\<forall>\<Sigma>' x. \<Sigma> \<subseteq>\<^sub>m \<Sigma>' \<and> ranked \<Sigma>' n x \<longrightarrow> wt (k x) \<Sigma>' r)"

lemma acceptsD: "accepts \<Sigma> r n k \<Longrightarrow> \<Sigma> \<subseteq>\<^sub>m \<Sigma>' \<Longrightarrow> ranked \<Sigma>' n x \<Longrightarrow> wt (k x) \<Sigma>' r"
  unfolding accepts_def by blast

lemma accepts_mono: "accepts \<Sigma> r n k \<Longrightarrow> \<Sigma> \<subseteq>\<^sub>m \<Sigma>' \<Longrightarrow> accepts \<Sigma>' r n k"
  unfolding accepts_def by (blast intro: map_le_trans)

lemma accepts_none: "accepts \<Sigma> r n k \<Longrightarrow> wt (k (b, [])) \<Sigma> r"
  by (rule acceptsD [where n = n]) auto

named_theorems wt_prog \<open>typing rules of the program combinators\<close>

lemma wt_states [simp]:
  "wt (record_state node st k) \<Sigma> r = wt k \<Sigma> r"
  "wt (send_operator_state node st reason k) \<Sigma> r = wt k \<Sigma> r"
  "wt (send_operator_final node failed cancelled k) \<Sigma> r = wt k \<Sigma> r"
  "wt (send_stop_on_enter node k) \<Sigma> r = wt k \<Sigma> r"
  by (simp_all add: record_state_def send_operator_state_def send_operator_final_def send_stop_on_enter_def Let_def)

lemma wt_send_cancels [wt_prog]: "(\<And>es. wt (k es) \<Sigma> r) \<Longrightarrow> wt (send_cancels calls errors k) \<Sigma> r"
  by (induction calls errors k rule: send_cancels.induct) auto

lemma wt_stop_plan [wt_prog]: "wt k \<Sigma> r \<Longrightarrow> wt (stop_plan plan_id k) \<Sigma> r"
  by (auto simp: stop_plan_def intro: wt_prog)

lemma wt_trigger [wt_prog]: "wt k \<Sigma> r \<Longrightarrow> wt (trigger_stop_on_complete node k) \<Sigma> r"
  by (auto simp: trigger_stop_on_complete_def intro: wt_prog)

lemma wt_builtin [wt_prog]: "(\<And>x. wt (k x) \<Sigma> r) \<Longrightarrow> wt (builtin env call k) \<Sigma> r"
  by (auto simp: builtin_def Let_def intro!: wt_prog split: sum.split prod.split)

lemma wt_dispatch [wt_prog]:
  "(\<And>x. wt (k x) \<Sigma> r) \<Longrightarrow> wt (dispatch_with_timeout env call timeout k) \<Sigma> r"
  "(\<And>x. wt (k x) \<Sigma> r) \<Longrightarrow> wt (dispatch env call k) \<Sigma> r"
  by (auto simp: dispatch_with_timeout_def dispatch_def intro: wt_prog)

lemma wt_verify [wt_prog]: "(\<And>x. wt (k x) \<Sigma> r) \<Longrightarrow> wt (verify_prog env call node original k) \<Sigma> r"
  by (auto simp: verify_prog_def intro: wt_prog split: option.split)

lemma wt_poll_turn [wt_prog]: "(\<And>x. wt (k x) \<Sigma> r) \<Longrightarrow> wt (poll_turn env ctx k) \<Sigma> r"
  by (auto simp: poll_turn_def Let_def intro: wt_prog split: sum.split prod.split)

lemma wt_run_until_terminal [wt_prog]:
  "(\<And>x. wt (k x) \<Sigma> r) \<Longrightarrow> wt (run_until_terminal env call grp node k) \<Sigma> r"
  unfolding run_until_terminal_def by (rule wt_prog) (auto simp: Let_def intro: wt_prog split: prod.split)

lemma wt_overlap_verifier [wt_prog]: "wt (overlap_verifier env call node original) \<Sigma> r"
  unfolding overlap_verifier_def by (rule wt_prog) (auto simp: Let_def intro: wt_prog)

lemma wt_publish_leaf [wt_prog]: "accepts \<Sigma> r n k \<Longrightarrow> wt (publish_leaf node result st k) \<Sigma> r"
  by (auto simp: publish_leaf_def Let_def intro: accepts_none)

lemma wt_finish_leaf [wt_prog]:
  assumes k: "accepts \<Sigma> r (Suc n) k" and "0 < r"
  shows "wt (finish_leaf env call node result st eligible k) \<Sigma> r"
proof (cases "eligible \<and> vp_overlap (en_policy env) \<and> rule_for (en_policy env) call \<noteq> None")
  case True
  have "wt (k (False, [h])) \<Sigma>' r" if "\<Sigma> \<subseteq>\<^sub>m \<Sigma>'" "\<Sigma>' h = Some 0" for \<Sigma>' h
    using acceptsD [OF k that(1), of "(False, [h])"] that(2) by (simp add: ranked_def)
  with True assms(2) show ?thesis
    by (auto simp: finish_leaf_def intro!: wt_prog exI [of _ 0])
next
  case False
  then show ?thesis
    using k by (auto simp: finish_leaf_def intro!: wt_prog)
qed

lemma wt_execute_call [wt_prog]:
  assumes k: "accepts \<Sigma> r (Suc n) k" and "0 < r"
  shows "wt (execute_call env call node k) \<Sigma> r"
proof -
  note leaf = wt_finish_leaf [OF assms]
  show ?thesis
    by (auto simp: execute_call_def resolve_prog_def Let_def leaf intro!: wt_prog
        split: prod.split sum.split option.split)
qed

lemma wt_wait_for_verifiers [wt_prog]:
  assumes "\<And>v. v \<in> set hs \<Longrightarrow> \<exists>q < r. \<Sigma> v = Some q"
    and "\<And>\<Sigma>' b. \<Sigma> \<subseteq>\<^sub>m \<Sigma>' \<Longrightarrow> wt (k b) \<Sigma>' r"
  shows "wt (wait_for_verifiers hs any k) \<Sigma> r"
  using assms
proof (induction hs any k arbitrary: \<Sigma> rule: wait_for_verifiers.induct)
  case (1 any k)
  then show ?case by simp
next
  case (2 h hs any k)
  from "2.prems"(1) obtain n where n: "n < r" "\<Sigma> h = Some n" by auto
  have "wt (wait_for_verifiers hs (any \<or> b) k) \<Sigma>' r" if "\<Sigma> \<subseteq>\<^sub>m \<Sigma>'" for \<Sigma>' b vs
  proof (rule "2.IH")
    show "\<exists>q < r. \<Sigma>' v = Some q" if "v \<in> set hs" for v
      using "2.prems"(1) [of v] that \<open>\<Sigma> \<subseteq>\<^sub>m \<Sigma>'\<close> by (auto simp: map_le_def dom_def)
    show "wt (k b') \<Sigma>'' r" if "\<Sigma>' \<subseteq>\<^sub>m \<Sigma>''" for \<Sigma>'' b'
      using "2.prems"(2) \<open>\<Sigma> \<subseteq>\<^sub>m \<Sigma>'\<close> that by (blast intro: map_le_trans)
  qed
  with n show ?case by auto
qed

lemma wt_or_cancelled [wt_prog]: "(\<And>b. wt (k b) \<Sigma> r) \<Longrightarrow> wt (or_cancelled plan_id c k) \<Sigma> r"
  by (simp add: or_cancelled_def)

lemma wt_operator_verifier [wt_prog]:
  "(\<And>v. v \<in> set vs \<Longrightarrow> \<exists>q < r. \<Sigma> v = Some q) \<Longrightarrow> wt (operator_verifier node vs i c) \<Sigma> r"
  unfolding operator_verifier_def
  by (rule wt_prog) (auto simp: Let_def intro!: wt_prog)

lemma wt_complete_operator [wt_prog]:
  assumes vs: "ranked \<Sigma> n (b, vs)" and k: "accepts \<Sigma> r (Suc n) k" and "n < r"
  shows "wt (complete_operator vs i c node k) \<Sigma> r"
proof (cases "vs = []")
  case True
  then show ?thesis by (auto simp: complete_operator_def Let_def intro: accepts_none [OF k])
next
  case False
  have "wt (operator_verifier node vs i c) \<Sigma> n"
    using vs by (intro wt_prog) (simp add: ranked_def)
  moreover have "wt (k (x, [h])) \<Sigma>' r" if "\<Sigma> \<subseteq>\<^sub>m \<Sigma>'" "\<Sigma>' h = Some n" for \<Sigma>' h x
    using acceptsD [OF k that(1), of "(x, [h])"] that(2) by (simp add: ranked_def)
  ultimately show ?thesis
    using False assms(3) by (auto simp: complete_operator_def intro!: exI [of _ n])
qed

lemma wt_run_sequence:
  assumes exec: "\<And>c \<Sigma> k. c \<in> set cs \<Longrightarrow> accepts \<Sigma> r n k \<Longrightarrow> wt (exec c k) \<Sigma> r"
    and vs: "ranked \<Sigma> n (x, vs)"
    and k: "\<And>\<Sigma>' b c vs. \<Sigma> \<subseteq>\<^sub>m \<Sigma>' \<Longrightarrow> ranked \<Sigma>' n (x, vs) \<Longrightarrow> wt (k b c vs) \<Sigma>' r"
  shows "wt (run_sequence exec plan_id cs vs k) \<Sigma> r"
  using assms
proof (induction cs arbitrary: vs \<Sigma>)
  case Nil
  then show ?case by simp
next
  case (Cons c cs)
  have *: "ranked \<Sigma>' n (x, vs @ vs')" if "\<Sigma> \<subseteq>\<^sub>m \<Sigma>'" "ranked \<Sigma>' n (b, vs')" for \<Sigma>' vs' b
    using ranked_mono [OF Cons.prems(2) that(1) order_refl] that(2) by (auto simp: ranked_def)
  have "wt (exec c (\<lambda>(failed, vs'). if failed then k True False (vs @ vs')
              else run_sequence exec plan_id cs (vs @ vs') k)) \<Sigma> r"
  proof (rule Cons.prems(1))
    show "accepts \<Sigma> r n (\<lambda>(failed, vs'). if failed then k True False (vs @ vs')
              else run_sequence exec plan_id cs (vs @ vs') k)"
      unfolding accepts_def
    proof (intro allI impI, elim conjE)
      fix \<Sigma>' y assume e: "\<Sigma> \<subseteq>\<^sub>m \<Sigma>'" and y: "ranked \<Sigma>' n y"
      obtain f vs' where [simp]: "y = (f, vs')" by fastforce
      have "wt (run_sequence exec plan_id cs (vs @ vs') k) \<Sigma>' r"
      proof (rule Cons.IH)
        show "wt (exec d k') \<Sigma>'' r" if "d \<in> set cs" "accepts \<Sigma>'' r n k'" for d \<Sigma>'' k'
          using Cons.prems(1) that by simp
        show "ranked \<Sigma>' n (x, vs @ vs')" using * [OF e] y by simp
        show "wt (k b d ws) \<Sigma>'' r" if "\<Sigma>' \<subseteq>\<^sub>m \<Sigma>''" "ranked \<Sigma>'' n (x, ws)" for \<Sigma>'' b d ws
          using Cons.prems(3) [OF map_le_trans [OF e that(1)] that(2)] .
      qed
      moreover have "wt (k True False (vs @ vs')) \<Sigma>' r" using Cons.prems(3) [OF e] * [OF e] y by simp
      ultimately show "wt (case y of (failed, vs') \<Rightarrow> if failed then k True False (vs @ vs')
          else run_sequence exec plan_id cs (vs @ vs') k) \<Sigma>' r" by simp
    qed
  qed simp
  moreover have "wt (k True True vs) \<Sigma> r" using Cons.prems(2,3) by simp
  ultimately show ?case by simp
qed

lemma wt_spawn_children:
  assumes "\<And>c \<Sigma>. c \<in> set cs \<Longrightarrow> wt (exec c Done) \<Sigma> n" and "n < r"
    and "\<And>h. h \<in> set hs \<Longrightarrow> \<Sigma> h = Some n"
    and "\<And>\<Sigma>' hs. \<Sigma> \<subseteq>\<^sub>m \<Sigma>' \<Longrightarrow> (\<And>h. h \<in> set hs \<Longrightarrow> \<Sigma>' h = Some n) \<Longrightarrow> wt (k hs) \<Sigma>' r"
  shows "wt (spawn_children exec cs hs k) \<Sigma> r"
  using assms
proof (induction cs arbitrary: hs \<Sigma>)
  case Nil
  then show ?case by simp
next
  case (Cons c cs)
  have "wt (spawn_children exec cs (hs @ [h]) k) \<Sigma>' r" if "\<Sigma> \<subseteq>\<^sub>m \<Sigma>'" "\<Sigma>' h = Some n" for \<Sigma>' h
  proof (rule Cons.IH)
    show "\<Sigma>' g = Some n" if "g \<in> set (hs @ [h])" for g
      using that Cons.prems(3) [of g] \<open>\<Sigma> \<subseteq>\<^sub>m \<Sigma>'\<close> \<open>\<Sigma>' h = Some n\<close> by (auto simp: map_le_def dom_def)
    show "wt (k gs) \<Sigma>'' r" if "\<Sigma>' \<subseteq>\<^sub>m \<Sigma>''" "\<And>g. g \<in> set gs \<Longrightarrow> \<Sigma>'' g = Some n" for \<Sigma>'' gs
      using Cons.prems(4) [OF map_le_trans [OF \<open>\<Sigma> \<subseteq>\<^sub>m \<Sigma>'\<close> that(1)] that(2)] by blast
  qed (use Cons.prems in auto)
  with Cons.prems(1,2) show ?case by auto
qed

lemma wt_join_children:
  assumes "\<And>h. h \<in> set hs \<Longrightarrow> \<Sigma> h = Some n" and "n < r" and "ranked \<Sigma> n (x, vs)"
    and "\<And>\<Sigma>' b vs. \<Sigma> \<subseteq>\<^sub>m \<Sigma>' \<Longrightarrow> ranked \<Sigma>' n (x, vs) \<Longrightarrow> wt (k b vs) \<Sigma>' r"
  shows "wt (join_children hs any vs k) \<Sigma> r"
  using assms
proof (induction hs any vs k arbitrary: \<Sigma> rule: join_children.induct)
  case (1 any vs k)
  then show ?case by simp
next
  case (2 h hs any vs k)
  have "wt (join_children hs (any \<or> b) (vs @ vs') k) \<Sigma>' r" if e: "\<Sigma> \<subseteq>\<^sub>m \<Sigma>'" and "ranked \<Sigma>' n (b, vs')" for \<Sigma>' b vs'
  proof (rule "2.IH")
    show "\<Sigma>' g = Some n" if "g \<in> set hs" for g
      using "2.prems"(1) [of g] that e by (auto simp: map_le_def dom_def)
    show "ranked \<Sigma>' n (x, vs @ vs')"
      using ranked_mono [OF "2.prems"(3) e order_refl] that(2) by (auto simp: ranked_def)
    show "wt (k b ws) \<Sigma>'' r" if "\<Sigma>' \<subseteq>\<^sub>m \<Sigma>''" "ranked \<Sigma>'' n (x, ws)" for \<Sigma>'' b ws
      using "2.prems"(4) e that by (blast intro: map_le_trans)
  qed (use "2.prems"(2) in auto)
  with "2.prems"(1,2) show ?case by auto
qed

section \<open>Validated plans are typed\<close>

text \<open>\<open>fuel\<close> covers every path from node \<open>i\<close>, and each leaf on the way has its call.\<close>

primrec fits :: "nat \<Rightarrow> plan \<Rightarrow> nat \<Rightarrow> bool" where
  "fits 0 pl i = False"
| "fits (Suc f) pl i =
     (i < length (pl_nodes pl) \<and> (rn_node_kind (pl_nodes pl ! i) = rtdl_do \<longrightarrow> rn_call (pl_nodes pl ! i) \<noteq> None)
      \<and> (\<forall>c \<in> set (cycle_children pl i). fits f pl c))"

lemma wt_execute_node:
  "fits f pl i \<Longrightarrow> f < r \<Longrightarrow> accepts \<Sigma> r (Suc f) k \<Longrightarrow> wt (execute_node f env pl i k) \<Sigma> r"
proof (induction f arbitrary: i r \<Sigma> k)
  case 0
  then show ?case by simp
next
  case (Suc f)
  let ?node = "pl_nodes pl ! i" and ?ctx = "node_context pl i"
  define after where "after = (\<lambda>(failed, verifiers). if verifiers = []
    then trigger_stop_on_complete ?ctx (k (failed, verifiers)) else k (failed, verifiers))"
  note none = accepts_none [OF Suc.prems(3)]
  have after: "accepts \<Sigma> r (Suc (Suc f)) after"
    using Suc.prems(3) by (auto simp: accepts_def after_def intro!: wt_prog)
  have exec: "wt (execute_node f env pl c k') \<Sigma>' r'"
    if "c \<in> set (cycle_children pl i)" "f < r'" "accepts \<Sigma>' r' (Suc f) k'" for c \<Sigma>' r' k'
    using Suc.IH [OF _ that(2,3)] Suc.prems(1) that(1) by auto
  have fin: "wt (complete_operator vs x c ?ctx after) \<Sigma>' r"
    if "\<Sigma> \<subseteq>\<^sub>m \<Sigma>'" "ranked \<Sigma>' (Suc f) (b, vs)" for \<Sigma>' b vs x c
    using that Suc.prems(2) accepts_mono [OF after that(1)] by (auto intro: wt_prog)
  have seq: "wt (run_sequence (execute_node f env pl) (pl_plan_id pl) (rn_children ?node) []
      (\<lambda>any_failed cancelled verifiers. or_cancelled (pl_plan_id pl) cancelled (\<lambda>cancelled.
         complete_operator verifiers any_failed cancelled ?ctx after))) \<Sigma> r"
    if "rn_node_kind ?node = rtdl_sequence"
    by (rule wt_run_sequence [where n = "Suc f" and x = True])
      (use that Suc.prems(2) in \<open>auto intro!: wt_prog exec fin simp: cycle_children_def\<close>)
  have par: "wt (spawn_children (execute_node f env pl) (rn_children ?node) [] (\<lambda>handles.
      join_children handles False [] (\<lambda>any_failed verifiers.
        Look (\<lambda>rt. complete_operator verifiers any_failed (is_cancelled (pl_plan_id pl) rt) ?ctx after)))) \<Sigma> r"
    if "rn_node_kind ?node = rtdl_parallel"
  proof (rule wt_spawn_children [where n = "Suc f"])
    show "wt (execute_node f env pl c Done) \<Sigma>' (Suc f)" if "c \<in> set (rn_children ?node)" for c \<Sigma>'
      using that \<open>rn_node_kind ?node = rtdl_parallel\<close>
      by (intro exec) (auto simp: cycle_children_def accepts_def)
    show "wt (join_children hs False [] (\<lambda>any_failed verifiers.
        Look (\<lambda>rt. complete_operator verifiers any_failed (is_cancelled (pl_plan_id pl) rt) ?ctx after))) \<Sigma>' r"
      if e: "\<Sigma> \<subseteq>\<^sub>m \<Sigma>'" and hs: "\<And>h. h \<in> set hs \<Longrightarrow> \<Sigma>' h = Some (Suc f)" for \<Sigma>' hs
      by (rule wt_join_children [where n = "Suc f" and x = True])
        (use hs Suc.prems(2) in \<open>auto intro: fin map_le_trans [OF e]\<close>)
  qed (use Suc.prems(2) in auto)
  have leaf: "wt (case rn_call ?node of None \<Rightarrow> Panic | Some call \<Rightarrow> execute_call env call ?ctx after) \<Sigma> r"
    if "rn_node_kind ?node = rtdl_do"
    using that Suc.prems(1,2) after by (auto intro!: wt_prog split: option.split)
  have "wt (after (True, [])) \<Sigma> r" by (rule accepts_none [OF after])
  with Suc.prems(1) seq par leaf none show ?case
    by (auto simp: Let_def after_def [symmetric] intro!: wt_prog)
qed

lemma fits_acyclic:
  assumes wf: "plan_wf pl" and acyc: "\<forall>n. (edge pl)\<^sup>*\<^sup>* root n \<longrightarrow> \<not> (edge pl)\<^sup>+\<^sup>+ n n"
  shows "\<lbrakk>(edge pl)\<^sup>*\<^sup>* root i; i < length (pl_nodes pl); S \<subseteq> {..<length (pl_nodes pl)};
     \<forall>s \<in> S. (edge pl)\<^sup>+\<^sup>+ s i; length (pl_nodes pl) \<le> f + card S\<rbrakk> \<Longrightarrow> fits f pl i"
proof (induction f arbitrary: i S)
  case 0
  from "0.prems"(1,4) acyc have "i \<notin> S" by blast
  then have "card (insert i S) = Suc (card S)"
    using finite_subset [OF "0.prems"(3)] by simp
  moreover have "card (insert i S) \<le> length (pl_nodes pl)"
    using card_mono [of "{..<length (pl_nodes pl)}" "insert i S"] "0.prems"(2,3) by simp
  ultimately show ?case using "0.prems"(5) by simp
next
  case (Suc f)
  from Suc.prems(1,4) acyc have i: "i \<notin> S" by blast
  have rng: "in_range pl" using wf wf_in_range by (auto simp: plan_wf_def)
  have "fits f pl c" if c: "c \<in> set (cycle_children pl i)" for c
  proof (rule Suc.IH [of c "insert i S"])
    have e: "edge pl i c" using c by (simp add: edge_def)
    with Suc.prems(1) show "(edge pl)\<^sup>*\<^sup>* root c" by (rule rtranclp.rtrancl_into_rtrancl)
    show "c < length (pl_nodes pl)" using rng e Suc.prems(2) by (auto simp: in_range_def)
    show "insert i S \<subseteq> {..<length (pl_nodes pl)}" using Suc.prems(2,3) by simp
    show "\<forall>s \<in> insert i S. (edge pl)\<^sup>+\<^sup>+ s c"
      using Suc.prems(4) e by (auto intro: tranclp.trancl_into_trancl)
    show "length (pl_nodes pl) \<le> f + card (insert i S)"
      using i Suc.prems(5) finite_subset [OF Suc.prems(3)] by simp
  qed
  moreover have "rn_call (pl_nodes pl ! i) \<noteq> None" if "rn_node_kind (pl_nodes pl ! i) = rtdl_do"
    using wf Suc.prems(2) that by (auto simp: plan_wf_def list_all_iff node_wf_def split: option.splits)
  ultimately show ?case using Suc.prems(2) by simp
qed

lemma validated_fits: "validate_plan pl = Inr () \<Longrightarrow> fits (length (pl_nodes pl)) pl (pl_root_index pl)"
  unfolding validated_wf_acyclic by (rule fits_acyclic [where S = "{}"]) (auto simp: plan_wf_def)

lemma wt_plan_task:
  assumes "validate_plan pl = Inr ()"
  shows "wt (plan_task env pl) \<Sigma> (Suc (length (pl_nodes pl)))"
proof -
  have "accepts \<Sigma> (Suc (length (pl_nodes pl))) (Suc (length (pl_nodes pl))) (finish_plan (pl_plan_id pl))"
    unfolding accepts_def finish_plan_def
    by (auto simp: ranked_def Let_def intro!: wt_prog)
  then show ?thesis
    by (simp add: plan_task_def wt_execute_node validated_fits [OF assms])
qed

end
