(* ===== verification/Exec_Run.thy ===== *)
theory Exec_Run
  imports Exec_Progress
begin

text \<open>
  The runs of a plan: every reachable state is typed, so no task panics and some task can move until all are
  finished; without polling only finitely many moves are possible; and a finished run has reported its
  completion exactly once.
\<close>

section \<open>Steps keep the typing\<close>

definition typed_by :: "ranking \<Rightarrow> exec_state \<Rightarrow> bool" where
  "typed_by \<Sigma> s \<longleftrightarrow> dom \<Sigma> = {..<length (es_tasks s)}
     \<and> (\<forall>t p. at s t p \<longrightarrow> (\<exists>r. \<Sigma> t = Some r \<and> wt p \<Sigma> r))"

definition typed_state :: "exec_state \<Rightarrow> bool" where
  "typed_state s \<longleftrightarrow> (\<exists>\<Sigma>. typed_by \<Sigma> s)"

lemma at_advance [simp]:
  "at (advance t q s) u p \<longleftrightarrow> (if u = t then t < length (es_tasks s) \<and> p = q else at s u p)"
  by (auto simp: at_def advance_def)

lemma at_observe [simp]: "at (observe e s) = at s"
  by (simp add: at_def observe_def fun_eq_iff)

lemma at_apply_op [simp]: "at (apply_op op s) = at s"
  by (simp add: at_def apply_op_def observe_def fun_eq_iff)

lemma tasks_simps [simp]:
  "es_tasks (observe e s) = es_tasks s" "es_tasks (apply_op op s) = es_tasks s"
  "es_table (observe e s) = es_table s" "es_table (advance t q s) = es_table s"
  "es_trace (advance t q s) = es_trace s" "es_trace (observe e s) = es_trace s @ [e]"
  "es_table (apply_op op s) = snd (rt_effect op (es_table s))"
  "es_trace (apply_op op s) = es_trace s @ [Changed op]"
  "es_tasks (advance t q s) = (es_tasks s)[t := q]"
  by (simp_all add: observe_def apply_op_def advance_def)

lemma typed_by_same: "es_tasks s' = es_tasks s \<Longrightarrow> typed_by \<Sigma> s' = typed_by \<Sigma> s"
  by (simp add: typed_by_def at_def)

lemma typed_at: "typed_by \<Sigma> s \<Longrightarrow> at s t p \<Longrightarrow> \<exists>r. \<Sigma> t = Some r \<and> wt p \<Sigma> r"
  unfolding typed_by_def by blast

lemma typed_move:
  assumes ty: "typed_by \<Sigma> s" and "at s t p" and "\<And>r. \<Sigma> t = Some r \<Longrightarrow> wt p \<Sigma> r \<Longrightarrow> wt q \<Sigma> r" and "es_tasks s' = es_tasks s"
  shows "\<exists>\<Sigma>'. typed_by \<Sigma>' (advance t q s')"
proof -
  have "\<exists>r. \<Sigma> u = Some r \<and> wt p' \<Sigma> r" if "at (advance t q s') u p'" for u p'
  proof (cases "u = t")
    case True
    with that typed_at [OF ty assms(2)] assms(3) show ?thesis by auto
  next
    case False
    with that assms(4) have "at s u p'" by (simp add: at_def)
    with ty show ?thesis by (rule typed_at)
  qed
  moreover have "dom \<Sigma> = {..<length (es_tasks (advance t q s'))}"
    using ty assms(4) by (simp add: typed_by_def)
  ultimately have "typed_by \<Sigma> (advance t q s')" unfolding typed_by_def by blast
  then show ?thesis by blast
qed

lemma at_unique: "at s t p \<Longrightarrow> at s t q \<Longrightarrow> p = q"
  by (simp add: at_def)

lemma typed_step: "exec_step env p a s s' \<Longrightarrow> typed_by \<Sigma> s \<Longrightarrow> \<exists>\<Sigma>'. typed_by \<Sigma>' s'"
proof (induction rule: exec_step.induct)
  case (spawn s t q k)
  then obtain r n where r: "\<Sigma> t = Some r" "n < r" "wt q \<Sigma> n"
    "\<And>\<Sigma>' h. \<Sigma> \<subseteq>\<^sub>m \<Sigma>' \<and> \<Sigma>' h = Some n \<Longrightarrow> wt (k h) \<Sigma>' r"
    unfolding typed_by_def by fastforce
  let ?n = "length (es_tasks s)" and ?S = "\<Sigma>(length (es_tasks s) \<mapsto> n)"
  have d: "dom \<Sigma> = {..<?n}" using spawn by (simp add: typed_by_def)
  then have e: "\<Sigma> \<subseteq>\<^sub>m ?S" by (auto simp: map_le_def)
  have "dom ?S = {..<Suc ?n}" using d by (auto simp: lessThan_Suc)
  moreover have "\<exists>r. ?S u = Some r \<and> wt p ?S r"
    if "at (s\<lparr>es_tasks := (es_tasks s)[t := k ?n] @ [q]\<rparr>) u p" for u p
  proof (cases "u = ?n")
    case True
    with that r(3) e show ?thesis by (auto simp: at_def nth_append intro: wt_mono)
  next
    case False
    with that have u: "u < ?n" "p = (if u = t then k ?n else es_tasks s ! u)"
      by (auto simp: at_def nth_append nth_list_update)
    show ?thesis
    proof (cases "u = t")
      case True
      with u r(1) r(4) [of ?S ?n] e False show ?thesis by auto
    next
      case False
      with u spawn.prems obtain r' where "\<Sigma> u = Some r'" "wt p \<Sigma> r'"
        unfolding typed_by_def at_def by auto
      with e u show ?thesis by (auto intro: wt_mono)
    qed
  qed
  ultimately have "typed_by ?S (s\<lparr>es_tasks := (es_tasks s)[t := k ?n] @ [q]\<rparr>)"
    unfolding typed_by_def by simp
  then show ?case by blast
next
  case (joined s t h k x)
  from joined.hyps joined.prems obtain r n where r: "\<Sigma> t = Some r" "\<Sigma> h = Some n"
    "\<And>\<Sigma>' x. \<Sigma> \<subseteq>\<^sub>m \<Sigma>' \<and> ranked \<Sigma>' n x \<Longrightarrow> wt (k x) \<Sigma>' r"
    unfolding typed_by_def by fastforce
  moreover have "ranked \<Sigma> n x"
    using joined.hyps(2) joined.prems r(2) unfolding typed_by_def by fastforce
  ultimately have "wt (k x) \<Sigma> r" by simp
  with r(1) show ?case
    by (intro typed_move [OF joined.prems joined.hyps(1)])
      (use typed_at [OF joined.prems joined.hyps(1)] in auto)
next
  case (tab s t op k)
  then show ?case by (intro typed_move [OF tab.prems tab.hyps]) auto
next
  case (emit s t ev k)
  then show ?case by (intro typed_move [OF emit.prems emit.hyps]) auto
next
  case (ext s t c k x)
  then show ?case by (intro typed_move [OF ext.prems ext.hyps]) auto
next
  case (poll s t ctx k)
  then show ?case by (intro typed_move [OF poll.prems poll.hyps] wt_prog) auto
next
  case (others op s)
  then show ?case using typed_by_same [of "apply_op op s" s] by auto
next
  case (look s t k)
  then show ?case by (intro typed_move [OF look.prems look.hyps]) auto
next
  case (query s t i k answer)
  then show ?case by (intro typed_move [OF query.prems query.hyps]) auto
next
  case (wait_over s t ids k)
  then show ?case by (intro typed_move [OF wait_over.prems wait_over.hyps(1)]) auto
next
  case (wait_out s t ids k)
  then show ?case by (intro typed_move [OF wait_out.prems wait_out.hyps]) auto
qed

lemma typed_start: "validate_plan pl = Inr () \<Longrightarrow> typed_state (exec_start env pl rt)"
proof -
  assume v: "validate_plan pl = Inr ()"
  have "typed_by [0 \<mapsto> Suc (length (pl_nodes pl))] (exec_start env pl rt)"
    using wt_plan_task [OF v] by (auto simp: typed_by_def exec_start_def at_def)
  then show ?thesis unfolding typed_state_def by blast
qed

interpretation typed: inv_relation
  "\<lambda>s. \<exists>pl rt. validate_plan pl = Inr () \<and> s = exec_start env pl rt" "step_any env p" typed_state
  for env p
proof unfold_locales
  show "typed_state s" if "\<exists>pl rt. validate_plan pl = Inr () \<and> s = exec_start env pl rt" for s
    using that typed_start by blast
  show "typed_state t" if "step_any env p s t" "typed_state s" for s t
    using that typed_step unfolding step_any_def typed_state_def by blast
qed

lemma reachable_typed: "validate_plan pl = Inr () \<Longrightarrow> exec_reachable env pl rt s \<Longrightarrow> typed_state s"
  unfolding exec_reachable_def by (rule typed.good_reachable) blast+

section \<open>Progress\<close>

definition all_done :: "exec_state \<Rightarrow> bool" where
  "all_done s \<longleftrightarrow> (\<forall>p \<in> set (es_tasks s). \<exists>x. p = Done x)"

definition movable :: "exec_env \<Rightarrow> string \<Rightarrow> exec_state \<Rightarrow> bool" where
  "movable env p s \<longleftrightarrow> (\<exists>t s'. exec_step env p (Task t) s s' \<or> exec_step env p (Poller t) s s')"

lemma typed_progress:
  assumes "typed_state s"
  shows "all_done s \<or> movable env p s"
proof (rule disjCI)
  assume stuck: "\<not> movable env p s"
  obtain \<Sigma> where \<Sigma>: "typed_by \<Sigma> s" using assms by (auto simp: typed_state_def)
  have "\<exists>x. q = Done x" if "at s t q" "\<Sigma> t = Some r" for t q r
    using that
  proof (induction r arbitrary: t q rule: less_induct)
    case (less r)
    then have w: "wt q \<Sigma> r" using \<Sigma> unfolding typed_by_def by force
    show ?case
    proof (cases q)
      case (Join h k)
      with w obtain n where n: "n < r" "\<Sigma> h = Some n" by auto
      with \<Sigma> have "h < length (es_tasks s)" unfolding typed_by_def by blast
      then have h: "at s h (es_tasks s ! h)" by (simp add: at_def)
      with less.IH [OF n(1) this n(2)] obtain x where "at s h (Done x)" by auto
      with less.prems(1) Join stuck joined show ?thesis unfolding movable_def by blast
    next
      case Panic
      with w show ?thesis by simp
    qed (use less.prems(1) stuck in \<open>auto simp: movable_def intro: exec_step.intros\<close>)
  qed
  moreover have "\<exists>r. \<Sigma> t = Some r" if "t < length (es_tasks s)" for t
    using \<Sigma> that unfolding typed_by_def at_def by auto
  ultimately show "all_done s"
    unfolding all_done_def by (metis at_def in_set_conv_nth)
qed

section \<open>Termination\<close>

inductive part_of :: "prog \<Rightarrow> prog \<Rightarrow> bool" where
  "part_of (k rt) (Look k)"
| "part_of (k rt) (Table op k)"
| "part_of k (Emit ev k)"
| "part_of (k' a) (Query i k')"
| "part_of (k'' r) (Ext c k'')"
| "part_of (kb b) (Wait ids kb)"
| "part_of q (Spawn q kh)"
| "part_of (kh h) (Spawn q kh)"
| "part_of (kx x) (Join h kx)"
| "part_of (kp y) (Poll ctx kp)"

inductive_cases part_ofE:
  "part_of q (Done x)" "part_of q (Look k)" "part_of q (Table op k)" "part_of q (Emit ev k0)"
  "part_of q (Query i k1)" "part_of q (Ext c k2)" "part_of q (Wait ids k3)" "part_of q (Spawn q' k4)"
  "part_of q (Join h k5)" "part_of q (Poll ctx k6)" "part_of q Panic"

lemma part_of_wf: "wf {(q, p). part_of q p}"
proof (rule wfI_min)
  have acc: "p \<in> Wellfounded.acc {(q, p). part_of q p}" for p
    by (induction p rule: prog_induct; rule accI; auto elim!: part_ofE)
  show "\<exists>z \<in> Q. \<forall>y. (y, z) \<in> {(q, p). part_of q p} \<longrightarrow> y \<notin> Q" if "x \<in> Q" for x Q
  proof -
    have "wf {(q, p). part_of q p}" using acc by (intro acc_wfI) blast
    with that show ?thesis by (metis wfE_min)
  qed
qed

definition smaller :: "(exec_state \<times> exec_state) set" where
  "smaller = inv_image (mult {(q, p). part_of q p}) (\<lambda>s. mset (es_tasks s))"

lemma smaller_wf: "wf smaller"
  unfolding smaller_def by (intro wf_inv_image wf_mult part_of_wf)

lemma smaller_step:
  assumes "at s t p" and "es_tasks s' = (es_tasks s)[t := p'] @ new" and "part_of p' p"
    and "\<And>q. q \<in> set new \<Longrightarrow> part_of q p"
  shows "(s', s) \<in> smaller"
proof -
  have t: "t < length (es_tasks s)" "es_tasks s ! t = p" using assms(1) by (auto simp: at_def)
  let ?M = "mset (es_tasks s) - {#p#}"
  have p: "p \<in># mset (es_tasks s)" using t by auto
  have "mset (es_tasks s') = ?M + ({#p'#} + mset new)"
    using t by (simp add: assms(2) mset_update)
  moreover have "mset (es_tasks s) = ?M + {#p#}" using p by simp
  moreover have "(?M + ({#p'#} + mset new), ?M + {#p#}) \<in> mult {(q, p). part_of q p}"
    by (rule one_step_implies_mult) (use assms(3,4) in auto)
  ultimately show ?thesis by (simp add: smaller_def)
qed

lemma task_step_smaller: "exec_step env p a s s' \<Longrightarrow> a = Task t \<Longrightarrow> (s', s) \<in> smaller"
proof (induction rule: exec_step.induct)
  case (spawn s u q k)
  then show ?case by (intro smaller_step [where new = "[q]"]) (auto intro: part_of.intros)
qed (auto intro!: smaller_step [where new = "[]"] intro: part_of.intros)

text \<open>A poll can always be left: the status call may fail.\<close>

lemma step_trans: "step_any env p s s1 \<Longrightarrow> (step_any env p)\<^sup>*\<^sup>* s1 s2 \<Longrightarrow> (step_any env p)\<^sup>*\<^sup>* s s2"
  by (rule converse_rtranclp_into_rtranclp)

lemma stepI: "exec_step env p a s s' \<Longrightarrow> step_any env p s s'"
  unfolding step_any_def by blast

lemma send_cancels_runs:
  "at s t (send_cancels calls errors k) \<Longrightarrow>
     \<exists>s' es. (step_any env p)\<^sup>*\<^sup>* s s' \<and> es_tasks s' = (es_tasks s)[t := k es]"
proof (induction calls errors k arbitrary: s rule: send_cancels.induct)
  case (1 errors k)
  then have "es_tasks s = (es_tasks s)[t := k errors]" by (metis at_def list_update_id send_cancels.simps(1))
  then show ?case by blast
next
  case (2 call calls errors k)
  define s1 where "s1 = advance t (send_cancels calls errors k) (observe (Called (Ext_Cancel call) (Inr [])) s)"
  have "exec_step env p (Task t) s s1"
    using ext [OF "2.prems" [unfolded send_cancels.simps], of env p "Inr []"] by (simp add: s1_def)
  moreover have "\<exists>s' es. (step_any env p)\<^sup>*\<^sup>* s1 s' \<and> es_tasks s' = (es_tasks s1)[t := k es]"
    using "2.IH" [of s1 "Inr []"] "2.prems" by (simp add: s1_def at_def)
  ultimately show ?case by (auto simp: s1_def intro: step_trans stepI)
qed

lemma poll_can_end:
  assumes "at s t (Poll ctx k)"
  shows "\<exists>s' x. (step_any env p)\<^sup>*\<^sup>* s s' \<and> es_tasks s' = (es_tasks s)[t := k x]"
proof -
  let ?call = "pc_call ctx" and ?plan = "pc_plan_id ctx"
  have t: "t < length (es_tasks s)" using assms by (simp add: at_def)
  define s1 where "s1 = advance t (poll_turn env ctx k) s"
  have 1: "step_any env p s s1" unfolding s1_def by (rule stepI) (rule poll [OF assms])
  obtain kl where kl: "poll_turn env ctx k = Look kl" by (auto simp: poll_turn_def Let_def)
  define s2 where "s2 = advance t (kl (es_table s1)) s1"
  have 2: "step_any env p s1 s2"
    unfolding s2_def by (rule stepI) (rule look, simp add: s1_def t kl)
  show ?thesis
  proof (cases "is_cancelled ?plan (es_table s1)")
    case True
    let ?k = "\<lambda>_. k (canceled_result ?call ''plan was cancelled'', st_canceled)"
    define kt where "kt = (\<lambda>rt. send_cancels
        (fst (cancel_async_call_for_plan ?plan (cc_call_id ?call) rt)) [] ?k)"
    have kt: "kl (es_table s1) = Table (RT_Async_Cancel ?plan (cc_call_id ?call)) kt"
      using kl True by (auto simp: poll_turn_def Let_def kt_def)
    define s3 where "s3 = advance t (kt (es_table s2)) (apply_op (RT_Async_Cancel ?plan (cc_call_id ?call)) s2)"
    have 3: "step_any env p s2 s3"
      unfolding s3_def by (rule stepI) (rule tab, simp add: kt [symmetric], simp add: s2_def s1_def t)
    have "at s3 t (send_cancels (fst (cancel_async_call_for_plan ?plan (cc_call_id ?call) (es_table s2))) [] ?k)"
      by (simp add: s3_def s2_def s1_def t kt_def)
    from send_cancels_runs [OF this, of env p] obtain s' es where
      "(step_any env p)\<^sup>*\<^sup>* s3 s'" "es_tasks s' = (es_tasks s3)[t := ?k es]" by blast
    moreover from this(2) have "es_tasks s' = (es_tasks s)[t := ?k es]" by (simp add: s3_def s2_def s1_def)
    ultimately show ?thesis using 1 2 3 by (blast intro: step_trans)
  next
    case False
    let ?x = "(failed_result ?call (''status poll failed for '' @ cc_contract_id ?call @ '': '' @ []), st_failed)"
    obtain c ke where ke: "kl (es_table s1) = Ext c ke"
        "ke (Inl []) = Table (RT_Async_Unregister ?plan (cc_call_id ?call)) (\<lambda>_. k ?x)"
      using kl False by (auto simp: poll_turn_def Let_def)
    define s3 where "s3 = advance t (ke (Inl [])) (observe (Called c (Inl [])) s2)"
    have 3: "step_any env p s2 s3"
      unfolding s3_def by (rule stepI) (rule ext, simp add: ke(1) [symmetric], simp add: s2_def s1_def t)
    define s4 where "s4 = advance t (k ?x) (apply_op (RT_Async_Unregister ?plan (cc_call_id ?call)) s3)"
    have "at s3 t (ke (Inl []))" by (simp add: s3_def s2_def s1_def t)
    from tab [OF this [unfolded ke(2)]] have 4: "step_any env p s3 s4" unfolding s4_def by (rule stepI)
    have "es_tasks s4 = (es_tasks s)[t := k ?x]" by (simp add: s4_def s3_def s2_def s1_def)
    moreover have "(step_any env p)\<^sup>*\<^sup>* s s4"
      using 1 2 3 4 by (meson step_trans r_into_rtranclp)
    ultimately show ?thesis by blast
  qed
qed

lemma typed_steps: "(step_any env p)\<^sup>*\<^sup>* s s' \<Longrightarrow> typed_state s \<Longrightarrow> typed_state s'"
  by (rule typed.good_steps)

lemma can_finish: "typed_state s \<Longrightarrow> \<exists>s'. (step_any env p)\<^sup>*\<^sup>* s s' \<and> all_done s'"
proof (induction s rule: wf_induct_rule [OF smaller_wf])
  case (1 s)
  show ?case
  proof (cases "all_done s")
    case False
    with typed_progress [OF "1.prems"] obtain t s1
      where move: "exec_step env p (Task t) s s1 \<or> exec_step env p (Poller t) s s1"
      unfolding movable_def by blast
    have "\<exists>s2. (step_any env p)\<^sup>*\<^sup>* s s2 \<and> (s2, s) \<in> smaller"
    proof (cases "exec_step env p (Task t) s s1")
      case True
      with task_step_smaller show ?thesis by (blast intro: stepI r_into_rtranclp)
    next
      case False
      with move obtain ctx k where "at s t (Poll ctx k)" by (auto elim: exec_step.cases)
      with poll_can_end [OF this] smaller_step [OF this, where new = "[]"] show ?thesis
        by (metis append_Nil2 empty_iff empty_set part_of.intros(10))
    qed
    with "1.IH" "1.prems" typed_steps show ?thesis by (meson rtranclp_trans)
  qed blast
qed

end
