(* ===== verification/Exec_Schedule.thy ===== *)
theory Exec_Schedule
  imports Exec_Engine
begin

text \<open>
  An executable scheduler for the executor's steps: given which task moves next and what a call to the outside
  answers, it computes the next state. Every run it computes is a run of \<open>step_any\<close>, so concrete
  streams are obtained by evaluation.
\<close>

section \<open>Choices\<close>

datatype choice =
    Go nat
  | Answer nat "string + string"
  | Found nat "string + capability_provider list"
  | Turn nat
  | Arrive rt_op

fun task_at :: "prog list \<Rightarrow> nat \<Rightarrow> prog option" where
  "task_at [] t = None"
| "task_at (p # ps) 0 = Some p"
| "task_at (p # ps) (Suc t) = task_at ps t"

lemma task_at: "task_at ps t = Some p \<longleftrightarrow> t < length ps \<and> ps ! t = p"
  by (induction ps t rule: task_at.induct) auto

definition go :: "nat \<Rightarrow> prog \<Rightarrow> exec_state \<Rightarrow> exec_state option" where
  "go t p s =
     (case p of
        Look k \<Rightarrow> Some (advance t (k (es_table s)) s)
      | Table op k \<Rightarrow> Some (advance t (k (es_table s)) (apply_op op s))
      | Emit ev k \<Rightarrow> Some (advance t k (observe (Sent ev) s))
      | Spawn q k \<Rightarrow> Some (s\<lparr>es_tasks := (es_tasks s)[t := k (length (es_tasks s))] @ [q]\<rparr>)
      | Wait ids k \<Rightarrow> Some (advance t (k (list_all (\<lambda>i. hm_get (es_table s) i = None) ids)) s)
      | Join h k \<Rightarrow>
          (case task_at (es_tasks s) h of Some (Done r) \<Rightarrow> Some (advance t (k r) s) | _ \<Rightarrow> None)
      | _ \<Rightarrow> None)"

fun try_choice :: "exec_env \<Rightarrow> string \<Rightarrow> choice \<Rightarrow> exec_state \<Rightarrow> exec_state option" where
  "try_choice env p (Go t) s = (case task_at (es_tasks s) t of None \<Rightarrow> None | Some q \<Rightarrow> go t q s)"
| "try_choice env p (Answer t r) s =
     (case task_at (es_tasks s) t of
        Some (Ext c k) \<Rightarrow> Some (advance t (k r) (observe (Called c r) s)) | _ \<Rightarrow> None)"
| "try_choice env p (Found t a) s =
     (case task_at (es_tasks s) t of Some (Query i k) \<Rightarrow> Some (advance t (k a) s) | _ \<Rightarrow> None)"
| "try_choice env p (Turn t) s =
     (case task_at (es_tasks s) t of
        Some (Poll ctx k) \<Rightarrow> Some (advance t (poll_turn env ctx k) s) | _ \<Rightarrow> None)"
| "try_choice env p (Arrive op) s = (if clears_cancel p op then None else Some (apply_op op s))"

fun run_choices :: "exec_env \<Rightarrow> string \<Rightarrow> choice list \<Rightarrow> exec_state \<Rightarrow> exec_state option" where
  "run_choices env p [] s = Some s"
| "run_choices env p (c # cs) s =
     (case try_choice env p c s of None \<Rightarrow> None | Some s' \<Rightarrow> run_choices env p cs s')"

lemma clears_cancel_code [code]:
  "clears_cancel p op = (case op of RT_Register q \<Rightarrow> q = p | RT_Complete q \<Rightarrow> q = p | _ \<Rightarrow> False)"
  by (simp add: clears_cancel_def split: rt_op.split)

section \<open>Soundness\<close>

lemma go_step: "at s t q \<Longrightarrow> go t q s = Some s' \<Longrightarrow> exec_step env p (Task t) s s'"
proof (cases q)
  case (Wait ids k)
  assume "at s t q" "go t q s = Some s'"
  with Wait show ?thesis
    by (cases "list_all (\<lambda>i. hm_get (es_table s) i = None) ids")
      (auto simp: go_def intro: exec_step.intros)
qed (auto simp: go_def task_at at_def [symmetric] split: option.splits prog.splits
      intro: exec_step.intros)

lemma arrive_step: "\<not> clears_cancel p op \<Longrightarrow> exec_step env p (Others op) s (apply_op op s)"
  by (rule others) (simp add: foreign_def)

lemma try_choice_step: "try_choice env p c s = Some s' \<Longrightarrow> step_any env p s s'"
  unfolding step_any_def
  by (cases c)
    (auto simp: task_at at_def [symmetric] split: option.splits prog.splits if_splits
      intro: go_step arrive_step exec_step.intros)

lemma run_choices_steps: "run_choices env p cs s = Some s' \<Longrightarrow> (step_any env p)\<^sup>*\<^sup>* s s'"
  by (induction cs arbitrary: s) (auto split: option.splits dest: try_choice_step intro: converse_rtranclp_into_rtranclp)

lemma run_choices_reachable:
  "run_choices env (pl_plan_id pl) cs (exec_start env pl rt) = Some s \<Longrightarrow> exec_reachable env pl rt s"
  unfolding exec_reachable_def by (rule run_choices_steps)

section \<open>A concrete executor and a concrete plan\<close>

definition demo_env :: exec_env where
  "demo_env = \<lparr>en_self = ''executor'', en_policy = \<lparr>vp_overlap = False, vp_rules = []\<rparr>,
     en_read = (\<lambda>_. None), en_render = (\<lambda>_. []), en_verdict = (\<lambda>_. Inl []),
     en_cancel_args = (\<lambda>_. Inl []), en_stop_args = (\<lambda>_. Inl []), en_status_args = (\<lambda>_. Inl [])\<rparr>"

definition demo_leaf_plan :: plan where
  "demo_leaf_plan = \<lparr>pl_plan_id = ''p'', pl_root_index = 0, pl_nodes = [
     \<lparr>rn_node_kind = rtdl_do, rn_children = [],
      rn_call = Some \<lparr>cc_call_id = ''c'', cc_provider_id = ''arm'', cc_contract_id = ''x/move'', cc_args_json = []\<rparr>,
      rn_op_id = ''a'', rn_description = ''move''\<rparr>]\<rparr>"

definition some_sent :: "(rtdl_event \<Rightarrow> bool) \<Rightarrow> exec_state \<Rightarrow> bool" where
  "some_sent P s = list_ex (\<lambda>e. case e of Sent ev \<Rightarrow> P ev | _ \<Rightarrow> False) (es_trace s)"

lemma some_sent: "some_sent P s \<longleftrightarrow> (\<exists>ev. Sent ev \<in> set (es_trace s) \<and> P ev)"
proof
  assume "some_sent P s"
  then obtain e where "e \<in> set (es_trace s)" "case e of Sent ev \<Rightarrow> P ev | _ \<Rightarrow> False"
    unfolding some_sent_def list_ex_iff by blast
  then show "\<exists>ev. Sent ev \<in> set (es_trace s) \<and> P ev" by (cases e rule: obs.exhaust) auto
next
  assume "\<exists>ev. Sent ev \<in> set (es_trace s) \<and> P ev"
  then show "some_sent P s" unfolding some_sent_def list_ex_iff by (elim exE conjE bexI [rotated]) simp
qed

definition demo_run :: "choice list \<Rightarrow> exec_state" where
  "demo_run cs = the (run_choices demo_env ''p'' cs (exec_start demo_env demo_leaf_plan []))"

lemma demo_run_reachable:
  assumes "run_choices demo_env ''p'' cs (exec_start demo_env demo_leaf_plan []) \<noteq> None"
  shows "exec_reachable demo_env demo_leaf_plan [] (demo_run cs)"
  using assms run_choices_reachable [of demo_env demo_leaf_plan cs "[]"]
  by (auto simp: demo_run_def demo_leaf_plan_def)

text \<open>The provider answers the call; up to the event of the leaf, and up to the end of the plan.\<close>

definition up_to_leaf :: "choice list" where
  "up_to_leaf = replicate 6 (Go 0) @ [Found 0 (Inr []), Answer 0 (Inr ''ok'')] @ replicate 5 (Go 0)"

definition to_the_end :: "choice list" where
  "to_the_end = up_to_leaf @ replicate 4 (Go 0)"

lemma demo_runs:
  "run_choices demo_env ''p'' up_to_leaf (exec_start demo_env demo_leaf_plan []) \<noteq> None"
  "run_choices demo_env ''p'' to_the_end (exec_start demo_env demo_leaf_plan []) \<noteq> None"
proof -
  have "\<not> Option.is_none (run_choices demo_env ''p'' up_to_leaf (exec_start demo_env demo_leaf_plan []))"
    "\<not> Option.is_none (run_choices demo_env ''p'' to_the_end (exec_start demo_env demo_leaf_plan []))"
    by code_simp+
  then show "run_choices demo_env ''p'' up_to_leaf (exec_start demo_env demo_leaf_plan []) \<noteq> None"
    "run_choices demo_env ''p'' to_the_end (exec_start demo_env demo_leaf_plan []) \<noteq> None"
    by (auto simp: Option.is_none_def)
qed

lemmas demo_reachable = demo_runs [THEN demo_run_reachable]

lemma demo_leaf_plan_valid: "validate_plan demo_leaf_plan = Inr ()"
  by code_simp

lemma demo_events:
  "some_sent (\<lambda>ev. case ev of Plan_Complete q b \<Rightarrow> q = ''p'' \<and> \<not> b | _ \<Rightarrow> False) (demo_run to_the_end)"
  "some_sent (\<lambda>ev. case ev of Node_State ctx st d res \<Rightarrow> ne_node_index ctx = 0 \<and> st = st_succeeded | _ \<Rightarrow> False)
     (demo_run up_to_leaf)"
  "\<not> Option.is_none (hm_get (es_table (demo_run up_to_leaf)) ''p'')"
  "case task_at (es_tasks (demo_run to_the_end)) 0 of Some (Done x) \<Rightarrow> True | _ \<Rightarrow> False"
  by code_simp+

lemma demo_completed: "Sent (Plan_Complete ''p'' False) \<in> set (es_trace (demo_run to_the_end))"
proof -
  from demo_events(1) obtain ev where "Sent ev \<in> set (es_trace (demo_run to_the_end))"
    "case ev of Plan_Complete q b \<Rightarrow> q = ''p'' \<and> \<not> b | _ \<Rightarrow> False" unfolding some_sent by blast
  then show ?thesis by (cases ev rule: rtdl_event.exhaust) auto
qed

lemma demo_leaf_event:
  obtains ctx d res where "Sent (Node_State ctx st_succeeded d res) \<in> set (es_trace (demo_run up_to_leaf))"
    "ne_node_index ctx = 0"
proof -
  from demo_events(2) obtain ev where "Sent ev \<in> set (es_trace (demo_run up_to_leaf))"
    "case ev of Node_State ctx st d res \<Rightarrow> ne_node_index ctx = 0 \<and> st = st_succeeded | _ \<Rightarrow> False"
    unfolding some_sent by blast
  then show thesis by (cases ev rule: rtdl_event.exhaust) (auto intro: that)
qed

lemma demo_tabled: "hm_get (es_table (demo_run up_to_leaf)) ''p'' \<noteq> None"
  using demo_events(3) by (auto simp: Option.is_none_def)

lemma demo_main_done: "\<exists>x. at (demo_run to_the_end) 0 (Done x)"
proof -
  from demo_events(4) obtain x where "task_at (es_tasks (demo_run to_the_end)) 0 = Some (Done x)"
    by (cases "task_at (es_tasks (demo_run to_the_end)) 0") (auto split: prog.split_asm)
  then have "at (demo_run to_the_end) 0 (Done x)" unfolding task_at at_def .
  then show ?thesis ..
qed

end
