(* ===== verification/Exec_Complete.thy ===== *)
theory Exec_Complete
  imports Exec_Run Exec_Schedule
begin

text \<open>
  A plan reports its completion exactly once: only its main task does, as the last thing it does, and after it
  has left the table. No task registers the plan again.
\<close>

section \<open>Tasks that leave the plan alone\<close>

definition is_completion :: "rtdl_event \<Rightarrow> bool" where
  "is_completion ev = (case ev of Plan_Complete _ _ \<Rightarrow> True | _ \<Rightarrow> False)"

text \<open>\<open>calm True\<close> is a main task that still has to complete the plan \<open>pid\<close>, \<open>calm False\<close> any other one.\<close>

primrec calm :: "prog \<Rightarrow> bool \<Rightarrow> string \<Rightarrow> bool" where
  "calm (Done x) m pid = (\<not> m)"
| "calm (Look k) m pid = (\<forall>rt. calm (k rt) m pid)"
| "calm (Table op k) m pid =
     (if clears_cancel pid op
      then m \<and> op = RT_Complete pid \<and> (\<forall>rt. \<exists>b. k rt = Emit (Plan_Complete pid b) (Done (False, [])))
      else (\<forall>rt. calm (k rt) m pid))"
| "calm (Emit ev k) m pid = (\<not> is_completion ev \<and> calm k m pid)"
| "calm (Query i k) m pid = (\<forall>a. calm (k a) m pid)"
| "calm (Ext c k) m pid = (\<forall>a. calm (k a) m pid)"
| "calm (Wait ids k) m pid = (\<forall>a. calm (k a) m pid)"
| "calm (Spawn q k) m pid = (calm q False pid \<and> (\<forall>h. calm (k h) m pid))"
| "calm (Join h k) m pid = (\<forall>x. calm (k x) m pid)"
| "calm (Poll ctx k) m pid = (\<forall>x. calm (k x) m pid)"
| "calm Panic m pid = True"

named_theorems calm_prog \<open>calmness of the program combinators\<close>

lemma calm_states [simp]:
  "calm (record_state node st k) m pid = calm k m pid"
  "calm (send_operator_state node st reason k) m pid = calm k m pid"
  "calm (send_operator_final node failed cancelled k) m pid = calm k m pid"
  "calm (send_stop_on_enter node k) m pid = calm k m pid"
  by (simp_all add: record_state_def send_operator_state_def send_operator_final_def send_stop_on_enter_def
      operator_node_state_def is_completion_def clears_cancel_def Let_def)

lemma calm_send_cancels [calm_prog]: "(\<And>es. calm (k es) m pid) \<Longrightarrow> calm (send_cancels calls errors k) m pid"
  by (induction calls errors k rule: send_cancels.induct) auto

lemma calm_stop_plan [calm_prog]: "calm k m pid \<Longrightarrow> calm (stop_plan plan_id k) m pid"
  by (auto simp: stop_plan_def clears_cancel_def intro: calm_prog)

lemma calm_trigger [calm_prog]: "calm k m pid \<Longrightarrow> calm (trigger_stop_on_complete node k) m pid"
  by (auto simp: trigger_stop_on_complete_def intro: calm_prog)

lemma calm_builtin [calm_prog]: "(\<And>x. calm (k x) m pid) \<Longrightarrow> calm (builtin env call k) m pid"
  by (auto simp: builtin_def Let_def clears_cancel_def intro!: calm_prog split: sum.split prod.split)

lemma calm_dispatch [calm_prog]:
  "(\<And>x. calm (k x) m pid) \<Longrightarrow> calm (dispatch_with_timeout env call timeout k) m pid"
  "(\<And>x. calm (k x) m pid) \<Longrightarrow> calm (dispatch env call k) m pid"
  by (auto simp: dispatch_with_timeout_def dispatch_def intro: calm_prog)

lemma calm_verify [calm_prog]: "(\<And>x. calm (k x) m pid) \<Longrightarrow> calm (verify_prog env call node original k) m pid"
  by (auto simp: verify_prog_def intro: calm_prog split: option.split)

lemma calm_poll_turn [calm_prog]: "(\<And>x. calm (k x) m pid) \<Longrightarrow> calm (poll_turn env ctx k) m pid"
  by (auto simp: poll_turn_def Let_def clears_cancel_def intro: calm_prog split: sum.split prod.split)

lemma calm_run_until_terminal [calm_prog]:
  "(\<And>x. calm (k x) m pid) \<Longrightarrow> calm (run_until_terminal env call grp node k) m pid"
  unfolding run_until_terminal_def
  by (rule calm_prog) (auto simp: Let_def clears_cancel_def intro: calm_prog split: prod.split)

lemma calm_overlap_verifier [calm_prog]: "calm (overlap_verifier env call node original) False pid"
  unfolding overlap_verifier_def
  by (rule calm_prog) (auto simp: Let_def is_completion_def node_state_from_result_def intro: calm_prog)

lemma calm_execute_call [calm_prog]:
  assumes k: "\<And>x. calm (k x) m pid"
  shows "calm (execute_call env call node k) m pid"
proof -
  have leaf: "calm (finish_leaf env call node result st eligible k) m pid" for result st eligible
    by (auto simp: finish_leaf_def publish_leaf_def Let_def is_completion_def node_state_from_result_def
        intro!: calm_prog k)
  show ?thesis
    by (auto simp: execute_call_def resolve_prog_def Let_def leaf intro!: calm_prog
        split: prod.split sum.split option.split)
qed

lemma calm_wait_for_verifiers [calm_prog]:
  "(\<And>b. calm (k b) m pid) \<Longrightarrow> calm (wait_for_verifiers hs any k) m pid"
  by (induction hs any k rule: wait_for_verifiers.induct) auto

lemma calm_complete_operator [calm_prog]:
  "(\<And>x. calm (k x) m pid) \<Longrightarrow> calm (complete_operator vs i c node k) m pid"
  by (auto simp: complete_operator_def operator_verifier_def or_cancelled_def Let_def intro!: calm_prog)

lemma calm_run_sequence [calm_prog]:
  "\<lbrakk>\<And>c k. (\<And>x. calm (k x) m pid) \<Longrightarrow> calm (exec c k) m pid; \<And>b c vs. calm (k b c vs) m pid\<rbrakk> \<Longrightarrow>
     calm (run_sequence exec plan_id cs vs k) m pid"
  by (induction cs arbitrary: vs) (auto split: prod.split)

lemma calm_spawn_children [calm_prog]:
  "\<lbrakk>\<And>c. calm (exec c Done) False pid; \<And>hs. calm (k hs) m pid\<rbrakk> \<Longrightarrow> calm (spawn_children exec cs hs k) m pid"
  by (induction cs arbitrary: hs) auto

lemma calm_join_children [calm_prog]:
  "(\<And>b vs. calm (k b vs) m pid) \<Longrightarrow> calm (join_children hs any vs k) m pid"
  by (induction hs any vs k rule: join_children.induct) auto

lemma calm_execute_node [calm_prog]:
  "(\<And>x. calm (k x) m pid) \<Longrightarrow> calm (execute_node f env pl i k) m pid"
proof (induction f arbitrary: i k m)
  case (Suc f)
  then show ?case
    by (auto simp: Let_def or_cancelled_def intro!: calm_prog split: option.split)
qed simp

lemma calm_finish_plan: "calm (finish_plan pid x) True pid"
  by (auto simp: finish_plan_def Let_def clears_cancel_def intro!: calm_prog)

section \<open>The life of a plan\<close>

definition completions :: "obs list \<Rightarrow> nat" where
  "completions tr = length (filter (\<lambda>e. case e of Sent ev \<Rightarrow> is_completion ev | _ \<Rightarrow> False) tr)"

lemma completions_snoc [simp]:
  "completions (tr @ [e]) = completions tr + (case e of Sent ev \<Rightarrow> if is_completion ev then 1 else 0 | _ \<Rightarrow> 0)"
  by (simp add: completions_def split: obs.split)

definition others_calm :: "string \<Rightarrow> prog list \<Rightarrow> bool" where
  "others_calm pid tasks \<longleftrightarrow> (\<forall>t < length tasks. t \<noteq> 0 \<longrightarrow> calm (tasks ! t) False pid)"

datatype phase = Starting | Running | Reporting bool | Reported

text \<open>What the main task is in each phase of the plan.\<close>

fun in_phase :: "exec_env \<Rightarrow> plan \<Rightarrow> phase \<Rightarrow> exec_state \<Rightarrow> bool" where
  "in_phase env pl Starting s \<longleftrightarrow> es_tasks s = [plan_task env pl] \<and> completions (es_trace s) = 0"
| "in_phase env pl Running s \<longleftrightarrow> (\<exists>p. at s 0 p \<and> calm p True (pl_plan_id pl)) \<and> completions (es_trace s) = 0"
| "in_phase env pl (Reporting b) s \<longleftrightarrow>
     at s 0 (Emit (Plan_Complete (pl_plan_id pl) b) (Done (False, []))) \<and> completions (es_trace s) = 0"
| "in_phase env pl Reported s \<longleftrightarrow> at s 0 (Done (False, [])) \<and> completions (es_trace s) = 1"

definition staged :: "exec_env \<Rightarrow> plan \<Rightarrow> exec_state \<Rightarrow> bool" where
  "staged env pl s \<longleftrightarrow> others_calm (pl_plan_id pl) (es_tasks s) \<and> (\<exists>ph. in_phase env pl ph s)"

inductive_cases task_step_cases:
  "exec_step env p (Task t) s s'"
  "exec_step env p (Poller t) s s'"
  "exec_step env p (Others op) s s'"

lemma others_calm_advance:
  "others_calm pid tasks \<Longrightarrow> (t \<noteq> 0 \<Longrightarrow> calm q False pid) \<Longrightarrow> others_calm pid (tasks[t := q])"
  unfolding others_calm_def by (metis length_list_update nth_list_update_eq nth_list_update_neq)

lemma others_calm_snoc: "others_calm pid tasks \<Longrightarrow> calm q False pid \<Longrightarrow> others_calm pid (tasks @ [q])"
  by (auto simp: others_calm_def nth_append)

lemma others_calmD: "others_calm pid (es_tasks s) \<Longrightarrow> at s t p \<Longrightarrow> t \<noteq> 0 \<Longrightarrow> calm p False pid"
  by (auto simp: others_calm_def at_def)

text \<open>A step of a task other than the main one, or of the polling loop.\<close>

lemma side_step:
  assumes "exec_step env pid a s s'" and "others_calm pid (es_tasks s)"
    and "a \<noteq> Task 0" "a \<noteq> Poller 0"
  shows "others_calm pid (es_tasks s') \<and> completions (es_trace s') = completions (es_trace s)
    \<and> (\<forall>p. at s 0 p \<longrightarrow> at s' 0 p)"
  using assms
proof (induction rule: exec_step.induct)
  case (spawn s t q k)
  then have t: "t \<noteq> 0" by auto
  from others_calmD [OF spawn.prems(1) spawn.hyps t] have "calm q False pid" "calm (k (length (es_tasks s))) False pid"
    by auto
  with spawn.prems(1) t show ?case
    by (auto simp: at_def nth_append intro!: others_calm_snoc others_calm_advance)
next
  case (others op s)
  then show ?case by auto
next
  case (poll s t ctx k)
  then have "calm (poll_turn env ctx k) False pid"
    using others_calmD [OF poll.prems(1) poll.hyps] by (auto intro: calm_prog)
  with poll show ?case by (auto intro: others_calm_advance)
next
  case (tab s t op k)
  then have t: "t \<noteq> 0" by auto
  from others_calmD [OF tab.prems(1) tab.hyps t] have "calm (k (es_table s)) False pid" by (auto split: if_splits)
  with tab t show ?case by (auto intro: others_calm_advance)
next
  case (emit s t ev k)
  then have t: "t \<noteq> 0" by auto
  from others_calmD [OF emit.prems(1) emit.hyps t] emit t show ?case by (auto intro: others_calm_advance)
next
  case (ext s t c k r)
  then have t: "t \<noteq> 0" by auto
  from others_calmD [OF ext.prems(1) ext.hyps t] ext t show ?case by (auto intro: others_calm_advance)
next
  case (look s t k)
  then have t: "t \<noteq> 0" by auto
  from others_calmD [OF look.prems(1) look.hyps t] look t show ?case by (auto intro: others_calm_advance)
next
  case (query s t i k answer)
  then have t: "t \<noteq> 0" by auto
  from others_calmD [OF query.prems(1) query.hyps t] query t show ?case by (auto intro: others_calm_advance)
next
  case (wait_over s t ids k)
  then have t: "t \<noteq> 0" by auto
  from others_calmD [OF wait_over.prems(1) wait_over.hyps(1) t] wait_over t show ?case by (auto intro: others_calm_advance)
next
  case (wait_out s t ids k)
  then have t: "t \<noteq> 0" by auto
  from others_calmD [OF wait_out.prems(1) wait_out.hyps t] wait_out t show ?case by (auto intro: others_calm_advance)
next
  case (joined s t h k r)
  then have t: "t \<noteq> 0" by auto
  from others_calmD [OF joined.prems(1) joined.hyps(1) t] joined t show ?case
    by (cases r) (auto intro: others_calm_advance)
qed

lemma main_step:
  assumes "exec_step env pid a s s'" and "a = Task 0 \<or> a = Poller 0" and "others_calm pid (es_tasks s)"
    and "at s 0 p" and "calm p True pid"
  shows "others_calm pid (es_tasks s') \<and> completions (es_trace s') = completions (es_trace s)
    \<and> (\<exists>p'. at s' 0 p' \<and> (calm p' True pid \<or> (\<exists>op k b. p = Table op k \<and> clears_cancel pid op
          \<and> p' = Emit (Plan_Complete pid b) (Done (False, [])))))"
  using assms
proof (induction rule: exec_step.induct)
  case (spawn s t q k)
  then have "t = 0" "p = Spawn q k" by (auto dest: at_unique)
  with spawn.prems show ?case
    by (auto simp: at_def nth_append nth_list_update intro!: others_calm_snoc others_calm_advance)
next
  case (tab s t op k)
  then have t: "t = 0" "p = Table op k" by (auto dest: at_unique)
  with tab.prems have "calm (k (es_table s)) True pid
      \<or> clears_cancel pid op \<and> (\<exists>b. k (es_table s) = Emit (Plan_Complete pid b) (Done (False, [])))"
    by (auto split: if_splits)
  with t tab.prems show ?case by (auto simp: at_def intro: others_calm_advance)
next
  case (emit s t ev k)
  then have "t = 0" "p = Emit ev k" by (auto dest: at_unique)
  with emit.prems show ?case by (auto simp: at_def intro: others_calm_advance)
next
  case (look s t k)
  then have "t = 0" "p = Look k" by (auto dest: at_unique)
  with look.prems show ?case by (auto simp: at_def intro: others_calm_advance)
next
  case (query s t i k answer)
  then have "t = 0" "p = Query i k" by (auto dest: at_unique)
  with query.prems show ?case by (auto simp: at_def intro: others_calm_advance)
next
  case (ext s t c k r)
  then have "t = 0" "p = Ext c k" by (auto dest: at_unique)
  with ext.prems show ?case by (auto simp: at_def intro: others_calm_advance)
next
  case (wait_over s t ids k)
  then have "t = 0" "p = Wait ids k" by (auto dest: at_unique)
  with wait_over.prems show ?case by (auto simp: at_def intro: others_calm_advance)
next
  case (wait_out s t ids k)
  then have "t = 0" "p = Wait ids k" by (auto dest: at_unique)
  with wait_out.prems show ?case by (auto simp: at_def intro: others_calm_advance)
next
  case (joined s t h k r)
  then have "t = 0" "p = Join h k" by (auto dest: at_unique)
  with joined.prems show ?case by (cases r) (auto simp: at_def intro: others_calm_advance)
next
  case (poll s t ctx k)
  then have "t = 0" "p = Poll ctx k" by (auto dest: at_unique)
  with poll.prems show ?case by (auto simp: at_def intro: others_calm_advance calm_prog)
next
  case (others op s)
  then show ?case by auto
qed

lemma main_cannot_move: "at s 0 (Done x) \<Longrightarrow> exec_step env p a s s' \<Longrightarrow> a \<noteq> Task 0 \<and> a \<noteq> Poller 0"
  by (auto elim!: exec_step.cases dest: at_unique)

lemma staged_step:
  assumes "exec_step env (pl_plan_id pl) a s s'" and "staged env pl s"
  shows "staged env pl s'"
proof -
  let ?p = "pl_plan_id pl"
  from assms(2) obtain ph where oc: "others_calm ?p (es_tasks s)" and ph: "in_phase env pl ph s"
    by (auto simp: staged_def)
  show ?thesis
  proof (cases "a = Task 0 \<or> a = Poller 0")
    case False
    with side_step [OF assms(1) oc]
    have st: "others_calm ?p (es_tasks s')" "completions (es_trace s') = completions (es_trace s)"
      "\<And>p. at s 0 p \<Longrightarrow> at s' 0 p" by auto
    show ?thesis
    proof (cases ph)
      case Starting
      with assms(1) ph False have "es_tasks s' = es_tasks s"
        by (auto elim!: exec_step.cases simp: at_def)
      with ph st Starting have "in_phase env pl Starting s'" by simp
      with st(1) show ?thesis unfolding staged_def by blast
    next
      case Running
      with ph st have "in_phase env pl Running s'" by auto
      with st(1) show ?thesis unfolding staged_def by blast
    next
      case (Reporting b)
      with ph st have "in_phase env pl (Reporting b) s'" by auto
      with st(1) show ?thesis unfolding staged_def by blast
    next
      case Reported
      with ph st have "in_phase env pl Reported s'" by auto
      with st(1) show ?thesis unfolding staged_def by blast
    qed
  next
    case True
    show ?thesis
    proof (cases ph)
      case Starting
      define p1 where "p1 = Table (RT_Record_Ops pl) (\<lambda>_. Emit (Plan_Started ?p)
        (execute_node (length (pl_nodes pl)) env pl (pl_root_index pl) (finish_plan ?p)))"
      have "calm p1 True ?p"
        by (auto simp: p1_def clears_cancel_def is_completion_def intro!: calm_prog calm_finish_plan)
      moreover have at0: "at s 0 (Table (RT_Register ?p) (\<lambda>_. p1))"
        using ph Starting by (simp add: at_def plan_task_def p1_def)
      have "s' = advance 0 p1 (apply_op (RT_Register ?p) s)"
        using assms(1) True at0 by (auto elim!: exec_step.cases dest: at_unique)
      ultimately have "in_phase env pl Running s'" "others_calm ?p (es_tasks s')"
        using ph Starting by (auto simp: at_def others_calm_def)
      then show ?thesis unfolding staged_def by blast
    next
      case Running
      with ph obtain p where p: "at s 0 p" "calm p True ?p" "completions (es_trace s) = 0" by auto
      from main_step [OF assms(1) True oc p(1,2)] obtain p' where
        st: "others_calm ?p (es_tasks s')" "completions (es_trace s') = 0" "at s' 0 p'"
        and "calm p' True ?p \<or> (\<exists>op k b. p = Table op k \<and> clears_cancel ?p op \<and> p' = Emit (Plan_Complete ?p b) (Done (False, [])))"
        using p(3) by auto
      then have "in_phase env pl Running s' \<or> (\<exists>b. in_phase env pl (Reporting b) s')" by auto
      with st(1) show ?thesis unfolding staged_def by blast
    next
      case (Reporting b)
      with ph have at0: "at s 0 (Emit (Plan_Complete ?p b) (Done (False, [])))" and c: "completions (es_trace s) = 0"
        by auto
      have "s' = advance 0 (Done (False, [])) (observe (Sent (Plan_Complete ?p b)) s)"
        using assms(1) True at0 by (auto elim!: exec_step.cases dest: at_unique)
      with c at0 oc have "in_phase env pl Reported s'" "others_calm ?p (es_tasks s')"
        by (auto simp: at_def is_completion_def intro: others_calm_advance)
      then show ?thesis unfolding staged_def by blast
    next
      case Reported
      with ph have "at s 0 (Done (False, []))" by simp
      from main_cannot_move [OF this assms(1)] True show ?thesis by simp
    qed
  qed
qed

lemma staged_start: "staged env pl (exec_start env pl rt)"
  unfolding staged_def
  by (rule conjI, simp add: others_calm_def exec_start_def, rule exI [of _ Starting])
    (simp add: exec_start_def completions_def)

interpretation stages: inv_relation "\<lambda>s. \<exists>rt. s = exec_start env pl rt" "step_any env (pl_plan_id pl)" "staged env pl"
  for env pl
  by unfold_locales (auto simp: staged_start step_any_def intro: staged_step)

lemma reachable_staged: "exec_reachable env pl rt s \<Longrightarrow> staged env pl s"
  unfolding exec_reachable_def by (rule stages.good_reachable) blast+

section \<open>Theorems on runs\<close>

text \<open>C4 (type). Running a validated plan, no task ever panics, and there is no deadlock: in every reachable
  state all tasks are finished or one of them can move, whatever the other plans and control requests did.\<close>

theorem plan_never_stuck:
  assumes "validate_plan pl = Inr ()" and "exec_reachable env pl rt s"
  shows "Panic \<notin> set (es_tasks s) \<and> (all_done s \<or> movable env (pl_plan_id pl) s)"
proof
  have ty: "typed_state s" by (rule reachable_typed [OF assms])
  then show "all_done s \<or> movable env (pl_plan_id pl) s" by (rule typed_progress)
  from ty obtain \<Sigma> where \<Sigma>: "typed_by \<Sigma> s" by (auto simp: typed_state_def)
  show "Panic \<notin> set (es_tasks s)"
  proof
    assume "Panic \<in> set (es_tasks s)"
    then obtain t where "at s t Panic" by (auto simp: at_def in_set_conv_nth)
    from typed_at [OF \<Sigma> this] show False by simp
  qed
qed

text \<open>Between two turns of a polling loop a plan can only take finitely many steps, whatever
  its tasks are: the steps of the tasks themselves are well-founded.\<close>

lemma plan_steps_terminate: "wf {(s', s). \<exists>t. exec_step env p (Task t) s s'}"
  by (rule wf_subset [OF smaller_wf]) (use task_step_smaller in blast)

text \<open>C3 (liveness). A validated plan can always be brought to its end: from every reachable state a run
  leads to a state where all its tasks are finished, and there the stream holds exactly one plan_complete.\<close>

theorem plan_can_always_finish:
  assumes "validate_plan pl = Inr ()" and "exec_reachable env pl rt s"
  shows "\<exists>s'. (step_any env (pl_plan_id pl))\<^sup>*\<^sup>* s s' \<and> all_done s' \<and> completions (es_trace s') = 1"
proof -
  from can_finish [OF reachable_typed [OF assms]] obtain s'
    where run: "(step_any env (pl_plan_id pl))\<^sup>*\<^sup>* s s'" and d: "all_done s'" by blast
  from assms(2) run have "exec_reachable env pl rt s'" unfolding exec_reachable_def by (rule rtranclp_trans)
  from reachable_staged [OF this] obtain ph where ph: "in_phase env pl ph s'" by (auto simp: staged_def)
  have main: "\<exists>x. p = Done x" if "at s' 0 p" for p using d that by (auto simp: all_done_def at_def)
  have "completions (es_trace s') = 1"
  proof (cases ph)
    case Starting
    with ph main [of "plan_task env pl"] show ?thesis by (simp add: at_def plan_task_def)
  next
    case Running
    with ph main show ?thesis by force
  next
    case (Reporting b)
    with ph main show ?thesis by force
  qed (use ph in simp)
  with run d show ?thesis by blast
qed

text \<open>C8 (safety). The stream of a plan never holds a second plan_complete, and once the main task is finished
  it holds one: the completion is reported exactly once.\<close>

theorem plan_completes_once:
  assumes "exec_reachable env pl rt s"
  shows "completions (es_trace s) = (if \<exists>x. at s 0 (Done x) then 1 else 0)"
proof -
  from reachable_staged [OF assms] obtain ph where ph: "in_phase env pl ph s" by (auto simp: staged_def)
  show ?thesis
    using ph by (cases ph) (auto simp: plan_task_def at_def)
qed

section \<open>Witnesses\<close>

lemma plan_never_stuck_witness:
  "Panic \<notin> set (es_tasks (demo_run up_to_leaf))
   \<and> (all_done (demo_run up_to_leaf) \<or> movable demo_env (pl_plan_id demo_leaf_plan) (demo_run up_to_leaf))"
  by (rule plan_never_stuck [OF demo_leaf_plan_valid demo_reachable(1)])

lemma plan_can_always_finish_witness:
  "\<exists>s'. (step_any demo_env (pl_plan_id demo_leaf_plan))\<^sup>*\<^sup>* (demo_run up_to_leaf) s' \<and> all_done s'
     \<and> completions (es_trace s') = 1"
  by (rule plan_can_always_finish [OF demo_leaf_plan_valid demo_reachable(1)])

lemma plan_completes_once_witness: "completions (es_trace (demo_run to_the_end)) = 1"
  using plan_completes_once [OF demo_reachable(2)] demo_main_done by simp

end
