(* ===== verification/Exec_Evidence.thy ===== *)
theory Exec_Evidence
  imports Exec_Complete
begin

text \<open>
  What a task's result stands for. A task is given an obligation, the leaves whose success it vouches for if
  it ends without failure; the judgement \<open>vouches\<close> follows a task's program with what is known of the other
  tasks' obligations, of the plan's cancellation and of the events so far.
\<close>

section \<open>Evidence\<close>

definition leaves :: "plan \<Rightarrow> nat \<Rightarrow> nat set" where
  "leaves pl i = {j. (edge pl)\<^sup>*\<^sup>* i j \<and> rn_node_kind (pl_nodes pl ! j) = rtdl_do}"

text \<open>The verifier, if there is a rule, was asked about this very result and passed it.\<close>

definition verified :: "exec_env \<Rightarrow> obs set \<Rightarrow> capability_call \<Rightarrow> string \<Rightarrow> call_result \<Rightarrow> bool" where
  "verified env seen call description r =
     (case rule_for (en_policy env) call of
        None \<Rightarrow> True
      | Some rule \<Rightarrow>
          (let vcall = build_verifier_call (en_read env) (en_render env) rule call description r
           in \<exists>out v. (Called (Ext_Provider vcall (Some 60)) (Inr out) \<in> seen \<or> Called (Ext_Builtin vcall) (Inr out) \<in> seen)
                \<and> en_verdict env out = Inr v \<and> vs_passed v))"

text \<open>A call to another provider was made and answered without an error.\<close>

definition performed :: "exec_env \<Rightarrow> obs set \<Rightarrow> capability_call \<Rightarrow> bool" where
  "performed env seen call \<longleftrightarrow>
     (cc_provider_id call \<noteq> en_self env \<longrightarrow> (\<exists>out. Called (Ext_Provider call None) (Inr out) \<in> seen))"

text \<open>The stream reports the success of leaf \<open>j\<close>, and rightly so.\<close>

definition succeeded :: "exec_env \<Rightarrow> plan \<Rightarrow> obs set \<Rightarrow> nat \<Rightarrow> bool" where
  "succeeded env pl seen j \<longleftrightarrow>
     (\<exists>call d r. rn_call (pl_nodes pl ! j) = Some call \<and> cr_success r
        \<and> Sent (Node_State (node_context pl j) st_succeeded d (Some r)) \<in> seen
        \<and> performed env seen call \<and> verified env seen call (rn_description (pl_nodes pl ! j)) r)"

record knowledge =
  kn_tasks :: "nat \<rightharpoonup> nat set \<times> bool"
  kn_cancelled :: bool
  kn_seen :: "obs set"

definition grows :: "knowledge \<Rightarrow> knowledge \<Rightarrow> bool" where
  "grows \<kappa> \<kappa>' \<longleftrightarrow> kn_tasks \<kappa> \<subseteq>\<^sub>m kn_tasks \<kappa>' \<and> (kn_cancelled \<kappa> \<longrightarrow> kn_cancelled \<kappa>') \<and> kn_seen \<kappa> \<subseteq> kn_seen \<kappa>'"

definition saw :: "obs \<Rightarrow> knowledge \<Rightarrow> knowledge" where
  "saw e \<kappa> = \<kappa>\<lparr>kn_seen := insert e (kn_seen \<kappa>)\<rparr>"

definition heard :: "bool \<Rightarrow> knowledge \<Rightarrow> knowledge" where
  "heard b \<kappa> = \<kappa>\<lparr>kn_cancelled := (kn_cancelled \<kappa> \<or> b)\<rparr>"

abbreviation proven :: "exec_env \<Rightarrow> plan \<Rightarrow> knowledge \<Rightarrow> nat set" where
  "proven env pl \<kappa> \<equiv> {j. succeeded env pl (kn_seen \<kappa>) j}"

definition promised :: "knowledge \<Rightarrow> nat list \<Rightarrow> nat set" where
  "promised \<kappa> vs = {j. \<exists>v \<in> set vs. \<exists>P b. kn_tasks \<kappa> v = Some (P, b) \<and> j \<in> P}"

definition verifiers_in :: "knowledge \<Rightarrow> nat list \<Rightarrow> bool" where
  "verifiers_in \<kappa> vs \<longleftrightarrow> (\<forall>v \<in> set vs. \<exists>P. kn_tasks \<kappa> v = Some (P, True))"

text \<open>A result \<open>x\<close> meets the obligation: unless it failed or the plan is cancelled, the leaves are proven or
  promised by the verifiers it hands over; a task whose obligation is final hands none over.\<close>

definition meets :: "exec_env \<Rightarrow> plan \<Rightarrow> knowledge \<Rightarrow> nat set \<times> bool \<Rightarrow> bool \<times> nat list \<Rightarrow> bool" where
  "meets env pl \<kappa> ob x \<longleftrightarrow> verifiers_in \<kappa> (snd x) \<and> (snd ob \<longrightarrow> snd x = [])
     \<and> (\<not> fst x \<longrightarrow> kn_cancelled \<kappa> \<or> fst ob \<subseteq> proven env pl \<kappa> \<union> promised \<kappa> (snd x))"

text \<open>A SUCCEEDED event is backed by the success of the leaves under its node.\<close>

definition event_backed :: "exec_env \<Rightarrow> plan \<Rightarrow> obs set \<Rightarrow> rtdl_event \<Rightarrow> bool" where
  "event_backed env pl seen ev =
     (case ev of
        Node_State ctx st d res \<Rightarrow>
          st = st_succeeded \<longrightarrow> leaves pl (ne_node_index ctx) \<subseteq> {j. succeeded env pl (insert (Sent ev) seen) j}
      | _ \<Rightarrow> True)"

primrec vouches :: "exec_env \<Rightarrow> plan \<Rightarrow> prog \<Rightarrow> knowledge \<Rightarrow> nat set \<times> bool \<Rightarrow> bool" where
  "vouches env pl (Done x) \<kappa> ob = meets env pl \<kappa> ob x"
| "vouches env pl (Look k) \<kappa> ob =
     (\<forall>rt. (kn_cancelled \<kappa> \<longrightarrow> is_cancelled (pl_plan_id pl) rt) \<longrightarrow>
        vouches env pl (k rt) (heard (is_cancelled (pl_plan_id pl) rt) \<kappa>) ob)"
| "vouches env pl (Table op k) \<kappa> ob =
     (if clears_cancel (pl_plan_id pl) op
      then (\<forall>rt b. k rt = Emit (Plan_Complete (pl_plan_id pl) b) (Done (False, [])) \<longrightarrow> \<not> b \<longrightarrow> fst ob \<subseteq> proven env pl \<kappa>)
      else (\<forall>rt. vouches env pl (k rt) (saw (Changed op) \<kappa>) ob))"
| "vouches env pl (Emit ev k) \<kappa> ob =
     (event_backed env pl (kn_seen \<kappa>) ev \<and> vouches env pl k (saw (Sent ev) \<kappa>) ob)"
| "vouches env pl (Query i k) \<kappa> ob = (\<forall>a. vouches env pl (k a) \<kappa> ob)"
| "vouches env pl (Ext c k) \<kappa> ob = (\<forall>a. vouches env pl (k a) (saw (Called c a) \<kappa>) ob)"
| "vouches env pl (Wait ids k) \<kappa> ob = (\<forall>a. vouches env pl (k a) \<kappa> ob)"
| "vouches env pl (Spawn q k) \<kappa> ob =
     (\<exists>ob'. vouches env pl q \<kappa> ob'
        \<and> (\<forall>\<kappa>' h. grows \<kappa> \<kappa>' \<and> kn_tasks \<kappa>' h = Some ob' \<longrightarrow> vouches env pl (k h) \<kappa>' ob))"
| "vouches env pl (Join h k) \<kappa> ob =
     (\<exists>ob'. kn_tasks \<kappa> h = Some ob'
        \<and> (\<forall>\<kappa>' x. grows \<kappa> \<kappa>' \<and> meets env pl \<kappa>' ob' x \<longrightarrow> vouches env pl (k x) \<kappa>' ob))"
| "vouches env pl (Poll ctx k) \<kappa> ob =
     (\<forall>x. (cr_success (fst x) \<longleftrightarrow> snd x = st_succeeded) \<longrightarrow> vouches env pl (k x) \<kappa> ob)"
| "vouches env pl Panic \<kappa> ob = True"

section \<open>Knowledge only grows\<close>

lemma grows_refl [simp, intro]: "grows \<kappa> \<kappa>"
  by (simp add: grows_def)

lemma grows_trans: "grows a b \<Longrightarrow> grows b c \<Longrightarrow> grows a c"
  unfolding grows_def by (blast intro: map_le_trans)

lemma knowledge_simps [simp]:
  "kn_tasks (saw e \<kappa>) = kn_tasks \<kappa>" "kn_cancelled (saw e \<kappa>) = kn_cancelled \<kappa>"
  "kn_seen (saw e \<kappa>) = insert e (kn_seen \<kappa>)" "kn_tasks (heard b \<kappa>) = kn_tasks \<kappa>"
  "kn_cancelled (heard b \<kappa>) = (kn_cancelled \<kappa> \<or> b)" "kn_seen (heard b \<kappa>) = kn_seen \<kappa>"
  by (simp_all add: saw_def heard_def)

lemma grows_saw [simp, intro]: "grows \<kappa> (saw e \<kappa>)" and grows_heard [simp, intro]: "grows \<kappa> (heard b \<kappa>)"
  by (auto simp: grows_def)

lemma grows_saw2: "grows \<kappa> \<kappa>' \<Longrightarrow> grows (saw e \<kappa>) (saw e \<kappa>')"
  by (auto simp: grows_def)

lemma grows_heard2: "grows \<kappa> \<kappa>' \<Longrightarrow> grows (heard b \<kappa>) (heard b \<kappa>')"
  by (auto simp: grows_def)

lemma performed_mono: "performed env S call \<Longrightarrow> S \<subseteq> S' \<Longrightarrow> performed env S' call"
  by (auto simp: performed_def)

lemma verified_mono: "verified env S call d r \<Longrightarrow> S \<subseteq> S' \<Longrightarrow> verified env S' call d r"
  unfolding verified_def Let_def by (auto split: option.splits)

lemma succeeded_mono: "succeeded env pl S j \<Longrightarrow> S \<subseteq> S' \<Longrightarrow> succeeded env pl S' j"
  unfolding succeeded_def by (blast intro: performed_mono verified_mono)

lemma proven_mono: "grows \<kappa> \<kappa>' \<Longrightarrow> proven env pl \<kappa> \<subseteq> proven env pl \<kappa>'"
  by (auto simp: grows_def intro: succeeded_mono)

lemma tasks_mono: "grows \<kappa> \<kappa>' \<Longrightarrow> kn_tasks \<kappa> v = Some ob \<Longrightarrow> kn_tasks \<kappa>' v = Some ob"
  unfolding grows_def map_le_def by (metis domI)

lemma promised_mono: "grows \<kappa> \<kappa>' \<Longrightarrow> promised \<kappa> vs \<subseteq> promised \<kappa>' vs"
  unfolding promised_def using tasks_mono by blast

lemma verifiers_mono: "grows \<kappa> \<kappa>' \<Longrightarrow> verifiers_in \<kappa> vs \<Longrightarrow> verifiers_in \<kappa>' vs"
  unfolding verifiers_in_def using tasks_mono by blast

lemma meets_mono: "meets env pl \<kappa> ob x \<Longrightarrow> grows \<kappa> \<kappa>' \<Longrightarrow> meets env pl \<kappa>' ob x"
  using verifiers_mono [of \<kappa> \<kappa>'] promised_mono [of \<kappa> \<kappa>' "snd x"] proven_mono [of \<kappa> \<kappa>' env pl]
  unfolding meets_def grows_def by blast

lemma event_backed_mono: "event_backed env pl S ev \<Longrightarrow> S \<subseteq> S' \<Longrightarrow> event_backed env pl S' ev"
  using succeeded_mono [of env pl "insert (Sent ev) S" _ "insert (Sent ev) S'"]
  by (auto simp: event_backed_def split: rtdl_event.splits)

lemma vouches_mono: "vouches env pl p \<kappa> ob \<Longrightarrow> grows \<kappa> \<kappa>' \<Longrightarrow> vouches env pl p \<kappa>' ob"
proof (induction p arbitrary: \<kappa> \<kappa>' ob rule: prog_induct)
  case (Done x)
  then show ?case by (auto intro: meets_mono)
next
  case (Look k)
  have "vouches env pl (k rt) (heard (is_cancelled (pl_plan_id pl) rt) \<kappa>') ob"
    if "kn_cancelled \<kappa>' \<longrightarrow> is_cancelled (pl_plan_id pl) rt" for rt
  proof (rule Look.IH)
    show "vouches env pl (k rt) (heard (is_cancelled (pl_plan_id pl) rt) \<kappa>) ob"
      using Look.prems that by (auto simp: grows_def)
  qed (rule grows_heard2 [OF Look.prems(2)])
  then show ?case by simp
next
  case (Table op k)
  show ?case
  proof (cases "clears_cancel (pl_plan_id pl) op")
    case True
    then show ?thesis using Table.prems proven_mono [OF Table.prems(2), of env pl] by auto
  next
    case False
    then show ?thesis using Table.prems Table.IH grows_saw2 [OF Table.prems(2)] by simp blast
  qed
next
  case (Emit ev k)
  then have "event_backed env pl (kn_seen \<kappa>') ev" by (auto simp: grows_def intro: event_backed_mono)
  with Emit grows_saw2 [OF Emit.prems(2)] show ?case by simp blast
next
  case (Ext c k)
  then show ?case using grows_saw2 [OF Ext.prems(2)] by simp blast
next
  case (Spawn q k)
  then obtain ob' where "vouches env pl q \<kappa> ob'"
    and k: "\<And>\<kappa>' h. grows \<kappa> \<kappa>' \<and> kn_tasks \<kappa>' h = Some ob' \<Longrightarrow> vouches env pl (k h) \<kappa>' ob" by auto
  with Spawn have "vouches env pl q \<kappa>' ob'" by blast
  with k Spawn.prems(2) show ?case unfolding vouches.simps by (blast intro: grows_trans)
next
  case (Join h k)
  then obtain ob' where "kn_tasks \<kappa> h = Some ob'"
    and k: "\<And>\<kappa>' x. grows \<kappa> \<kappa>' \<and> meets env pl \<kappa>' ob' x \<Longrightarrow> vouches env pl (k x) \<kappa>' ob" by auto
  moreover from this(1) Join.prems(2) have "kn_tasks \<kappa>' h = Some ob'" by (rule tasks_mono [rotated])
  ultimately show ?case using Join.prems(2) unfolding vouches.simps by (blast intro: grows_trans)
qed (simp_all, blast+)

section \<open>The combinators\<close>

named_theorems vouch_prog \<open>vouching rules of the program combinators\<close>

text \<open>Most steps need no new knowledge.\<close>

lemma vouch_Look: "(\<And>rt. vouches env pl (k rt) \<kappa> ob) \<Longrightarrow> vouches env pl (Look k) \<kappa> ob"
  by (auto intro: vouches_mono)

lemma vouch_Table:
  "\<not> clears_cancel (pl_plan_id pl) op \<Longrightarrow> (\<And>rt. vouches env pl (k rt) \<kappa> ob) \<Longrightarrow> vouches env pl (Table op k) \<kappa> ob"
  by (auto intro: vouches_mono)

lemma vouch_Ext: "(\<And>a. vouches env pl (k a) \<kappa> ob) \<Longrightarrow> vouches env pl (Ext c k) \<kappa> ob"
  by (auto intro: vouches_mono)

lemma vouch_Emit:
  "event_backed env pl (kn_seen \<kappa>) ev \<Longrightarrow> vouches env pl k \<kappa> ob \<Longrightarrow> vouches env pl (Emit ev k) \<kappa> ob"
  by (auto intro: vouches_mono)

lemma vouch_record [vouch_prog]: "vouches env pl k \<kappa> ob \<Longrightarrow> vouches env pl (record_state node st k) \<kappa> ob"
  unfolding record_state_def by (rule vouch_Table) (simp_all add: clears_cancel_def)

lemma event_backed_other: "st \<noteq> st_succeeded \<Longrightarrow> event_backed env pl S (Node_State ctx st d res)"
  by (simp add: event_backed_def)

lemma vouch_operator_state:
  assumes "st = st_succeeded \<Longrightarrow> leaves pl (ne_node_index node) \<subseteq> proven env pl \<kappa>" and "vouches env pl k \<kappa> ob"
  shows "vouches env pl (send_operator_state node st reason k) \<kappa> ob"
  unfolding send_operator_state_def Let_def operator_node_state_def
proof (intro vouch_record vouch_Emit assms(2))
  show "event_backed env pl (kn_seen \<kappa>) (Node_State node st detail None)" for detail
    unfolding event_backed_def rtdl_event.case
    using assms(1) succeeded_mono [of env pl "kn_seen \<kappa>"] by blast
qed

lemma vouch_operator_final:
  assumes "\<not> failed \<Longrightarrow> \<not> cancelled \<Longrightarrow> leaves pl (ne_node_index node) \<subseteq> proven env pl \<kappa>"
    and "vouches env pl k \<kappa> ob"
  shows "vouches env pl (send_operator_final node failed cancelled k) \<kappa> ob"
  using assms by (auto simp: send_operator_final_def st_defs intro!: vouch_operator_state)

lemma vouch_stop_on_enter [vouch_prog]:
  "vouches env pl k \<kappa> ob \<Longrightarrow> vouches env pl (send_stop_on_enter node k) \<kappa> ob"
  unfolding send_stop_on_enter_def Let_def operator_node_state_def if_cancel
  by (intro vouch_record vouch_Emit event_backed_other) (simp_all add: st_defs)

lemma vouch_send_cancels [vouch_prog]:
  "(\<And>es. vouches env pl (k es) \<kappa> ob) \<Longrightarrow> vouches env pl (send_cancels calls errors k) \<kappa> ob"
proof (induction calls errors k rule: send_cancels.induct)
  case (2 call calls errors k)
  show ?case unfolding send_cancels.simps by (rule vouch_Ext, rule "2.IH") (rule "2.prems")
qed simp

lemma vouch_stop_plan [vouch_prog]:
  "vouches env pl k \<kappa> ob \<Longrightarrow> vouches env pl (stop_plan plan_id k) \<kappa> ob"
  unfolding stop_plan_def by (rule vouch_Table) (auto simp: clears_cancel_def intro: vouch_prog)

lemma vouch_trigger [vouch_prog]:
  "vouches env pl k \<kappa> ob \<Longrightarrow> vouches env pl (trigger_stop_on_complete node k) \<kappa> ob"
  unfolding trigger_stop_on_complete_def by (rule vouch_Look) (auto intro: vouch_prog)

text \<open>What is known when a dispatched call has returned \<open>x\<close>.\<close>

definition answered :: "exec_env \<Rightarrow> obs set \<Rightarrow> capability_call \<Rightarrow> nat option \<Rightarrow> call_result \<Rightarrow> bool" where
  "answered env seen call timeout x \<longleftrightarrow>
     (cr_success x \<longrightarrow>
        (if cc_provider_id call = en_self env
         then contract_leaf (cc_contract_id call) = ''verify'' \<longrightarrow> Called (Ext_Builtin call) (Inr (cr_output x)) \<in> seen
         else Called (Ext_Provider call timeout) (Inr (cr_output x)) \<in> seen))"

lemma result_of_success: "cr_success (result_of call r) \<longleftrightarrow> (\<exists>out. r = Inr out)"
  "r = Inr out \<Longrightarrow> cr_output (result_of call r) = out"
  by (auto simp: result_of_def error_result_def ok_result_def split: sum.splits)

lemma vouch_builtin:
  assumes k: "\<And>\<kappa>' x. \<lbrakk>grows \<kappa> \<kappa>'; answered env (kn_seen \<kappa>') call timeout x\<rbrakk> \<Longrightarrow> vouches env pl (k x) \<kappa>' ob"
    and self: "cc_provider_id call = en_self env"
  shows "vouches env pl (builtin env call k) \<kappa> ob"
proof (cases "contract_leaf (cc_contract_id call) \<in> {''cancel_plan'', ''stop_plan_at'', ''get_plan_status'', ''get_all_plans''}")
  case True
  then have "contract_leaf (cc_contract_id call) \<noteq> ''verify''" by auto
  with self have "answered env S call timeout x" for S x by (simp add: answered_def)
  with k have k': "vouches env pl (k x) \<kappa> ob" for x by simp
  show ?thesis
    unfolding builtin_def Let_def
    using True
    by (auto simp del: vouches.simps simp: clears_cancel_def split: sum.split prod.split
        intro!: vouch_Look vouch_Table vouch_prog k')
      (auto intro: k')
next
  case False
  have "vouches env pl (k (result_of call r)) (saw (Called (Ext_Builtin call) r) \<kappa>) ob" for r
    using result_of_success [where call = call and r = r] by (intro k) (auto simp: answered_def self)
  with False show ?thesis by (simp add: builtin_def Let_def)
qed

lemma vouch_dispatch:
  assumes k: "\<And>\<kappa>' x. \<lbrakk>grows \<kappa> \<kappa>'; answered env (kn_seen \<kappa>') call timeout x\<rbrakk> \<Longrightarrow> vouches env pl (k x) \<kappa>' ob"
  shows "vouches env pl (dispatch_with_timeout env call timeout k) \<kappa> ob"
proof (cases "cc_provider_id call = en_self env")
  case True
  with vouch_builtin [OF k True] show ?thesis by (simp add: dispatch_with_timeout_def)
next
  case False
  have "vouches env pl (k (result_of call r)) (saw (Called (Ext_Provider call timeout) r) \<kappa>) ob" for r
    using result_of_success [where call = call and r = r] False by (intro k) (auto simp: answered_def)
  with False show ?thesis by (simp add: dispatch_with_timeout_def)
qed

lemma answered_performed: "answered env S call None x \<Longrightarrow> cr_success x \<Longrightarrow> performed env S call"
  by (auto simp: answered_def performed_def)

lemma vouch_verify:
  assumes k: "\<And>\<kappa>' v. \<lbrakk>grows \<kappa> \<kappa>'; cr_success v \<Longrightarrow> v = original
      \<and> verified env (kn_seen \<kappa>') call (ne_description node) original; \<not> cr_success original \<Longrightarrow> \<not> cr_success v\<rbrakk>
    \<Longrightarrow> vouches env pl (k v) \<kappa>' ob"
  shows "vouches env pl (verify_prog env call node original k) \<kappa> ob"
proof (cases "rule_for (en_policy env) call")
  case None
  then show ?thesis by (auto simp: verify_prog_def verified_def intro!: k)
next
  case (Some rule)
  let ?v = "build_verifier_call (en_read env) (en_render env) rule call (ne_description node) original"
  have leaf: "contract_leaf (cc_contract_id ?v) = ''verify''"
  proof -
    have "contract_leaf verify_contract_id = ''verify''" by code_simp
    then show ?thesis by (simp add: build_verifier_call_def)
  qed
  have "vouches env pl (k (verify_outcome (en_verdict env) rule original x)) \<kappa>' ob"
    if g: "grows \<kappa> \<kappa>'" and a: "answered env (kn_seen \<kappa>') ?v (Some 60) x" for \<kappa>' x
  proof (rule k [OF g])
    assume s: "cr_success (verify_outcome (en_verdict env) rule original x)"
    then obtain v where v: "cr_success x" "en_verdict env (cr_output x) = Inr v" "vs_passed v"
      by (auto simp: verify_outcome_success)
    have "Called (Ext_Provider ?v (Some 60)) (Inr (cr_output x)) \<in> kn_seen \<kappa>'
        \<or> Called (Ext_Builtin ?v) (Inr (cr_output x)) \<in> kn_seen \<kappa>'"
      using a v(1) leaf by (simp add: answered_def split: if_splits)
    with v Some have "verified env (kn_seen \<kappa>') call (ne_description node) original"
      unfolding verified_def by (auto simp: Let_def)
    with verify_outcome_kept [OF s]
    show "verify_outcome (en_verdict env) rule original x = original
        \<and> verified env (kn_seen \<kappa>') call (ne_description node) original" by simp
  qed (auto simp: verify_outcome_success)
  with Some show ?thesis by (simp add: verify_prog_def vouch_dispatch)
qed

end
