(* ===== verification/Exec_Outcome.thy ===== *)
theory Exec_Outcome
  imports Exec_Evidence
begin

text \<open>
  What the stream of a plan tells its reader: the tasks of a plan vouch for its leaves, so a plan_complete
  without failure, and any SUCCEEDED event of an operator, stand for the success of every leaf below.
\<close>

section \<open>Leaves\<close>

definition is_leaf :: "plan \<Rightarrow> nat \<Rightarrow> capability_call \<Rightarrow> bool" where
  "is_leaf pl i call \<longleftrightarrow> rn_node_kind (pl_nodes pl ! i) = rtdl_do \<and> rn_call (pl_nodes pl ! i) = Some call"

lemma leaves_do: "rn_node_kind (pl_nodes pl ! i) = rtdl_do \<Longrightarrow> leaves pl i = {i}"
proof -
  assume k: "rn_node_kind (pl_nodes pl ! i) = rtdl_do"
  then have "\<not> edge pl i j" for j by (simp add: edge_def cycle_children_def rtdl_defs)
  then have "(edge pl)\<^sup>*\<^sup>* i j \<longleftrightarrow> j = i" for j by (auto elim: converse_rtranclpE)
  with k show ?thesis by (auto simp: leaves_def)
qed

lemma leaves_operator:
  assumes "rn_node_kind (pl_nodes pl ! i) \<noteq> rtdl_do"
  shows "leaves pl i = \<Union> (leaves pl ` set (cycle_children pl i))"
proof -
  have "j \<in> leaves pl i \<longleftrightarrow> (\<exists>c \<in> set (cycle_children pl i). j \<in> leaves pl c)" for j
  proof
    assume j: "j \<in> leaves pl i"
    with assms have "j \<noteq> i" by (auto simp: leaves_def)
    with j obtain c where "edge pl i c" "(edge pl)\<^sup>*\<^sup>* c j"
      unfolding leaves_def by (blast elim: converse_rtranclpE)
    with j show "\<exists>c \<in> set (cycle_children pl i). j \<in> leaves pl c"
      by (auto simp: leaves_def edge_def)
  next
    assume "\<exists>c \<in> set (cycle_children pl i). j \<in> leaves pl c"
    then show "j \<in> leaves pl i"
      by (auto simp: leaves_def edge_def intro: converse_rtranclp_into_rtranclp)
  qed
  then show ?thesis by blast
qed

definition takes :: "exec_env \<Rightarrow> plan \<Rightarrow> knowledge \<Rightarrow> nat set \<times> bool \<Rightarrow> nat set \<Rightarrow> (bool \<times> nat list \<Rightarrow> prog) \<Rightarrow> bool" where
  "takes env pl \<kappa> ob P k \<longleftrightarrow>
     (\<forall>\<kappa>' x. grows \<kappa> \<kappa>' \<and> meets env pl \<kappa>' (P, False) x \<longrightarrow> vouches env pl (k x) \<kappa>' ob)"

lemma takesD: "takes env pl \<kappa> ob P k \<Longrightarrow> grows \<kappa> \<kappa>' \<Longrightarrow> meets env pl \<kappa>' (P, False) x \<Longrightarrow> vouches env pl (k x) \<kappa>' ob"
  unfolding takes_def by blast

lemma takes_mono: "takes env pl \<kappa> ob P k \<Longrightarrow> grows \<kappa> \<kappa>' \<Longrightarrow> takes env pl \<kappa>' ob P k"
  unfolding takes_def by (blast intro: grows_trans)

lemma takes_failed: "takes env pl \<kappa> ob P k \<Longrightarrow> grows \<kappa> \<kappa>' \<Longrightarrow> vouches env pl (k (True, [])) \<kappa>' ob"
  by (erule takesD) (auto simp: meets_def verifiers_in_def)

lemma success_event:
  assumes "is_leaf pl i call" and "cr_success r" and "performed env S call"
    and "verified env S call (rn_description (pl_nodes pl ! i)) r"
  shows "succeeded env pl (insert (Sent (node_state_from_result (node_context pl i) r st_succeeded)) S) i"
proof -
  let ?S = "insert (Sent (node_state_from_result (node_context pl i) r st_succeeded)) S"
  have "performed env ?S call" "verified env ?S call (rn_description (pl_nodes pl ! i)) r"
    using assms(3,4) by (auto intro: performed_mono verified_mono)
  with assms(1,2) show ?thesis
    unfolding succeeded_def is_leaf_def node_state_from_result_def by blast
qed

lemma leaf_backed:
  assumes "is_leaf pl i call"
    and "st = st_succeeded \<Longrightarrow> cr_success r \<and> performed env S call \<and> verified env S call (rn_description (pl_nodes pl ! i)) r"
  shows "event_backed env pl S (node_state_from_result (node_context pl i) r st)"
  using assms success_event [OF assms(1), of r env S] leaves_do [of pl i]
  by (auto simp: event_backed_def node_state_from_result_def is_leaf_def node_context_def Let_def)

lemma vouch_leaf_event:
  assumes "event_backed env pl (kn_seen \<kappa>) ev" and "vouches env pl k (saw (Sent ev) \<kappa>) ob"
  shows "vouches env pl (record_state node st (Emit ev k)) \<kappa> ob"
  using assms by (intro vouch_record) simp

lemma meets_leaf:
  "\<not> b \<longrightarrow> kn_cancelled \<kappa> \<or> succeeded env pl (kn_seen \<kappa>) i \<Longrightarrow> meets env pl \<kappa> ({i}, z) (b, [])"
  by (auto simp: meets_def verifiers_in_def)

lemma node_context_description [simp]: "ne_description (node_context pl i) = rn_description (pl_nodes pl ! i)"
  "ne_plan_id (node_context pl i) = pl_plan_id pl" "ne_node_index (node_context pl i) = i"
  "ne_op_id (node_context pl i) = rn_op_id (pl_nodes pl ! i)"
  by (simp_all add: node_context_def Let_def)

lemma vouch_publish:
  assumes leaf: "is_leaf pl i call" and k: "takes env pl \<kappa> ob {i} k"
    and ok: "cr_success r \<Longrightarrow> kn_cancelled \<kappa> \<or> (st = st_succeeded \<and> performed env (kn_seen \<kappa>) call
      \<and> verified env (kn_seen \<kappa>) call (rn_description (pl_nodes pl ! i)) r)"
    and bad: "\<not> cr_success r \<Longrightarrow> st \<noteq> st_succeeded"
  shows "vouches env pl (publish_leaf (node_context pl i) r st k) \<kappa> ob"
  unfolding publish_leaf_def vouches.simps Let_def node_context_description
proof (intro allI impI)
  fix rt assume c: "kn_cancelled \<kappa> \<longrightarrow> is_cancelled (pl_plan_id pl) rt"
  let ?c = "is_cancelled (pl_plan_id pl) rt" and ?st = "if is_cancelled (pl_plan_id pl) rt then st_canceled else st"
  let ?ev = "node_state_from_result (node_context pl i) r ?st" and ?k = "heard (is_cancelled (pl_plan_id pl) rt) \<kappa>"
  show "vouches env pl (record_state (node_context pl i) ?st (Emit ?ev (k (\<not> cr_success r, [])))) ?k ob"
  proof (rule vouch_leaf_event)
    show "event_backed env pl (kn_seen ?k) ?ev"
    proof (rule leaf_backed [OF leaf])
      assume s: "?st = st_succeeded"
      then have "\<not> ?c" by (auto simp: st_defs)
      with s c ok bad show "cr_success r \<and> performed env (kn_seen ?k) call
          \<and> verified env (kn_seen ?k) call (rn_description (pl_nodes pl ! i)) r" by auto
    qed
    have "meets env pl (saw (Sent ?ev) ?k) ({i}, False) (\<not> cr_success r, [])"
    proof (rule meets_leaf, intro impI)
      assume "\<not> \<not> cr_success r"
      with ok c success_event [OF leaf, of r env "kn_seen \<kappa>"]
      show "kn_cancelled (saw (Sent ?ev) ?k) \<or> succeeded env pl (kn_seen (saw (Sent ?ev) ?k)) i"
        by auto
    qed
    then show "vouches env pl (k (\<not> cr_success r, [])) (saw (Sent ?ev) ?k) ob"
      by (rule takesD [OF k, rotated]) (blast intro: grows_trans)
  qed
qed

lemma vouch_overlap_verifier:
  assumes leaf: "is_leaf pl i call" and perf: "performed env (kn_seen \<kappa>) call"
  shows "vouches env pl (overlap_verifier env call (node_context pl i) r) \<kappa> ({i}, True)"
  unfolding overlap_verifier_def
proof (rule vouch_verify)
  fix \<kappa>' v
  assume g: "grows \<kappa> \<kappa>'" and v: "cr_success v \<Longrightarrow> v = r \<and> verified env (kn_seen \<kappa>') call (ne_description (node_context pl i)) r"
  let ?st = "leaf_terminal_state (cr_success v) False"
  let ?ev = "node_state_from_result (node_context pl i) v ?st"
  have perf': "performed env (kn_seen \<kappa>') call" using perf g by (auto simp: grows_def intro: performed_mono)
  have st: "?st = st_succeeded \<longleftrightarrow> cr_success v" by (simp add: leaf_terminal_state_def st_defs)
  have ev: "cr_success v \<Longrightarrow> succeeded env pl (kn_seen (saw (Sent ?ev) \<kappa>')) i"
    using success_event [OF leaf, of v env "kn_seen \<kappa>'"] v perf' st by auto
  show "vouches env pl (let state = ?st in record_state (node_context pl i) state
      (Emit (node_state_from_result (node_context pl i) v state)
        (trigger_stop_on_complete (node_context pl i) (Done (\<not> cr_success v, []))))) \<kappa>' ({i}, True)"
    unfolding Let_def
  proof (rule vouch_leaf_event)
    show "event_backed env pl (kn_seen \<kappa>') ?ev"
      by (rule leaf_backed [OF leaf]) (use v perf' st in auto)
    show "vouches env pl (trigger_stop_on_complete (node_context pl i) (Done (\<not> cr_success v, [])))
        (saw (Sent ?ev) \<kappa>') ({i}, True)"
      by (rule vouch_trigger) (use ev in \<open>simp add: meets_leaf\<close>)
  qed
qed

lemma vouch_finish_leaf:
  assumes leaf: "is_leaf pl i call" and k: "takes env pl \<kappa> ob {i} k"
    and el: "eligible \<Longrightarrow> cr_success r \<and> st = st_succeeded \<and> performed env (kn_seen \<kappa>) call"
    and nel: "\<not> eligible \<Longrightarrow> (if cr_success r then kn_cancelled \<kappa> else st \<noteq> st_succeeded)"
  shows "vouches env pl (finish_leaf env call (node_context pl i) r st eligible k) \<kappa> ob"
proof (cases eligible)
  case False
  with vouch_publish [OF leaf k, of r st] nel show ?thesis by (auto simp: finish_leaf_def split: if_splits)
next
  case True
  with el have s: "cr_success r" "st = st_succeeded" "performed env (kn_seen \<kappa>) call" by auto
  have "vouches env pl (record_state (node_context pl i) st_verifying
      (Emit (node_state_from_result (node_context pl i) r st_verifying)
        (Spawn (overlap_verifier env call (node_context pl i) r) (\<lambda>h. k (False, [h]))))) \<kappa> ob"
    (is "vouches env pl (record_state _ _ (Emit ?ev ?sp)) \<kappa> ob")
  proof (rule vouch_leaf_event)
    show "event_backed env pl (kn_seen \<kappa>) ?ev"
      by (simp add: node_state_from_result_def event_backed_other st_defs)
    have "vouches env pl (overlap_verifier env call (node_context pl i) r) (saw (Sent ?ev) \<kappa>) ({i}, True)"
      by (rule vouch_overlap_verifier [OF leaf]) (use s(3) in \<open>auto intro: performed_mono\<close>)
    moreover have "vouches env pl (k (False, [h])) \<kappa>' ob"
      if "grows (saw (Sent ?ev) \<kappa>) \<kappa>'" "kn_tasks \<kappa>' h = Some ({i}, True)" for \<kappa>' h
    proof (rule takesD [OF k])
      show "grows \<kappa> \<kappa>'" using that(1) by (blast intro: grows_trans)
      show "meets env pl \<kappa>' ({i}, False) (False, [h])"
        using that(2) by (auto simp: meets_def verifiers_in_def promised_def)
    qed
    ultimately show "vouches env pl ?sp (saw (Sent ?ev) \<kappa>) ob"
      unfolding vouches.simps by blast
  qed
  moreover have "vouches env pl (verify_prog env call (node_context pl i) r (\<lambda>verified.
      publish_leaf (node_context pl i) verified (if \<not> cr_success verified then st_failed else st) k)) \<kappa> ob"
  proof (rule vouch_verify)
    fix \<kappa>' v
    assume g: "grows \<kappa> \<kappa>'"
      and v: "cr_success v \<Longrightarrow> v = r \<and> verified env (kn_seen \<kappa>') call (ne_description (node_context pl i)) r"
    show "vouches env pl (publish_leaf (node_context pl i) v (if \<not> cr_success v then st_failed else st) k) \<kappa>' ob"
    proof (rule vouch_publish [OF leaf takes_mono [OF k g]])
      show "kn_cancelled \<kappa>' \<or> (if \<not> cr_success v then st_failed else st) = st_succeeded
          \<and> performed env (kn_seen \<kappa>') call
          \<and> verified env (kn_seen \<kappa>') call (rn_description (pl_nodes pl ! i)) v" if "cr_success v"
        using that v s g by (auto simp: grows_def intro: performed_mono)
    qed (simp add: st_defs)
  qed
  ultimately show ?thesis using True by (simp add: finish_leaf_def)
qed

lemma vouch_conclude:
  assumes leaf: "is_leaf pl i call" and k: "takes env pl \<kappa> ob {i} k"
    and ok: "cr_success r \<Longrightarrow> (st = st_succeeded \<and> performed env (kn_seen \<kappa>) call) \<or> kn_cancelled \<kappa>"
    and bad: "\<not> cr_success r \<Longrightarrow> st \<noteq> st_succeeded"
    and can: "kn_cancelled \<kappa> \<Longrightarrow> st \<noteq> st_succeeded \<or> performed env (kn_seen \<kappa>) call"
  shows "vouches env pl (if cr_success r \<and> st = st_succeeded
      then Look (\<lambda>rt. finish_leaf env call (node_context pl i) r st (\<not> is_cancelled (ne_plan_id (node_context pl i)) rt) k)
      else finish_leaf env call (node_context pl i) r st False k) \<kappa> ob"
proof (cases "cr_success r \<and> st = st_succeeded")
  case True
  have "vouches env pl (finish_leaf env call (node_context pl i) r st (\<not> is_cancelled (pl_plan_id pl) rt) k)
      (heard (is_cancelled (pl_plan_id pl) rt) \<kappa>) ob"
    if "kn_cancelled \<kappa> \<longrightarrow> is_cancelled (pl_plan_id pl) rt" for rt
    by (rule vouch_finish_leaf [OF leaf takes_mono [OF k grows_heard]]) (use True ok that in auto)
  with True show ?thesis by simp
next
  case False
  with vouch_finish_leaf [OF leaf k, of False r st] ok bad show ?thesis by auto
qed

lemma vouch_run_until_terminal:
  assumes leaf: "is_leaf pl i call"
    and k: "\<And>\<kappa>' x. \<lbrakk>grows \<kappa> \<kappa>'; cr_success (fst x) \<longleftrightarrow> snd x = st_succeeded; cr_success (fst x) \<Longrightarrow> performed env (kn_seen \<kappa>') call\<rbrakk>
      \<Longrightarrow> vouches env pl (k x) \<kappa>' ob"
  shows "vouches env pl (run_until_terminal env call grp (node_context pl i) k) \<kappa> ob"
  unfolding run_until_terminal_def dispatch_def
proof (rule vouch_dispatch)
  fix \<kappa>' x
  assume g: "grows \<kappa> \<kappa>'" and a: "answered env (kn_seen \<kappa>') call None x"
  have fail: "vouches env pl (k (canceled_result call e, st_canceled)) \<kappa>' ob" for e
    by (rule k [OF g]) (auto simp: canceled_result_def failed_result_def st_defs)
  have pollk: "vouches env pl (Poll ctx k) \<kappa>' ob" if "cr_success x" for ctx
    using k [OF g] answered_performed [OF a that] by auto
  have "vouches env pl (k (x, st_failed)) \<kappa>' ob" if "\<not> cr_success x"
    by (rule k [OF g]) (use that in \<open>auto simp: st_defs\<close>)
  then show "vouches env pl (if \<not> cr_success x then k (x, st_failed) else
       (let run_id = extract_run_id (en_read env) (cr_output x);
            running = \<lparr>ra_call_id = cc_call_id call, ra_provider_id = cc_provider_id call,
                       ra_cancel_contract = ag_cancel_contract grp, ra_run_id = run_id\<rparr>
        in Table (RT_Async_Register (ne_plan_id (node_context pl i)) running) (\<lambda>rt.
             case register_or_cancel_async_call (ne_plan_id (node_context pl i)) running rt of
               (accepted, calls, _) \<Rightarrow>
                 send_cancels calls [] (\<lambda>_.
                   if \<not> accepted then
                     k (canceled_result call ''plan was cancelled before async polling began'', st_canceled)
                   else
                     Poll \<lparr>pc_call = call, pc_status_contract = ag_status_contract grp, pc_run_id = run_id,
                           pc_plan_id = ne_plan_id (node_context pl i), pc_op_id = ne_op_id (node_context pl i)\<rparr> k)))) \<kappa>' ob"
    using fail pollk
    by (auto simp del: vouches.simps simp: Let_def clears_cancel_def
        intro!: vouch_Table vouch_send_cancels split: prod.split)
qed

lemma vouch_execute_call:
  assumes leaf: "is_leaf pl i call" and k: "takes env pl \<kappa> ob {i} k"
  shows "vouches env pl (execute_call env call (node_context pl i) k) \<kappa> ob"
proof -
  let ?ctx = "node_context pl i"
  define conclude where "conclude = (\<lambda>(result, state). if cr_success result \<and> state = st_succeeded
      then Look (\<lambda>rt. finish_leaf env call ?ctx result state (\<not> is_cancelled (ne_plan_id ?ctx) rt) k)
      else finish_leaf env call ?ctx result state False k)"
  have conc: "vouches env pl (conclude (r, st)) \<kappa>' ob"
    if "grows \<kappa> \<kappa>'" "cr_success r \<Longrightarrow> (st = st_succeeded \<and> performed env (kn_seen \<kappa>') call) \<or> (kn_cancelled \<kappa>' \<and> st \<noteq> st_succeeded)"
      "\<not> cr_success r \<Longrightarrow> st \<noteq> st_succeeded" for \<kappa>' r st
    unfolding conclude_def prod.case
    by (rule vouch_conclude [OF leaf takes_mono [OF k that(1)]]) (use that in auto)
  have sync: "vouches env pl (dispatch env call (\<lambda>r. Look (\<lambda>rt.
      conclude (r, leaf_terminal_state (cr_success r) (is_cancelled (ne_plan_id ?ctx) rt))))) \<kappa> ob"
    unfolding dispatch_def
  proof (rule vouch_dispatch)
    fix \<kappa>' x assume g: "grows \<kappa> \<kappa>'" and a: "answered env (kn_seen \<kappa>') call None x"
    have "vouches env pl (conclude (x, leaf_terminal_state (cr_success x) (is_cancelled (pl_plan_id pl) rt)))
        (heard (is_cancelled (pl_plan_id pl) rt) \<kappa>') ob" for rt
      by (rule conc) (use g answered_performed [OF a] in \<open>auto simp: leaf_terminal_state_def st_defs intro: grows_trans\<close>)
    then show "vouches env pl (Look (\<lambda>rt. conclude (x, leaf_terminal_state (cr_success x)
        (is_cancelled (ne_plan_id ?ctx) rt)))) \<kappa>' ob" by simp
  qed
  have async: "vouches env pl (run_until_terminal env call grp ?ctx conclude) \<kappa> ob" for grp
    by (rule vouch_run_until_terminal [OF leaf]) (auto intro: conc)
  have err: "vouches env pl (conclude (error_result call e, st_failed)) \<kappa> ob" for e
    by (rule conc) (auto simp: error_result_def st_defs)
  have all: "vouches env pl (case a of Inl e \<Rightarrow> conclude (error_result call e, st_failed)
      | Inr None \<Rightarrow> dispatch env call (\<lambda>r. Look (\<lambda>rt.
          conclude (r, leaf_terminal_state (cr_success r) (is_cancelled (ne_plan_id ?ctx) rt))))
      | Inr (Some grp) \<Rightarrow> run_until_terminal env call grp ?ctx conclude) \<kappa> ob" for a
    using sync async err by (simp split: sum.split option.split)
  have "vouches env pl (resolve_prog env call B) \<kappa> ob" if "\<And>a. vouches env pl (B a) \<kappa> ob" for B
    using that by (simp add: resolve_prog_def)
  note this [OF all]
  then show ?thesis
    unfolding execute_call_def Let_def conclude_def [symmetric] by (rule vouch_record)
qed

section \<open>Operators\<close>

lemma no_verifiers [simp]: "promised \<kappa> [] = {}" "verifiers_in \<kappa> []"
  by (simp_all add: promised_def verifiers_in_def)

text \<open>The handles of the branches spawned for the children \<open>cs\<close>.\<close>

definition handles :: "knowledge \<Rightarrow> plan \<Rightarrow> nat list \<Rightarrow> nat list \<Rightarrow> bool" where
  "handles \<kappa> pl hs cs \<longleftrightarrow> list_all2 (\<lambda>h c. kn_tasks \<kappa> h = Some (leaves pl c, False)) hs cs"

lemma handles_mono: "handles \<kappa> pl hs cs \<Longrightarrow> grows \<kappa> \<kappa>' \<Longrightarrow> handles \<kappa>' pl hs cs"
  unfolding handles_def by (erule list_all2_mono) (rule tasks_mono)

lemma handles_simps [simp]:
  "handles \<kappa> pl [] cs = (cs = [])"
  "handles \<kappa> pl (hs @ [h]) (cs @ [c]) = (handles \<kappa> pl hs cs \<and> kn_tasks \<kappa> h = Some (leaves pl c, False))"
  by (simp add: handles_def)
    (cases "length hs = length cs", simp add: handles_def list_all2_append,
      metis append1_eq_conv handles_def length_append_singleton list_all2_lengthD nat.inject)

lemma vouch_wait_for_verifiers:
  assumes "verifiers_in \<kappa> hs"
    and "\<And>\<kappa>' f. \<lbrakk>grows \<kappa> \<kappa>'; \<not> f \<Longrightarrow> \<not> any \<and> (kn_cancelled \<kappa>' \<or> promised \<kappa> hs \<subseteq> proven env pl \<kappa>')\<rbrakk>
      \<Longrightarrow> vouches env pl (k f) \<kappa>' ob"
  shows "vouches env pl (wait_for_verifiers hs any k) \<kappa> ob"
  using assms
proof (induction hs any k arbitrary: \<kappa> rule: wait_for_verifiers.induct)
  case (1 any k)
  then show ?case by (simp add: promised_def)
next
  case (2 h hs any k)
  from "2.prems"(1) obtain P where P: "kn_tasks \<kappa> h = Some (P, True)" and hs: "verifiers_in \<kappa> hs"
    by (auto simp: verifiers_in_def)
  have "vouches env pl (wait_for_verifiers hs (any \<or> b) k) \<kappa>' ob"
    if g: "grows \<kappa> \<kappa>'" and m: "meets env pl \<kappa>' (P, True) (b, vs)" for \<kappa>' b vs
  proof (rule "2.IH")
    show "verifiers_in \<kappa>' hs" by (rule verifiers_mono [OF g hs])
    fix \<kappa>'' f
    assume g2: "grows \<kappa>' \<kappa>''"
      and f: "\<not> f \<Longrightarrow> \<not> (any \<or> b) \<and> (kn_cancelled \<kappa>'' \<or> promised \<kappa>' hs \<subseteq> proven env pl \<kappa>'')"
    show "vouches env pl (k f) \<kappa>'' ob"
    proof (rule "2.prems"(2) [OF grows_trans [OF g g2]])
      assume nf: "\<not> f"
      have "kn_cancelled \<kappa>'' \<or> P \<subseteq> proven env pl \<kappa>''"
        using m f [OF nf] g2 proven_mono [OF g2, of env pl] by (auto simp: meets_def promised_def grows_def)
      moreover have "promised \<kappa> (h # hs) = P \<union> promised \<kappa> hs" using P by (auto simp: promised_def)
      ultimately show "\<not> any \<and> (kn_cancelled \<kappa>'' \<or> promised \<kappa> (h # hs) \<subseteq> proven env pl \<kappa>'')"
        using f [OF nf] promised_mono [OF g, of hs] by blast
    qed
  qed
  then have step: "\<And>\<kappa>' b vs. \<lbrakk>grows \<kappa> \<kappa>'; meets env pl \<kappa>' (P, True) (b, vs)\<rbrakk> \<Longrightarrow>
      vouches env pl (wait_for_verifiers hs (any \<or> b) k) \<kappa>' ob" .
  have "\<forall>\<kappa>' x. grows \<kappa> \<kappa>' \<and> meets env pl \<kappa>' (P, True) x \<longrightarrow>
      vouches env pl (case x of (b, _) \<Rightarrow> wait_for_verifiers hs (any \<or> b) k) \<kappa>' ob"
  proof (intro allI impI, elim conjE)
    fix \<kappa>' x assume "grows \<kappa> \<kappa>'" "meets env pl \<kappa>' (P, True) x"
    then show "vouches env pl (case x of (b, _) \<Rightarrow> wait_for_verifiers hs (any \<or> b) k) \<kappa>' ob"
      by (cases x) (simp add: step)
  qed
  with P show ?case
    unfolding wait_for_verifiers.simps vouches.simps by (intro exI [of _ "(P, True)"] conjI)
qed

lemma vouch_or_cancelled:
  assumes "c \<Longrightarrow> kn_cancelled \<kappa>"
    and "\<And>\<kappa>' b. \<lbrakk>grows \<kappa> \<kappa>'; kn_cancelled \<kappa>' = b\<rbrakk> \<Longrightarrow> vouches env pl (k b) \<kappa>' ob"
  shows "vouches env pl (or_cancelled (pl_plan_id pl) c k) \<kappa> ob"
proof (cases c)
  case True
  with assms(1) assms(2) [OF grows_refl, of True] show ?thesis by (simp add: or_cancelled_def)
next
  case False
  have "vouches env pl (k (is_cancelled (pl_plan_id pl) rt)) (heard (is_cancelled (pl_plan_id pl) rt) \<kappa>) ob"
    if "kn_cancelled \<kappa> \<longrightarrow> is_cancelled (pl_plan_id pl) rt" for rt
    by (rule assms(2)) (use that in auto)
  with False show ?thesis by (simp add: or_cancelled_def)
qed

lemma vouch_operator_verifier:
  assumes m: "meets env pl \<kappa> (leaves pl i, False) (b, vs)" and "c \<Longrightarrow> kn_cancelled \<kappa>"
  shows "vouches env pl (operator_verifier (node_context pl i) vs b c) \<kappa> (leaves pl i, True)"
  unfolding operator_verifier_def
proof (rule vouch_wait_for_verifiers)
  show "verifiers_in \<kappa> vs" using m by (simp add: meets_def)
  fix \<kappa>' vf
  assume g: "grows \<kappa> \<kappa>'" and vf: "\<not> vf \<Longrightarrow> \<not> False \<and> (kn_cancelled \<kappa>' \<or> promised \<kappa> vs \<subseteq> proven env pl \<kappa>')"
  show "vouches env pl (or_cancelled (ne_plan_id (node_context pl i)) c (\<lambda>cancelled.
      let failed = b \<or> vf \<or> cancelled
      in send_operator_final (node_context pl i) failed cancelled
           (trigger_stop_on_complete (node_context pl i) (Done (failed, []))))) \<kappa>' (leaves pl i, True)"
    unfolding node_context_description
  proof (rule vouch_or_cancelled)
    show "kn_cancelled \<kappa>'" if c using that assms(2) g by (auto simp: grows_def)
    fix \<kappa>'' cancelled
    assume g2: "grows \<kappa>' \<kappa>''" and c: "kn_cancelled \<kappa>'' = cancelled"
    have l: "leaves pl i \<subseteq> proven env pl \<kappa>''" if "\<not> b" "\<not> vf" "\<not> cancelled"
      using that m vf c g g2 proven_mono [OF g, of env pl] proven_mono [OF g2, of env pl]
      unfolding meets_def grows_def by auto
    show "vouches env pl (let failed = b \<or> vf \<or> cancelled
        in send_operator_final (node_context pl i) failed cancelled
             (trigger_stop_on_complete (node_context pl i) (Done (failed, [])))) \<kappa>'' (leaves pl i, True)"
      unfolding Let_def
      by (intro vouch_operator_final vouch_trigger) (use l in \<open>auto simp: meets_def verifiers_in_def\<close>)
  qed
qed

lemma vouch_complete_operator:
  assumes m: "meets env pl \<kappa> (leaves pl i, False) (b, vs)" and c: "kn_cancelled \<kappa> = c"
    and k: "takes env pl \<kappa> ob (leaves pl i) k"
  shows "vouches env pl (complete_operator vs b c (node_context pl i) k) \<kappa> ob"
proof (cases "vs = []")
  case True
  have "vouches env pl (k (b \<or> c, [])) \<kappa> ob"
    using m c True by (intro takesD [OF k]) (auto simp: meets_def)
  moreover have "\<not> (b \<or> c) \<Longrightarrow> leaves pl i \<subseteq> proven env pl \<kappa>"
    using m c True by (auto simp: meets_def promised_def)
  ultimately have "vouches env pl (send_operator_final (node_context pl i) (b \<or> c) c (k (b \<or> c, []))) \<kappa> ob"
    by (intro vouch_operator_final) simp_all
  with True show ?thesis by (simp add: complete_operator_def Let_def)
next
  case False
  have "vouches env pl (operator_verifier (node_context pl i) vs b c) \<kappa> (leaves pl i, True)"
    using m c by (intro vouch_operator_verifier) auto
  moreover have "vouches env pl (k (b \<or> c, [h])) \<kappa>' ob"
    if "grows \<kappa> \<kappa>'" "kn_tasks \<kappa>' h = Some (leaves pl i, True)" for \<kappa>' h
    using that by (intro takesD [OF k]) (auto simp: meets_def verifiers_in_def promised_def)
  ultimately have "vouches env pl (Spawn (operator_verifier (node_context pl i) vs b c) (\<lambda>h. k (b \<or> c, [h]))) \<kappa> ob"
    unfolding vouches.simps by blast
  with False show ?thesis
    by (auto simp del: vouches.simps simp: complete_operator_def st_defs intro!: vouch_operator_state)
qed

lemma meets_append:
  assumes "meets env pl \<kappa> (P, False) (a, vs)" and "meets env pl \<kappa> (Q, False) (b, ws)"
  shows "meets env pl \<kappa> (P \<union> Q, False) (a \<or> b, vs @ ws)"
proof -
  have "promised \<kappa> (vs @ ws) = promised \<kappa> vs \<union> promised \<kappa> ws" by (auto simp: promised_def)
  with assms show ?thesis by (auto simp: meets_def verifiers_in_def)
qed

lemma meets_failed: "meets env pl \<kappa> (P, False) (b, vs) \<Longrightarrow> meets env pl \<kappa> (Q, False) (True, vs)"
  by (simp add: meets_def)

lemma vouch_run_sequence:
  assumes exec: "\<And>c \<kappa> k. \<lbrakk>c \<in> set cs; takes env pl \<kappa> ob (leaves pl c) k\<rbrakk> \<Longrightarrow> vouches env pl (exec c k) \<kappa> ob"
    and m: "meets env pl \<kappa> (P, False) (False, vs)"
    and k: "\<And>\<kappa>' b c vs. \<lbrakk>grows \<kappa> \<kappa>'; meets env pl \<kappa>' (P \<union> \<Union> (leaves pl ` set cs), False) (b, vs);
       c \<Longrightarrow> kn_cancelled \<kappa>'\<rbrakk> \<Longrightarrow> vouches env pl (k b c vs) \<kappa>' ob"
  shows "vouches env pl (run_sequence exec (pl_plan_id pl) cs vs k) \<kappa> ob"
  using assms
proof (induction cs arbitrary: vs \<kappa> P)
  case Nil
  then show ?case by simp
next
  case (Cons c cs)
  let ?Q = "P \<union> \<Union> (leaves pl ` set (c # cs))"
  define go where "go = (\<lambda>(failed, vs'). if failed then k True False (vs @ vs')
    else run_sequence exec (pl_plan_id pl) cs (vs @ vs') k)"
  have "vouches env pl (if is_cancelled (pl_plan_id pl) rt then k True True vs else exec c go)
      (heard (is_cancelled (pl_plan_id pl) rt) \<kappa>) ob"
    if c: "kn_cancelled \<kappa> \<longrightarrow> is_cancelled (pl_plan_id pl) rt" for rt
  proof (cases "is_cancelled (pl_plan_id pl) rt")
    case True
    have "vouches env pl (k True True vs) (heard True \<kappa>) ob"
      by (rule Cons.prems(3)) (use meets_failed [OF meets_mono [OF Cons.prems(2) grows_heard]] in auto)
    with True show ?thesis by simp
  next
    case False
    have "takes env pl \<kappa> ob (leaves pl c) go"
      unfolding takes_def
    proof (intro allI impI, elim conjE)
      fix \<kappa>' x assume g: "grows \<kappa> \<kappa>'" and mx: "meets env pl \<kappa>' (leaves pl c, False) x"
      obtain f vs' where x: "x = (f, vs')" by fastforce
      have m': "meets env pl \<kappa>' (P \<union> leaves pl c, False) (f, vs @ vs')"
        using meets_append [OF meets_mono [OF Cons.prems(2) g] mx [unfolded x]] by simp
      have "vouches env pl (run_sequence exec (pl_plan_id pl) cs (vs @ vs') k) \<kappa>' ob" if "\<not> f"
      proof (rule Cons.IH [of \<kappa>' "P \<union> leaves pl c"])
        show "vouches env pl (exec d k') \<kappa>'' ob" if "d \<in> set cs" "takes env pl \<kappa>'' ob (leaves pl d) k'" for d \<kappa>'' k'
          using Cons.prems(1) that by simp
        show "meets env pl \<kappa>' (P \<union> leaves pl c, False) (False, vs @ vs')" using m' that by simp
        show "vouches env pl (k b d ws) \<kappa>'' ob"
          if "grows \<kappa>' \<kappa>''" "meets env pl \<kappa>'' (P \<union> leaves pl c \<union> \<Union> (leaves pl ` set cs), False) (b, ws)"
            "d \<Longrightarrow> kn_cancelled \<kappa>''" for \<kappa>'' b d ws
          using Cons.prems(3) [OF grows_trans [OF g that(1)]] that(2,3) by (simp add: Un_assoc)
      qed
      moreover have "vouches env pl (k True False (vs @ vs')) \<kappa>' ob" if f
        by (rule Cons.prems(3) [OF g]) (use meets_failed [OF m'] in auto)
      ultimately show "vouches env pl (go x) \<kappa>' ob" by (simp add: go_def x)
    qed
    then have "vouches env pl (exec c go) \<kappa> ob" by (rule Cons.prems(1) [rotated]) simp
    with False show ?thesis by (auto intro: vouches_mono)
  qed
  then show ?case unfolding run_sequence.simps vouches.simps go_def [symmetric] by blast
qed

lemma vouch_spawn_children:
  assumes "\<And>c \<kappa>. c \<in> set cs \<Longrightarrow> vouches env pl (exec c Done) \<kappa> (leaves pl c, False)"
    and "handles \<kappa> pl hs ds"
    and "\<And>\<kappa>' hs. \<lbrakk>grows \<kappa> \<kappa>'; handles \<kappa>' pl hs (ds @ cs)\<rbrakk>
      \<Longrightarrow> vouches env pl (k hs) \<kappa>' ob"
  shows "vouches env pl (spawn_children exec cs hs k) \<kappa> ob"
  using assms
proof (induction cs arbitrary: hs ds \<kappa>)
  case Nil
  then show ?case by simp
next
  case (Cons c cs)
  have "vouches env pl (spawn_children exec cs (hs @ [h]) k) \<kappa>' ob"
    if g: "grows \<kappa> \<kappa>'" and h: "kn_tasks \<kappa>' h = Some (leaves pl c, False)" for \<kappa>' h
  proof (rule Cons.IH)
    show "handles \<kappa>' pl (hs @ [h]) (ds @ [c])"
      using handles_mono [OF Cons.prems(2) g] h by simp
    show "vouches env pl (k gs) \<kappa>'' ob"
      if "grows \<kappa>' \<kappa>''" "handles \<kappa>'' pl gs ((ds @ [c]) @ cs)" for \<kappa>'' gs
      using Cons.prems(3) [OF grows_trans [OF g that(1)]] that(2) by simp
  qed (use Cons.prems(1) in auto)
  with Cons.prems(1) show ?case unfolding spawn_children.simps vouches.simps by (metis list.set_intros(1))
qed

lemma vouch_join_children:
  assumes "handles \<kappa> pl hs cs"
    and "meets env pl \<kappa> (P, False) (any, vs)"
    and "\<And>\<kappa>' b vs. \<lbrakk>grows \<kappa> \<kappa>'; meets env pl \<kappa>' (P \<union> \<Union> (leaves pl ` set cs), False) (b, vs)\<rbrakk>
      \<Longrightarrow> vouches env pl (k b vs) \<kappa>' ob"
  shows "vouches env pl (join_children hs any vs k) \<kappa> ob"
  using assms
proof (induction hs any vs k arbitrary: \<kappa> cs P rule: join_children.induct)
  case (1 any vs k)
  then show ?case by simp
next
  case (2 h hs any vs k)
  from "2.prems"(1) obtain c ds where cs: "cs = c # ds" "kn_tasks \<kappa> h = Some (leaves pl c, False)"
    "handles \<kappa> pl hs ds" by (auto simp: handles_def list_all2_Cons1)
  have "vouches env pl (join_children hs (any \<or> b) (vs @ vs') k) \<kappa>' ob"
    if g: "grows \<kappa> \<kappa>'" and m: "meets env pl \<kappa>' (leaves pl c, False) (b, vs')" for \<kappa>' b vs'
  proof (rule "2.IH" [where cs = ds and P = "P \<union> leaves pl c"])
    show "handles \<kappa>' pl hs ds"
      by (rule handles_mono [OF cs(3) g])
    show "meets env pl \<kappa>' (P \<union> leaves pl c, False) (any \<or> b, vs @ vs')"
      by (rule meets_append [OF meets_mono [OF "2.prems"(2) g] m])
    show "vouches env pl (k b ws) \<kappa>'' ob"
      if "grows \<kappa>' \<kappa>''" "meets env pl \<kappa>'' (P \<union> leaves pl c \<union> \<Union> (leaves pl ` set ds), False) (b, ws)" for \<kappa>'' b ws
      using "2.prems"(3) [OF grows_trans [OF g that(1)]] that(2) cs(1) by (simp add: Un_assoc)
  qed
  then have step: "\<And>\<kappa>' b ws. \<lbrakk>grows \<kappa> \<kappa>'; meets env pl \<kappa>' (leaves pl c, False) (b, ws)\<rbrakk> \<Longrightarrow>
      vouches env pl (join_children hs (any \<or> b) (vs @ ws) k) \<kappa>' ob" .
  have "\<forall>\<kappa>' x. grows \<kappa> \<kappa>' \<and> meets env pl \<kappa>' (leaves pl c, False) x \<longrightarrow>
      vouches env pl (case x of (b, ws) \<Rightarrow> join_children hs (any \<or> b) (vs @ ws) k) \<kappa>' ob"
  proof (intro allI impI, elim conjE)
    fix \<kappa>' x assume "grows \<kappa> \<kappa>'" "meets env pl \<kappa>' (leaves pl c, False) x"
    then show "vouches env pl (case x of (b, ws) \<Rightarrow> join_children hs (any \<or> b) (vs @ ws) k) \<kappa>' ob"
      by (cases x) (simp add: step)
  qed
  with cs(2) show ?case
    unfolding join_children.simps vouches.simps by (intro exI [of _ "(leaves pl c, False)"] conjI)
qed

section \<open>Nodes and the plan\<close>

lemma vouch_execute_node:
  "takes env pl \<kappa> ob (leaves pl i) k \<Longrightarrow> vouches env pl (execute_node f env pl i k) \<kappa> ob"
proof (induction f arbitrary: i k \<kappa> ob)
  case 0
  then show ?case by simp
next
  case (Suc f)
  let ?node = "pl_nodes pl ! i" and ?ctx = "node_context pl i"
  define after where "after = (\<lambda>(failed, verifiers). if verifiers = []
    then trigger_stop_on_complete ?ctx (k (failed, verifiers)) else k (failed, verifiers))"
  have after: "takes env pl \<kappa>' ob (leaves pl i) after" if "grows \<kappa> \<kappa>'" for \<kappa>'
    unfolding takes_def
  proof (intro allI impI, elim conjE)
    fix \<kappa>'' x assume "grows \<kappa>' \<kappa>''" "meets env pl \<kappa>'' (leaves pl i, False) x"
    with that have "vouches env pl (k x) \<kappa>'' ob" by (blast intro: takesD [OF Suc.prems] grows_trans)
    then show "vouches env pl (after x) \<kappa>'' ob" by (cases x) (auto simp: after_def intro: vouch_trigger)
  qed
  note exec = Suc.IH
  have fail: "vouches env pl (k (True, [])) \<kappa>' ob" if "grows \<kappa> \<kappa>'" for \<kappa>'
    by (rule takes_failed [OF Suc.prems that])
  have seq: "vouches env pl (run_sequence (execute_node f env pl) (pl_plan_id pl) (rn_children ?node) []
      (\<lambda>any_failed cancelled verifiers. or_cancelled (pl_plan_id pl) cancelled (\<lambda>cancelled.
         complete_operator verifiers any_failed cancelled ?ctx after))) \<kappa>' ob"
    if k: "rn_node_kind ?node = rtdl_sequence" and g: "grows \<kappa> \<kappa>'" for \<kappa>'
  proof (rule vouch_run_sequence [where P = "{}"])
    have l: "\<Union> (leaves pl ` set (rn_children ?node)) = leaves pl i"
      using k by (simp add: leaves_operator [of pl i] cycle_children_def rtdl_defs)
    show "meets env pl \<kappa>' ({}, False) (False, [])" by (simp add: meets_def)
    fix \<kappa>'' b c vs
    assume g2: "grows \<kappa>' \<kappa>''" and m: "meets env pl \<kappa>'' ({} \<union> \<Union> (leaves pl ` set (rn_children ?node)), False) (b, vs)"
      and c: "c \<Longrightarrow> kn_cancelled \<kappa>''"
    show "vouches env pl (or_cancelled (pl_plan_id pl) c (\<lambda>cancelled.
        complete_operator vs b cancelled ?ctx after)) \<kappa>'' ob"
    proof (rule vouch_or_cancelled [OF c])
      fix \<kappa>3 x assume "grows \<kappa>'' \<kappa>3" "kn_cancelled \<kappa>3 = x"
      with m l g g2 show "vouches env pl (complete_operator vs b x ?ctx after) \<kappa>3 ob"
        by (intro vouch_complete_operator after) (auto intro: meets_mono grows_trans)
    qed
  qed (rule exec)
  have par: "vouches env pl (spawn_children (execute_node f env pl) (rn_children ?node) [] (\<lambda>handles.
      join_children handles False [] (\<lambda>any_failed verifiers.
        Look (\<lambda>rt. complete_operator verifiers any_failed (is_cancelled (pl_plan_id pl) rt) ?ctx after)))) \<kappa>' ob"
    if k: "rn_node_kind ?node = rtdl_parallel" and g: "grows \<kappa> \<kappa>'" for \<kappa>'
  proof (rule vouch_spawn_children [where ds = "[]"])
    have l: "\<Union> (leaves pl ` set (rn_children ?node)) = leaves pl i"
      using k by (simp add: leaves_operator [of pl i] cycle_children_def rtdl_defs)
    show "vouches env pl (execute_node f env pl c Done) \<kappa>'' (leaves pl c, False)" for c \<kappa>''
      by (rule exec) (simp add: takes_def)
    fix \<kappa>'' hs
    assume g2: "grows \<kappa>' \<kappa>''" and hs: "handles \<kappa>'' pl hs ([] @ rn_children ?node)"
    show "vouches env pl (join_children hs False [] (\<lambda>any_failed verifiers.
        Look (\<lambda>rt. complete_operator verifiers any_failed (is_cancelled (pl_plan_id pl) rt) ?ctx after))) \<kappa>'' ob"
    proof (rule vouch_join_children [where P = "{}"])
      show "handles \<kappa>'' pl hs (rn_children ?node)" using hs by simp
      show "meets env pl \<kappa>'' ({}, False) (False, [])" by (simp add: meets_def)
      fix \<kappa>3 b vs
      assume g3: "grows \<kappa>'' \<kappa>3" and m: "meets env pl \<kappa>3 ({} \<union> \<Union> (leaves pl ` set (rn_children ?node)), False) (b, vs)"
      have "vouches env pl (complete_operator vs b (is_cancelled (pl_plan_id pl) rt) ?ctx after)
          (heard (is_cancelled (pl_plan_id pl) rt) \<kappa>3) ob"
        if "kn_cancelled \<kappa>3 \<longrightarrow> is_cancelled (pl_plan_id pl) rt" for rt
      proof (rule vouch_complete_operator)
        show "meets env pl (heard (is_cancelled (pl_plan_id pl) rt) \<kappa>3) (leaves pl i, False) (b, vs)"
          using m l by (auto intro: meets_mono)
        show "takes env pl (heard (is_cancelled (pl_plan_id pl) rt) \<kappa>3) ob (leaves pl i) after"
          by (rule after) (blast intro: grows_trans g g2 g3)
      qed (use that in auto)
      then show "vouches env pl (Look (\<lambda>rt. complete_operator vs b (is_cancelled (pl_plan_id pl) rt) ?ctx after)) \<kappa>3 ob"
        by simp
    qed
  qed simp
  have leaf: "vouches env pl (case rn_call ?node of None \<Rightarrow> Panic | Some call \<Rightarrow> execute_call env call ?ctx after) \<kappa>' ob"
    if k: "rn_node_kind ?node = rtdl_do" and g: "grows \<kappa> \<kappa>'" for \<kappa>'
  proof (cases "rn_call ?node")
    case (Some call)
    with k after [OF g] show ?thesis
      by (simp add: vouch_execute_call is_leaf_def leaves_do)
  qed simp
  have invalid: "vouches env pl (after (True, [])) \<kappa>' ob" if "grows \<kappa> \<kappa>'" for \<kappa>'
    by (rule takes_failed [OF after [OF that]]) simp
  show ?case
  proof (cases "i \<ge> length (pl_nodes pl)")
    case False
    then show ?thesis
      unfolding execute_node.simps Let_def after_def [symmetric] if_not_P [OF False]
      by (intro vouch_Look)
        (auto simp del: vouches.simps simp: st_defs
          intro!: vouch_operator_state vouch_Look vouch_stop_plan vouch_stop_on_enter seq par leaf fail invalid)
  qed simp
qed

end
