(* ===== verification/Exec_Stream.thy ===== *)
theory Exec_Stream
  imports Exec_Outcome
begin

text \<open>
  The runs of a plan with the tasks' vouching as an invariant, and what follows for the reader of its event
  stream.
\<close>

section \<open>The main task vouches for the plan\<close>

lemma vouch_finish_plan:
  "takes env pl \<kappa> (leaves pl i, True) (leaves pl i) (finish_plan (pl_plan_id pl))"
  unfolding takes_def
proof (intro allI impI, elim conjE)
  fix \<kappa>' x assume m: "meets env pl \<kappa>' (leaves pl i, False) x"
  show "vouches env pl (finish_plan (pl_plan_id pl) x) \<kappa>' (leaves pl i, True)"
    unfolding finish_plan_def
  proof (rule vouch_wait_for_verifiers)
    show "verifiers_in \<kappa>' (snd x)" using m by (simp add: meets_def)
    fix \<kappa>'' f assume g: "grows \<kappa>' \<kappa>''"
      and f: "\<not> f \<Longrightarrow> \<not> False \<and> (kn_cancelled \<kappa>'' \<or> promised \<kappa>' (snd x) \<subseteq> proven env pl \<kappa>'')"
    have l: "leaves pl i \<subseteq> proven env pl \<kappa>''" if "\<not> fst x" "\<not> f" "\<not> kn_cancelled \<kappa>''"
      using that m f g proven_mono [OF g, of env pl] unfolding meets_def grows_def by auto
    then show "vouches env pl (Look (\<lambda>rt. let cancelled = is_cancelled (pl_plan_id pl) rt
        in Table (RT_Complete (pl_plan_id pl)) (\<lambda>_.
             Emit (Plan_Complete (pl_plan_id pl) (fst x \<or> f \<or> cancelled)) (Done (False, []))))) \<kappa>'' (leaves pl i, True)"
      by (auto simp: Let_def clears_cancel_def)
  qed
qed

definition registered_task :: "exec_env \<Rightarrow> plan \<Rightarrow> prog" where
  "registered_task env pl =
     Table (RT_Record_Ops pl) (\<lambda>_. Emit (Plan_Started (pl_plan_id pl))
       (execute_node (length (pl_nodes pl)) env pl (pl_root_index pl) (finish_plan (pl_plan_id pl))))"

lemma plan_task_registers: "plan_task env pl = Table (RT_Register (pl_plan_id pl)) (\<lambda>_. registered_task env pl)"
  by (simp add: plan_task_def registered_task_def)

lemma vouch_registered: "vouches env pl (registered_task env pl) \<kappa> (leaves pl (pl_root_index pl), True)"
  unfolding registered_task_def
  by (intro vouch_Table vouch_Emit vouch_execute_node vouch_finish_plan) (simp_all add: clears_cancel_def event_backed_def)

lemma vouch_poll_turn:
  assumes k: "\<And>x. (cr_success (fst x) \<longleftrightarrow> snd x = st_succeeded) \<Longrightarrow> vouches env pl (k x) \<kappa> ob"
  shows "vouches env pl (poll_turn env ctx k) \<kappa> ob"
proof -
  have "vouches env pl (k (canceled_result call e, st_canceled)) \<kappa> ob" for call e
    by (rule k) (simp add: canceled_result_def failed_result_def st_defs)
  moreover have "vouches env pl (k (failed_result call e, st_failed)) \<kappa> ob" for call e
    by (rule k) (simp add: failed_result_def st_defs)
  moreover have "vouches env pl (k (terminal_result call st d out, st)) \<kappa> ob" for call st d out
    by (rule k) (simp add: terminal_result_success)
  moreover have "vouches env pl (Poll ctx k) \<kappa> ob" using k by simp
  ultimately show ?thesis
    unfolding poll_turn_def Let_def
    by (auto simp del: vouches.simps simp: clears_cancel_def
        intro!: vouch_Look vouch_Table vouch_Ext vouch_send_cancels split: sum.split prod.split)
qed

section \<open>The invariant\<close>

definition know :: "plan \<Rightarrow> (nat \<rightharpoonup> nat set \<times> bool) \<Rightarrow> exec_state \<Rightarrow> knowledge" where
  "know pl \<Sigma> s = \<lparr>kn_tasks = \<Sigma>, kn_cancelled = is_cancelled (pl_plan_id pl) (es_table s), kn_seen = set (es_trace s)\<rparr>"

lemma know_simps [simp]:
  "kn_tasks (know pl \<Sigma> s) = \<Sigma>" "kn_seen (know pl \<Sigma> s) = set (es_trace s)"
  "kn_cancelled (know pl \<Sigma> s) = is_cancelled (pl_plan_id pl) (es_table s)"
  by (simp_all add: know_def)

definition all_vouch :: "exec_env \<Rightarrow> plan \<Rightarrow> (nat \<rightharpoonup> nat set \<times> bool) \<Rightarrow> exec_state \<Rightarrow> bool" where
  "all_vouch env pl \<Sigma> s \<longleftrightarrow> dom \<Sigma> = {..<length (es_tasks s)} \<and> \<Sigma> 0 = Some (leaves pl (pl_root_index pl), True)
     \<and> (\<forall>t p. at s t p \<longrightarrow> (\<exists>ob. \<Sigma> t = Some ob \<and> vouches env pl p (know pl \<Sigma> s) ob))
     \<and> (\<forall>ev. Sent ev \<in> set (es_trace s) \<longrightarrow> event_backed env pl (set (es_trace s)) ev)"

lemma all_vouchD:
  "all_vouch env pl \<Sigma> s \<Longrightarrow> at s t p \<Longrightarrow> \<exists>ob. \<Sigma> t = Some ob \<and> vouches env pl p (know pl \<Sigma> s) ob"
  unfolding all_vouch_def by blast

lemma all_vouch_move:
  assumes av: "all_vouch env pl \<Sigma> s" and p: "at s t p" and s': "es_tasks s' = (es_tasks s)[t := q]"
    and g: "grows (know pl \<Sigma> s) (know pl \<Sigma> s')"
    and q: "\<And>ob. \<lbrakk>\<Sigma> t = Some ob; vouches env pl p (know pl \<Sigma> s) ob\<rbrakk> \<Longrightarrow> vouches env pl q (know pl \<Sigma> s') ob"
    and ev: "\<And>ev. Sent ev \<in> set (es_trace s') \<Longrightarrow> Sent ev \<in> set (es_trace s) \<or> event_backed env pl (set (es_trace s)) ev"
  shows "all_vouch env pl \<Sigma> s'"
proof -
  have "\<exists>ob. \<Sigma> u = Some ob \<and> vouches env pl r (know pl \<Sigma> s') ob" if r: "at s' u r" for u r
  proof (cases "u = t")
    case True
    with r s' have "r = q" by (auto simp: at_def)
    with all_vouchD [OF av p] q True show ?thesis by blast
  next
    case False
    with r s' have "at s u r" by (auto simp: at_def)
    with all_vouchD [OF av this] g show ?thesis by (blast intro: vouches_mono)
  qed
  moreover have "event_backed env pl (set (es_trace s')) ev" if "Sent ev \<in> set (es_trace s')" for ev
    using ev [OF that] av g unfolding all_vouch_def grows_def know_simps by (blast intro: event_backed_mono)
  ultimately show ?thesis
    using av s' by (simp add: all_vouch_def)
qed

lemma know_same: "es_table s' = es_table s \<Longrightarrow> es_trace s' = es_trace s \<Longrightarrow> know pl \<Sigma> s' = know pl \<Sigma> s"
  by (simp add: know_def)

lemma know_grows:
  assumes "is_cancelled (pl_plan_id pl) (es_table s) \<Longrightarrow> is_cancelled (pl_plan_id pl) (es_table s')"
    and "set (es_trace s) \<subseteq> set (es_trace s')"
  shows "grows (know pl \<Sigma> s) (know pl \<Sigma> s')"
  using assms by (simp add: grows_def)

lemma op_grows:
  assumes "\<not> clears_cancel (pl_plan_id pl) op"
  shows "grows (know pl \<Sigma> s) (know pl \<Sigma> (apply_op op s))"
    and "grows (saw (Changed op) (know pl \<Sigma> s)) (know pl \<Sigma> (apply_op op s))"
  using cancel_kept [OF _ assms] by (auto simp: grows_def)

lemma all_vouch_step:
  assumes "exec_step env (pl_plan_id pl) a s s'" and "all_vouch env pl \<Sigma> s"
    and "\<And>t op k. \<lbrakk>a = Task t; at s t (Table op k)\<rbrakk> \<Longrightarrow> \<not> clears_cancel (pl_plan_id pl) op"
  shows "\<exists>\<Sigma>'. all_vouch env pl \<Sigma>' s'"
  using assms
proof (induction rule: exec_step.induct)
  case (look s t k)
  have h: "heard (is_cancelled (pl_plan_id pl) (es_table s)) (know pl \<Sigma> s) = know pl \<Sigma> s"
    by (simp add: heard_def know_def)
  have same: "know pl \<Sigma> (advance t (k (es_table s)) s) = know pl \<Sigma> s" by (rule know_same) simp_all
  have "all_vouch env pl \<Sigma> (advance t (k (es_table s)) s)"
  proof (rule all_vouch_move [OF look.prems(1) look.hyps])
    fix ob assume "vouches env pl (Look k) (know pl \<Sigma> s) ob"
    then have "vouches env pl (k (es_table s))
        (heard (is_cancelled (pl_plan_id pl) (es_table s)) (know pl \<Sigma> s)) ob" by simp
    then show "vouches env pl (k (es_table s)) (know pl \<Sigma> (advance t (k (es_table s)) s)) ob"
      unfolding h same .
  qed (auto simp: same)
  then show ?case by blast
next
  case (tab s t op k)
  then have nc: "\<not> clears_cancel (pl_plan_id pl) op" by blast
  have kn: "know pl \<Sigma> (advance t (k (es_table s)) (apply_op op s)) = know pl \<Sigma> (apply_op op s)"
    by (rule know_same) simp_all
  have "all_vouch env pl \<Sigma> (advance t (k (es_table s)) (apply_op op s))"
    by (rule all_vouch_move [OF tab.prems(1) tab.hyps])
      (use nc op_grows [OF nc, of \<Sigma> s] in \<open>auto simp: kn intro: vouches_mono\<close>)
  then show ?case by blast
next
  case (emit s t ev k)
  have kn: "know pl \<Sigma> (advance t k (observe (Sent ev) s)) = saw (Sent ev) (know pl \<Sigma> s)"
    by (simp add: know_def saw_def)
  from all_vouchD [OF emit.prems(1) emit.hyps] have "event_backed env pl (set (es_trace s)) ev" by auto
  then have "all_vouch env pl \<Sigma> (advance t k (observe (Sent ev) s))"
    by (intro all_vouch_move [OF emit.prems(1) emit.hyps]) (auto simp: kn)
  then show ?case by blast
next
  case (ext s t c k r)
  have kn: "know pl \<Sigma> (advance t (k r) (observe (Called c r) s)) = saw (Called c r) (know pl \<Sigma> s)"
    by (simp add: know_def saw_def)
  have "all_vouch env pl \<Sigma> (advance t (k r) (observe (Called c r) s))"
    by (rule all_vouch_move [OF ext.prems(1) ext.hyps]) (auto simp: kn)
  then show ?case by blast
next
  case (query s t i k answer)
  have "all_vouch env pl \<Sigma> (advance t (k answer) s)"
    by (rule all_vouch_move [OF query.prems(1) query.hyps]) (auto simp: know_same [of "advance t (k answer) s" s])
  then show ?case by blast
next
  case (wait_over s t ids k)
  have "all_vouch env pl \<Sigma> (advance t (k True) s)"
    by (rule all_vouch_move [OF wait_over.prems(1) wait_over.hyps(1)])
      (auto simp: know_same [of "advance t (k True) s" s])
  then show ?case by blast
next
  case (wait_out s t ids k)
  have "all_vouch env pl \<Sigma> (advance t (k False) s)"
    by (rule all_vouch_move [OF wait_out.prems(1) wait_out.hyps])
      (auto simp: know_same [of "advance t (k False) s" s])
  then show ?case by blast
next
  case (joined s t h k x)
  have same: "know pl \<Sigma> (advance t (k x) s) = know pl \<Sigma> s" by (rule know_same) simp_all
  from all_vouchD [OF joined.prems(1) joined.hyps(2)] obtain oh
    where oh: "\<Sigma> h = Some oh" "meets env pl (know pl \<Sigma> s) oh x" by auto
  have "all_vouch env pl \<Sigma> (advance t (k x) s)"
  proof (rule all_vouch_move [OF joined.prems(1) joined.hyps(1)])
    fix ob assume "vouches env pl (Join h k) (know pl \<Sigma> s) ob"
    with oh show "vouches env pl (k x) (know pl \<Sigma> (advance t (k x) s)) ob"
      unfolding same vouches.simps by (metis grows_refl know_simps(1) option.inject)
  qed (auto simp: same)
  then show ?case by blast
next
  case (poll s t ctx k)
  have same: "know pl \<Sigma> (advance t (poll_turn env ctx k) s) = know pl \<Sigma> s" by (rule know_same) simp_all
  have "all_vouch env pl \<Sigma> (advance t (poll_turn env ctx k) s)"
    by (rule all_vouch_move [OF poll.prems(1) poll.hyps]) (auto simp: same intro: vouch_poll_turn)
  then show ?case by blast
next
  case (others op s)
  then have nc: "\<not> clears_cancel (pl_plan_id pl) op" by (simp add: foreign_def)
  note g = op_grows(1) [OF nc, of \<Sigma> s]
  have "all_vouch env pl \<Sigma> (apply_op op s)"
    unfolding all_vouch_def
  proof (intro conjI allI impI)
    fix t p assume "at (apply_op op s) t p"
    with all_vouchD [OF others.prems(1), of t p] g
    show "\<exists>ob. \<Sigma> t = Some ob \<and> vouches env pl p (know pl \<Sigma> (apply_op op s)) ob"
      by (auto simp del: split_paired_Ex intro: vouches_mono)
  next
    fix ev assume "Sent ev \<in> set (es_trace (apply_op op s))"
    with others.prems(1) show "event_backed env pl (set (es_trace (apply_op op s))) ev"
      unfolding all_vouch_def by (auto intro: event_backed_mono)
  qed (use others.prems(1) in \<open>simp_all add: all_vouch_def\<close>)
  then show ?case by blast
next
  case (spawn s t q k)
  let ?n = "length (es_tasks s)"
  from all_vouchD [OF spawn.prems(1) spawn.hyps] obtain ob ob' where ob: "\<Sigma> t = Some ob"
    "vouches env pl q (know pl \<Sigma> s) ob'"
    "\<And>\<kappa>' h. grows (know pl \<Sigma> s) \<kappa>' \<and> kn_tasks \<kappa>' h = Some ob' \<Longrightarrow> vouches env pl (k h) \<kappa>' ob"
    unfolding vouches.simps by blast
  let ?S = "\<Sigma>(?n \<mapsto> ob')" and ?s = "s\<lparr>es_tasks := (es_tasks s)[t := k ?n] @ [q]\<rparr>"
  have d: "dom \<Sigma> = {..<?n}" and root: "\<Sigma> 0 = Some (leaves pl (pl_root_index pl), True)"
    using spawn.prems(1) by (auto simp: all_vouch_def)
  then have "\<Sigma> \<subseteq>\<^sub>m ?S" by (auto simp: map_le_def)
  then have g: "grows (know pl \<Sigma> s) (know pl ?S ?s)" by (simp add: grows_def)
  have n0: "?n \<noteq> 0" using spawn.hyps by (auto simp: at_def)
  have "\<exists>ob. ?S u = Some ob \<and> vouches env pl p (know pl ?S ?s) ob" if p: "at ?s u p" for u p
  proof (cases "u = ?n")
    case True
    with p ob(2) g show ?thesis by (auto simp: at_def nth_append intro: vouches_mono)
  next
    case False
    with p have u: "u < ?n" "p = (if u = t then k ?n else es_tasks s ! u)"
      by (auto simp: at_def nth_append nth_list_update)
    show ?thesis
    proof (cases "u = t")
      case True
      with u False ob(1) ob(3) [of "know pl ?S ?s" ?n] g show ?thesis by simp
    next
      case False
      with u have "at s u p" by (simp add: at_def)
      with all_vouchD [OF spawn.prems(1) this] g u(1) show ?thesis by (auto intro: vouches_mono)
    qed
  qed
  moreover have "dom ?S = {..<length (es_tasks ?s)}" using d by (auto simp: lessThan_Suc)
  ultimately have "all_vouch env pl ?S ?s"
    using spawn.prems(1) root n0 by (simp add: all_vouch_def)
  then show ?case by blast
qed

section \<open>Phases\<close>

definition absent :: "plan \<Rightarrow> exec_state \<Rightarrow> bool" where
  "absent pl s \<longleftrightarrow> hm_get (es_table s) (pl_plan_id pl) = None"

lemma modify_absent: "hm_get rt p = None \<Longrightarrow> hm_get (hm_modify q f rt) p = None"
  by auto

lemma absent_effect:
  assumes "hm_get rt p = None" and "op \<noteq> RT_Register p"
  shows "hm_get (snd (rt_effect op rt)) p = None"
proof (cases op)
  case (RT_Cancel_All except)
  obtain calls ids rt' where b: "begin_cancel_all except rt = ((calls, ids), rt')" by (metis prod.exhaust)
  with begin_cancel_all_get [OF b, of p] assms(1) RT_Cancel_All show ?thesis by simp
next
  case (RT_Async_Cancel q c)
  with assms show ?thesis by (auto simp: cancel_async_call_for_plan_def split: option.split)
next
  case (RT_Async_Register q c)
  with assms show ?thesis by (auto simp: register_or_cancel_async_call_def split: option.split)
next
  case (RT_Stop_At q i w)
  with assms show ?thesis by (auto simp: stop_plan_at_control_def put_stop_point_def Let_def split: option.split)
next
  case (RT_Stop_Builtin parse c)
  with assms show ?thesis
    by (auto simp: stop_plan_at_builtin_def put_stop_point_def Let_def split: option.split sum.split prod.split)
next
  case (RT_Cancel q)
  with assms show ?thesis by (auto simp: trigger_stop_def begin_cancel_def split: option.split)
qed (use assms in \<open>auto simp: register_plan_def record_plan_ops_def record_op_state_def complete_plan_def
    unregister_async_call_def\<close>)

fun accountable :: "exec_env \<Rightarrow> plan \<Rightarrow> phase \<Rightarrow> exec_state \<Rightarrow> bool" where
  "accountable env pl Starting s \<longleftrightarrow> (\<forall>ev. Sent ev \<notin> set (es_trace s))"
| "accountable env pl Running s \<longleftrightarrow> (\<exists>\<Sigma>. all_vouch env pl \<Sigma> s)"
| "accountable env pl (Reporting b) s \<longleftrightarrow> absent pl s
     \<and> (\<not> b \<longrightarrow> leaves pl (pl_root_index pl) \<subseteq> {j. succeeded env pl (set (es_trace s)) j})"
| "accountable env pl Reported s \<longleftrightarrow> absent pl s
     \<and> (Sent (Plan_Complete (pl_plan_id pl) False) \<in> set (es_trace s) \<longrightarrow>
          leaves pl (pl_root_index pl) \<subseteq> {j. succeeded env pl (set (es_trace s)) j})"

definition accounted :: "exec_env \<Rightarrow> plan \<Rightarrow> exec_state \<Rightarrow> bool" where
  "accounted env pl s \<longleftrightarrow> others_calm (pl_plan_id pl) (es_tasks s)
     \<and> (\<exists>ph. in_phase env pl ph s \<and> accountable env pl ph s)"

lemma completion_counted: "Sent (Plan_Complete p b) \<in> set tr \<Longrightarrow> completions tr \<noteq> 0"
  by (auto simp: completions_def filter_empty_conv is_completion_def intro!: bexI [of _ "Sent (Plan_Complete p b)"])

lemma trace_grows: "exec_step env p a s s' \<Longrightarrow> set (es_trace s) \<subseteq> set (es_trace s')"
  by (induction rule: exec_step.induct) auto

lemma calm_task_keeps:
  assumes "others_calm pid (es_tasks s)" and "t \<noteq> 0" and "at s t (Table op k)"
  shows "\<not> clears_cancel pid op"
  using others_calmD [OF assms(1,3,2)] by (auto split: if_splits)

lemma absent_step:
  assumes "exec_step env (pl_plan_id pl) a s s'" and "absent pl s" and "others_calm (pl_plan_id pl) (es_tasks s)"
    and "a \<noteq> Task 0"
  shows "absent pl s'"
  using assms
proof (induction rule: exec_step.induct)
  case (tab s t op k)
  then have "\<not> clears_cancel (pl_plan_id pl) op" using calm_task_keeps by blast
  with tab absent_effect show ?case by (auto simp: absent_def clears_cancel_def)
next
  case (others op s)
  with absent_effect show ?case by (auto simp: absent_def clears_cancel_def foreign_def)
qed (auto simp: absent_def)

lemma accounted_step:
  assumes step: "exec_step env (pl_plan_id pl) a s s'" and acc: "accounted env pl s"
  shows "accounted env pl s'"
proof -
  let ?p = "pl_plan_id pl" and ?L = "leaves pl (pl_root_index pl)"
  from acc obtain ph where oc: "others_calm ?p (es_tasks s)" and ph: "in_phase env pl ph s"
    and ok: "accountable env pl ph s" by (auto simp: accounted_def)
  have tr: "set (es_trace s) \<subseteq> set (es_trace s')" by (rule trace_grows [OF step])
  have more: "{j. succeeded env pl (set (es_trace s)) j} \<subseteq> {j. succeeded env pl (set (es_trace s')) j}"
    using tr by (auto intro: succeeded_mono)
  show ?thesis
  proof (cases "a = Task 0 \<or> a = Poller 0")
    case False
    with side_step [OF step oc]
    have st: "others_calm ?p (es_tasks s')" "completions (es_trace s') = completions (es_trace s)"
      "\<And>p. at s 0 p \<Longrightarrow> at s' 0 p" by auto
    show ?thesis
    proof (cases ph)
      case Starting
      with step ph False have "\<exists>op. a = Others op \<and> s' = apply_op op s"
        by (auto elim!: exec_step.cases simp: at_def)
      with ph ok st Starting have "in_phase env pl Starting s' \<and> accountable env pl Starting s'" by auto
      with st(1) show ?thesis unfolding accounted_def by blast
    next
      case Running
      from ok Running obtain \<Sigma> where av: "all_vouch env pl \<Sigma> s" by auto
      have "\<exists>\<Sigma>. all_vouch env pl \<Sigma> s'"
      proof (rule all_vouch_step [OF step av])
        fix t op k assume "a = Task t" "at s t (Table op k)"
        with False show "\<not> clears_cancel ?p op" by (intro calm_task_keeps [OF oc, of t]) auto
      qed
      with ph st Running have "in_phase env pl Running s' \<and> accountable env pl Running s'" by auto
      with st(1) show ?thesis unfolding accounted_def by blast
    next
      case (Reporting b)
      have "absent pl s'" using absent_step [OF step _ oc] ok Reporting False by simp
      with ph ok st Reporting more have "in_phase env pl (Reporting b) s' \<and> accountable env pl (Reporting b) s'"
        by (cases b) auto
      with st(1) show ?thesis unfolding accounted_def by blast
    next
      case Reported
      have ab: "absent pl s'" using absent_step [OF step _ oc] ok Reported False by simp
      have "Sent (Plan_Complete ?p False) \<in> set (es_trace s)"
        if "Sent (Plan_Complete ?p False) \<in> set (es_trace s')"
      proof (rule ccontr)
        assume n: "Sent (Plan_Complete ?p False) \<notin> set (es_trace s)"
        with step that st(2) show False
          by (auto elim!: exec_step.cases simp: is_completion_def)
      qed
      with ph ok st Reported more ab have "in_phase env pl Reported s' \<and> accountable env pl Reported s'" by auto
      with st(1) show ?thesis unfolding accounted_def by blast
    qed
  next
    case True
    show ?thesis
    proof (cases ph)
      case Starting
      let ?q = "registered_task env pl"
      have at0: "at s 0 (Table (RT_Register ?p) (\<lambda>_. ?q))" and len: "length (es_tasks s) = 1"
        using ph Starting by (auto simp: at_def plan_task_registers)
      have s': "s' = advance 0 ?q (apply_op (RT_Register ?p) s)"
        using step True at0 by (auto elim!: exec_step.cases dest: at_unique)
      have "all_vouch env pl [0 \<mapsto> (?L, True)] s'"
        using ok Starting len vouch_registered [of env pl]
        by (auto simp: all_vouch_def s' at_def)
      moreover have "calm ?q True ?p"
        by (auto simp: registered_task_def clears_cancel_def is_completion_def intro!: calm_prog calm_finish_plan)
      ultimately have "in_phase env pl Running s' \<and> accountable env pl Running s'" "others_calm ?p (es_tasks s')"
        using ph Starting len by (auto simp: s' at_def others_calm_def)
      then show ?thesis unfolding accounted_def by blast
    next
      case Running
      with ph obtain p where p: "at s 0 p" "calm p True ?p" "completions (es_trace s) = 0" by auto
      from ok Running obtain \<Sigma> where av: "all_vouch env pl \<Sigma> s" by auto
      from main_step [OF step True oc p(1,2)] obtain p' where
        st: "others_calm ?p (es_tasks s')" "completions (es_trace s') = 0" "at s' 0 p'"
        and p': "calm p' True ?p \<or> (\<exists>op k b. p = Table op k \<and> clears_cancel ?p op \<and> p' = Emit (Plan_Complete ?p b) (Done (False, [])))"
        using p(3) by auto
      show ?thesis
      proof (cases "\<exists>op k. p = Table op k \<and> clears_cancel ?p op")
        case False
        then have "\<exists>\<Sigma>. all_vouch env pl \<Sigma> s'"
          using all_vouch_step [OF step av] True p(1) at_unique calm_task_keeps [OF oc]
          by (metis actor.distinct(1) actor.inject(1))
        moreover have "calm p' True ?p" using p' False by blast
        ultimately have "in_phase env pl Running s' \<and> accountable env pl Running s'" using st by auto
        with st(1) show ?thesis unfolding accounted_def by blast
      next
        case True
        then obtain op k where pk: "p = Table op k" "clears_cancel ?p op" by blast
        with p(2) have op: "op = RT_Complete ?p" by (auto split: if_splits)
        have s': "s' = advance 0 (k (es_table s)) (apply_op op s)"
          using step \<open>a = Task 0 \<or> a = Poller 0\<close> p(1) pk(1) by (auto elim!: exec_step.cases dest: at_unique)
        obtain b where b: "k (es_table s) = Emit (Plan_Complete ?p b) (Done (False, []))"
          using p(2) pk by (auto split: if_splits)
        have root: "\<Sigma> 0 = Some (?L, True)" using av by (simp add: all_vouch_def)
        with all_vouchD [OF av p(1)] have "vouches env pl p (know pl \<Sigma> s) (?L, True)" by auto
        with pk b have "\<not> b \<longrightarrow> ?L \<subseteq> {j. succeeded env pl (set (es_trace s)) j}" by auto
        with more have "\<not> b \<longrightarrow> ?L \<subseteq> {j. succeeded env pl (set (es_trace s')) j}" by blast
        moreover have "absent pl s'" by (simp add: absent_def s' op complete_plan_def)
        moreover have "in_phase env pl (Reporting b) s'" using b st(2) p(1) by (auto simp: s' at_def)
        ultimately show ?thesis using st(1) unfolding accounted_def by (metis accountable.simps(3))
      qed
    next
      case (Reporting b)
      with ph have at0: "at s 0 (Emit (Plan_Complete ?p b) (Done (False, [])))" and c: "completions (es_trace s) = 0"
        by auto
      have s': "s' = advance 0 (Done (False, [])) (observe (Sent (Plan_Complete ?p b)) s)"
        using step True at0 by (auto elim!: exec_step.cases dest: at_unique)
      have "Sent (Plan_Complete ?p False) \<notin> set (es_trace s)" using c completion_counted by metis
      with ok Reporting more have "accountable env pl Reported s'" by (auto simp: s' absent_def)
      moreover have "in_phase env pl Reported s'" "others_calm ?p (es_tasks s')"
        using c at0 oc by (auto simp: s' at_def is_completion_def intro: others_calm_advance)
      ultimately show ?thesis unfolding accounted_def by blast
    next
      case Reported
      with ph have "at s 0 (Done (False, []))" by simp
      from main_cannot_move [OF this step] True show ?thesis by simp
    qed
  qed
qed

lemma accounted_start: "accounted env pl (exec_start env pl rt)"
  unfolding accounted_def
  by (rule conjI, simp add: others_calm_def exec_start_def, rule exI [of _ Starting])
    (simp add: exec_start_def completions_def)

interpretation account: inv_relation "\<lambda>s. \<exists>rt. s = exec_start env pl rt" "step_any env (pl_plan_id pl)"
  "accounted env pl" for env pl
  by unfold_locales (auto simp: accounted_start step_any_def intro: accounted_step)

lemma reachable_accounted: "exec_reachable env pl rt s \<Longrightarrow> accounted env pl s"
  unfolding exec_reachable_def by (rule account.good_reachable) blast+

section \<open>Theorems on the stream\<close>

text \<open>C1 (safety). A plan_complete without failure is true: whatever the interleaving, the provider answers
  and the cancellations, it is only sent when every leaf that the root reaches has a SUCCEEDED event with a
  successful result, its call having been answered by the provider and, where a rule asks for it, this very
  result having been passed by the verifier.\<close>

theorem plan_success_is_earned:
  assumes "exec_reachable env pl rt s"
    and "Sent (Plan_Complete (pl_plan_id pl) False) \<in> set (es_trace s)"
    and "j \<in> leaves pl (pl_root_index pl)"
  shows "succeeded env pl (set (es_trace s)) j"
proof -
  from reachable_accounted [OF assms(1)] obtain ph where ph: "in_phase env pl ph s" "accountable env pl ph s"
    by (auto simp: accounted_def)
  with completion_counted [OF assms(2)] have "ph = Reported" by (cases ph) auto
  with ph(2) assms(2,3) show ?thesis by auto
qed

text \<open>C2 (safety). While the plan is in the table, every SUCCEEDED event of a node stands for the success of all
  leaves below that node, overlapped verifications included: an operator is never reported successful early.\<close>

theorem operator_success_is_earned:
  assumes "exec_reachable env pl rt s" and "hm_get (es_table s) (pl_plan_id pl) \<noteq> None"
    and "Sent (Node_State ctx st_succeeded d res) \<in> set (es_trace s)"
    and "j \<in> leaves pl (ne_node_index ctx)"
  shows "succeeded env pl (set (es_trace s)) j"
proof -
  from reachable_accounted [OF assms(1)] obtain ph where ph: "in_phase env pl ph s" "accountable env pl ph s"
    by (auto simp: accounted_def)
  with assms(2,3) have "ph = Running" by (cases ph) (auto simp: absent_def)
  with ph(2) obtain \<Sigma> where "all_vouch env pl \<Sigma> s" by auto
  with assms(3) have "event_backed env pl (set (es_trace s)) (Node_State ctx st_succeeded d res)"
    unfolding all_vouch_def by blast
  with assms(3,4) show ?thesis by (auto simp: event_backed_def insert_absorb)
qed

section \<open>Witnesses\<close>

lemma demo_leaf: "0 \<in> leaves demo_leaf_plan 0"
  by (simp add: leaves_def demo_leaf_plan_def)

lemma plan_success_is_earned_witness:
  "succeeded demo_env demo_leaf_plan (set (es_trace (demo_run to_the_end))) 0"
proof (rule plan_success_is_earned [OF demo_reachable(2)])
  show "Sent (Plan_Complete (pl_plan_id demo_leaf_plan) False) \<in> set (es_trace (demo_run to_the_end))"
    using demo_completed by (simp add: demo_leaf_plan_def)
  show "0 \<in> leaves demo_leaf_plan (pl_root_index demo_leaf_plan)"
    using demo_leaf by (simp add: demo_leaf_plan_def)
qed

lemma operator_success_is_earned_witness:
  "succeeded demo_env demo_leaf_plan (set (es_trace (demo_run up_to_leaf))) 0"
proof -
  obtain ctx d res where
    e: "Sent (Node_State ctx st_succeeded d res) \<in> set (es_trace (demo_run up_to_leaf))" "ne_node_index ctx = 0"
    by (rule demo_leaf_event)
  have "hm_get (es_table (demo_run up_to_leaf)) (pl_plan_id demo_leaf_plan) \<noteq> None"
    using demo_tabled by (simp add: demo_leaf_plan_def)
  from operator_success_is_earned [OF demo_reachable(1) this e(1)] e(2) demo_leaf show ?thesis by simp
qed

end
