(* ===== verification/Exec_Cancel.thy ===== *)
theory Exec_Cancel
  imports Exec_Stream
begin

text \<open>
  What a cancellation stops: from the moment a plan is cancelled, each of its tasks makes at most the one call it
  is already committed to. A task checks the table before every node, so only calls whose check came first
  are still made.
\<close>

section \<open>Counting the work of a task\<close>

text \<open>A call that does the work of a leaf: not a verification, a status poll or a cancel call.\<close>

fun does_work :: "ext_call \<Rightarrow> bool" where
  "does_work (Ext_Provider call timeout) = (timeout = None)"
| "does_work (Ext_Builtin call) = (cc_contract_id call \<noteq> verify_contract_id)"
| "does_work (Ext_Status i c r) = False"
| "does_work (Ext_Cancel running) = False"

text \<open>\<open>wind pid n p\<close>: if the plan is cancelled from now on, \<open>p\<close> makes at most \<open>n\<close> (0 or 1) working calls, and the
  tasks it spawns none.\<close>

primrec wind :: "string \<Rightarrow> prog \<Rightarrow> nat \<Rightarrow> bool" where
  "wind pid (Done x) n = True"
| "wind pid (Look k) n = (\<forall>rt. is_cancelled pid rt \<longrightarrow> wind pid (k rt) n)"
| "wind pid (Table op k) n = (clears_cancel pid op \<or> (\<forall>rt. wind pid (k rt) n))"
| "wind pid (Emit ev k) n = wind pid k n"
| "wind pid (Query i k) n = (\<forall>a. wind pid (k a) n)"
| "wind pid (Ext c k) n = (if does_work c then n > 0 \<and> (\<forall>a. wind pid (k a) (n - 1)) else (\<forall>a. wind pid (k a) n))"
| "wind pid (Wait ids k) n = (\<forall>a. wind pid (k a) n)"
| "wind pid (Spawn q k) n = (wind pid q 0 \<and> (\<forall>h. wind pid (k h) n))"
| "wind pid (Join h k) n = (\<forall>x. wind pid (k x) n)"
| "wind pid (Poll ctx k) n = (\<forall>x. wind pid (k x) n)"
| "wind pid Panic n = True"

text \<open>At every point of \<open>p\<close>, whatever it saw so far, at most one working call would follow a cancellation.\<close>

primrec winding :: "string \<Rightarrow> prog \<Rightarrow> bool" where
  "winding pid (Done x) = True"
| "winding pid (Look k) = (wind pid (Look k) 1 \<and> (\<forall>rt. winding pid (k rt)))"
| "winding pid (Table op k) = (wind pid (Table op k) 1 \<and> (\<forall>rt. winding pid (k rt)))"
| "winding pid (Emit ev k) = (wind pid (Emit ev k) 1 \<and> winding pid k)"
| "winding pid (Query i k) = (wind pid (Query i k) 1 \<and> (\<forall>a. winding pid (k a)))"
| "winding pid (Ext c k) = (wind pid (Ext c k) 1 \<and> (\<forall>a. winding pid (k a)))"
| "winding pid (Wait ids k) = (wind pid (Wait ids k) 1 \<and> (\<forall>a. winding pid (k a)))"
| "winding pid (Spawn q k) = (wind pid (Spawn q k) 1 \<and> winding pid q \<and> (\<forall>h. winding pid (k h)))"
| "winding pid (Join h k) = (wind pid (Join h k) 1 \<and> (\<forall>x. winding pid (k x)))"
| "winding pid (Poll ctx k) = (wind pid (Poll ctx k) 1 \<and> (\<forall>x. winding pid (k x)))"
| "winding pid Panic = True"

lemma wind_mono: "wind pid p n \<Longrightarrow> n \<le> m \<Longrightarrow> wind pid p m"
proof (induction p arbitrary: n m rule: prog_induct)
  case (Ext c k)
  show ?case
  proof (cases "does_work c")
    case True
    with Ext.prems have "0 < m" "n - 1 \<le> m - 1" "\<And>a. wind pid (k a) (n - 1)" by auto
    with Ext.IH [of _ "n - 1" "m - 1"] True show ?thesis by simp
  qed (use Ext in auto)
qed (fastforce split: if_splits)+

lemma winding_wind: "winding pid p \<Longrightarrow> wind pid p (Suc 0)"
  by (cases p) auto

text \<open>The programs that make no working call after a cancellation.\<close>

definition quiet :: "string \<Rightarrow> prog \<Rightarrow> bool" where
  "quiet pid p \<longleftrightarrow> wind pid p 0 \<and> winding pid p"

lemma quietD: "quiet pid p \<Longrightarrow> wind pid p n" "quiet pid p \<Longrightarrow> winding pid p"
  by (auto simp: quiet_def intro: wind_mono)

named_theorems quiet_prog \<open>quietness of the program combinators\<close>

lemma quiet_simps [simp]:
  "quiet pid (Done x)" "quiet pid Panic"
  "quiet pid (Emit ev k) \<longleftrightarrow> quiet pid k"
  "quiet pid (Query i q) \<longleftrightarrow> (\<forall>a. quiet pid (q a))"
  "quiet pid (Wait ids w) \<longleftrightarrow> (\<forall>a. quiet pid (w a))"
  "quiet pid (Join h j) \<longleftrightarrow> (\<forall>x. quiet pid (j x))"
  "quiet pid (Poll ctx po) \<longleftrightarrow> (\<forall>x. quiet pid (po x))"
  by (auto simp: quiet_def intro: wind_mono)

lemma quiet_Table [quiet_prog]: "(\<And>rt. quiet pid (k rt)) \<Longrightarrow> quiet pid (Table op k)"
  by (auto simp: quiet_def intro: wind_mono)

lemma quiet_Ext [quiet_prog]: "\<not> does_work c \<Longrightarrow> (\<And>a. quiet pid (k a)) \<Longrightarrow> quiet pid (Ext c k)"
  by (auto simp: quiet_def intro: wind_mono)

lemma quiet_Look [quiet_prog]:
  "(\<And>rt. is_cancelled pid rt \<Longrightarrow> quiet pid (k rt)) \<Longrightarrow> (\<And>rt. \<not> is_cancelled pid rt \<Longrightarrow> winding pid (k rt))
    \<Longrightarrow> quiet pid (Look k)"
  by (auto simp: quiet_def intro: wind_mono)

lemma quiet_Spawn [quiet_prog]: "quiet pid q \<Longrightarrow> (\<And>h. quiet pid (k h)) \<Longrightarrow> quiet pid (Spawn q k)"
  by (auto simp: quiet_def intro: wind_mono)

lemma winding_Look: "(\<And>rt. winding pid (k rt)) \<Longrightarrow> winding pid (Look k)"
  by (auto intro: winding_wind)

lemma winding_Table: "(\<And>rt. winding pid (k rt)) \<Longrightarrow> winding pid (Table op k)"
  by (auto intro: winding_wind)

lemma winding_Query: "(\<And>a. winding pid (k a)) \<Longrightarrow> winding pid (Query i k)"
  by (auto intro: winding_wind)

lemma winding_work: "(\<And>a. quiet pid (k a)) \<Longrightarrow> winding pid (Ext c k)"
  by (auto simp: quiet_def intro: wind_mono)

lemma winding_Spawn: "quiet pid q \<Longrightarrow> (\<And>h. winding pid (k h)) \<Longrightarrow> winding pid (Spawn q k)"
  by (auto simp: quiet_def intro: winding_wind)

lemma quiet_send_cancels [quiet_prog]: "(\<And>es. quiet pid (k es)) \<Longrightarrow> quiet pid (send_cancels calls errors k)"
  by (induction calls errors k rule: send_cancels.induct) (auto intro: quiet_prog)

declare wind.simps [simp del] winding.simps [simp del]

lemma quiet_winding: "quiet pid p \<Longrightarrow> winding pid p"
  by (rule quietD)

lemma quiet_states [quiet_prog]:
  "quiet pid k \<Longrightarrow> quiet pid (record_state node st k)"
  "quiet pid k \<Longrightarrow> quiet pid (send_operator_state node st reason k)"
  "quiet pid k \<Longrightarrow> quiet pid (send_operator_final node failed cancelled k)"
  "quiet pid k \<Longrightarrow> quiet pid (send_stop_on_enter node k)"
  by (auto simp: record_state_def send_operator_state_def send_operator_final_def send_stop_on_enter_def Let_def
      intro!: quiet_prog)

lemma quiet_Look2 [quiet_prog]: "(\<And>rt. quiet pid (k rt)) \<Longrightarrow> quiet pid (Look k)"
  by (rule quiet_Look) (auto dest: quietD)

lemma quiet_stop_plan [quiet_prog]: "quiet pid k \<Longrightarrow> quiet pid (stop_plan plan_id k)"
  unfolding stop_plan_def by (intro quiet_prog)

lemma quiet_trigger [quiet_prog]: "quiet pid k \<Longrightarrow> quiet pid (trigger_stop_on_complete node k)"
  unfolding trigger_stop_on_complete_def by (rule quiet_Look2) (auto intro: quiet_prog)

lemma winding_builtin: "(\<And>x. quiet pid (k x)) \<Longrightarrow> winding pid (builtin env call k)"
  unfolding builtin_def Let_def
  by (auto intro!: winding_work quiet_winding [OF quiet_Table] quiet_winding [OF quiet_Look2] quiet_send_cancels
      intro: quiet_winding split: sum.split prod.split)

lemma winding_dispatch: "(\<And>x. quiet pid (k x)) \<Longrightarrow> winding pid (dispatch env call k)"
  by (auto simp: dispatch_def dispatch_with_timeout_def intro: winding_builtin winding_work)

lemma quiet_verify [quiet_prog]: "(\<And>x. quiet pid (k x)) \<Longrightarrow> quiet pid (verify_prog env call node original k)"
  by (auto simp: verify_prog_def dispatch_with_timeout_def builtin_def build_verifier_call_def verify_contract_id_def
      contract_leaf_def leaf_after_def Let_def intro!: quiet_Ext split: option.split)

lemma quiet_poll_turn [quiet_prog]: "(\<And>x. quiet pid (k x)) \<Longrightarrow> quiet pid (poll_turn env ctx k)"
  unfolding poll_turn_def Let_def
  by (rule quiet_Look2) (auto intro!: quiet_prog split: sum.split prod.split)

lemma winding_run_until_terminal:
  "(\<And>x. quiet pid (k x)) \<Longrightarrow> winding pid (run_until_terminal env call grp node k)"
  unfolding run_until_terminal_def
  by (rule winding_dispatch) (auto simp: Let_def intro!: quiet_Table quiet_send_cancels split: prod.split)

lemma quiet_overlap_verifier [quiet_prog]: "quiet pid (overlap_verifier env call node original)"
  unfolding overlap_verifier_def Let_def by (intro quiet_prog) (auto intro: quiet_prog)

lemma quiet_publish [quiet_prog]: "(\<And>x. quiet pid (k x)) \<Longrightarrow> quiet pid (publish_leaf node result st k)"
  unfolding publish_leaf_def Let_def by (rule quiet_Look2) (auto intro: quiet_prog)

lemma quiet_finish_leaf [quiet_prog]:
  "(\<And>x. quiet pid (k x)) \<Longrightarrow> quiet pid (finish_leaf env call node result st eligible k)"
  by (auto simp: finish_leaf_def intro!: quiet_prog)

lemma winding_execute_call:
  assumes k: "\<And>x. quiet pid (k x)"
  shows "winding pid (execute_call env call node k)"
proof -
  define conclude where "conclude = (\<lambda>(result, state).
            if cr_success result \<and> state = st_succeeded then
              Look (\<lambda>rt. finish_leaf env call node result state (\<not> is_cancelled (ne_plan_id node) rt) k)
            else finish_leaf env call node result state False k)"
  have q: "quiet pid (conclude x)" for x
    by (cases x) (auto simp: conclude_def intro!: quiet_Look2 quiet_finish_leaf k)
  have w: "winding pid (case r of Inl error \<Rightarrow> conclude (error_result call error, st_failed)
      | Inr (Some grp) \<Rightarrow> run_until_terminal env call grp node conclude
      | Inr None \<Rightarrow> dispatch env call (\<lambda>r. Look (\<lambda>rt.
          conclude (r, leaf_terminal_state (cr_success r) (is_cancelled (ne_plan_id node) rt)))))" for r
    by (auto intro!: winding_run_until_terminal winding_dispatch quiet_Look2 q quiet_winding [OF q]
        split: sum.split option.split)
  show ?thesis
    unfolding execute_call_def Let_def conclude_def [symmetric] record_state_def resolve_prog_def
    using w [of "Inr None"] by (auto intro!: winding_Table winding_Query w)
qed

lemma quiet_wait_for_verifiers [quiet_prog]:
  "(\<And>b. quiet pid (k b)) \<Longrightarrow> quiet pid (wait_for_verifiers vs any k)"
  by (induction vs any k rule: wait_for_verifiers.induct) auto

lemma quiet_or_cancelled [quiet_prog]: "(\<And>b. quiet pid (k b)) \<Longrightarrow> quiet pid (or_cancelled plan_id c k)"
  by (auto simp: or_cancelled_def intro!: quiet_Look2)

lemma quiet_complete_operator [quiet_prog]:
  "(\<And>x. quiet pid (k x)) \<Longrightarrow> quiet pid (complete_operator vs failed cancelled node k)"
  by (auto simp: complete_operator_def operator_verifier_def Let_def intro!: quiet_prog)

lemma quiet_join_children [quiet_prog]:
  "(\<And>b vs. quiet pid (k b vs)) \<Longrightarrow> quiet pid (join_children hs any vs k)"
  by (induction hs any vs k rule: join_children.induct) auto

lemma quiet_run_sequence [quiet_prog]:
  assumes exec: "\<And>c k. (\<And>x. quiet pid (k x)) \<Longrightarrow> quiet pid (exec c k)" and k: "\<And>b c vs. quiet pid (k b c vs)"
  shows "quiet pid (run_sequence exec plan_id cs vs k)"
  by (induction cs arbitrary: vs) (auto intro!: quiet_Look2 exec k)

lemma quiet_spawn_children [quiet_prog]:
  "(\<And>c. quiet pid (exec c Done)) \<Longrightarrow> (\<And>hs. quiet pid (k hs)) \<Longrightarrow> quiet pid (spawn_children exec cs hs k)"
  by (induction cs arbitrary: hs) (auto intro!: quiet_Spawn)

lemma quiet_execute_node [quiet_prog]:
  "(\<And>x. quiet (pl_plan_id pl) (k x)) \<Longrightarrow> quiet (pl_plan_id pl) (execute_node f env pl i k)"
proof (induction f arbitrary: i k)
  case (Suc f)
  let ?p = "pl_plan_id pl" and ?ctx = "node_context pl i"
  define after where "after = (\<lambda>(failed, verifiers).
      if verifiers = [] then trigger_stop_on_complete ?ctx (k (failed, verifiers)) else k (failed, verifiers))"
  have after: "quiet ?p (after x)" for x
    by (cases x) (auto simp: after_def intro!: quiet_trigger Suc.prems)
  have rec: "quiet ?p (execute_node f env pl c k')" if "\<And>x. quiet ?p (k' x)" for c k'
    by (rule Suc.IH) (rule that)
  have stop: "quiet ?p (stop_plan ?p (send_stop_on_enter ?ctx (k (True, []))))"
    by (intro quiet_stop_plan quiet_states Suc.prems)
  have seq: "quiet ?p (run_sequence (execute_node f env pl) ?p cs [] (\<lambda>any_failed cancelled verifiers.
      or_cancelled ?p cancelled (\<lambda>cancelled. complete_operator verifiers any_failed cancelled ?ctx after)))" for cs
    by (intro quiet_run_sequence quiet_or_cancelled quiet_complete_operator after rec)
  have par: "quiet ?p (spawn_children (execute_node f env pl) cs [] (\<lambda>handles.
      join_children handles False [] (\<lambda>any_failed verifiers.
        Look (\<lambda>rt. complete_operator verifiers any_failed (is_cancelled ?p rt) ?ctx after))))" for cs
    by (intro quiet_spawn_children quiet_join_children quiet_Look2 quiet_complete_operator after rec) simp
  show ?case
    unfolding execute_node.simps Let_def after_def [symmetric]
    by (auto intro!: quiet_Look winding_Look winding_execute_call after quiet_states Suc.prems
        quiet_winding [OF stop] quiet_winding [OF seq] quiet_winding [OF par] quiet_winding [OF after]
        split: option.split simp: winding.simps(11))
qed simp

lemma quiet_finish_plan: "quiet pid (finish_plan plan_id x)"
  unfolding finish_plan_def by (auto simp: Let_def intro!: quiet_prog)

lemma winding_plan_task: "winding (pl_plan_id pl) (plan_task env pl)"
  unfolding plan_task_def
  by (auto intro!: quiet_winding [OF quiet_Table] quiet_Table quiet_execute_node quiet_finish_plan)

section \<open>Runs\<close>

lemma wind_Table_lookups: "(\<And>rt. wind pid (k rt) n) \<Longrightarrow> wind pid (Table op k) n"
  by (simp add: wind.simps)

lemma wind_send_cancels: "(\<And>es. wind pid (k es) n) \<Longrightarrow> wind pid (send_cancels calls errors k) n"
  by (induction calls errors k rule: send_cancels.induct) (auto simp: wind.simps)

lemma wind_poll_turn: "(\<And>x. wind pid (k x) n) \<Longrightarrow> wind pid (poll_turn env ctx k) n"
  by (auto simp: poll_turn_def Let_def wind.simps intro!: wind_send_cancels split: sum.split prod.split)

lemma winding_send_cancels: "(\<And>es. winding pid (k es)) \<Longrightarrow> winding pid (send_cancels calls errors k)"
  by (induction calls errors k rule: send_cancels.induct) (auto simp: winding.simps wind.simps intro: winding_wind)

lemma winding_poll_turn:
  assumes "\<And>x. winding pid (k x)"
  shows "winding pid (poll_turn env ctx k)"
proof -
  have ext: "winding pid (Ext c q)" if "\<not> does_work c" "\<And>a. winding pid (q a)" for c q
    using that by (auto simp: winding.simps wind.simps intro: winding_wind)
  have poll: "winding pid (Poll ctx k)"
    using assms by (auto simp: winding.simps wind.simps intro: winding_wind)
  show ?thesis
    unfolding poll_turn_def Let_def
    by (auto intro!: winding_Look winding_Table winding_send_cancels ext assms poll split: sum.split prod.split)
qed

definition all_winding :: "string \<Rightarrow> exec_state \<Rightarrow> bool" where
  "all_winding pid s \<longleftrightarrow> (\<forall>p \<in> set (es_tasks s). winding pid p)"

definition working :: "exec_state \<Rightarrow> nat" where
  "working s = length (filter (\<lambda>e. case e of Called c r \<Rightarrow> does_work c | _ \<Rightarrow> False) (es_trace s))"

definition cost :: "string \<Rightarrow> prog \<Rightarrow> nat" where
  "cost pid p = (if wind pid p 0 then 0 else 1)"

definition busy :: "string \<Rightarrow> exec_state \<Rightarrow> nat" where
  "busy pid s = sum_list (map (cost pid) (es_tasks s))"

lemma working_simps [simp]:
  "working (advance t p s) = working s" "working (apply_op op s) = working s"
  "working (observe (Sent ev) s) = working s"
  "working (s\<lparr>es_tasks := ts\<rparr>) = working s"
  "working (observe (Called c r) s) = working s + (if does_work c then 1 else 0)"
  by (simp_all add: working_def advance_def observe_def apply_op_def)

lemma all_winding_at: "all_winding pid s \<Longrightarrow> at s t p \<Longrightarrow> winding pid p"
  by (auto simp: all_winding_def at_def)

lemma all_winding_advance: "all_winding pid s \<Longrightarrow> winding pid p \<Longrightarrow> all_winding pid (advance t p s)"
  by (auto simp: all_winding_def advance_def dest: subsetD [OF set_update_subset_insert])

lemma all_winding_same [simp]:
  "all_winding pid (apply_op op s) = all_winding pid s" "all_winding pid (observe e s) = all_winding pid s"
  by (simp_all add: all_winding_def apply_op_def observe_def)

lemma all_winding_step:
  assumes "exec_step env pid a s s'" and "all_winding pid s"
  shows "all_winding pid s'"
  using assms
proof (induction rule: exec_step.induct)
  case (spawn s t q k)
  from all_winding_at [OF spawn.prems spawn.hyps] have "winding pid q" "\<And>h. winding pid (k h)"
    by (auto simp: winding.simps)
  with spawn.prems show ?case
    by (auto simp: all_winding_def dest: subsetD [OF set_update_subset_insert])
next
  case (poll s t ctx k)
  from all_winding_at [OF poll.prems poll.hyps] have "\<And>x. winding pid (k x)"
    by (simp add: winding.simps split_paired_All [symmetric] del: split_paired_All)
  with poll.prems show ?case by (auto intro!: all_winding_advance winding_poll_turn)
qed (auto intro!: all_winding_advance simp: winding.simps dest: all_winding_at)

lemma busy_advance: "at s t p \<Longrightarrow> busy pid (advance t q s) + cost pid p = busy pid s + cost pid q"
proof -
  assume a: "at s t p"
  then have "busy pid s = sum_list (map (cost pid) (take t (es_tasks s))) + cost pid p
      + sum_list (map (cost pid) (drop (Suc t) (es_tasks s)))"
    unfolding busy_def by (subst id_take_nth_drop [of t "es_tasks s"]) (auto simp: at_def)
  moreover from a have "busy pid (advance t q s) = sum_list (map (cost pid) (take t (es_tasks s))) + cost pid q
      + sum_list (map (cost pid) (drop (Suc t) (es_tasks s)))"
    by (simp add: busy_def advance_def upd_conv_take_nth_drop at_def)
  ultimately show ?thesis by simp
qed

lemma busy_same [simp]:
  "busy pid (apply_op op s) = busy pid s" "busy pid (observe e s) = busy pid s"
  by (simp_all add: busy_def apply_op_def observe_def)

text \<open>A move from \<open>p\<close> to \<open>q\<close> pays for the call it makes.\<close>

lemma move_pays:
  assumes "at s t p" and "working s' = working s + c" and "busy pid s' = busy pid (advance t q s)"
    and "cost pid q + c \<le> cost pid p"
  shows "working s' + busy pid s' \<le> working s + busy pid s"
  using busy_advance [OF assms(1), of pid q] assms(2-4) by simp

lemma free_move:
  "at s t p \<Longrightarrow> working s' = working s \<Longrightarrow> busy pid s' = busy pid (advance t q s) \<Longrightarrow> (wind pid p 0 \<Longrightarrow> wind pid q 0) \<Longrightarrow>
     working s' + busy pid s' \<le> working s + busy pid s"
  by (rule move_pays [where c = 0 and q = q]) (auto simp: cost_def)

lemma step_pays:
  assumes "exec_step env pid a s s'" and "all_winding pid s" and "is_cancelled pid (es_table s)"
    and "\<And>t op k. \<lbrakk>a = Task t; at s t (Table op k)\<rbrakk> \<Longrightarrow> \<not> clears_cancel pid op"
  shows "working s' + busy pid s' \<le> working s + busy pid s"
  using assms
proof (induction rule: exec_step.induct)
  case (look s t k)
  then show ?case by (intro free_move [OF look.hyps]) (auto simp: wind.simps)
next
  case (tab s t op k)
  then have "\<not> clears_cancel pid op" by blast
  with tab show ?case
    by (intro free_move [OF tab.hyps, where q = "k (es_table s)"])
      (auto simp: wind.simps busy_def)
next
  case (emit s t ev k)
  then show ?case by (intro free_move [OF emit.hyps, where q = k]) (auto simp: wind.simps busy_def)
next
  case (query s t i k answer)
  then show ?case by (intro free_move [OF query.hyps]) (auto simp: wind.simps)
next
  case (ext s t c k r)
  have w: "wind pid (Ext c k) (Suc 0)" using all_winding_at [OF ext.prems(1) ext.hyps] by (rule winding_wind)
  show ?case
  proof (cases "does_work c")
    case True
    with w have "wind pid (k r) 0" "\<not> wind pid (Ext c k) 0" by (auto simp: wind.simps)
    with True show ?thesis
      by (intro move_pays [OF ext.hyps, where q = "k r" and c = 1]) (auto simp: cost_def busy_def)
  next
    case False
    then show ?thesis
      by (intro free_move [OF ext.hyps, where q = "k r"]) (auto simp: wind.simps busy_def)
  qed
next
  case (wait_over s t ids k)
  then show ?case by (intro free_move [OF wait_over.hyps(1)]) (auto simp: wind.simps)
next
  case (wait_out s t ids k)
  then show ?case by (intro free_move [OF wait_out.hyps]) (auto simp: wind.simps)
next
  case (joined s t h k r)
  then show ?case by (cases r, intro free_move [OF joined.hyps(1)]) (auto simp: wind.simps)
next
  case (poll s t ctx k)
  then show ?case
    by (intro free_move [OF poll.hyps]) (auto simp: wind.simps intro!: wind_poll_turn)
next
  case (others op s)
  then show ?case by simp
next
  case (spawn s t q k)
  have "wind pid (Spawn q k) (Suc 0)" using all_winding_at [OF spawn.prems(1) spawn.hyps] by (rule winding_wind)
  then have q: "cost pid q = 0" by (simp add: wind.simps cost_def)
  show ?case
    by (rule free_move [OF spawn.hyps, where q = "k (length (es_tasks s))"])
      (auto simp: wind.simps busy_def advance_def q)
qed

section \<open>After the cancellation\<close>

definition started :: "plan \<Rightarrow> exec_state \<Rightarrow> bool" where
  "started pl s \<longleftrightarrow> Sent (Plan_Started (pl_plan_id pl)) \<in> set (es_trace s)"

lemma no_reregistration:
  assumes "accounted env pl s" and "started pl s" and "at s t (Table op k)"
  shows "op \<noteq> RT_Register (pl_plan_id pl)"
proof (cases "t = 0")
  case False
  from assms(1) have "others_calm (pl_plan_id pl) (es_tasks s)" by (simp add: accounted_def)
  from calm_task_keeps [OF this False assms(3)] show ?thesis by (simp add: clears_cancel_def)
next
  case True
  from assms(1) obtain ph where ph: "in_phase env pl ph s" "accountable env pl ph s"
    by (auto simp: accounted_def)
  show ?thesis
  proof (cases ph)
    case Starting
    with ph(2) assms(2) show ?thesis by (auto simp: started_def)
  next
    case Running
    with ph(1) True assms(3) have "calm (Table op k) True (pl_plan_id pl)" by (auto dest: at_unique)
    then show ?thesis by (auto simp: clears_cancel_def split: if_splits)
  next
    case (Reporting b)
    with ph(1) True have "at s t (Emit (Plan_Complete (pl_plan_id pl) b) (Done (False, [])))" by simp
    from at_unique [OF this assms(3)] show ?thesis by simp
  next
    case Reported
    with ph(1) True have "at s t (Done (False, []))" by simp
    from at_unique [OF this assms(3)] show ?thesis by simp
  qed
qed

lemma step_started: "exec_step env p a s s' \<Longrightarrow> started pl s \<Longrightarrow> started pl s'"
  unfolding started_def by (rule subsetD [OF trace_grows])

lemma step_absent:
  assumes "exec_step env (pl_plan_id pl) a s s'" and "absent pl s" and "accounted env pl s" and "started pl s"
  shows "absent pl s'"
  using assms
proof (induction rule: exec_step.induct)
  case (tab s t op k)
  with no_reregistration absent_effect show ?case by (simp add: absent_def)
next
  case (others op s)
  with absent_effect show ?case by (simp add: absent_def foreign_def clears_cancel_def)
qed (auto simp: absent_def)

definition wound :: "plan \<Rightarrow> nat \<Rightarrow> exec_state \<Rightarrow> bool" where
  "wound pl b s \<longleftrightarrow> absent pl s \<or>
     (is_cancelled (pl_plan_id pl) (es_table s) \<and> working s + busy (pl_plan_id pl) s \<le> b)"

lemma wound_step:
  assumes step: "exec_step env (pl_plan_id pl) a s s'" and acc: "accounted env pl s" and st: "started pl s"
    and aw: "all_winding (pl_plan_id pl) s" and w: "wound pl b s"
  shows "wound pl b s'"
proof (cases "absent pl s")
  case True
  with step_absent [OF step True acc st] show ?thesis by (simp add: wound_def)
next
  case False
  with w have c: "is_cancelled (pl_plan_id pl) (es_table s)" and b: "working s + busy (pl_plan_id pl) s \<le> b"
    by (auto simp: wound_def)
  show ?thesis
  proof (cases "\<exists>t op k. a = Task t \<and> at s t (Table op k) \<and> clears_cancel (pl_plan_id pl) op")
    case True
    then obtain t op k where a: "a = Task t" and t: "at s t (Table op k)" and op: "clears_cancel (pl_plan_id pl) op"
      by blast
    with no_reregistration [OF acc st t] have "op = RT_Complete (pl_plan_id pl)" by (simp add: clears_cancel_def)
    moreover have "s' = advance t (k (es_table s)) (apply_op op s)"
      using step a t by (auto elim!: exec_step.cases dest: at_unique)
    ultimately show ?thesis by (simp add: wound_def absent_def complete_plan_def)
  next
    case False
    then have nc: "\<not> clears_cancel (pl_plan_id pl) op" if "a = Task t" "at s t (Table op k)" for t op k
      using that by blast
    have "working s' + busy (pl_plan_id pl) s' \<le> working s + busy (pl_plan_id pl) s"
      by (rule step_pays [OF step aw c]) (rule nc)
    with b have "working s' + busy (pl_plan_id pl) s' \<le> b" by simp
    moreover have "is_cancelled (pl_plan_id pl) (es_table s')"
      using step c nc
    proof (induction rule: exec_step.induct)
      case (tab s t op k)
      with cancel_kept [OF tab.prems(1)] show ?case by simp
    next
      case (others op s)
      with cancel_kept show ?case by (simp add: foreign_def)
    qed auto
    ultimately show ?thesis by (simp add: wound_def)
  qed
qed


lemma all_winding_start: "all_winding (pl_plan_id pl) (exec_start env pl rt)"
  by (simp add: all_winding_def exec_start_def winding_plan_task)

lemma cost_bound: "sum_list (map (cost pid) ts) \<le> length ts"
  by (induction ts) (auto simp: cost_def)

lemma busy_bound: "busy pid s \<le> length (es_tasks s)"
  unfolding busy_def by (rule cost_bound)

text \<open>What holds of the plan's task, its stream and its entry in the table from the cancellation on.\<close>

definition winding_down :: "exec_env \<Rightarrow> plan \<Rightarrow> nat \<Rightarrow> exec_state \<Rightarrow> bool" where
  "winding_down env pl b s \<longleftrightarrow> accounted env pl s \<and> started pl s \<and> all_winding (pl_plan_id pl) s \<and> wound pl b s"

lemma winding_down_step:
  "step_any env (pl_plan_id pl) s s' \<Longrightarrow> winding_down env pl b s \<Longrightarrow> winding_down env pl b s'"
  unfolding step_any_def winding_down_def
  by (auto intro: accounted_step step_started all_winding_step wound_step)

interpretation wound_up: inv_relation "\<lambda>s. winding_down env pl b s" "step_any env (pl_plan_id pl)" "winding_down env pl b"
  for env pl b
  by unfold_locales (auto intro: winding_down_step)

interpretation windings: inv_relation "\<lambda>s. \<exists>rt. s = exec_start env pl rt" "step_any env (pl_plan_id pl)"
    "all_winding (pl_plan_id pl)"
  for env pl
  by unfold_locales (auto simp: all_winding_start step_any_def intro: all_winding_step)

lemma reachable_winding: "exec_reachable env pl rt s \<Longrightarrow> all_winding (pl_plan_id pl) s"
  unfolding exec_reachable_def by (rule windings.good_reachable) blast+

text \<open>C17 (safety). Once a running plan is cancelled, each task it has at that moment makes at most one more call that
  does the work of a leaf (the call it had already checked the cancellation for); tasks spawned later make none. So
  as long as the plan is in the table, the calls made after the cancellation are at most its tasks.\<close>

theorem cancelled_plan_winds_down:
  assumes "exec_reachable env pl rt s" and "started pl s" and "is_cancelled (pl_plan_id pl) (es_table s)"
    and run: "(step_any env (pl_plan_id pl))\<^sup>*\<^sup>* s s'" and "hm_get (es_table s') (pl_plan_id pl) \<noteq> None"
  shows "working s' \<le> working s + length (es_tasks s)"
proof -
  have "winding_down env pl (working s + length (es_tasks s)) s"
    using assms reachable_accounted reachable_winding busy_bound by (auto simp: winding_down_def wound_def)
  then have "winding_down env pl (working s + length (es_tasks s)) s'"
    using run by (rule wound_up.good_reachable)
  with assms(5) show ?thesis by (auto simp: winding_down_def wound_def absent_def)
qed


text \<open>A run of the one-leaf plan that is cancelled between the check of the cancellation and the call.\<close>

definition up_to_cancel :: "choice list" where
  "up_to_cancel = replicate 6 (Go 0) @ [Found 0 (Inr []), Arrive (RT_Cancel ''p'')]"

lemma cancelled_run:
  "run_choices demo_env ''p'' up_to_cancel (exec_start demo_env demo_leaf_plan []) \<noteq> None"
  "run_choices demo_env ''p'' [Answer 0 (Inr ''ok'')] (demo_run up_to_cancel) \<noteq> None"
  "is_cancelled ''p'' (es_table (demo_run up_to_cancel))"
  "started demo_leaf_plan (demo_run up_to_cancel)"
  "working (demo_run up_to_cancel) = 0"
  "length (es_tasks (demo_run up_to_cancel)) = 1"
  "working (the (run_choices demo_env ''p'' [Answer 0 (Inr ''ok'')] (demo_run up_to_cancel))) = 1"
  "hm_get (es_table (the (run_choices demo_env ''p'' [Answer 0 (Inr ''ok'')] (demo_run up_to_cancel)))) ''p'' \<noteq> None"
proof -
  have "\<not> Option.is_none (run_choices demo_env ''p'' up_to_cancel (exec_start demo_env demo_leaf_plan []))"
    by code_simp
  then show "run_choices demo_env ''p'' up_to_cancel (exec_start demo_env demo_leaf_plan []) \<noteq> None"
    by (auto simp: Option.is_none_def)
  have "\<not> Option.is_none (run_choices demo_env ''p'' [Answer 0 (Inr ''ok'')] (demo_run up_to_cancel))" by code_simp
  then show "run_choices demo_env ''p'' [Answer 0 (Inr ''ok'')] (demo_run up_to_cancel) \<noteq> None"
    by (auto simp: Option.is_none_def)
  show "is_cancelled ''p'' (es_table (demo_run up_to_cancel))" by code_simp
  have "some_sent (\<lambda>ev. case ev of Plan_Started q \<Rightarrow> q = ''p'' | _ \<Rightarrow> False) (demo_run up_to_cancel)" by code_simp
  then obtain ev where "Sent ev \<in> set (es_trace (demo_run up_to_cancel))"
    "case ev of Plan_Started q \<Rightarrow> q = ''p'' | _ \<Rightarrow> False" unfolding some_sent by blast
  then show "started demo_leaf_plan (demo_run up_to_cancel)"
    by (cases ev rule: rtdl_event.exhaust) (auto simp: started_def demo_leaf_plan_def)
  show "working (demo_run up_to_cancel) = 0" by code_simp
  show "length (es_tasks (demo_run up_to_cancel)) = 1" by code_simp
  show "working (the (run_choices demo_env ''p'' [Answer 0 (Inr ''ok'')] (demo_run up_to_cancel))) = 1" by code_simp
  have "\<not> Option.is_none (hm_get (es_table
      (the (run_choices demo_env ''p'' [Answer 0 (Inr ''ok'')] (demo_run up_to_cancel)))) ''p'')" by code_simp
  then show "hm_get (es_table (the (run_choices demo_env ''p'' [Answer 0 (Inr ''ok'')] (demo_run up_to_cancel)))) ''p''
      \<noteq> None" by (auto simp: Option.is_none_def)
qed

theorem cancelled_plan_winds_down_witness:
  "working (the (run_choices demo_env ''p'' [Answer 0 (Inr ''ok'')] (demo_run up_to_cancel))) \<le> 0 + 1"
proof -
  let ?s' = "the (run_choices demo_env ''p'' [Answer 0 (Inr ''ok'')] (demo_run up_to_cancel))"
  have p: "pl_plan_id demo_leaf_plan = ''p''" by (simp add: demo_leaf_plan_def)
  from cancelled_run(2) obtain s' where
    "run_choices demo_env ''p'' [Answer 0 (Inr ''ok'')] (demo_run up_to_cancel) = Some s'" by blast
  then have "(step_any demo_env ''p'')\<^sup>*\<^sup>* (demo_run up_to_cancel) ?s'"
    by (metis run_choices_steps option.sel)
  from cancelled_plan_winds_down [OF demo_run_reachable [OF cancelled_run(1)], unfolded p, OF cancelled_run(4,3) this
      cancelled_run(8)] cancelled_run(5,6)
  show ?thesis by simp
qed

end
