(* ===== verification/Exec_Budget.thy ===== *)
theory Exec_Budget
  imports Exec_Cancel
begin

text \<open>
  How much a plan can do: along each way from its root to a leaf at most one call of the leaf and one of its
  verifier, whatever the providers answer and whatever else happens. Nothing is tried again; only the status of an
  asynchronous call is asked for repeatedly, and cancel calls are made for the calls that run.
\<close>

section \<open>The calls a program can make\<close>

text \<open>A call that leaves the executor for a provider, a builtin or a verifier.\<close>

fun dispatches :: "ext_call \<Rightarrow> bool" where
  "dispatches (Ext_Provider call timeout) = True"
| "dispatches (Ext_Builtin call) = True"
| "dispatches (Ext_Status i c r) = False"
| "dispatches (Ext_Cancel running) = False"

text \<open>\<open>within p n\<close>: \<open>p\<close> and the tasks it spawns make at most \<open>n\<close> of them.\<close>

primrec within_budget :: "prog \<Rightarrow> nat \<Rightarrow> bool" where
  "within_budget (Done x) n = True"
| "within_budget (Look k) n = (\<forall>rt. within_budget (k rt) n)"
| "within_budget (Table op k) n = (\<forall>rt. within_budget (k rt) n)"
| "within_budget (Emit ev k) n = within_budget k n"
| "within_budget (Query i k) n = (\<forall>a. within_budget (k a) n)"
| "within_budget (Ext c k) n =
     (if dispatches c then n > 0 \<and> (\<forall>a. within_budget (k a) (n - 1)) else (\<forall>a. within_budget (k a) n))"
| "within_budget (Wait ids k) n = (\<forall>a. within_budget (k a) n)"
| "within_budget (Spawn q k) n = (\<exists>m\<le>n. within_budget q m \<and> (\<forall>h. within_budget (k h) (n - m)))"
| "within_budget (Join h k) n = (\<forall>x. within_budget (k x) n)"
| "within_budget (Poll ctx k) n = (\<forall>x. within_budget (k x) n)"
| "within_budget Panic n = True"

lemma within_mono: "within_budget p n \<Longrightarrow> n \<le> m \<Longrightarrow> within_budget p m"
proof (induction p arbitrary: n m rule: prog_induct)
  case (Ext c k)
  show ?case
  proof (cases "dispatches c")
    case True
    with Ext.prems have "0 < m" "n - 1 \<le> m - 1" "\<And>a. within_budget (k a) (n - 1)" by auto
    with Ext.IH [of _ "n - 1" "m - 1"] True show ?thesis by simp
  qed (use Ext in auto)
next
  case (Spawn q k)
  then obtain i where i: "i \<le> n" "within_budget q i" "\<And>h. within_budget (k h) (n - i)" by auto
  with Spawn.prems(2) Spawn.IH(2) [of _ "n - i" "m - i"] show ?case by (auto intro!: exI [of _ i])
qed fastforce+


named_theorems budget \<open>the calls of the program combinators\<close>


lemma within_call [budget]: "(\<And>r. within_budget (k r) n) \<Longrightarrow> within_budget (Ext c k) (Suc n)"
  using within_mono [of _ n "Suc n"] by auto


lemma within_cancels [budget]: "(\<And>es. within_budget (k es) n) \<Longrightarrow> within_budget (send_cancels calls errors k) n"
  by (induction calls errors k rule: send_cancels.induct) (auto intro: budget)

declare within_budget.simps [simp del]


section \<open>Leaves\<close>










section \<open>Operators\<close>







section \<open>Plans\<close>




section \<open>Runs\<close>

definition dispatched :: "exec_state \<Rightarrow> nat" where
  "dispatched s = length (filter (\<lambda>e. case e of Called c r \<Rightarrow> dispatches c | _ \<Rightarrow> False) (es_trace s))"

lemma dispatched_simps [simp]:
  "dispatched (advance t p s) = dispatched s" "dispatched (apply_op op s) = dispatched s"
  "dispatched (observe (Sent ev) s) = dispatched s" "dispatched (s\<lparr>es_tasks := ts\<rparr>) = dispatched s"
  "dispatched (observe (Called c r) s) = dispatched s + (if dispatches c then 1 else 0)"
  by (simp_all add: dispatched_def advance_def observe_def apply_op_def)

lemma kept_tasks [simp]:
  "es_tasks (advance t p s) = (es_tasks s)[t := p]" "es_tasks (apply_op op s) = es_tasks s" "es_tasks (observe ev s) = es_tasks s"
  by (simp_all add: advance_def observe_def apply_op_def)







end
