(* ===== verification/Unix_Path.thy ===== *)
theory Unix_Path
  imports Rust_Str
begin

text \<open>
  What the executor's file operations use of \<open>std::path\<close> and \<open>std::fs\<close>: paths with their components, and
  their resolution in a store of files, folders and symbolic links. The store maps a location (the components
  below the root folder, with no link among its ancestors) to what is there. Permissions, hard links and
  contents that are not UTF-8 are left out; a path is printed with its components normalised. \<open>Path\<close> hides a slash or a
  \<open>/.\<close> at the end of a text from \<open>parent\<close>, \<open>file_name\<close> and \<open>components\<close>, but hands it to the operating system, for which it
  asks for a folder: it is a field of its own.
\<close>

section \<open>Paths\<close>

record pathbuf =
  pb_absolute :: bool
  pb_parts :: path
  pb_folder :: bool

text \<open>Empty components are dropped, and so is \<open>.\<close> except at the front of a relative path.\<close>

definition parse_path :: "string \<Rightarrow> pathbuf" where
  "parse_path s =
     (let cs = filter (\<lambda>c. c \<noteq> []) (split_on (CHR ''/'') s); absolute = starts_with ''/'' s;
          tl_clean = (\<lambda>cs. filter (\<lambda>c. c \<noteq> ''.'') cs)
      in \<lparr>pb_absolute = absolute,
          pb_parts = (if \<not> absolute \<and> cs \<noteq> [] \<and> hd cs = ''.'' then ''.'' # tl_clean (tl cs) else tl_clean cs),
          pb_folder = ends_with ''/'' s \<or> (cs \<noteq> [] \<and> last cs = ''.'')\<rparr>)"

definition path_join :: "pathbuf \<Rightarrow> pathbuf \<Rightarrow> pathbuf" where
  "path_join p q =
     (if pb_absolute q then q
      else if \<not> pb_absolute p \<and> pb_parts p = [] then q
      else p\<lparr>pb_parts := pb_parts p @ filter (\<lambda>c. c \<noteq> ''.'') (pb_parts q),
             pb_folder := pb_folder q \<or> pb_parts q = []\<rparr>)"

definition parent :: "pathbuf \<Rightarrow> pathbuf option" where
  "parent p = (if pb_parts p = [] then None else Some (p\<lparr>pb_parts := butlast (pb_parts p), pb_folder := False\<rparr>))"

definition file_name :: "pathbuf \<Rightarrow> string option" where
  "file_name p =
     (if pb_parts p = [] \<or> last (pb_parts p) = ''..'' \<or> last (pb_parts p) = ''.'' then None
      else Some (last (pb_parts p)))"

text \<open>\<open>Path::components\<close>, the root folder as \<open>None\<close>.\<close>

definition components :: "pathbuf \<Rightarrow> string option list" where
  "components p = (if pb_absolute p then [None] else []) @ map Some (pb_parts p)"

definition path_starts_with :: "pathbuf \<Rightarrow> pathbuf \<Rightarrow> bool" where
  "path_starts_with base p \<longleftrightarrow> take (length (components base)) (components p) = components base"

definition display :: "pathbuf \<Rightarrow> string" where
  "display p = (if pb_absolute p then ''/'' else []) @ join ''/'' (pb_parts p)
     @ (if pb_folder p \<and> pb_parts p \<noteq> [] then ''/'' else [])"

text \<open>What the operating system walks through: a folder is asked for by a last component \<open>.\<close>.\<close>

definition os_parts :: "pathbuf \<Rightarrow> path" where
  "os_parts p = pb_parts p @ (if pb_folder p then [''.''] else [])"

section \<open>Resolution\<close>

datatype inode = Plain string | Folder | Symlink string

type_synonym store = "(path, inode) hmap"

datatype io_error = Not_Found | Not_A_Directory | Is_A_Directory | Too_Many_Links

definition io_text :: "io_error \<Rightarrow> string" where
  "io_text e =
     (case e of
        Not_Found \<Rightarrow> ''No such file or directory (os error 2)''
      | Not_A_Directory \<Rightarrow> ''Not a directory (os error 20)''
      | Is_A_Directory \<Rightarrow> ''Is a directory (os error 21)''
      | Too_Many_Links \<Rightarrow> ''Too many levels of symbolic links (os error 40)'')"

text \<open>\<open>walk create links st cur parts\<close> resolves the components from the folder \<open>cur\<close>, following at most \<open>links\<close>
  symbolic links; with \<open>create\<close> a missing last component is where a file would be created.\<close>

function (sequential) walk :: "bool \<Rightarrow> nat \<Rightarrow> store \<Rightarrow> path \<Rightarrow> string list \<Rightarrow> io_error + path" where
  "walk create links st cur [] = Inr cur"
| "walk create links st cur (c # cs) =
     (if c = ''.'' then walk create links st cur cs
      else if c = ''..'' then walk create links st (butlast cur) cs
      else (case hm_get st (cur @ [c]) of
              None \<Rightarrow> if create \<and> cs = [] then Inr (cur @ [c]) else Inl Not_Found
            | Some Folder \<Rightarrow> walk create links st (cur @ [c]) cs
            | Some (Plain _) \<Rightarrow> if cs = [] then Inr (cur @ [c]) else Inl Not_A_Directory
            | Some (Symlink target) \<Rightarrow>
                (case links of
                   0 \<Rightarrow> Inl Too_Many_Links
                 | Suc n \<Rightarrow>
                     (let t = parse_path target
                      in walk create n st (if pb_absolute t then [] else cur) (os_parts t @ cs)))))"
  by pat_completeness auto
termination by (relation "measures [\<lambda>(create, links, st, cur, parts). links, \<lambda>(create, links, st, cur, parts). length parts]")
    auto

definition max_links :: nat where
  "max_links = 40"

definition locate :: "bool \<Rightarrow> store \<Rightarrow> path \<Rightarrow> pathbuf \<Rightarrow> io_error + path" where
  "locate create st cwd p =
     (if \<not> pb_absolute p \<and> pb_parts p = [] then Inl Not_Found
      else walk create max_links st (if pb_absolute p then [] else cwd) (os_parts p))"

definition exists_in :: "store \<Rightarrow> path \<Rightarrow> pathbuf \<Rightarrow> bool" where
  "exists_in st cwd p = (case locate False st cwd p of Inl _ \<Rightarrow> False | Inr _ \<Rightarrow> True)"

definition canonicalize :: "store \<Rightarrow> path \<Rightarrow> pathbuf \<Rightarrow> io_error + pathbuf" where
  "canonicalize st cwd p =
     (case locate False st cwd p of
        Inl e \<Rightarrow> Inl e
      | Inr q \<Rightarrow> Inr \<lparr>pb_absolute = True, pb_parts = q, pb_folder = False\<rparr>)"

definition fs_read :: "store \<Rightarrow> path \<Rightarrow> pathbuf \<Rightarrow> io_error + string" where
  "fs_read st cwd p =
     (case locate False st cwd p of
        Inl e \<Rightarrow> Inl e
      | Inr q \<Rightarrow> (case hm_get st q of Some (Plain text) \<Rightarrow> Inr text | _ \<Rightarrow> Inl Is_A_Directory))"

definition fs_write :: "store \<Rightarrow> path \<Rightarrow> pathbuf \<Rightarrow> string \<Rightarrow> (io_error + unit) \<times> store" where
  "fs_write st cwd p text =
     (case locate True st cwd p of
        Inl e \<Rightarrow> (Inl e, st)
      | Inr q \<Rightarrow>
          if q = [] \<or> hm_get st q = Some Folder then (Inl Is_A_Directory, st)
          else (Inr (), hm_insert q (Plain text) st))"

section \<open>Solid locations\<close>

text \<open>A location is solid if all its proper ancestors are folders.\<close>

definition solid :: "store \<Rightarrow> path \<Rightarrow> bool" where
  "solid st q \<longleftrightarrow> set q \<inter> {''.'', ''..''} = {} \<and>
     (\<forall>i. 0 < i \<and> i < length q \<longrightarrow> hm_get st (take i q) = Some Folder)"

definition folder_at :: "store \<Rightarrow> path \<Rightarrow> bool" where
  "folder_at st q \<longleftrightarrow> solid st q \<and> (q = [] \<or> hm_get st q = Some Folder)"

lemma solid_snoc: "solid st (q @ [c]) \<longleftrightarrow> folder_at st q \<and> c \<notin> {''.'', ''..''}"
proof
  assume s: "solid st (q @ [c])"
  then have "hm_get st (take i q) = Some Folder" if "0 < i" "i \<le> length q" for i
    using that by (auto simp: solid_def dest: spec [of _ i])
  from this [of "length q"] this s show "folder_at st q \<and> c \<notin> {''.'', ''..''}"
    by (auto simp: folder_at_def solid_def)
next
  assume f: "folder_at st q \<and> c \<notin> {''.'', ''..''}"
  then have "hm_get st (take i q) = Some Folder" if "0 < i" "i \<le> length q" for i
    using that by (cases "i = length q") (auto simp: folder_at_def solid_def)
  with f show "solid st (q @ [c])" by (auto simp: solid_def folder_at_def)
qed

lemma folder_Nil [simp]: "folder_at st []"
  by (simp add: folder_at_def solid_def)

lemma folder_butlast: "folder_at st q \<Longrightarrow> folder_at st (butlast q)"
  by (cases q rule: rev_cases) (auto simp: folder_at_def solid_snoc)

lemma walk_solid:
  "walk create links st cur parts = Inr q \<Longrightarrow> folder_at st cur \<Longrightarrow>
     solid st q \<and> (q = [] \<or> (\<forall>t. hm_get st q \<noteq> Some (Symlink t)) \<and> (hm_get st q \<noteq> None \<or> create))"
proof (induction create links st cur parts rule: walk.induct)
  case (1 create links st cur)
  then show ?case by (auto simp: folder_at_def)
next
  case (2 create links st cur c cs)
  show ?case
  proof (cases "c = ''.'' \<or> c = ''..''")
    case True
    with 2 show ?thesis by (auto intro: folder_butlast split: if_splits)
  next
    case False
    then have s: "solid st (cur @ [c])" using 2 by (auto simp: solid_snoc)
    show ?thesis
    proof (cases "hm_get st (cur @ [c])")
      case None
      with 2 False s show ?thesis by (auto split: if_splits)
    next
      case (Some n)
      show ?thesis
      proof (cases n)
        case (Symlink t)
        with Some False 2 show ?thesis
          by (auto simp: Let_def split: nat.splits if_splits)
      next
        case Folder
        with Some False s 2 show ?thesis by (auto simp: folder_at_def)
      next
        case (Plain body)
        with Some False s 2 show ?thesis by (auto split: if_splits)
      qed
    qed
  qed
qed

text \<open>Resolving a solid location that is not a link leads to the location itself.\<close>

lemma walk_folders:
  "solid st (cur @ ps @ [c]) \<Longrightarrow> folder_at st cur \<Longrightarrow>
     walk create links st cur (ps @ c # cs) = walk create links st (cur @ ps) (c # cs)"
proof (induction ps arbitrary: cur)
  case (Cons d ds)
  then have d: "d \<noteq> ''.''" "d \<noteq> ''..''" by (auto simp: solid_def)
  have f: "hm_get st (cur @ [d]) = Some Folder"
    using Cons.prems(1) unfolding solid_def by (auto dest: spec [of _ "Suc (length cur)"])
  with Cons.prems d have "folder_at st (cur @ [d])" by (simp add: folder_at_def solid_snoc)
  with Cons.IH [of "cur @ [d]"] Cons.prems d f show ?case by simp
qed simp

lemma walk_solid_id:
  assumes "solid st (ps @ [c])" and "\<nexists>t. hm_get st (ps @ [c]) = Some (Symlink t)"
  shows "walk create links st [] (ps @ [c]) =
    (if hm_get st (ps @ [c]) = None \<and> \<not> create then Inl Not_Found else Inr (ps @ [c]))"
  using assms walk_folders [of st "[]" ps c create links "[]"]
  by (auto simp: solid_snoc split: option.split inode.split)

lemma walk_into_file:
  assumes "solid st (ps @ [c])" and "hm_get st (ps @ [c]) = Some (Plain body)"
  shows "walk create links st [] (ps @ [c, d]) = Inl Not_A_Directory"
  using assms walk_folders [of st "[]" ps c create links "[d]"] by (simp add: solid_snoc)

definition not_a_link :: "store \<Rightarrow> path \<Rightarrow> bool" where
  "not_a_link st q \<longleftrightarrow> q = [] \<or> (\<nexists>t. hm_get st q = Some (Symlink t))"

lemma locate_solid:
  assumes "solid st q" and "not_a_link st q"
  shows "locate create st cwd \<lparr>pb_absolute = True, pb_parts = q, pb_folder = False\<rparr> =
    (if q \<noteq> [] \<and> hm_get st q = None \<and> \<not> create then Inl Not_Found else Inr q)"
  using assms walk_solid_id [of st "butlast q" "last q" create max_links]
  by (cases q rule: rev_cases) (auto simp: locate_def os_parts_def not_a_link_def)

lemma canonicalize_solid:
  assumes "canonicalize st cwd p = Inr q" and "folder_at st cwd"
  shows "pb_absolute q" "\<not> pb_folder q" "solid st (pb_parts q)" "not_a_link st (pb_parts q)"
    "pb_parts q \<noteq> [] \<Longrightarrow> hm_get st (pb_parts q) \<noteq> None"
proof -
  from assms(1) obtain r where r: "locate False st cwd p = Inr r" and q: "q = \<lparr>pb_absolute = True, pb_parts = r, pb_folder = False\<rparr>"
    by (auto simp: canonicalize_def split: sum.splits)
  from r have "walk False max_links st (if pb_absolute p then [] else cwd) (os_parts p) = Inr r"
    by (auto simp: locate_def split: if_splits)
  moreover have "folder_at st (if pb_absolute p then [] else cwd)" using assms(2) by simp
  ultimately have "solid st r" "not_a_link st r" "r \<noteq> [] \<Longrightarrow> hm_get st r \<noteq> None"
    using walk_solid by (fastforce simp: not_a_link_def)+
  with q show "pb_absolute q" "\<not> pb_folder q" "solid st (pb_parts q)" "not_a_link st (pb_parts q)"
    "pb_parts q \<noteq> [] \<Longrightarrow> hm_get st (pb_parts q) \<noteq> None" by auto
qed

end
