(* ===== verification/Exec_Builtin.thy ===== *)
theory Exec_Builtin
  imports Unix_Path Async_Poll
begin

text \<open>
  The executor's in-process builtins, \<open>system/executor/src/dispatch/builtin.rs\<close>: the confinement of paths to the
  workspace, the file operations, the provider manual, and their routing. The JSON readers of the arguments
  and the shell that runs a command are parameters; \<open>ROBONIX_WORKSPACE\<close> and the current folder are inputs.
\<close>

section \<open>Confinement to the workspace\<close>

definition workspace_root :: "string option \<Rightarrow> path \<Rightarrow> pathbuf" where
  "workspace_root var cwd =
     (case var of
        Some s \<Rightarrow> parse_path s
      | None \<Rightarrow> \<lparr>pb_absolute = True, pb_parts = cwd, pb_folder = False\<rparr>)"

definition canonical_root :: "store \<Rightarrow> path \<Rightarrow> pathbuf \<Rightarrow> pathbuf" where
  "canonical_root st cwd workspace = (case canonicalize st cwd workspace of Inl _ \<Rightarrow> workspace | Inr r \<Rightarrow> r)"

definition candidate_path :: "pathbuf \<Rightarrow> string \<Rightarrow> pathbuf" where
  "candidate_path root user_path =
     (let user = parse_path user_path in if pb_absolute user then user else path_join root user)"

text \<open>The candidate itself, or its parent and its name when it does not exist.\<close>

definition resolve_candidate :: "store \<Rightarrow> path \<Rightarrow> pathbuf \<Rightarrow> string + pathbuf" where
  "resolve_candidate st cwd candidate =
     (if exists_in st cwd candidate then
        (case canonicalize st cwd candidate of Inl e \<Rightarrow> Inl (io_text e) | Inr r \<Rightarrow> Inr r)
      else (case parent candidate of
              None \<Rightarrow> Inl ''invalid path: no parent directory''
            | Some p \<Rightarrow>
                (case canonicalize st cwd p of
                   Inl _ \<Rightarrow> Inl (''parent directory does not exist: '' @ display p)
                 | Inr parent_resolved \<Rightarrow>
                     (case file_name candidate of
                        None \<Rightarrow> Inl ''invalid path: no file name''
                      | Some name \<Rightarrow>
                          Inr (parent_resolved\<lparr>pb_parts := pb_parts parent_resolved @ [name]\<rparr>)))))"

definition safe_resolve_in :: "store \<Rightarrow> path \<Rightarrow> pathbuf \<Rightarrow> string \<Rightarrow> string + pathbuf" where
  "safe_resolve_in st cwd workspace user_path =
     (let root = canonical_root st cwd workspace in
      case resolve_candidate st cwd (candidate_path root user_path) of
        Inl e \<Rightarrow> Inl e
      | Inr resolved \<Rightarrow>
          if \<not> path_starts_with root resolved then
            Inl (''path traversal denied: '' @ user_path @ '' resolves outside workspace '' @ display root)
          else Inr resolved)"

text \<open>How the shell that runs a command ends, as the \<open>select!\<close> of \<open>run_command\<close> tells it.\<close>

datatype shell_end =
    Spawn_Failed string
  | No_Pid
  | Exited string string "int option"
  | Wait_Failed string
  | Canceled
  | Timed_Out

record builtin_env =
  be_workspace :: "string option"
  be_cwd :: path
  be_read_args :: "string \<Rightarrow> string + string"
  be_write_args :: "string \<Rightarrow> string + string \<times> string"
  be_patch_args :: "string \<Rightarrow> string + string \<times> string \<times> string"
  be_list_args :: "string \<Rightarrow> string + string option"
  be_doc_args :: "string \<Rightarrow> string + string"
  be_cmd_args :: "string \<Rightarrow> string + string"
  be_shell :: "string \<Rightarrow> store \<Rightarrow> shell_end \<times> store"

definition safe_resolve :: "builtin_env \<Rightarrow> store \<Rightarrow> string \<Rightarrow> string + pathbuf" where
  "safe_resolve env st user_path =
     safe_resolve_in st (be_cwd env) (workspace_root (be_workspace env) (be_cwd env)) user_path"

section \<open>Cutting long output\<close>

text \<open>On the bytes of a string: an index is a boundary unless a continuation byte (0x80 to 0xBF) is there.\<close>

definition continuation :: "char \<Rightarrow> bool" where
  "continuation c \<longleftrightarrow> 0x80 \<le> (of_char c :: nat) \<and> (of_char c :: nat) \<le> 0xBF"

definition is_char_boundary :: "string \<Rightarrow> nat \<Rightarrow> bool" where
  "is_char_boundary s i \<longleftrightarrow> i = 0 \<or> i = length s \<or> (i < length s \<and> \<not> continuation (s ! i))"

fun back_to_boundary :: "string \<Rightarrow> nat \<Rightarrow> nat" where
  "back_to_boundary s i = (if i > 0 \<and> \<not> is_char_boundary s i then back_to_boundary s (i - 1) else i)"

declare back_to_boundary.simps [simp del]

definition truncate_text :: "string \<Rightarrow> nat \<Rightarrow> string" where
  "truncate_text s limit =
     (if length s \<le> limit then s
      else take (back_to_boundary s limit) s
             @ [CHR 0xE2, CHR 0x80, CHR 0xA6] @ ''(truncated, '' @ show_nat (length s) @ '' bytes total)'')"

section \<open>File operations\<close>

definition io_result :: "io_error + 'a \<Rightarrow> string + 'a" where
  "io_result r = (case r of Inl e \<Rightarrow> Inl (io_text e) | Inr x \<Rightarrow> Inr x)"

definition read_file :: "builtin_env \<Rightarrow> string \<Rightarrow> store \<Rightarrow> string + string" where
  "read_file env args st =
     (case be_read_args env args of
        Inl e \<Rightarrow> Inl e
      | Inr p \<Rightarrow>
          (case safe_resolve env st p of
             Inl e \<Rightarrow> Inl e
           | Inr q \<Rightarrow>
               (case io_result (fs_read st (be_cwd env) q) of
                  Inl e \<Rightarrow> Inl e
                | Inr content \<Rightarrow> Inr (truncate_text content 8000))))"

text \<open>The folder above a resolved path exists, so \<open>create_dir_all\<close> changes nothing.\<close>

definition write_file :: "builtin_env \<Rightarrow> string \<Rightarrow> store \<Rightarrow> (string + string) \<times> store" where
  "write_file env args st =
     (case be_write_args env args of
        Inl e \<Rightarrow> (Inl e, st)
      | Inr (p, content) \<Rightarrow>
          (case safe_resolve env st p of
             Inl e \<Rightarrow> (Inl e, st)
           | Inr q \<Rightarrow>
               (case fs_write st (be_cwd env) q content of
                  (Inl e, st') \<Rightarrow> (Inl (io_text e), st')
                | (Inr _, st') \<Rightarrow>
                    (Inr (''wrote '' @ show_nat (length content) @ '' bytes to '' @ display q), st'))))"

definition replace_once :: "string \<Rightarrow> string \<Rightarrow> string \<Rightarrow> string" where
  "replace_once old new s =
     (case split_once_str old s of None \<Rightarrow> s | Some (a, b) \<Rightarrow> a @ new @ b)"

definition patch_file :: "builtin_env \<Rightarrow> string \<Rightarrow> store \<Rightarrow> (string + string) \<times> store" where
  "patch_file env args st =
     (case be_patch_args env args of
        Inl e \<Rightarrow> (Inl e, st)
      | Inr (p, old, new) \<Rightarrow>
          (case safe_resolve env st p of
             Inl e \<Rightarrow> (Inl e, st)
           | Inr q \<Rightarrow>
               (case fs_read st (be_cwd env) q of
                  Inl e \<Rightarrow> (Inl (io_text e), st)
                | Inr content \<Rightarrow>
                    if \<not> contains_str old content then (Inl ''old string not found in file'', st)
                    else (case fs_write st (be_cwd env) q (replace_once old new content) of
                            (Inl e, st') \<Rightarrow> (Inl (io_text e), st')
                          | (Inr _, st') \<Rightarrow> (Inr (''patched '' @ display q), st')))))"

definition dir_item :: "path \<times> inode \<Rightarrow> string" where
  "dir_item e = (case e of (q, n) \<Rightarrow> (if n = Folder then ''dir'' else ''file'') @ '' '' @ last q)"

definition list_dir :: "builtin_env \<Rightarrow> string \<Rightarrow> store \<Rightarrow> string + string" where
  "list_dir env args st =
     (case be_list_args env args of
        Inl e \<Rightarrow> Inl e
      | Inr p \<Rightarrow>
          (case safe_resolve env st (case p of None \<Rightarrow> ''.'' | Some d \<Rightarrow> d) of
             Inl e \<Rightarrow> Inl e
           | Inr q \<Rightarrow>
               (case locate False st (be_cwd env) q of
                  Inl e \<Rightarrow> Inl (io_text e)
                | Inr d \<Rightarrow>
                    if d \<noteq> [] \<and> hm_get st d \<noteq> Some Folder then Inl (io_text Not_A_Directory)
                    else Inr (join [CHR 0x0A]
                           (sort (map dir_item (filter (\<lambda>(q, _). q \<noteq> [] \<and> butlast q = d) st)))))))"

definition format_command_output :: "string \<Rightarrow> string \<Rightarrow> int option \<Rightarrow> string" where
  "format_command_output stdout stderr status_code =
     (let r1 = (if stdout \<noteq> [] then truncate_text stdout 4000 else []);
          r2 = (if stderr \<noteq> []
                then r1 @ (if r1 \<noteq> [] then [CHR 0x0A] else []) @ ''stderr: '' @ truncate_text stderr 2000
                else r1)
      in if r2 = [] then ''exit code: '' @ show_int (case status_code of None \<Rightarrow> -1 | Some c \<Rightarrow> c) else r2)"

definition max_command_len :: nat where
  "max_command_len = 8192"

definition command_timeout_secs :: nat where
  "command_timeout_secs = 120"

definition run_command ::
  "builtin_env \<Rightarrow> plan_runtime \<Rightarrow> string \<Rightarrow> string \<Rightarrow> store \<Rightarrow> (string + string) \<times> store" where
  "run_command env rt plan_id args st =
     (case be_cmd_args env args of
        Inl e \<Rightarrow> (Inl e, st)
      | Inr command \<Rightarrow>
          if length command > max_command_len then
            (Inl (''command too long ('' @ show_nat (length command) @ '' bytes, max '' @ show_nat max_command_len
               @ '')''), st)
          else if is_cancelled plan_id rt then (Inl ''command canceled before spawn'', st)
          else (case be_shell env command st of
                  (ending, st') \<Rightarrow>
                    (case ending of
                       Spawn_Failed e \<Rightarrow> Inl (''failed to execute command: '' @ e)
                     | No_Pid \<Rightarrow> Inl ''spawned command has no pid''
                     | Exited stdout stderr code \<Rightarrow> Inr (format_command_output stdout stderr code)
                     | Wait_Failed e \<Rightarrow> Inl (''failed to execute command: '' @ e)
                     | Canceled \<Rightarrow> Inl ''command canceled''
                     | Timed_Out \<Rightarrow> Inl (''command timed out after '' @ show_nat command_timeout_secs @ ''s''), st')))"

section \<open>Manuals and routing\<close>

definition render_provider_doc :: "capability_provider \<Rightarrow> string" where
  "render_provider_doc provider =
     (let manual = trim (cp_capability_md provider)
      in (if manual \<noteq> [] then manual @ [CHR 0x0A] else [])
         @ concat (map (\<lambda>cap. let description = trim (c_description cap) in
             if description = [] then []
             else [CHR 0x0A] @ ''## '' @ c_contract_id cap @ [CHR 0x0A, CHR 0x0A] @ description @ [CHR 0x0A])
             (cp_capabilities provider)))"

text \<open>\<open>answer\<close> is Atlas' reply to the query for that provider.\<close>

definition read_capability_doc ::
  "builtin_env \<Rightarrow> (string \<Rightarrow> string + capability_provider list) \<Rightarrow> capability_call \<Rightarrow> call_result" where
  "read_capability_doc env answer call =
     (case be_doc_args env (cc_args_json call) of
        Inl e \<Rightarrow> error_result call (''invalid read_capability_doc args: '' @ e)
      | Inr asked \<Rightarrow>
          (let provider_id = trim asked in
           if provider_id = [] then error_result call ''read_capability_doc: provider_id is required''
           else (case answer provider_id of
                   Inl e \<Rightarrow> error_result call (''atlas query for '' @ quoted provider_id @ '' failed: '' @ e)
                 | Inr providers \<Rightarrow>
                     (case find (\<lambda>p. cp_id p = provider_id) providers of
                        None \<Rightarrow> error_result call (''no provider '' @ quoted provider_id @ '' registered in atlas'')
                      | Some p \<Rightarrow>
                          (let doc = render_provider_doc p in
                           if doc = [] then
                             error_result call (''provider '' @ quoted provider_id @ '' published no documentation'')
                           else ok_result call (truncate_text doc 12000))))))"

definition run_builtin ::
  "builtin_env \<Rightarrow> plan_runtime \<Rightarrow> string \<Rightarrow> string \<Rightarrow> string \<Rightarrow> store \<Rightarrow> (string + string) \<times> store" where
  "run_builtin env rt plan_id op args st =
     (if op = ''read_file'' then (read_file env args st, st)
      else if op = ''write_file'' then write_file env args st
      else if op = ''patch_file'' then patch_file env args st
      else if op = ''list_dir'' then (list_dir env args st, st)
      else if op = ''run_command'' then run_command env rt plan_id args st
      else (Inl (''unknown builtin: '' @ op), st))"

section \<open>What the confinement guarantees\<close>

definition within :: "pathbuf \<Rightarrow> path \<Rightarrow> bool" where
  "within root q \<longleftrightarrow> take (length (pb_parts root)) q = pb_parts root"

lemma starts_with_within:
  "path_starts_with root p \<Longrightarrow> pb_absolute root \<Longrightarrow> pb_absolute p \<and> within root (pb_parts p)"
  by (cases "pb_absolute p"; cases "pb_parts p"; cases "pb_parts root")
    (auto simp: path_starts_with_def within_def components_def take_map inj_map_eq_map)

text \<open>Opening a resolved path, unless it is a link itself, leads to the very place it names.\<close>

lemma resolved_located:
  assumes "resolve_candidate st cwd candidate = Inr p" and cwd: "folder_at st cwd"
    and link: "not_a_link st (pb_parts p)" and q: "locate create st cwd' p = Inr q"
  shows "q = pb_parts p"
proof (cases "exists_in st cwd candidate")
  case True
  with assms(1) have c: "canonicalize st cwd candidate = Inr p"
    by (auto simp: resolve_candidate_def split: sum.splits)
  note canonicalize_solid [OF this cwd]
  then have "p = \<lparr>pb_absolute = True, pb_parts = pb_parts p, pb_folder = False\<rparr>" by simp
  with q locate_solid [OF \<open>solid st (pb_parts p)\<close> link, of create cwd'] show ?thesis by (simp split: if_splits)
next
  case False
  with assms(1) obtain d r name where r: "canonicalize st cwd d = Inr r"
    and name: "file_name candidate = Some name" and p: "p = r\<lparr>pb_parts := pb_parts r @ [name]\<rparr>"
    by (auto simp: resolve_candidate_def split: option.splits sum.splits)
  note can = canonicalize_solid [OF r cwd]
  from can(1,2) p have pe: "p = \<lparr>pb_absolute = True, pb_parts = pb_parts r @ [name], pb_folder = False\<rparr>" by simp
  show ?thesis
  proof (cases "folder_at st (pb_parts r)")
    case True
    with name have "solid st (pb_parts r @ [name])" by (auto simp: solid_snoc file_name_def split: if_splits)
    with q pe link locate_solid [of st "pb_parts r @ [name]" create cwd'] show ?thesis by (simp split: if_splits)
  next
    case False
    with can obtain ps c body where "pb_parts r = ps @ [c]" "hm_get st (ps @ [c]) = Some (Plain body)"
      by (cases "pb_parts r" rule: rev_cases; cases "the (hm_get st (pb_parts r))")
        (auto simp: folder_at_def not_a_link_def)
    with can walk_into_file [of st ps c body create max_links name] q pe show ?thesis
      by (simp add: locate_def os_parts_def)
  qed
qed

lemma resolved_confined:
  assumes "canonicalize st cwd workspace = Inr root" and "folder_at st cwd"
    and "safe_resolve_in st cwd workspace user_path = Inr p" and "not_a_link st (pb_parts p)"
    and "locate create st cwd' p = Inr q"
  shows "within root q"
proof -
  from assms(1,3) have r: "resolve_candidate st cwd (candidate_path root user_path) = Inr p"
    and w: "path_starts_with root p"
    by (auto simp: safe_resolve_in_def canonical_root_def Let_def split: sum.splits if_splits)
  from resolved_located [OF r assms(2,4,5)] starts_with_within [OF w canonicalize_solid(1) [OF assms(1,2)]]
  show ?thesis by simp
qed

text \<open>The file builtins are confined: with a workspace that exists, whatever path an argument
  names, absolute, through parent folders or through links, a path that passes the check opens a place inside the
  workspace, unless the path it resolves to is itself a symbolic link.\<close>

lemma safe_resolve_confined:
  assumes "canonicalize st cwd workspace = Inr root" and "folder_at st cwd"
    and "safe_resolve_in st cwd workspace user_path = Inr p" and "not_a_link st (pb_parts p)"
    and "locate create st cwd p = Inr q"
  shows "within root q"
  using assms by (rule resolved_confined)

lemma fs_write_changes:
  "fs_write st cwd p body = (r, st') \<Longrightarrow> hm_get st' q \<noteq> hm_get st q \<Longrightarrow> locate True st cwd p = Inr q"
  by (auto simp: fs_write_def split: sum.splits if_splits)

lemma run_builtin_changes:
  assumes "run_builtin env rt plan_id op args st = (r, st')" and "op \<noteq> ''run_command''" and "hm_get st' q \<noteq> hm_get st q"
  obtains user_path p where "safe_resolve env st user_path = Inr p" "locate True st (be_cwd env) p = Inr q"
proof -
  have "\<exists>user_path p. safe_resolve env st user_path = Inr p \<and> locate True st (be_cwd env) p = Inr q"
    if "write_file env args st = (r, st')"
    using that assms(3) by (auto simp: write_file_def split: sum.splits prod.splits dest: fs_write_changes)
  moreover have "\<exists>user_path p. safe_resolve env st user_path = Inr p \<and> locate True st (be_cwd env) p = Inr q"
    if "patch_file env args st = (r, st')"
    using that assms(3) by (auto simp: patch_file_def split: sum.splits prod.splits if_splits dest: fs_write_changes)
  ultimately show thesis
    using assms that by (auto simp: run_builtin_def split: if_splits)
qed

text \<open>C15 (safety). Whatever a builtin other than the shell changes in the file system lies inside the workspace, or was
  reached through a symbolic link: the check accepted a path that is a symbolic link itself, and the place changed is
  where that link leads. The workspace is one that exists.\<close>

theorem file_builtins_confined:
  assumes "canonicalize st (be_cwd env) (workspace_root (be_workspace env) (be_cwd env)) = Inr root"
    and "folder_at st (be_cwd env)"
    and "run_builtin env rt plan_id op args st = (r, st')" and "op \<noteq> ''run_command''"
    and "hm_get st' q \<noteq> hm_get st q"
  shows "within root q
    \<or> (\<exists>user_path p target. safe_resolve env st user_path = Inr p \<and> hm_get st (pb_parts p) = Some (Symlink target)
         \<and> locate True st (be_cwd env) p = Inr q)"
proof -
  from run_builtin_changes [OF assms(3,4,5)] obtain user_path p
    where p: "safe_resolve env st user_path = Inr p" "locate True st (be_cwd env) p = Inr q" .
  then show ?thesis
    using resolved_confined [OF assms(1,2), of user_path p True "be_cwd env" q]
    by (auto simp: safe_resolve_def not_a_link_def)
qed

definition demo_store :: store where
  "demo_store = [([''w''], Folder), ([''etc''], Folder), ([''w'', ''out''], Symlink ''/etc/job''),
     ([''w'', ''note''], Plain ''hello''), ([''etc'', ''keys''], Plain ''hello''), ([''w'', ''log''], Symlink ''/etc/keys'')]"

definition demo_builtins :: builtin_env where
  "demo_builtins = \<lparr>be_workspace = Some ''/w'', be_cwd = [],
     be_read_args = (\<lambda>a. Inr a), be_write_args = (\<lambda>a. Inr (a, ''x'')),
     be_patch_args = (\<lambda>a. Inr (a, ''hello'', ''bye'')), be_list_args = (\<lambda>_. Inr None), be_doc_args = (\<lambda>a. Inr a),
     be_cmd_args = (\<lambda>a. Inr a),
     be_shell = (\<lambda>_ st. (Exited [] [] (Some 0), st))\<rparr>"

text \<open>Three ways out of the workspace. A dangling symbolic link inside it does not count as
  existing, so only its folder is checked, and writing through it creates its target anywhere. A link to a file outside
  is refused when named as it is, but with a slash at the end it does not exist (a file is no folder), and again only its
  folder is checked: the link is accepted without the slash, and the file outside is patched. And an empty
  \<open>ROBONIX_WORKSPACE\<close> is a path that every path starts with: the check then accepts whatever resolves.\<close>

lemma trailing_slash_escapes:
  "isl (safe_resolve demo_builtins demo_store ''log'')"
  "hm_get (snd (run_builtin demo_builtins [] ''p'' ''patch_file'' ''log/'' demo_store)) [''etc'', ''keys''] = Some (Plain ''bye'')"
  by code_simp+

lemma workspace_escapes:
  "hm_get (snd (run_builtin demo_builtins [] ''p'' ''write_file'' ''out'' demo_store)) [''etc'', ''job''] = Some (Plain ''x'')
   \<and> safe_resolve_in st cwd (parse_path []) user_path = resolve_candidate st cwd (parse_path user_path)"
proof
  show "hm_get (snd (run_builtin demo_builtins [] ''p'' ''write_file'' ''out'' demo_store)) [''etc'', ''job''] = Some (Plain ''x'')"
    by code_simp
  have "canonical_root st cwd (parse_path []) = \<lparr>pb_absolute = False, pb_parts = [], pb_folder = False\<rparr>"
    by (simp add: canonical_root_def canonicalize_def locate_def parse_path_def ends_with_def Let_def)
  then show "safe_resolve_in st cwd (parse_path []) user_path = resolve_candidate st cwd (parse_path user_path)"
    by (auto simp: safe_resolve_in_def candidate_path_def path_join_def path_starts_with_def components_def Let_def
        split: sum.split)
qed

section \<open>Witnesses\<close>

lemma demo_workspace:
  "canonicalize demo_store [] (workspace_root (Some ''/w'') []) = Inr \<lparr>pb_absolute = True, pb_parts = [''w''], pb_folder = False\<rparr>"
  by code_simp

lemma safe_resolve_confined_witness:
  "within \<lparr>pb_absolute = True, pb_parts = [''w''], pb_folder = False\<rparr> [''w'', ''note'']"
proof (rule safe_resolve_confined [OF demo_workspace])
  show "safe_resolve_in demo_store [] (workspace_root (Some ''/w'') []) ''/etc/../w/./note''
      = Inr \<lparr>pb_absolute = True, pb_parts = [''w'', ''note''], pb_folder = False\<rparr>" by code_simp
  show "not_a_link demo_store (pb_parts \<lparr>pb_absolute = True, pb_parts = [''w'', ''note''], pb_folder = False\<rparr>)"
    by (simp add: not_a_link_def demo_store_def hm_get_def)
  show "locate True demo_store [] \<lparr>pb_absolute = True, pb_parts = [''w'', ''note''], pb_folder = False\<rparr> = Inr [''w'', ''note'']"
    by code_simp
qed simp

lemma file_builtins_confined_witness:
  "within \<lparr>pb_absolute = True, pb_parts = [''w''], pb_folder = False\<rparr> [''w'', ''note'']
   \<or> (\<exists>user_path p target. safe_resolve demo_builtins demo_store user_path = Inr p
        \<and> hm_get demo_store (pb_parts p) = Some (Symlink target) \<and> locate True demo_store (be_cwd demo_builtins) p = Inr [''w'', ''note''])"
proof (rule file_builtins_confined)
  show "canonicalize demo_store (be_cwd demo_builtins) (workspace_root (be_workspace demo_builtins) (be_cwd demo_builtins))
      = Inr \<lparr>pb_absolute = True, pb_parts = [''w''], pb_folder = False\<rparr>" by code_simp
  show "folder_at demo_store (be_cwd demo_builtins)" by (simp add: demo_builtins_def)
  show "run_builtin demo_builtins [] ''p'' ''patch_file'' ''note'' demo_store
      = (Inr ''patched /w/note'', hm_insert [''w'', ''note''] (Plain ''bye'') demo_store)" by code_simp
qed (simp_all add: demo_store_def hm_get_def)

end
