(* ===== verification/Exec_Dispatch.thy ===== *)
theory Exec_Dispatch
  imports Exec_Builtin
begin

text \<open>
  How the executor runs a call, \<open>system/executor/src/dispatch/mod.rs\<close> with the calls of
  \<open>dispatch/mcp.rs\<close>, \<open>dispatch/async_poll.rs\<close> and \<open>plan_runtime.rs\<close> that open a channel, and the builtins of its own
  process: on the model of Atlas. Each request to Atlas may be lost, or its answer, which the client sees alike; what
  the other clients of Atlas do while a call is under way, the driver, the MCP server and the deadline are
  inputs too (the record \<open>world\<close>).
\<close>

section \<open>Channels as brackets\<close>

text \<open>Open a channel, use it, close it whatever the outcome; whether closing it worked is not looked at.\<close>

definition with_channel ::
  "('s \<Rightarrow> ('e + string \<times> 'p) \<times> 's) \<Rightarrow> (string \<Rightarrow> 's \<Rightarrow> 'q \<times> 's) \<Rightarrow> ('p \<Rightarrow> 's \<Rightarrow> 'r \<times> 's) \<Rightarrow> 's \<Rightarrow> ('e + 'r) \<times> 's" where
  "with_channel open_ch close_ch body s =
     (case open_ch s of
        (Inl e, s') \<Rightarrow> (Inl e, s')
      | (Inr (ch, p), s') \<Rightarrow> (case body p s' of (r, s'') \<Rightarrow> (case close_ch ch s'' of (_, s3) \<Rightarrow> (Inr r, s3))))"

locale channel_broker =
  fixes open_ch :: "'s \<Rightarrow> ('e + string \<times> 'p) \<times> 's"
    and close_ch :: "string \<Rightarrow> 's \<Rightarrow> 'q \<times> 's"
    and channel :: "'s \<Rightarrow> string \<Rightarrow> 'c option"
    and id :: string
    and lossy :: bool
  assumes open_fails: "open_ch s = (Inl e, s') \<Longrightarrow> c \<noteq> id \<or> \<not> lossy \<Longrightarrow> channel s' c = channel s c"
    and open_ok: "open_ch s = (Inr (ch, p), s') \<Longrightarrow> ch = id \<and> (\<forall>c. c \<noteq> id \<longrightarrow> channel s' c = channel s c)"
    and close_others: "close_ch id s = (q, s') \<Longrightarrow> c \<noteq> id \<Longrightarrow> channel s' c = channel s c"
    and close_ok: "close_ch id s = (q, s') \<Longrightarrow> \<not> lossy \<Longrightarrow> channel s' id = None"
begin

lemma released:
  "with_channel open_ch close_ch body s = (Inr r, s') \<Longrightarrow> \<not> lossy \<Longrightarrow> channel s' id = None"
  by (auto simp: with_channel_def split: prod.splits sum.splits dest: open_ok close_ok)

lemma released_absent:
  assumes "with_channel open_ch close_ch body s = (r, s')" and "channel s id = None" and "\<not> lossy"
  shows "channel s' id = None"
proof (cases r)
  case (Inl e)
  with assms have "open_ch s = (Inl e, s')"
    by (auto simp: with_channel_def split: prod.splits sum.splits)
  with assms(2,3) open_fails show ?thesis by metis
next
  case (Inr x)
  with assms(1,3) released show ?thesis by simp
qed

text \<open>The bracket is invisible on the other channels as far as its body is.\<close>

lemma others_kept:
  assumes run: "with_channel open_ch close_ch body s = (r, s')" and c: "c \<noteq> id"
    and body: "\<And>p s r s'. body p s = (r, s') \<Longrightarrow> P (channel s c) \<Longrightarrow> P (channel s' c)" and P: "P (channel s c)"
  shows "P (channel s' c)"
proof (cases "open_ch s")
  case (Pair o1 s1)
  show ?thesis
  proof (cases o1)
    case (Inl e)
    with run Pair have "s' = s1" by (simp add: with_channel_def)
    with open_fails [of s e s1 c] Pair Inl c P show ?thesis by simp
  next
    case (Inr x)
    obtain ch p where x: "x = (ch, p)" by fastforce
    obtain r2 s2 where b: "body p s1 = (r2, s2)" by fastforce
    obtain q s3 where d: "close_ch ch s2 = (q, s3)" by fastforce
    from open_ok [of s ch p s1] Pair Inr x c P have id: "ch = id" and "P (channel s1 c)" by auto
    with body [OF b] close_others [OF d [unfolded id] c] have "P (channel s3 c)" by simp
    with run Pair Inr x b d show ?thesis by (simp add: with_channel_def)
  qed
qed

end

section \<open>The world around a call\<close>

record driver_response =
  dr_ok :: bool
  dr_state :: string
  dr_error :: string

text \<open>A request to Atlas is answered, or lost on the way there, or its answer is lost on the way back.\<close>

datatype atlas_rpc = Rpc_Query | Rpc_Connect nat | Rpc_Disconnect nat

datatype rpc_fate = Answered | Request_Lost string | Reply_Lost string

text \<open>The numbers tell apart the channels that one dispatch opens.\<close>

record world =
  dw_fate :: "atlas_rpc \<Rightarrow> rpc_fate"
  dw_channel :: "nat \<Rightarrow> string"
  dw_now :: "nat \<Rightarrow> u64"
  dw_others :: "nat \<Rightarrow> atlas \<Rightarrow> atlas"
  dw_status_text :: "status \<Rightarrow> string"
  dw_driver :: "string \<Rightarrow> string \<Rightarrow> string + driver_response"
  dw_mcp :: "string \<Rightarrow> string \<Rightarrow> string \<Rightarrow> string + string"
  dw_late :: bool
  dw_builtins :: builtin_env
  dw_cancel_args :: "string \<Rightarrow> string + string \<times> u64 option"
  dw_stop_args :: "string \<Rightarrow> string + string \<times> string \<times> string option"
  dw_status_args :: "string \<Rightarrow> string + string"
  dw_render :: "json \<Rightarrow> string"
  dw_uuid :: "nat \<Rightarrow> string"
  dw_samples :: "u64 \<Rightarrow> plan_runtime list"

record dispatch_state =
  ds_atlas :: atlas
  ds_activated :: "string list"
  ds_commands :: "(string \<times> string) list"
  ds_plans :: plan_runtime
  ds_store :: store

definition atlas_channel :: "dispatch_state \<Rightarrow> string \<Rightarrow> open_channel option" where
  "atlas_channel s = hm_get (at_channels (ds_atlas s))"

text \<open>The calls of \<open>AtlasClient\<close> that a dispatch makes. A uuid has no blanks around it.\<close>

definition channel_uuid :: "world \<Rightarrow> nat \<Rightarrow> string" where
  "channel_uuid w n = trim (dw_channel w n)"

definition query_providers :: "world \<Rightarrow> string \<Rightarrow> dispatch_state \<Rightarrow> string + capability_provider list" where
  "query_providers w provider_id s =
     (case dw_fate w Rpc_Query of
        Answered \<Rightarrow> Inr (query_with_prefix provider_id Kind_Unspecified [] [] Transport_Unspecified (ds_atlas s))
      | Request_Lost e \<Rightarrow> Inl e
      | Reply_Lost e \<Rightarrow> Inl e)"

definition connect_context :: "string \<Rightarrow> string \<Rightarrow> string \<Rightarrow> transport \<Rightarrow> string \<Rightarrow> string" where
  "connect_context consumer_id provider_id contract_id transport e =
     ''ConnectCapability consumer='' @ quoted consumer_id @ '' provider='' @ quoted provider_id
     @ '' contract='' @ quoted contract_id @ '' transport='' @ transport_debug transport @ '': '' @ e"

definition connect_capability ::
  "world \<Rightarrow> nat \<Rightarrow> string \<Rightarrow> string \<Rightarrow> string \<Rightarrow> transport \<Rightarrow> dispatch_state
    \<Rightarrow> (string + string \<times> string) \<times> dispatch_state" where
  "connect_capability w n consumer_id provider_id contract_id transport s =
     (let context = connect_context consumer_id provider_id contract_id transport in
      case connect (channel_uuid w n) (dw_now w n) consumer_id provider_id contract_id transport (ds_atlas s) of
        (answer, a) \<Rightarrow>
          (case dw_fate w (Rpc_Connect n) of
             Request_Lost e \<Rightarrow> (Inl (context e), s)
           | Reply_Lost e \<Rightarrow> (Inl (context e), s\<lparr>ds_atlas := a\<rparr>)
           | Answered \<Rightarrow>
               (case answer of
                  Inl e \<Rightarrow> (Inl (context (dw_status_text w e)), s\<lparr>ds_atlas := a\<rparr>)
                | Inr (ch, endpoint, _) \<Rightarrow> (Inr (ch, endpoint), s\<lparr>ds_atlas := a\<rparr>))))"

definition disconnect_capability :: "world \<Rightarrow> nat \<Rightarrow> string \<Rightarrow> dispatch_state \<Rightarrow> (string + bool) \<times> dispatch_state" where
  "disconnect_capability w n ch s =
     (case disconnect ch (ds_atlas s) of
        (was_open, a) \<Rightarrow>
          (case dw_fate w (Rpc_Disconnect n) of
             Request_Lost e \<Rightarrow> (Inl (''DisconnectCapability '' @ quoted ch @ '': '' @ e), s)
           | Reply_Lost e \<Rightarrow> (Inl (''DisconnectCapability '' @ quoted ch @ '': '' @ e), s\<lparr>ds_atlas := a\<rparr>)
           | Answered \<Rightarrow> (Inr was_open, s\<lparr>ds_atlas := a\<rparr>)))"

definition meanwhile :: "world \<Rightarrow> nat \<Rightarrow> dispatch_state \<Rightarrow> dispatch_state" where
  "meanwhile w n s = s\<lparr>ds_atlas := dw_others w n (ds_atlas s)\<rparr>"

section \<open>MCP calls\<close>

definition mcp_tool_name :: "string \<Rightarrow> string" where
  "mcp_tool_name contract_id = leaf_after (CHR ''/'') contract_id"

definition mcp_execute :: "world \<Rightarrow> capability_call \<Rightarrow> string \<Rightarrow> call_result" where
  "mcp_execute w call endpoint =
     (case dw_mcp w (mcp_tool_name (cc_contract_id call)) (cc_args_json call) endpoint of
        Inr out \<Rightarrow> ok_result call out
      | Inl e \<Rightarrow> error_result call e)"

definition mcp_uri :: "string \<Rightarrow> string" where
  "mcp_uri endpoint =
     (let base = (if starts_with ''http'' endpoint then endpoint else ''http://'' @ endpoint)
      in if contains_str ''/mcp'' base then base
         else rev (dropWhile (\<lambda>c. c = CHR ''/'') (rev base)) @ ''/mcp'')"

section \<open>Activation of skills\<close>

definition is_skill_namespace :: "string \<Rightarrow> bool" where
  "is_skill_namespace ns =
     (case filter (\<lambda>p. p \<noteq> []) (split_on (CHR ''/'') ns) of
        [] \<Rightarrow> False
      | [a] \<Rightarrow> a = ''skill''
      | a # b # _ \<Rightarrow> (a = ''robonix'' \<and> b = ''skill'') \<or> a = ''skill'')"

definition lifecycle_state_label :: "int \<Rightarrow> string" where
  "lifecycle_state_label state =
     (if state = lifecycle_i32 State_Registered then ''REGISTERED''
      else if state = lifecycle_i32 State_Inactive then ''INACTIVE''
      else if state = lifecycle_i32 State_Active then ''ACTIVE''
      else if state = lifecycle_i32 State_Error then ''ERROR''
      else if state = lifecycle_i32 State_Terminated then ''TERMINATED''
      else ''UNSPECIFIED'')"

fun pascal :: "string \<Rightarrow> string" where
  "pascal [] = []"
| "pascal (c # cs) = ascii_upper c # map ascii_lower cs"

definition contract_id_to_service_name :: "string \<Rightarrow> string" where
  "contract_id_to_service_name i =
     concat (map (\<lambda>seg. concat (map pascal (filter (\<lambda>p. p \<noteq> []) (split_on (CHR ''_'') seg))))
       (filter (\<lambda>x. x \<noteq> []) (split_on (CHR ''/'') i)))"

definition deploy_consumer_id :: string where
  "deploy_consumer_id = ''com.robonix.executor.skill_activate''"

definition mark_activated :: "string \<Rightarrow> dispatch_state \<Rightarrow> dispatch_state" where
  "mark_activated provider_id s =
     (if provider_id \<in> set (ds_activated s) then s else s\<lparr>ds_activated := ds_activated s @ [provider_id]\<rparr>)"

definition already_activated :: "string \<Rightarrow> dispatch_state \<Rightarrow> bool" where
  "already_activated provider_id s \<longleftrightarrow> provider_id \<in> set (ds_activated s)"

text \<open>The driver call: dial the endpoint and send \<open>Driver(CMD_ACTIVATE)\<close>; \<open>ds_commands\<close> logs it.\<close>

definition send_activate ::
  "world \<Rightarrow> string \<Rightarrow> string \<Rightarrow> string \<Rightarrow> dispatch_state \<Rightarrow> (string + driver_response) \<times> dispatch_state" where
  "send_activate w provider_id driver_contract endpoint s =
     (let normalized = (if starts_with ''http'' endpoint then endpoint else ''http://'' @ endpoint);
          path = ''/robonix.contracts.'' @ contract_id_to_service_name driver_contract @ ''/Driver''
      in (dw_driver w normalized path,
          meanwhile w 0 (s\<lparr>ds_commands := ds_commands s @ [(provider_id, path)]\<rparr>)))"

definition activate ::
  "world \<Rightarrow> string \<Rightarrow> string \<Rightarrow> dispatch_state \<Rightarrow> (string + unit) \<times> dispatch_state" where
  "activate w provider_id driver_contract s =
     (case with_channel (connect_capability w 0 deploy_consumer_id provider_id driver_contract Transport_Grpc)
             (disconnect_capability w 0) (send_activate w provider_id driver_contract) s of
        (Inl e, s') \<Rightarrow> (Inl (''ConnectCapability('' @ driver_contract @ ''): '' @ e), s')
      | (Inr (Inl e), s') \<Rightarrow> (Inl e, s')
      | (Inr (Inr r), s') \<Rightarrow>
          if \<not> dr_ok r then
            (Inl (''Driver(CMD_ACTIVATE) returned ok=false (state='' @ dr_state r @ '', error='' @ dr_error r @ '')''), s')
          else (Inr (), mark_activated provider_id s'))"

definition ensure_skill_active :: "world \<Rightarrow> string \<Rightarrow> dispatch_state \<Rightarrow> (string + unit) \<times> dispatch_state" where
  "ensure_skill_active w provider_id s =
     (if already_activated provider_id s then (Inr (), s)
      else (case query_providers w provider_id s of
              Inl e \<Rightarrow> (Inl (''query_capabilities('' @ provider_id @ ''): Query kind=Unspecified: '' @ e), s)
            | Inr [] \<Rightarrow> (Inr (), s)
            | Inr (provider # _) \<Rightarrow>
                if \<not> is_skill_namespace (cp_namespace provider) then (Inr (), s)
                else if cp_state provider = lifecycle_i32 State_Active then (Inr (), mark_activated provider_id s)
                else if cp_state provider \<noteq> lifecycle_i32 State_Inactive then
                  (Inl (''skill '' @ provider_id @ '' is '' @ lifecycle_state_label (cp_state provider)
                     @ ''; automatic activation is only valid from INACTIVE. The executor will not repeat ''
                     @ ''CMD_ACTIVATE after an activation error; recover or restart the provider lifecycle first''), s)
                else (case find (\<lambda>c. ends_with ''/driver'' (c_contract_id c)) (cp_capabilities provider) of
                        None \<Rightarrow> (Inl (''skill '' @ provider_id @ '' has no */driver capability''), s)
                      | Some c \<Rightarrow> activate w provider_id (c_contract_id c) s)))"

section \<open>Calls through a channel\<close>

definition timed_mcp ::
  "world \<Rightarrow> nat \<Rightarrow> capability_call \<Rightarrow> nat option \<Rightarrow> string \<Rightarrow> dispatch_state \<Rightarrow> call_result \<times> dispatch_state" where
  "timed_mcp w n call timeout endpoint s =
     (case timeout of
        Some secs \<Rightarrow>
          if dw_late w then error_result call (''MCP call timed out after '' @ show_nat secs @ ''s'')
          else mcp_execute w call endpoint
      | None \<Rightarrow> mcp_execute w call endpoint,
      meanwhile w n s)"

text \<open>\<open>poll_status\<close> and \<open>cancel_async_call\<close>: an MCP call to the status or cancel contract of a running call.\<close>

definition companion_call :: "string \<Rightarrow> (json \<Rightarrow> string) \<Rightarrow> string \<Rightarrow> string \<Rightarrow> string \<Rightarrow> capability_call" where
  "companion_call call_id render provider_id contract_id run_id =
     \<lparr>cc_call_id = call_id, cc_provider_id = provider_id, cc_contract_id = contract_id,
      cc_args_json = run_args render run_id\<rparr>"

definition call_companion ::
  "world \<Rightarrow> nat \<Rightarrow> string \<Rightarrow> capability_call \<Rightarrow> dispatch_state \<Rightarrow> (string + string) \<times> dispatch_state" where
  "call_companion w n consumer_id call s =
     (case with_channel
             (connect_capability w n consumer_id (cc_provider_id call) (cc_contract_id call) Transport_Mcp)
             (disconnect_capability w n) (timed_mcp w n call None) s of
        (Inl e, s') \<Rightarrow> (Inl e, s')
      | (Inr r, s') \<Rightarrow> (if cr_success r then Inr (cr_output r) else Inl (cr_error r), s'))"

definition poll_status ::
  "world \<Rightarrow> nat \<Rightarrow> string \<Rightarrow> string \<Rightarrow> string \<Rightarrow> string \<Rightarrow> dispatch_state \<Rightarrow> (string + string) \<times> dispatch_state" where
  "poll_status w n consumer_id provider_id status_contract run_id s =
     call_companion w n consumer_id
       (companion_call (''status-'' @ dw_uuid w n) (dw_render w) provider_id status_contract run_id) s"

definition cancel_async_call ::
  "world \<Rightarrow> nat \<Rightarrow> string \<Rightarrow> running_async_call \<Rightarrow> dispatch_state \<Rightarrow> (string + unit) \<times> dispatch_state" where
  "cancel_async_call w n consumer_id running s =
     (case call_companion w n consumer_id
             (companion_call (''cancel-'' @ dw_uuid w n) (dw_render w) (ra_provider_id running) (ra_cancel_contract running)
               (ra_run_id running)) s of
        (Inl e, s') \<Rightarrow> (Inl e, s')
      | (Inr _, s') \<Rightarrow> (Inr (), s'))"

section \<open>The builtins of the executor\<close>

text \<open>\<open>cancel_plan_control\<close>: each running call of the plan is cancelled over a channel of its own.\<close>

fun cancel_calls ::
  "world \<Rightarrow> nat \<Rightarrow> string \<Rightarrow> running_async_call list \<Rightarrow> dispatch_state \<Rightarrow> string list \<times> dispatch_state" where
  "cancel_calls w n consumer_id [] s = ([], s)"
| "cancel_calls w n consumer_id (running # calls) s =
     (case cancel_async_call w n consumer_id running s of
        (res, s') \<Rightarrow>
          (case cancel_calls w (Suc n) consumer_id calls s' of
             (errors, s'') \<Rightarrow>
               ((case res of Inl e \<Rightarrow> [ra_call_id running @ '': '' @ e] | Inr _ \<Rightarrow> []) @ errors, s'')))"

definition cancel_plan_on_atlas :: "world \<Rightarrow> string \<Rightarrow> string \<Rightarrow> u64 \<Rightarrow> dispatch_state \<Rightarrow> (bool \<times> string) \<times> dispatch_state" where
  "cancel_plan_on_atlas w self plan_id wait_ms s =
     (case begin_cancel plan_id (ds_plans s) of
        (Inl _, _) \<Rightarrow> ((True, not_running_message plan_id), s)
      | (Inr calls, rt) \<Rightarrow>
          (case cancel_calls w 2 self calls (s\<lparr>ds_plans := rt\<rparr>) of
             (errors, s') \<Rightarrow>
               (let completed = wait_until_all_inactive [plan_id] (dw_samples w wait_ms)
                in ((completed, cancel_message plan_id completed (length calls) errors), s'))))"

definition run_cancel_plan :: "world \<Rightarrow> string \<Rightarrow> capability_call \<Rightarrow> dispatch_state \<Rightarrow> call_result \<times> dispatch_state" where
  "run_cancel_plan w self call s =
     (case dw_cancel_args w (cc_args_json call) of
        Inl e \<Rightarrow> (error_result call (''invalid cancel_plan args: '' @ e), s)
      | Inr (plan_id, wait_ms) \<Rightarrow>
          (case cancel_plan_on_atlas w self plan_id (case wait_ms of None \<Rightarrow> default_cancel_wait_ms | Some ms \<Rightarrow> ms) s of
             ((_, output), s') \<Rightarrow> (ok_result call output, s')))"

definition execute_builtin ::
  "world \<Rightarrow> string \<Rightarrow> string \<Rightarrow> capability_call \<Rightarrow> dispatch_state \<Rightarrow> call_result \<times> dispatch_state" where
  "execute_builtin w self plan_id call s =
     (let op = leaf_after (CHR ''/'') (cc_contract_id call) in
      if op = ''cancel_plan'' then run_cancel_plan w self call s
      else if op = ''stop_plan_at'' then
        (case stop_plan_at_builtin (dw_stop_args w) call (ds_plans s) of (r, rt) \<Rightarrow> (r, s\<lparr>ds_plans := rt\<rparr>))
      else if op = ''get_plan_status'' then
        (get_plan_status_builtin (dw_status_args w) (dw_render w) call (ds_plans s), s)
      else if op = ''get_all_plans'' then (get_all_plans_builtin (dw_render w) call (ds_plans s), s)
      else if op = ''read_capability_doc'' then
        (read_capability_doc (dw_builtins w)
           (\<lambda>i. case query_providers w i s of Inl _ \<Rightarrow> Inl ''Query kind=Unspecified'' | Inr ps \<Rightarrow> Inr ps) call, s)
      else (case run_builtin (dw_builtins w) (ds_plans s) plan_id op (cc_args_json call) (ds_store s) of
              (r, st) \<Rightarrow> (case r of Inr out \<Rightarrow> ok_result call out | Inl e \<Rightarrow> error_result call e,
                 meanwhile w 1 (s\<lparr>ds_store := st\<rparr>))))"

section \<open>Dispatch\<close>

definition dispatch_call ::
  "world \<Rightarrow> string \<Rightarrow> string \<Rightarrow> capability_call \<Rightarrow> nat option \<Rightarrow> dispatch_state \<Rightarrow> call_result \<times> dispatch_state" where
  "dispatch_call w self plan_id call timeout s =
     (if cc_provider_id call = self then execute_builtin w self plan_id call s
      else (case ensure_skill_active w (cc_provider_id call) s of
              (Inl e, s') \<Rightarrow> (error_result call (''Driver(CMD_ACTIVATE) failed: '' @ e), s')
            | (Inr _, s') \<Rightarrow>
                (case with_channel
                        (connect_capability w 1 self (cc_provider_id call) (cc_contract_id call) Transport_Mcp)
                        (disconnect_capability w 1) (timed_mcp w 1 call timeout) s' of
                   (Inl e, s'') \<Rightarrow> (error_result call (''ConnectCapability failed: '' @ e), s'')
                 | (Inr r, s'') \<Rightarrow> (r, s''))))"

section \<open>No channel is left behind\<close>

definition own_channel :: "world \<Rightarrow> nat \<Rightarrow> string" where
  "own_channel w n = ''ch-'' @ channel_uuid w n"

lemma trim_own_channel: "trim (own_channel w n) = own_channel w n"
proof -
  have "trim (''ch-'' @ trim u) = ''ch-'' @ trim u" for u
  proof (cases "trim u = []")
    case True
    show ?thesis unfolding True by code_simp
  next
    case False
    then have "\<not> is_ws (last (trim u))" using trim_by_last unfolding trim_def by blast
    with False have "\<not> is_ws (hd (''ch-'' @ trim u)) \<and> \<not> is_ws (last (''ch-'' @ trim u))"
      by (simp add: is_ws_def)
    then show ?thesis using trim_by_id unfolding trim_def by blast
  qed
  then show ?thesis by (simp add: own_channel_def channel_uuid_def)
qed

text \<open>A channel can stay open only if Atlas' answer to its opening, or the request to close it, is lost.\<close>

definition lossy :: "world \<Rightarrow> nat \<Rightarrow> bool" where
  "lossy w n \<longleftrightarrow> (case dw_fate w (Rpc_Connect n) of Reply_Lost _ \<Rightarrow> True | _ \<Rightarrow> False)
     \<or> (case dw_fate w (Rpc_Disconnect n) of Request_Lost _ \<Rightarrow> True | _ \<Rightarrow> False)"

interpretation atlas: channel_broker "connect_capability w n consumer_id provider_id contract_id transport"
    "disconnect_capability w n" atlas_channel "own_channel w n" "lossy w n"
  for w n consumer_id provider_id contract_id transport
proof unfold_locales
  fix s s' :: dispatch_state and e ch p c q
  note spec = connect_cases [where uuid = "channel_uuid w n" and now = "dw_now w n" and cons = consumer_id
      and i = provider_id and c = contract_id and t = transport and st = "ds_atlas s"]
  obtain b a where b: "connect (channel_uuid w n) (dw_now w n) consumer_id provider_id contract_id transport (ds_atlas s)
      = (b, a)" by fastforce
  note spec = spec [unfolded b]
  show "connect_capability w n consumer_id provider_id contract_id transport s = (Inl e, s') \<Longrightarrow>
      c \<noteq> own_channel w n \<or> \<not> lossy w n \<Longrightarrow> atlas_channel s' c = atlas_channel s c"
    using spec by (cases b) (auto simp: connect_capability_def Let_def b lossy_def own_channel_def atlas_channel_def
        split: rpc_fate.splits)
  show "connect_capability w n consumer_id provider_id contract_id transport s = (Inr (ch, p), s') \<Longrightarrow>
      ch = own_channel w n \<and> (\<forall>c. c \<noteq> own_channel w n \<longrightarrow> atlas_channel s' c = atlas_channel s c)"
    using spec by (cases b) (auto simp: connect_capability_def Let_def b own_channel_def atlas_channel_def split: rpc_fate.splits)
  have own: "own_channel w n \<noteq> []" by (simp add: own_channel_def)
  show "disconnect_capability w n (own_channel w n) s = (q, s') \<Longrightarrow> c \<noteq> own_channel w n \<Longrightarrow>
      atlas_channel s' c = atlas_channel s c"
    using trim_own_channel [of w n] own
    by (auto simp: disconnect_capability_def disconnect_def atlas_channel_def Let_def split: rpc_fate.splits)
  show "disconnect_capability w n (own_channel w n) s = (q, s') \<Longrightarrow> \<not> lossy w n \<Longrightarrow>
      atlas_channel s' (own_channel w n) = None"
    using trim_own_channel [of w n] own
    by (auto simp: disconnect_capability_def disconnect_def atlas_channel_def lossy_def Let_def split: rpc_fate.splits)
qed

definition absent_in :: "string \<Rightarrow> dispatch_state \<Rightarrow> bool" where
  "absent_in c s \<longleftrightarrow> atlas_channel s c = None"

text \<open>Other clients never open a channel under this call's ids.\<close>

definition leaves_ids :: "world \<Rightarrow> bool" where
  "leaves_ids w \<longleftrightarrow> (\<forall>n k a. hm_get (at_channels a) (own_channel w k) = None \<longrightarrow>
     hm_get (at_channels (dw_others w n a)) (own_channel w k) = None)"

definition spoiled :: "world \<Rightarrow> string \<Rightarrow> bool" where
  "spoiled w c \<longleftrightarrow> (\<exists>n. own_channel w n = c \<and> lossy w n)"

lemma absent_bracket:
  assumes "with_channel (connect_capability w n consumer_id provider_id contract_id transport)
      (disconnect_capability w n) body s = (r, s')"
    and "absent_in (own_channel w k) s" and "\<not> spoiled w (own_channel w k)"
    and "\<And>p s r s'. body p s = (r, s') \<Longrightarrow> absent_in (own_channel w k) s \<Longrightarrow> absent_in (own_channel w k) s'"
  shows "absent_in (own_channel w k) s'"
proof (cases "own_channel w k = own_channel w n")
  case True
  with assms(3) have "\<not> lossy w n" by (auto simp: spoiled_def)
  with True assms(1,2) atlas.released_absent show ?thesis by (simp add: absent_in_def)
next
  case False
  from atlas.others_kept [OF assms(1) False, where P = "\<lambda>c. c = None"] assms(2,4)
  show ?thesis by (auto simp: absent_in_def)
qed

lemma absent_meanwhile: "leaves_ids w \<Longrightarrow> absent_in (own_channel w k) s \<Longrightarrow> absent_in (own_channel w k) (meanwhile w n s)"
  by (simp add: leaves_ids_def absent_in_def meanwhile_def atlas_channel_def)

lemma absent_simps [simp]:
  "absent_in c (mark_activated i s) = absent_in c s"
  "absent_in c (s\<lparr>ds_commands := cmds\<rparr>) = absent_in c s"
  "absent_in c (s\<lparr>ds_plans := rt\<rparr>) = absent_in c s"
  "absent_in c (s\<lparr>ds_store := st\<rparr>) = absent_in c s"
  by (simp_all add: absent_in_def atlas_channel_def mark_activated_def)

lemma absent_timed:
  "leaves_ids w \<Longrightarrow> timed_mcp w n call timeout endpoint s = (r, s') \<Longrightarrow> absent_in (own_channel w k) s \<Longrightarrow>
     absent_in (own_channel w k) s'"
  using absent_meanwhile by (auto simp: timed_mcp_def)

lemma absent_ensure:
  assumes w: "leaves_ids w" and run: "ensure_skill_active w i s = (r, s')" and a: "absent_in (own_channel w k) s"
    and ok: "\<not> spoiled w (own_channel w k)"
  shows "absent_in (own_channel w k) s'"
proof -
  have body: "absent_in (own_channel w k) s2"
    if "send_activate w i c endpoint s1 = (q, s2)" "absent_in (own_channel w k) s1" for c endpoint s1 q s2
    using that absent_meanwhile [OF w] by (auto simp: send_activate_def Let_def)
  have "absent_in (own_channel w k) s'" if "activate w i c s = (r, s')" for c r s'
    using that absent_bracket [OF _ a ok body]
    by (auto simp: activate_def split: prod.splits sum.splits if_splits)
  with run a show ?thesis
    by (auto simp: ensure_skill_active_def split: if_splits list.splits option.splits sum.splits)
qed

lemma absent_cancel:
  assumes "leaves_ids w" and "cancel_async_call w n i running s = (r, s')" and "absent_in (own_channel w k) s"
    and "\<not> spoiled w (own_channel w k)"
  shows "absent_in (own_channel w k) s'"
  using assms(2) absent_bracket [OF _ assms(3,4) absent_timed [OF assms(1)]]
  by (auto simp: cancel_async_call_def call_companion_def split: prod.splits sum.splits if_splits)

lemma absent_cancels:
  "leaves_ids w \<Longrightarrow> cancel_calls w n i calls s = (r, s') \<Longrightarrow> absent_in (own_channel w k) s \<Longrightarrow>
     \<not> spoiled w (own_channel w k) \<Longrightarrow> absent_in (own_channel w k) s'"
  by (induction calls arbitrary: n s r) (auto split: prod.splits dest: absent_cancel)

lemma absent_builtin:
  assumes "leaves_ids w" and "execute_builtin w self plan_id call s = (r, s')" and "absent_in (own_channel w k) s"
    and "\<not> spoiled w (own_channel w k)"
  shows "absent_in (own_channel w k) s'"
proof -
  have "absent_in (own_channel w k) s2" if "cancel_plan_on_atlas w self i ms s = (q, s2)" for i ms q s2
    using that assms absent_cancels [of w 2 self _ "s\<lparr>ds_plans := _\<rparr>"]
    by (auto simp: cancel_plan_on_atlas_def Let_def split: prod.splits sum.splits)
  then have "absent_in (own_channel w k) s2" if "run_cancel_plan w self call s = (q, s2)" for q s2
    using that assms by (auto simp: run_cancel_plan_def split: prod.splits sum.splits)
  with assms show ?thesis
    by (auto simp: execute_builtin_def Let_def absent_meanwhile split: if_splits prod.splits)
qed

text \<open>C16 (safety). A dispatch leaves no channel behind: however it ends, as a builtin that cancels other calls, with a failed
  activation, a refused connection, a tool error or a deadline, and whatever the other clients of Atlas do meanwhile, the
  channels it opened are closed again; only one whose connection Atlas granted in an answer that was lost, or whose
  disconnection did not reach Atlas, can stay.\<close>

theorem dispatch_leaves_no_channel:
  assumes "leaves_ids w" and "absent_in (own_channel w k) s"
    and "dispatch_call w self plan_id call timeout s = (r, s')"
  shows "absent_in (own_channel w k) s' \<or> (\<exists>n. own_channel w n = own_channel w k \<and> lossy w n)"
proof (cases "spoiled w (own_channel w k)")
  case False
  have mcp: "absent_in (own_channel w k) s2"
    if "with_channel (connect_capability w 1 self i c Transport_Mcp) (disconnect_capability w 1)
        (timed_mcp w 1 call timeout) s1 = (q, s2)" and "absent_in (own_channel w k) s1" for i c s1 q s2
    using that False by (rule absent_bracket) (rule absent_timed [OF assms(1)])
  have "absent_in (own_channel w k) s'"
    using assms(2,3) absent_ensure [OF assms(1)] mcp False absent_builtin [OF assms(1)]
    by (auto simp: dispatch_call_def split: prod.splits sum.splits if_splits)
  then show ?thesis by simp
qed (simp add: spoiled_def)

section \<open>Activation\<close>

lemma with_channel_commands:
  assumes "with_channel (connect_capability w n consumer_id provider_id contract_id transport)
      (disconnect_capability w n) body s = (r, s')"
    and body: "\<And>p s1. ds_commands s1 = ds_commands s \<Longrightarrow> ds_commands (snd (body p s1)) \<in> C"
    and "ds_commands s \<in> C"
  shows "ds_commands s' \<in> C"
proof -
  have "ds_commands x2 \<in> C" if "body p (s\<lparr>ds_atlas := a\<rparr>) = (q, x2)" for p a q x2
    using body [of "s\<lparr>ds_atlas := a\<rparr>" p] that by simp
  with assms(1,3) show ?thesis
    by (auto simp: with_channel_def connect_capability_def disconnect_capability_def Let_def
        split: prod.splits sum.splits rpc_fate.splits)
qed

lemma meanwhile_commands [simp]: "ds_commands (meanwhile w n s) = ds_commands s"
  by (simp add: meanwhile_def)

lemma mark_commands [simp]: "ds_commands (mark_activated i s) = ds_commands s"
  by (simp add: mark_activated_def)

definition activation_path :: "string \<Rightarrow> string" where
  "activation_path contract_id = ''/robonix.contracts.'' @ contract_id_to_service_name contract_id @ ''/Driver''"

lemma activate_commands:
  assumes "activate w i c s = (r, s')"
  shows "ds_commands s' \<in> {ds_commands s, ds_commands s @ [(i, activation_path c)]}"
proof -
  have "ds_commands s2 \<in> {ds_commands s, ds_commands s @ [(i, activation_path c)]}"
    if "with_channel (connect_capability w 0 deploy_consumer_id i c Transport_Grpc) (disconnect_capability w 0)
      (send_activate w i c) s = (q, s2)" for q s2
    using that
    by (rule with_channel_commands) (auto simp: send_activate_def activation_path_def Let_def)
  with assms show ?thesis
    by (auto simp: activate_def split: prod.splits sum.splits if_splits)
qed

lemma timed_commands:
  assumes "with_channel (connect_capability w n i p c Transport_Mcp) (disconnect_capability w n)
      (timed_mcp w n call timeout) s = (q, s')"
  shows "ds_commands s' = ds_commands s"
proof -
  from assms have "ds_commands s' \<in> {ds_commands s}"
    by (rule with_channel_commands) (auto simp: timed_mcp_def)
  then show ?thesis by simp
qed

lemma cancel_commands: "cancel_async_call w n i running s = (r, s') \<Longrightarrow> ds_commands s' = ds_commands s"
  by (auto simp: cancel_async_call_def call_companion_def split: prod.splits sum.splits if_splits dest: timed_commands)

lemma cancels_commands: "cancel_calls w n i calls s = (r, s') \<Longrightarrow> ds_commands s' = ds_commands s"
proof (induction calls arbitrary: n s r)
  case (Cons running calls)
  then show ?case using cancel_commands by (fastforce split: prod.splits)
qed simp

lemma builtin_commands: "execute_builtin w self plan_id call s = (r, s') \<Longrightarrow> ds_commands s' = ds_commands s"
  using cancels_commands [of w 2 self _ "s\<lparr>ds_plans := _\<rparr>"]
  by (auto simp: execute_builtin_def run_cancel_plan_def cancel_plan_on_atlas_def Let_def
      split: if_splits prod.splits sum.splits)

lemma dispatch_commands:
  assumes "dispatch_call w self plan_id call timeout s = (r, s')" and "cc_provider_id call \<noteq> self"
  shows "ds_commands s' = ds_commands (snd (ensure_skill_active w (cc_provider_id call) s))"
  using assms by (auto simp: dispatch_call_def split: prod.splits sum.splits dest: timed_commands)

text \<open>A dispatch sends a lifecycle command only to a skill that Atlas lists as INACTIVE and that this
  executor has not activated before: one CMD_ACTIVATE, to a driver contract the skill declares.\<close>

lemma activates_inactive_skills_only:
  assumes "dispatch_call w self plan_id call timeout s = (r, s')" and "ds_commands s' \<noteq> ds_commands s"
  shows "cc_provider_id call \<noteq> self \<and> \<not> already_activated (cc_provider_id call) s
    \<and> (\<exists>p \<in> set (query_with_prefix (cc_provider_id call) Kind_Unspecified [] [] Transport_Unspecified (ds_atlas s)).
          is_skill_namespace (cp_namespace p) \<and> cp_state p = lifecycle_i32 State_Inactive
          \<and> (\<exists>c \<in> set (cp_capabilities p). ends_with ''/driver'' (c_contract_id c)
               \<and> ds_commands s' = ds_commands s @ [(cc_provider_id call, activation_path (c_contract_id c))]))"
proof -
  let ?i = "cc_provider_id call"
  have ext: "?i \<noteq> self" using assms builtin_commands by (auto simp: dispatch_call_def)
  obtain q s1 where e: "ensure_skill_active w ?i s = (q, s1)" by fastforce
  from dispatch_commands [OF assms(1) ext] e assms(2)
  have c: "ds_commands s' = ds_commands s1" "ds_commands s1 \<noteq> ds_commands s" by auto
  then obtain p ps d where "\<not> already_activated ?i s"
    and p: "query_with_prefix ?i Kind_Unspecified [] [] Transport_Unspecified (ds_atlas s) = p # ps"
      "is_skill_namespace (cp_namespace p)" "cp_state p = lifecycle_i32 State_Inactive"
    and d: "find (\<lambda>c. ends_with ''/driver'' (c_contract_id c)) (cp_capabilities p) = Some d"
    and act: "activate w ?i (c_contract_id d) s = (q, s1)"
    using e by (auto simp: ensure_skill_active_def query_providers_def
        split: if_splits list.splits option.splits sum.splits rpc_fate.splits)
  moreover from d have "d \<in> set (cp_capabilities p)" "ends_with ''/driver'' (c_contract_id d)"
    by (auto simp: find_Some_iff)
  ultimately show ?thesis using activate_commands [OF act] c ext by auto
qed

lemma concat_nested: "concat (concat xss) = concat (map concat xss)"
  by (induction xss) auto

lemma pascal_lower: "(\<And>c. c \<in> set p \<Longrightarrow> ascii_lower c = c) \<Longrightarrow> pascal p = capitalize p"
  by (cases p) (auto intro: map_idI)

lemma service_name_lower:
  assumes "\<And>c. c \<in> set i \<Longrightarrow> ascii_lower c = c"
  shows "contract_id_to_service_name i = driver_service_name i"
proof -
  have "map pascal (filter (\<lambda>p. p \<noteq> []) (split_on (CHR ''_'') seg))
      = map capitalize (filter (\<lambda>p. p \<noteq> []) (split_on (CHR ''_'') seg))"
    if "seg \<in> set (filter (\<lambda>x. x \<noteq> []) (split_on (CHR ''/'') i))" for seg
    using that split_on_pieces assms by (intro map_cong refl pascal_lower) (auto, blast)
  then have "map (\<lambda>seg. concat (map pascal (filter (\<lambda>p. p \<noteq> []) (split_on (CHR ''_'') seg))))
        (filter (\<lambda>x. x \<noteq> []) (split_on (CHR ''/'') i))
      = map (\<lambda>seg. concat (map capitalize (filter (\<lambda>p. p \<noteq> []) (split_on (CHR ''_'') seg))))
        (filter (\<lambda>x. x \<noteq> []) (split_on (CHR ''/'') i))"
    by - (rule map_cong [OF refl], rule arg_cong [where f = concat], blast)
  moreover have "driver_service_name i
      = concat (map (\<lambda>seg. concat (map capitalize (filter (\<lambda>p. p \<noteq> []) (split_on (CHR ''_'') seg))))
          (filter (\<lambda>x. x \<noteq> []) (split_on (CHR ''/'') i)))"
    by (simp add: driver_service_name_def map_concat concat_nested comp_def)
  ultimately show ?thesis unfolding contract_id_to_service_name_def by (simp only:)
qed

text \<open>The executor calls the very gRPC method that Atlas made the driver declare, as long as
  the contract id has no capital letter; a capital inside a word of the id makes the two differ, and the
  activation of such a skill calls a method that does not exist.\<close>

lemma driver_path_agrees:
  assumes "map ascii_lower contract_id = contract_id"
  shows "activation_path contract_id = driver_method contract_id
    \<and> activation_path ''robonix/skill/pickUp/driver'' \<noteq> driver_method ''robonix/skill/pickUp/driver''"
proof
  have "ascii_lower c = c" if "c \<in> set contract_id" for c
    using that arg_cong [OF assms, of "\<lambda>xs. map2 (=) xs contract_id"] by (metis assms map_eq_conv map_ident)
  from service_name_lower [OF this] show "activation_path contract_id = driver_method contract_id"
    by (simp add: activation_path_def driver_method_def driver_service_def)
  show "activation_path ''robonix/skill/pickUp/driver'' \<noteq> driver_method ''robonix/skill/pickUp/driver''"
    by code_simp
qed

section \<open>Witnesses\<close>

text \<open>A skill that waits for its activation and offers one MCP tool.\<close>

definition demo_skill_atlas :: atlas where
  "demo_skill_atlas = atlas_run no_json [] [
     Op_Register ''u'' ''r'' 0 ''pick'' Kind_Service ''robonix/skill/pick'' [] [],
     Op_Declare show_nat ''pick'' ''robonix/skill/pick/driver'' Transport_Grpc ''h:1''
       (Some (Wire_Grpc [] (driver_service ''robonix/skill/pick/driver'') (driver_method ''robonix/skill/pick/driver''))) [],
     Op_Declare show_nat ''pick'' ''robonix/skill/pick/run'' Transport_Mcp ''h:2'' (Some (Wire_Mcp [])) [],
     Op_Set_State ''pick'' State_Inactive []]"

definition demo_builtin_env :: builtin_env where
  "demo_builtin_env = \<lparr>be_workspace = None, be_cwd = [], be_read_args = Inl, be_write_args = Inl, be_patch_args = Inl,
     be_list_args = Inl, be_doc_args = Inr, be_cmd_args = Inl, be_shell = (\<lambda>_ st. (No_Pid, st))\<rparr>"

definition demo_world :: world where
  "demo_world = \<lparr>dw_fate = (\<lambda>_. Answered), dw_channel = show_nat, dw_now = (\<lambda>_. 7), dw_others = (\<lambda>_ a. a),
     dw_status_text = (\<lambda>_. []), dw_driver = (\<lambda>_ _. Inr \<lparr>dr_ok = True, dr_state = ''ACTIVE'', dr_error = []\<rparr>),
     dw_mcp = (\<lambda>_ _ _. Inr ''done''), dw_late = False, dw_builtins = demo_builtin_env,
     dw_cancel_args = (\<lambda>a. Inr (a, None)), dw_stop_args = Inl, dw_status_args = Inl, dw_render = (\<lambda>_. []),
     dw_uuid = show_nat, dw_samples = (\<lambda>_. [])\<rparr>"

definition demo_call :: "string \<Rightarrow> string \<Rightarrow> string \<Rightarrow> capability_call" where
  "demo_call provider contract args =
     \<lparr>cc_call_id = ''c'', cc_provider_id = provider, cc_contract_id = contract, cc_args_json = args\<rparr>"

definition demo_ready :: dispatch_state where
  "demo_ready = \<lparr>ds_atlas = demo_skill_atlas, ds_activated = [], ds_commands = [],
     ds_plans = [(''7'', fresh_run\<lparr>pr_running_async := [(''a'', \<lparr>ra_call_id = ''a'', ra_provider_id = ''pick'',
       ra_cancel_contract = ''robonix/skill/pick/run'', ra_run_id = ''r''\<rparr>)]\<rparr>)], ds_store = []\<rparr>"

definition demo_dispatch :: "call_result \<times> dispatch_state" where
  "demo_dispatch = dispatch_call demo_world ''executor'' ''1'' (demo_call ''pick'' ''robonix/skill/pick/run'' []) None demo_ready"

lemma demo_dispatch_outcome:
  "cr_success (fst demo_dispatch)"
  "ds_commands (snd demo_dispatch) = [(''pick'', driver_method ''robonix/skill/pick/driver'')]"
  by code_simp+

lemma demo_channels: "at_channels demo_skill_atlas = []"
  by code_simp

text \<open>A request to close that is lost is not repeated: the channel stays in Atlas after the call has succeeded.\<close>

lemma a_lost_disconnect_leaks:
  "case dispatch_call (demo_world\<lparr>dw_fate := (\<lambda>r. if r = Rpc_Disconnect 1 then Request_Lost ''unavailable'' else Answered)\<rparr>)
       ''executor'' ''1'' (demo_call ''pick'' ''robonix/skill/pick/run'' []) None demo_ready of
     (r, s) \<Rightarrow> cr_success r \<and> map fst (at_channels (ds_atlas s)) = [own_channel demo_world 1]"
  by code_simp

text \<open>The builtin that cancels a plan with a running call, over a channel of its own.\<close>

definition demo_cancelled :: "call_result \<times> dispatch_state" where
  "demo_cancelled = dispatch_call demo_world ''executor'' ''1'' (demo_call ''executor'' ''builtin/cancel_plan'' ''7'') None demo_ready"

theorem dispatch_leaves_no_channel_witness:
  "absent_in (own_channel demo_world 2) (snd demo_cancelled) \<and> cr_success (fst demo_cancelled)
   \<and> absent_in (own_channel demo_world 1) (snd demo_dispatch)"
proof -
  have ids: "leaves_ids demo_world" by (simp add: leaves_ids_def demo_world_def)
  have start: "absent_in (own_channel demo_world k) demo_ready" for k
    by (simp add: absent_in_def atlas_channel_def demo_ready_def demo_channels)
  have safe: "\<not> lossy demo_world n" for n by (simp add: lossy_def demo_world_def)
  have "absent_in (own_channel demo_world k) (snd d)"
    if "dispatch_call demo_world ''executor'' ''1'' call None demo_ready = d" for k call d
    using dispatch_leaves_no_channel [OF ids start, of "''executor''" "''1''" call None "fst d" "snd d" k] that safe by simp
  moreover have "cr_success (fst demo_cancelled)" by code_simp
  ultimately show ?thesis by (simp add: demo_dispatch_def demo_cancelled_def)
qed

lemma activates_inactive_skills_only_witness:
  "\<exists>p \<in> set (query_with_prefix ''pick'' Kind_Unspecified [] [] Transport_Unspecified demo_skill_atlas).
     cp_state p = lifecycle_i32 State_Inactive"
proof -
  have d: "dispatch_call demo_world ''executor'' ''1'' (demo_call ''pick'' ''robonix/skill/pick/run'' []) None demo_ready
      = (fst demo_dispatch, snd demo_dispatch)"
    by (simp add: demo_dispatch_def)
  from activates_inactive_skills_only [OF d] demo_dispatch_outcome(2) show ?thesis
    by (auto simp: demo_ready_def demo_call_def)
qed

lemma driver_path_agrees_witness:
  "activation_path ''robonix/skill/explore/driver'' = driver_method ''robonix/skill/explore/driver''"
proof -
  have "map ascii_lower ''robonix/skill/explore/driver'' = ''robonix/skill/explore/driver''" by code_simp
  from driver_path_agrees [OF this] show ?thesis by blast
qed

end
