(* ===== verification/Exec_Control.thy ===== *)
theory Exec_Control
  imports Plan_Control
begin

text \<open>
  The control handlers of \<open>system/executor/src/service.rs\<close>: \<open>control_plan\<close>, \<open>cancel_all\<close>, \<open>list_active_plans\<close> and
  the health report. \<open>send\<close> is the answer of a provider to a cancel call, \<open>samples\<close> the tables seen while
  waiting for the given time. A handler returns its response, the calls it cancelled and the next table.
\<close>

section \<open>Requests and responses\<close>

record control_request =
  cq_action :: string
  cq_plan_id :: string
  cq_op_id :: string
  cq_when :: string
  cq_wait_ms :: u64

record control_response =
  ct_success :: bool
  ct_completed :: bool
  ct_message :: string
  ct_error :: string

definition wait_or_default :: "u64 \<Rightarrow> u64" where
  "wait_or_default wait_ms = (if wait_ms = 0 then 5000 else wait_ms)"

definition control_cancel ::
  "(running_async_call \<Rightarrow> string + unit) \<Rightarrow> (u64 \<Rightarrow> plan_runtime list) \<Rightarrow> control_request \<Rightarrow> plan_runtime
    \<Rightarrow> control_response \<times> running_async_call list \<times> plan_runtime" where
  "control_cancel send samples req rt =
     (case cancel_plan_control send (samples (wait_or_default (cq_wait_ms req))) (cq_plan_id req) rt of
        ((completed, message), calls, rt') \<Rightarrow>
          (\<lparr>ct_success = True, ct_completed = completed, ct_message = message, ct_error = []\<rparr>, calls, rt'))"

definition control_cancel_all ::
  "(u64 \<Rightarrow> plan_runtime list) \<Rightarrow> control_request \<Rightarrow> plan_runtime
    \<Rightarrow> control_response \<times> running_async_call list \<times> plan_runtime" where
  "control_cancel_all samples req rt =
     (case cancel_all_plans_except None (samples (wait_or_default (cq_wait_ms req))) rt of
        ((target_count, completed), calls, rt') \<Rightarrow>
          (\<lparr>ct_success = True, ct_completed = completed,
            ct_message = ''Cancellation requested for all RTDL plans; target_count='' @ show_nat target_count
              @ '', completed='' @ show_bool completed @ ''.'',
            ct_error = []\<rparr>, calls, rt'))"

definition control_stop_at ::
  "control_request \<Rightarrow> plan_runtime \<Rightarrow> control_response \<times> running_async_call list \<times> plan_runtime" where
  "control_stop_at req rt =
     (case stop_plan_at_control (cq_plan_id req) (cq_op_id req) (cq_when req) rt of
        (Inr message, rt') \<Rightarrow>
          (\<lparr>ct_success = True, ct_completed = True, ct_message = message, ct_error = []\<rparr>, [], rt')
      | (Inl err, rt') \<Rightarrow>
          (\<lparr>ct_success = False, ct_completed = True, ct_message = [], ct_error = err\<rparr>, [], rt'))"

definition control_plan ::
  "(running_async_call \<Rightarrow> string + unit) \<Rightarrow> (u64 \<Rightarrow> plan_runtime list) \<Rightarrow> control_request \<Rightarrow> plan_runtime
    \<Rightarrow> control_response \<times> running_async_call list \<times> plan_runtime" where
  "control_plan send samples req rt =
     (if cq_action req = ''cancel'' then control_cancel send samples req rt
      else if cq_action req = ''cancel_all'' then control_cancel_all samples req rt
      else if cq_action req = ''stop_at'' then control_stop_at req rt
      else (\<lparr>ct_success = False, ct_completed = True, ct_message = [],
              ct_error = ''unknown plan-control action '' @ quoted (cq_action req)\<rparr>, [], rt))"

definition cancel_all_plans ::
  "(u64 \<Rightarrow> plan_runtime list) \<Rightarrow> plan_runtime \<Rightarrow> bool \<times> running_async_call list \<times> plan_runtime" where
  "cancel_all_plans samples rt =
     (case cancel_all_plans_except None (samples default_cancel_wait_ms) rt of
        ((_, completed), calls, rt') \<Rightarrow> (completed, calls, rt'))"

record list_response =
  ls_success :: bool
  ls_plans_json :: string
  ls_error :: string

definition list_active_plans :: "(json \<Rightarrow> string) \<Rightarrow> plan_runtime \<Rightarrow> list_response" where
  "list_active_plans render rt =
     \<lparr>ls_success = True, ls_plans_json = render (active_plans_document rt), ls_error = []\<rparr>"

record module_health =
  mh_module_key :: string
  mh_module_id :: string
  mh_provider_id :: string
  mh_health :: nat
  mh_state :: string
  mh_reason_code :: string
  mh_detail :: string
  mh_source :: string
  mh_received_ts_ns :: u64
  mh_ttl_ms :: u32

record module_health_report =
  mr_schema_version :: nat
  mr_module :: "module_health option"

definition executor_health_report :: "string \<Rightarrow> module_health_report" where
  "executor_health_report provider_id =
     \<lparr>mr_schema_version = 1,
      mr_module = Some \<lparr>mh_module_key = [], mh_module_id = ''executor'', mh_provider_id = provider_id,
        mh_health = 0, mh_state = ''active'', mh_reason_code = ''OK'', mh_detail = ''executor serving'',
        mh_source = [], mh_received_ts_ns = 0, mh_ttl_ms = 5000\<rparr>\<rparr>"

section \<open>The handlers on the state machine of the table\<close>

text \<open>The step of the table that a request stands for.\<close>

definition control_op :: "control_request \<Rightarrow> rt_op option" where
  "control_op req =
     (if cq_action req = ''cancel'' then Some (RT_Cancel (cq_plan_id req))
      else if cq_action req = ''cancel_all'' then Some (RT_Cancel_All None)
      else if cq_action req = ''stop_at'' then Some (RT_Stop_At (cq_plan_id req) (cq_op_id req) (cq_when req))
      else None)"

text \<open>A control request is at most one step of the plan table's state machine, whatever the
  providers answer and however long it waits: it orders the cancel calls of that step and leaves its table, an
  unknown action orders nothing and changes nothing, and it can never clear a cancellation.\<close>

lemma control_plan_refines:
  "snd (control_plan send samples req rt) =
     (case control_op req of None \<Rightarrow> ([], rt) | Some op \<Rightarrow> rt_effect op rt)
   \<and> (case control_op req of None \<Rightarrow> True | Some op \<Rightarrow> \<not> clears_cancel plan_id op)"
proof
  have names: "''cancel'' \<noteq> ''cancel_all''" "''cancel'' \<noteq> ''stop_at''" "''cancel_all'' \<noteq> ''stop_at''" by simp_all
  consider "cq_action req = ''cancel''" | "cq_action req = ''cancel_all''" | "cq_action req = ''stop_at''"
    | "cq_action req \<notin> {''cancel'', ''cancel_all'', ''stop_at''}" by blast
  then show "snd (control_plan send samples req rt) =
     (case control_op req of None \<Rightarrow> ([], rt) | Some op \<Rightarrow> rt_effect op rt)"
  proof cases
    case 1
    then show ?thesis
      by (auto simp: control_plan_def control_op_def control_cancel_def cancel_plan_control_def trigger_stop_def
          Let_def begin_cancel_def split: option.split)
  next
    case 2
    then show ?thesis
      by (auto simp: control_plan_def control_op_def control_cancel_all_def cancel_all_plans_except_def
          split: prod.split)
  next
    case 3
    then show ?thesis
      by (auto simp: control_plan_def control_op_def control_stop_at_def split: prod.split sum.split)
  qed (simp add: control_plan_def control_op_def)
  show "case control_op req of None \<Rightarrow> True | Some op \<Rightarrow> \<not> clears_cancel plan_id op"
    by (simp add: control_op_def clears_cancel_def)
qed

end
