(* ===== verification/Pilot_Reply.thy ===== *)
theory Pilot_Reply
  imports Async_Poll
begin

text \<open>
  How Pilot reads a reply of the planning model, \<open>system/pilot/src/planner.rs\<close>: the JSON object is cut out of the
  surrounding prose, parsed into an envelope, and its plan-control operation, if it is one, is recognised. The
  JSON reader is a parameter; the keys of a JSON object are distinct.

  The main result: the text cut out is exactly the balanced object that starts at the first opening brace of the reply,
  in the sense of a grammar of braces and string literals; an object that comes after a stray brace is not found.
\<close>

section \<open>Cutting out the JSON object\<close>

text \<open>The scan of the bytes from the first brace on: the text up to the brace that closes the object. A closing
  brace at depth 0 would make \<open>depth -= 1\<close> overflow.\<close>

datatype scan = Overflowed | Unclosed | Closed string

primrec scan_cons :: "char \<Rightarrow> scan \<Rightarrow> scan" where
  "scan_cons b Overflowed = Overflowed"
| "scan_cons b Unclosed = Unclosed"
| "scan_cons b (Closed t) = Closed (b # t)"

abbreviation dquote :: char where "dquote \<equiv> CHR 0x22"
abbreviation backslash :: char where "backslash \<equiv> CHR 0x5C"

fun scan_object :: "nat \<Rightarrow> bool \<Rightarrow> bool \<Rightarrow> string \<Rightarrow> scan" where
  "scan_object depth in_str escaped [] = Unclosed"
| "scan_object depth in_str escaped (b # bs) =
     scan_cons b
       (if in_str then
          (if escaped then scan_object depth True False bs
           else if b = backslash then scan_object depth True True bs
           else if b = dquote then scan_object depth False False bs
           else scan_object depth True False bs)
        else if b = dquote then scan_object depth True escaped bs
        else if b = CHR ''{'' then scan_object (Suc depth) False escaped bs
        else if b = CHR ''}'' then
          (case depth of
             0 \<Rightarrow> Overflowed
           | Suc d \<Rightarrow> if d = 0 then Closed [] else scan_object d False escaped bs)
        else scan_object depth False escaped bs)"

definition extract_json_object :: "string \<Rightarrow> scan" where
  "extract_json_object raw =
     (case dropWhile (\<lambda>b. b \<noteq> CHR ''{'') raw of
        [] \<Rightarrow> Unclosed
      | b # bs \<Rightarrow> scan_object 0 False False (b # bs))"

section \<open>The envelope\<close>

record task_state =
  ts_goal :: string
  ts_success_criterion :: string
  ts_status :: string

definition is_done :: "task_state \<Rightarrow> bool" where
  "is_done state \<longleftrightarrow> ts_status state = ''done''"

record rtdl_envelope =
  rv_content :: string
  rv_rtdl_description :: string
  rv_rtdl :: json
  rv_task_update :: "task_state option"

definition exact_keys :: "string list \<Rightarrow> (string \<times> json) list \<Rightarrow> bool" where
  "exact_keys keys obj \<longleftrightarrow> length obj = length keys \<and> list_all (\<lambda>k. map_of obj k \<noteq> None) keys"

definition str_at :: "string \<Rightarrow> (string \<times> json) list \<Rightarrow> string + string" where
  "str_at key obj = ok_or (''`task_update.'' @ key @ ''` must be a string'') (as_str (map_of obj key))"

definition parse_task_update :: "json \<Rightarrow> string + task_state" where
  "parse_task_update v =
     (case v of
        JObj obj \<Rightarrow>
          if \<not> exact_keys [''goal'', ''success_criterion'', ''status''] obj then
            Inl ''`task_update` object must contain exactly `goal`, `success_criterion`, and `status`''
          else (case str_at ''status'' obj of
                  Inl e \<Rightarrow> Inl e
                | Inr status \<Rightarrow>
                    if status \<noteq> ''in_progress'' \<and> status \<noteq> ''done'' then
                      Inl (''`task_update.status` must be '' @ [dquote] @ ''in_progress'' @ [dquote] @ '' or ''
                         @ [dquote] @ ''done'' @ [dquote])
                    else (case str_at ''goal'' obj of
                            Inl e \<Rightarrow> Inl e
                          | Inr goal \<Rightarrow>
                              (case str_at ''success_criterion'' obj of
                                 Inl e \<Rightarrow> Inl e
                               | Inr criterion \<Rightarrow>
                                   Inr \<lparr>ts_goal = goal, ts_success_criterion = criterion, ts_status = status\<rparr>)))
      | _ \<Rightarrow> Inl ''`task_update` must be null or an object'')"

definition parse_rtdl_assistant_response :: "(string \<Rightarrow> string + json) \<Rightarrow> string \<Rightarrow> string + rtdl_envelope" where
  "parse_rtdl_assistant_response read raw =
     (let candidate = (case extract_json_object raw of Closed t \<Rightarrow> t | _ \<Rightarrow> raw) in
      case read candidate of
        Inl e \<Rightarrow> Inl e
      | Inr (JObj obj) \<Rightarrow>
          if \<not> exact_keys [''content'', ''rtdl_description'', ''rtdl'', ''task_update''] obj then
            Inl ''assistant response must contain exactly `content`, `rtdl_description`, `rtdl`, and `task_update`''
          else (case as_str (map_of obj ''content'') of
                  None \<Rightarrow> Inl ''assistant `content` must be a string''
                | Some content \<Rightarrow>
                    (case as_str (map_of obj ''rtdl_description'') of
                       None \<Rightarrow> Inl ''assistant `rtdl_description` must be a string''
                     | Some description \<Rightarrow>
                         (case map_of obj ''rtdl'' of
                            Some (JObj rtdl) \<Rightarrow>
                              (case (case map_of obj ''task_update'' of
                                       None \<Rightarrow> Inr None
                                     | Some JNull \<Rightarrow> Inr None
                                     | Some v \<Rightarrow> map_sum id Some (parse_task_update v)) of
                                 Inl e \<Rightarrow> Inl e
                               | Inr update \<Rightarrow>
                                   Inr \<lparr>rv_content = content, rv_rtdl_description = description,
                                        rv_rtdl = JObj rtdl, rv_task_update = update\<rparr>)
                          | _ \<Rightarrow> Inl ''assistant `rtdl` must be an object'')))
      | Inr _ \<Rightarrow> Inl ''assistant response must be a JSON object'')"

section \<open>Plan control\<close>

datatype meta_plan_op =
    Meta_Cancel string u64
  | Meta_Cancel_All u64
  | Meta_Stop_At string string string

text \<open>A quoted or numeric identifier, as a string.\<close>

definition meta_string :: "string \<Rightarrow> (string \<times> json) list \<Rightarrow> string \<Rightarrow> string + string" where
  "meta_string op obj key =
     (case (case map_of obj key of
              Some (JStr text) \<Rightarrow> Some text
            | Some (JNum n) \<Rightarrow> Some (show_nat n)
            | Some (JOtherNum s) \<Rightarrow> Some s
            | _ \<Rightarrow> None) of
        None \<Rightarrow> Inl (''meta op `'' @ op @ ''` requires string or integer `'' @ key @ ''`'')
      | Some v \<Rightarrow>
          if trim v = [] then Inl (''meta op `'' @ op @ ''` requires non-empty `'' @ key @ ''`'') else Inr v)"

definition meta_wait_ms :: "(string \<times> json) list \<Rightarrow> u64" where
  "meta_wait_ms obj = of_nat (min (case map_of obj ''wait_ms'' of Some (JNum n) \<Rightarrow> n | _ \<Rightarrow> 5000) 30000)"

definition parse_meta_plan_op :: "json \<Rightarrow> string + meta_plan_op option" where
  "parse_meta_plan_op rtdl =
     (case rtdl of
        JObj obj \<Rightarrow>
          (case as_str (map_of obj ''op'') of
             None \<Rightarrow> Inr None
           | Some op \<Rightarrow>
               if op = ''cancel_plan'' then
                 (case meta_string op obj ''plan_id'' of
                    Inl e \<Rightarrow> Inl e
                  | Inr plan_id \<Rightarrow> Inr (Some (Meta_Cancel plan_id (meta_wait_ms obj))))
               else if op = ''cancel_all'' then Inr (Some (Meta_Cancel_All (meta_wait_ms obj)))
               else if op = ''stop_plan_at'' then
                 (let stop = (case as_str (map_of obj ''when'') of None \<Rightarrow> ''on_complete'' | Some w \<Rightarrow> w) in
                  if stop \<noteq> ''on_enter'' \<and> stop \<noteq> ''on_complete'' then
                    Inl ''meta op `stop_plan_at` requires when=on_enter or on_complete''
                  else (case meta_string op obj ''plan_id'' of
                          Inl e \<Rightarrow> Inl e
                        | Inr plan_id \<Rightarrow>
                            (case meta_string op obj ''target_op_id'' of
                               Inl e \<Rightarrow> Inl e
                             | Inr op_id \<Rightarrow> Inr (Some (Meta_Stop_At plan_id op_id stop)))))
               else Inr None)
      | _ \<Rightarrow> Inr None)"

section \<open>The grammar of a JSON object's text\<close>

text \<open>What matters of the text of a JSON object: its braces match outside string literals. \<open>literal\<close> is the rest
  of a string literal, closing quote included; \<open>inside\<close> is text with matching braces.\<close>

inductive literal :: "string \<Rightarrow> bool" where
  close_quote: "literal [dquote]"
| escape: "literal s \<Longrightarrow> literal (backslash # c # s)"
| plain: "\<lbrakk>literal s; c \<noteq> dquote; c \<noteq> backslash\<rbrakk> \<Longrightarrow> literal (c # s)"

inductive inside :: "string \<Rightarrow> bool" where
  nothing: "inside []"
| other: "\<lbrakk>inside s; c \<noteq> dquote; c \<noteq> CHR ''{''; c \<noteq> CHR ''}''\<rbrakk> \<Longrightarrow> inside (c # s)"
| quoted_text: "\<lbrakk>literal q; inside s\<rbrakk> \<Longrightarrow> inside (dquote # q @ s)"
| braces: "\<lbrakk>inside i; inside s\<rbrakk> \<Longrightarrow> inside (CHR ''{'' # i @ CHR ''}'' # s)"

definition object_text :: "string \<Rightarrow> bool" where
  "object_text t \<longleftrightarrow> (\<exists>i. inside i \<and> t = CHR ''{'' # i @ [CHR ''}''])"

section \<open>The scan follows the grammar\<close>

primrec scan_after :: "string \<Rightarrow> scan \<Rightarrow> scan" where
  "scan_after [] r = r"
| "scan_after (b # bs) r = scan_cons b (scan_after bs r)"

lemma scan_after_append [simp]: "scan_after (s @ t) r = scan_after s (scan_after t r)"
  by (induction s) auto

lemma scan_cons_simps [simp]:
  "scan_cons b r = Overflowed \<longleftrightarrow> r = Overflowed" "scan_cons b r = Unclosed \<longleftrightarrow> r = Unclosed"
  "scan_cons b r = Closed t \<longleftrightarrow> (\<exists>u. t = b # u \<and> r = Closed u)"
  by (cases r; auto)+

lemma scan_after_Closed [simp]: "scan_after s (Closed t) = Closed (s @ t)"
  by (induction s) auto

lemma scan_literal: "literal q \<Longrightarrow> scan_object d True False (q @ s) = scan_after q (scan_object d False False s)"
  by (induction rule: literal.induct) auto

lemma scan_inside:
  "inside i \<Longrightarrow> scan_object (Suc d) False False (i @ s) = scan_after i (scan_object (Suc d) False False s)"
  by (induction arbitrary: d s rule: inside.induct) (auto simp: scan_literal)

lemma extract_object_text:
  assumes "object_text t" and "CHR ''{'' \<notin> set pre"
  shows "extract_json_object (pre @ t @ post) = Closed t"
proof -
  from assms(1) obtain i where i: "inside i" and t: "t = CHR ''{'' # i @ [CHR ''}'']" by (auto simp: object_text_def)
  have "dropWhile (\<lambda>b. b \<noteq> CHR ''{'') (pre @ t @ post) = t @ post"
    using assms(2) by (subst dropWhile_append2) (auto simp: t)
  with scan_inside [OF i, of 0 "CHR ''}'' # post"] show ?thesis
    by (simp add: extract_json_object_def t)
qed

text \<open>Conversely: what the scan closes at depth \<open>d\<close> is \<open>d\<close> stretches of matched text, each with its closing
  brace, possibly after the rest of a string literal.\<close>

definition closes :: "nat \<Rightarrow> string \<Rightarrow> bool" where
  "closes d t \<longleftrightarrow> (\<exists>stretches. length stretches = d \<and> d > 0 \<and> (\<forall>i \<in> set stretches. inside i)
     \<and> t = concat (map (\<lambda>i. i @ [CHR ''}'']) stretches))"

lemma closes_Suc: "closes (Suc d) t \<longleftrightarrow>
    (\<exists>i u. inside i \<and> t = i @ CHR ''}'' # u \<and> (if d = 0 then u = [] else closes d u))"
proof
  assume "closes (Suc d) t"
  then obtain i js where "length js = d" "inside i" "\<forall>j \<in> set js. inside j"
    "t = i @ CHR ''}'' # concat (map (\<lambda>i. i @ [CHR ''}'']) js)"
    by (auto simp: closes_def length_Suc_conv)
  then show "\<exists>i u. inside i \<and> t = i @ CHR ''}'' # u \<and> (if d = 0 then u = [] else closes d u)"
    by (intro exI [of _ i] exI [of _ "concat (map (\<lambda>i. i @ [CHR ''}'']) js)"]) (auto simp: closes_def)
next
  assume "\<exists>i u. inside i \<and> t = i @ CHR ''}'' # u \<and> (if d = 0 then u = [] else closes d u)"
  then obtain i u where i: "inside i" "t = i @ CHR ''}'' # u" and u: "if d = 0 then u = [] else closes d u" by blast
  show "closes (Suc d) t"
  proof (cases "d = 0")
    case True
    with i u show ?thesis by (auto simp: closes_def intro!: exI [of _ "[i]"])
  next
    case False
    with u obtain js where "length js = d" "\<forall>j \<in> set js. inside j" "u = concat (map (\<lambda>i. i @ [CHR ''}'']) js)"
      by (auto simp: closes_def)
    with i show ?thesis by (auto simp: closes_def intro!: exI [of _ "i # js"])
  qed
qed

lemma closes_first:
  assumes "closes d t" and "\<And>i. inside i \<Longrightarrow> inside (p @ i)"
  shows "closes d (p @ t)"
proof (cases d)
  case 0
  with assms(1) show ?thesis by (simp add: closes_def)
next
  case (Suc e)
  with assms(1) obtain i u where i: "inside i" "t = i @ CHR ''}'' # u" "if e = 0 then u = [] else closes e u"
    by (auto simp: closes_Suc)
  from assms(2) [OF i(1)] i(2,3) show ?thesis
    unfolding Suc closes_Suc by (intro exI [of _ "p @ i"] exI [of _ u]) simp
qed

text \<open>The states of the scan: outside literals, in one, or after a backslash.\<close>

definition scanned :: "nat \<Rightarrow> bool \<Rightarrow> bool \<Rightarrow> string \<Rightarrow> bool" where
  "scanned d in_str escaped t \<longleftrightarrow>
     (if \<not> in_str then closes d t
      else \<exists>q u. t = q @ u \<and> closes d u \<and> (if escaped then \<exists>c r. q = c # r \<and> literal r else literal q))"

lemma scanned_steps:
  "scanned d True False u \<Longrightarrow> scanned d True True (c # u)"
  "scanned d True True u \<Longrightarrow> scanned d True False (backslash # u)"
  "closes d u \<Longrightarrow> scanned d True False (dquote # u)"
  "scanned d True False u \<Longrightarrow> c \<noteq> dquote \<Longrightarrow> c \<noteq> backslash \<Longrightarrow> scanned d True False (c # u)"
proof -
  show "scanned d True False u \<Longrightarrow> scanned d True True (c # u)"
    unfolding scanned_def by simp (metis append_Cons)
  show "scanned d True True u \<Longrightarrow> scanned d True False (backslash # u)"
    unfolding scanned_def by simp (metis append_Cons literal.escape)
  show "closes d u \<Longrightarrow> scanned d True False (dquote # u)"
    unfolding scanned_def by simp (metis append_Cons append_Nil literal.close_quote)
  show "scanned d True False u \<Longrightarrow> c \<noteq> dquote \<Longrightarrow> c \<noteq> backslash \<Longrightarrow> scanned d True False (c # u)"
    unfolding scanned_def by simp (metis append_Cons literal.plain)
qed

lemma scan_sound:
  "\<lbrakk>scan_object d in_str escaped s = Closed t; d > 0; escaped \<longrightarrow> in_str\<rbrakk> \<Longrightarrow>
     scanned d in_str escaped t \<and> (\<exists>post. s = t @ post)"
proof (induction d in_str escaped s arbitrary: t rule: scan_object.induct)
  case (1 d in_str escaped)
  then show ?case by simp
next
  case (2 d in_str escaped b bs)
  from "2.prems"(1) obtain u where t: "t = b # u" by auto
  show ?case
  proof (cases in_str)
    case True
    show ?thesis
    proof (cases escaped)
      case True
      with \<open>in_str\<close> "2.IH"(1) [of u] "2.prems" t have "scanned d True False u" "\<exists>post. bs = u @ post" by auto
      then show ?thesis using True \<open>in_str\<close> scanned_steps(1) by (auto simp: t)
    next
      case False
      consider "b = backslash" | "b = dquote" | "b \<noteq> backslash" "b \<noteq> dquote" by blast
      then show ?thesis
      proof cases
        case 1
        with False \<open>in_str\<close> "2.IH"(2) [of u] "2.prems" t have "scanned d True True u" "\<exists>post. bs = u @ post" by auto
        then show ?thesis using False \<open>in_str\<close> 1 scanned_steps(2) by (auto simp: t)
      next
        case 2
        with False \<open>in_str\<close> "2.IH"(3) [of u] "2.prems" t have "closes d u" "\<exists>post. bs = u @ post"
          by (auto simp: scanned_def)
        then show ?thesis using False \<open>in_str\<close> 2 scanned_steps(3) by (auto simp: t)
      next
        case 3
        with False \<open>in_str\<close> "2.IH"(4) [of u] "2.prems" t have "scanned d True False u" "\<exists>post. bs = u @ post" by auto
        then show ?thesis using False \<open>in_str\<close> 3 scanned_steps(4) by (auto simp: t)
      qed
    qed
  next
    case False
    with "2.prems"(3) have e: "\<not> escaped" by blast
    consider "b = dquote" | "b = CHR ''{''" | "b = CHR ''}''" | "b \<noteq> dquote" "b \<noteq> CHR ''{''" "b \<noteq> CHR ''}''" by blast
    then show ?thesis
    proof cases
      case 1
      with False e "2.IH"(5) [of u] "2.prems" t have "scanned d True False u" "\<exists>post. bs = u @ post" by auto
      then obtain q v where "u = q @ v" "closes d v" "literal q" by (auto simp: scanned_def)
      with False 1 t \<open>\<exists>post. bs = u @ post\<close> closes_first [of d v "dquote # q"] show ?thesis
        by (auto simp: scanned_def intro: inside.quoted_text)
    next
      case 2
      with False e "2.IH"(6) [of u] "2.prems" t have c: "closes (Suc d) u" "\<exists>post. bs = u @ post"
        by (auto simp: scanned_def)
      then obtain i v where "inside i" "u = i @ CHR ''}'' # v" "closes d v"
        using "2.prems"(2) unfolding closes_Suc by auto
      with False 2 t c(2) closes_first [of d v "CHR ''{'' # i @ [CHR ''}'']"] show ?thesis
        by (auto simp: scanned_def intro: inside.braces)
    next
      case 3
      from "2.prems"(2) obtain e' where d: "d = Suc e'" by (cases d) auto
      show ?thesis
      proof (cases "e' = 0")
        case True
        with 3 False "2.prems"(1) t d show ?thesis
          by (auto simp: scanned_def closes_Suc intro!: exI [of _ "[]"] inside.nothing)
      next
        case nz: False
        with 3 False e d "2.IH"(7) [of e' u] "2.prems"(1) t have "closes e' u" "\<exists>post. bs = u @ post"
          by (auto simp: scanned_def)
        moreover have "closes (Suc e') (CHR ''}'' # u)"
          using \<open>closes e' u\<close> nz unfolding closes_Suc
          by (intro exI [of _ "[]"] exI [of _ u]) (simp add: inside.nothing)
        ultimately show ?thesis using False 3 t d by (simp add: scanned_def)
      qed
    next
      case 4
      with False e "2.IH"(8) [of u] "2.prems" t have "closes d u" "\<exists>post. bs = u @ post" by (auto simp: scanned_def)
      with False 4 t closes_first [of d u "[b]"] show ?thesis by (auto simp: scanned_def intro: inside.other)
    qed
  qed
qed

lemma scan_never_overflows: "d > 0 \<Longrightarrow> scan_object d in_str escaped s \<noteq> Overflowed"
  by (induction d in_str escaped s rule: scan_object.induct) (auto split: nat.split)


lemma extract_sound:
  assumes "extract_json_object raw = Closed t"
  shows "\<exists>pre post. raw = pre @ t @ post \<and> CHR ''{'' \<notin> set pre \<and> object_text t"
proof -
  from assms obtain b bs where s: "dropWhile (\<lambda>b. b \<noteq> CHR ''{'') raw = b # bs"
    and c: "scan_object 0 False False (b # bs) = Closed t"
    by (auto simp: extract_json_object_def split: list.splits)
  have b: "b = CHR ''{''" using hd_dropWhile_not [of "\<lambda>b. b \<noteq> CHR ''{''" raw] s by simp
  with c obtain u where u: "t = CHR ''{'' # u" "scan_object 1 False False bs = Closed u" by auto
  from scan_sound [OF u(2)] obtain post where "closes 1 u" "bs = u @ post" by (auto simp: scanned_def)
  then have "object_text t" using closes_Suc [of 0 u] by (auto simp: object_text_def u)
  moreover have "raw = takeWhile (\<lambda>b. b \<noteq> CHR ''{'') raw @ t @ post"
    using takeWhile_dropWhile_id [of "\<lambda>b. b \<noteq> CHR ''{''" raw] s b u(1) \<open>bs = u @ post\<close> by simp
  moreover have "CHR ''{'' \<notin> set (takeWhile (\<lambda>b. b \<noteq> CHR ''{'') raw)" by (auto dest: set_takeWhileD)
  ultimately show ?thesis by blast
qed

lemma extract_never_overflows: "extract_json_object raw \<noteq> Overflowed"
proof (cases "dropWhile (\<lambda>b. b \<noteq> CHR ''{'') raw")
  case (Cons b bs)
  with hd_dropWhile_not [of "\<lambda>b. b \<noteq> CHR ''{''" raw] have "b = CHR ''{''" by simp
  moreover have "scan_object (Suc 0) False False bs \<noteq> Overflowed" by (rule scan_never_overflows) simp
  ultimately show ?thesis by (simp add: extract_json_object_def Cons)
next
  case Nil
  show ?thesis unfolding extract_json_object_def Nil by simp
qed

text \<open>An opening brace that is never closed hides an object that comes after it: only the first brace is tried.\<close>

lemma stray_brace_hides_the_object:
  "extract_json_object ''{ {}'' = Unclosed \<and> object_text ''{}''"
proof
  show "object_text ''{}''" using extract_sound [of "''{}''" "''{}''"] by (auto simp: extract_json_object_def)
qed (simp add: extract_json_object_def)

text \<open>C20 (equivalence). The text cut out of a reply is the balanced object that starts at the reply's first opening brace, string
  literals and their escapes respected: the scan returns \<open>t\<close> exactly when the reply is prose without an opening brace,
  then \<open>t\<close> with matching braces, then anything. So nothing is cut out when no balanced object starts there, even if
  one comes later; and the depth counter never goes below zero.\<close>

theorem extract_json_object_iff:
  "(extract_json_object raw = Closed t \<longleftrightarrow>
      (\<exists>pre post. raw = pre @ t @ post \<and> CHR ''{'' \<notin> set pre \<and> object_text t))
   \<and> extract_json_object raw \<noteq> Overflowed"
proof
  show "extract_json_object raw = Closed t \<longleftrightarrow>
      (\<exists>pre post. raw = pre @ t @ post \<and> CHR ''{'' \<notin> set pre \<and> object_text t)"
  proof
    show "extract_json_object raw = Closed t \<Longrightarrow>
        \<exists>pre post. raw = pre @ t @ post \<and> CHR ''{'' \<notin> set pre \<and> object_text t" by (rule extract_sound)
    show "\<exists>pre post. raw = pre @ t @ post \<and> CHR ''{'' \<notin> set pre \<and> object_text t \<Longrightarrow>
        extract_json_object raw = Closed t" by (elim exE conjE, hypsubst, rule extract_object_text)
  qed
  show "extract_json_object raw \<noteq> Overflowed"
    by (rule extract_never_overflows)
qed

text \<open>A reply whose object is wrapped in prose is read like the bare object.\<close>

lemma prose_is_ignored:
  assumes "object_text t" and "CHR ''{'' \<notin> set pre"
  shows "parse_rtdl_assistant_response read (pre @ t @ post) = parse_rtdl_assistant_response read t"
  using extract_object_text [OF assms, of post] extract_object_text [OF assms(1), of "[]" "[]"]
  by (simp add: parse_rtdl_assistant_response_def)

end
