(* ===== verification/Pilot_History.thy ===== *)
theory Pilot_History
  imports Pilot_Reply "HOL-Library.Sublist"
begin

text \<open>
  The conversation Pilot keeps for the planning model: \<open>system/pilot/src/history.rs\<close>, and the budget and compaction of
  \<open>planner.rs\<close>. Here a string is the sequence of its UTF-8 bytes, since the code cuts by byte offsets. Token
  sums are natural numbers: \<open>usize\<close> arithmetic on them is exact for windows below $2^{57}$ tokens. The summarizer
  (a call of the model) is a parameter.

  The main results: a compaction ends below its trigger, whatever the summarizer answers; the task at hand
  survives it; and the list sent to the model is the longest part of the history in which every tool message answers
  the assistant message before it.
\<close>

section \<open>Messages\<close>

record tool_call =
  tl_id :: string
  tl_kind :: string
  tl_name :: string
  tl_arguments :: string

record message =
  m_role :: string
  m_name :: "string option"
  m_content :: "string option"
  m_tool_calls :: "tool_call list option"
  m_tool_call_id :: "string option"
  m_image_base64 :: "string option"

definition message_user :: "string \<Rightarrow> message" where
  "message_user content = \<lparr>m_role = ''user'', m_name = None, m_content = Some content, m_tool_calls = None,
     m_tool_call_id = None, m_image_base64 = None\<rparr>"

definition message_system :: "string \<Rightarrow> message" where
  "message_system content = (message_user content)\<lparr>m_role := ''system''\<rparr>"

definition message_assistant :: "string \<Rightarrow> message" where
  "message_assistant content = (message_user content)\<lparr>m_role := ''assistant''\<rparr>"

definition message_user_with_image :: "string \<Rightarrow> string \<Rightarrow> message" where
  "message_user_with_image content b64 = (message_user content)\<lparr>m_image_base64 := Some b64\<rparr>"

definition message_tool_result :: "string \<Rightarrow> string \<Rightarrow> message" where
  "message_tool_result call_id content =
     \<lparr>m_role = ''tool'', m_name = None, m_content = Some content, m_tool_calls = None,
      m_tool_call_id = Some call_id, m_image_base64 = None\<rparr>"

section \<open>Results of capabilities\<close>

definition is_image_value :: "json \<Rightarrow> bool" where
  "is_image_value v \<longleftrightarrow>
     (case as_str (json_get ''image_base64'' v) of Some data \<Rightarrow> data \<noteq> [] | None \<Rightarrow> False)
     \<or> json_get ''width'' v \<noteq> None \<and> json_get ''height'' v \<noteq> None
       \<and> (case as_str (json_get ''encoding'' v) of Some encoding \<Rightarrow> encoding \<noteq> ''error'' | None \<Rightarrow> False)
       \<and> (case as_str (json_get ''data'' v) of Some data \<Rightarrow> data \<noteq> [] | None \<Rightarrow> False)"

definition is_image_output :: "(string \<Rightarrow> json option) \<Rightarrow> string \<Rightarrow> bool" where
  "is_image_output parse output = (case parse output of Some v \<Rightarrow> is_image_value v | None \<Rightarrow> False)"

definition image_note :: string where
  "image_note = ''Executor feedback: the previous capability call returned this image. Use it as observation data for the current task; this is not a new user request.''"

text \<open>The tool messages and the follow-up messages of one result.\<close>

definition tool_result_to_messages ::
  "(string \<Rightarrow> json option) \<Rightarrow> string \<Rightarrow> string \<Rightarrow> message list \<times> message list" where
  "tool_result_to_messages parse call_id output =
     (case parse output of
        None \<Rightarrow> ([message_tool_result call_id output], [])
      | Some v \<Rightarrow>
          if is_image_value v then
            (case (as_str (json_get ''image_base64'' v), as_str (json_get ''encoding'' v)) of
               (Some b64, _) \<Rightarrow>
                 (let fmt = (case as_str (json_get ''format'' v) of Some f \<Rightarrow> f | None \<Rightarrow> ''jpeg'') in
                  ([message_tool_result call_id (''['' @ fmt @ '' image attached]'')],
                   [message_user_with_image image_note b64]))
             | (None, Some enc) \<Rightarrow>
                 (let b64 = (case as_str (json_get ''data'' v) of Some d \<Rightarrow> d | None \<Rightarrow> []) in
                  ([message_tool_result call_id (''[sensor_msgs/Image encoding='' @ enc @ '']'')],
                   [message_user_with_image image_note b64]))
             | (None, None) \<Rightarrow> ([message_tool_result call_id output], []))
          else ([message_tool_result call_id output], []))"

section \<open>Sizes\<close>

text \<open>The label has an em dash, three bytes in UTF-8.\<close>

definition summary_label :: string where
  "summary_label = ''[summary of earlier conversation '' @ [CHR 0xE2, CHR 0x80, CHR 0x94]
     @ '' treat as established context]''"

definition div_ceil :: "nat \<Rightarrow> nat \<Rightarrow> nat" where
  "div_ceil a b = (a + b - 1) div b"

definition text_size :: "message \<Rightarrow> nat" where
  "text_size m = (case m_content m of Some text \<Rightarrow> length text | None \<Rightarrow> 0)"

definition tokens :: "message \<Rightarrow> nat" where
  "tokens m = div_ceil (text_size m) 4"

text \<open>A byte position is a boundary unless it holds a continuation byte \<open>10xxxxxx\<close>.\<close>

definition is_char_boundary :: "string \<Rightarrow> nat \<Rightarrow> bool" where
  "is_char_boundary text i \<longleftrightarrow>
     i = 0 \<or> i = length text \<or> i < length text \<and> (of_char (text ! i) :: nat) div 64 \<noteq> 2"

primrec floor_boundary :: "string \<Rightarrow> nat \<Rightarrow> nat" where
  "floor_boundary text 0 = 0"
| "floor_boundary text (Suc n) = (if is_char_boundary text (Suc n) then Suc n else floor_boundary text n)"

definition dropped_note :: "nat \<Rightarrow> string" where
  "dropped_note n = CHR 0x0A # ''[... '' @ show_nat n @ '' more bytes dropped when history was compacted]''"

definition truncated :: "message \<Rightarrow> nat \<Rightarrow> message" where
  "truncated m cap =
     (case m_content m of
        Some text \<Rightarrow>
          if length text > cap * 4 then
            (let end = floor_boundary text (cap * 4) in
             m\<lparr>m_content := Some (take end text @ dropped_note (length text - end))\<rparr>)
          else m
      | None \<Rightarrow> m)"

section \<open>The plan of a compaction\<close>

record compaction_plan =
  cp_evicted :: "message list"
  cp_pinned :: "message list"
  cp_tail :: "message list"

fun split_point :: "message list \<Rightarrow> nat \<Rightarrow> nat \<Rightarrow> nat \<Rightarrow> nat \<Rightarrow> nat" where
  "split_point history tail_cap message_cap 0 used = 0"
| "split_point history tail_cap message_cap (Suc k) used =
     (let cost = min (tokens (history ! k)) message_cap in
      if Suc k < length history \<and> used + cost > tail_cap then Suc k
      else split_point history tail_cap message_cap k (used + cost))"

definition starts :: "string \<Rightarrow> message \<Rightarrow> bool" where
  "starts label m \<longleftrightarrow> m_role m = ''user''
     \<and> (case m_content m of Some text \<Rightarrow> starts_with label text | None \<Rightarrow> False)"

abbreviation is_task :: "message \<Rightarrow> bool" where
  "is_task \<equiv> starts ''User task (authoritative):''"

abbreviation is_steer :: "message \<Rightarrow> bool" where
  "is_steer \<equiv> starts ''User steer (authoritative):''"

text \<open>\<open>rposition\<close>: the last element with the property, and what follows it.\<close>

fun after_last :: "('a \<Rightarrow> bool) \<Rightarrow> 'a list \<Rightarrow> ('a \<times> 'a list) option" where
  "after_last P [] = None"
| "after_last P (x # xs) =
     (case after_last P xs of Some r \<Rightarrow> Some r | None \<Rightarrow> if P x then Some (x, xs) else None)"

text \<open>The loop over the steers, newest first; the result is in that order too.\<close>

fun fit_steers :: "nat \<Rightarrow> nat \<Rightarrow> message list \<Rightarrow> message list" where
  "fit_steers message_cap room [] = []"
| "fit_steers message_cap room (s # ss) =
     (let steer = truncated s message_cap in
      if tokens steer > room then [] else steer # fit_steers message_cap (room - tokens steer) ss)"

definition pin_task :: "nat \<Rightarrow> nat \<Rightarrow> message list \<Rightarrow> message list" where
  "pin_task message_cap pin_cap older =
     (case after_last is_task older of
        None \<Rightarrow> []
      | Some (task, later) \<Rightarrow>
          (let task_message = truncated task pin_cap in
           task_message # rev (fit_steers message_cap (pin_cap - tokens task_message) (rev (filter is_steer later)))))"

definition plan_compaction :: "message list \<Rightarrow> nat \<Rightarrow> nat \<Rightarrow> nat \<Rightarrow> compaction_plan" where
  "plan_compaction history tail_cap message_cap pin_cap =
     (let split = split_point history tail_cap message_cap (length history) 0; older = take split history in
      \<lparr>cp_evicted = older, cp_pinned = pin_task message_cap pin_cap older,
       cp_tail = map (\<lambda>m. truncated m message_cap) (drop split history)\<rparr>)"

section \<open>What the model is sent\<close>

definition opens :: "message \<Rightarrow> string set" where
  "opens m = (case m_tool_calls m of Some calls \<Rightarrow> set (map tl_id calls) | None \<Rightarrow> {})"

fun sanitize :: "string set \<Rightarrow> message list \<Rightarrow> message list" where
  "sanitize open_ids [] = []"
| "sanitize open_ids (m # ms) =
     (if m_role m = ''assistant'' then m # sanitize (opens m) ms
      else if m_role m = ''tool'' then
        (case m_tool_call_id m of
           None \<Rightarrow> sanitize open_ids ms
         | Some call_id \<Rightarrow>
             if call_id \<in> open_ids then m # sanitize (open_ids - {call_id}) ms else sanitize open_ids ms)
      else m # sanitize {} ms)"

definition sanitize_for_vlm :: "message list \<Rightarrow> message list" where
  "sanitize_for_vlm = sanitize {}"

section \<open>The budget and the compaction\<close>

definition context_reserve_tokens :: nat where "context_reserve_tokens = 6144"
definition min_history_room :: nat where "min_history_room = 2048"
definition summary_max_tokens :: nat where "summary_max_tokens = 6000"

text \<open>A budget is the context window in tokens, if it is known.\<close>

definition room :: "nat option \<Rightarrow> nat \<Rightarrow> nat option" where
  "room budget non_history_tokens =
     map_option (\<lambda>limit. max (limit - min (non_history_tokens + context_reserve_tokens) (2 ^ 64 - 1)) min_history_room)
       budget"

definition total_tokens :: "message list \<Rightarrow> nat" where
  "total_tokens history = sum_list (map tokens history)"

definition must_compact :: "nat option \<Rightarrow> message list \<Rightarrow> nat \<Rightarrow> bool" where
  "must_compact budget history non_history_tokens =
     (case room budget non_history_tokens of Some r \<Rightarrow> total_tokens history > r | None \<Rightarrow> False)"

definition share :: "nat \<Rightarrow> nat \<Rightarrow> nat" where
  "share r pct = r * pct div 100"

definition previous_summary :: "message list \<Rightarrow> string" where
  "previous_summary older =
     (case older of
        m # _ \<Rightarrow>
          (case m_content m of
             Some text \<Rightarrow> (case strip_prefix summary_label text of Some s \<Rightarrow> trim s | None \<Rightarrow> [])
           | None \<Rightarrow> [])
      | [] \<Rightarrow> [])"

definition compaction_request :: "nat \<Rightarrow> message list \<Rightarrow> message list" where
  "compaction_request summary_cap older =
     message_system (''You compact a robot agent's working memory. Rewrite the conversation below, including any earlier summary at its start, as one plain-text note of at most about '' @ show_nat summary_cap @ '' tokens. Keep, in this order of priority: the current goal and its success criteria; what each finished task achieved or why it failed; RTDL work still running; decisions and facts needed to continue. Drop narration. Do not invent facts.'')
     # sanitize_for_vlm older @ [message_user ''Write the note now.'']"

definition compaction_note :: "string option \<Rightarrow> message list \<Rightarrow> string" where
  "compaction_note completion older =
     (case completion of
        Some text \<Rightarrow> trim text
      | None \<Rightarrow> previous_summary older @ CHR 0x0A # ''['' @ show_nat (length older)
          @ '' earlier messages were dropped without a new summary because the summarizer was unavailable.]'')"

record compaction =
  cm_history :: "message list"
  cm_evicted :: nat
  cm_pinned :: nat
  cm_summarized :: bool

text \<open>\<open>None\<close>: nothing was done. \<open>collect_vlm_text\<close> is the summarizer, \<open>None\<close> when it fails.\<close>

definition compact_history ::
  "(message list \<Rightarrow> string option) \<Rightarrow> nat option \<Rightarrow> message list \<Rightarrow> nat \<Rightarrow> compaction option" where
  "compact_history collect_vlm_text budget history non_history_tokens =
     (case room budget non_history_tokens of
        None \<Rightarrow> None
      | Some r \<Rightarrow>
          if \<not> must_compact budget history non_history_tokens then None
          else
            (let summary_cap = min (share r 15) summary_max_tokens;
                 plan = plan_compaction history (share r 50) (share r 20) (share r 10);
                 completion =
                   (if cp_evicted plan = [] then None
                    else (case collect_vlm_text (compaction_request summary_cap (cp_evicted plan)) of
                            Some text \<Rightarrow> if trim text \<noteq> [] then Some text else None
                          | None \<Rightarrow> None));
                 note = compaction_note completion (cp_evicted plan);
                 summary = truncated (message_user (summary_label @ CHR 0x0A # trim note)) summary_cap
             in Some \<lparr>cm_history = summary # cp_pinned plan @ cp_tail plan, cm_evicted = length (cp_evicted plan),
                  cm_pinned = length (cp_pinned plan), cm_summarized = completion \<noteq> None\<rparr>))"

section \<open>What a truncation costs\<close>

text \<open>A truncated text is the cap and a note of at most 72 bytes, 18 tokens.\<close>

lemma floor_boundary_le: "floor_boundary text n \<le> n"
  by (induction n) auto

lemma floor_boundary_ge: "is_char_boundary text i \<Longrightarrow> i \<le> n \<Longrightarrow> i \<le> floor_boundary text n"
  by (induction n) (auto simp: le_Suc_eq)

lemma show_nat_length: "n < 10 ^ k \<Longrightarrow> 0 < k \<Longrightarrow> length (show_nat n) \<le> k"
proof (induction k arbitrary: n)
  case (Suc k)
  show ?case
  proof (cases "n < 10")
    case True
    then show ?thesis by (simp add: show_nat.simps [of n])
  next
    case False
    with Suc.prems have "0 < k" by (cases k) auto
    moreover from Suc.prems have "n div 10 < 10 ^ k" by (simp add: less_mult_imp_div_less mult.commute)
    ultimately have "length (show_nat (n div 10)) \<le> k" by (intro Suc.IH)
    then show ?thesis using False by (simp add: show_nat.simps [of n])
  qed
qed simp

abbreviation address_space :: nat where "address_space \<equiv> 2 ^ 63"

lemma dropped_note_length: "n < address_space \<Longrightarrow> length (dropped_note n) \<le> 72"
  using show_nat_length [of n 19] by (simp add: dropped_note_def)

lemma tokens_truncated:
  assumes "text_size m < address_space"
  shows "tokens (truncated m cap) \<le> min (tokens m) cap + (if cap < tokens m then 18 else 0)"
proof (cases "\<exists>text. m_content m = Some text \<and> length text > cap * 4")
  case True
  then obtain tx where tx: "m_content m = Some tx" "length tx > cap * 4" by blast
  let ?e = "floor_boundary tx (cap * 4)"
  have "?e \<le> cap * 4" by (rule floor_boundary_le)
  moreover have "length (dropped_note (length tx - ?e)) \<le> 72"
    using assms tx by (intro dropped_note_length) (simp add: text_size_def)
  ultimately have "text_size (truncated m cap) \<le> cap * 4 + 72"
    using tx by (simp add: truncated_def text_size_def Let_def)
  then have "tokens (truncated m cap) \<le> cap + 18" by (simp add: tokens_def div_ceil_def)
  moreover have "cap < tokens m" using tx by (simp add: tokens_def div_ceil_def text_size_def)
  ultimately show ?thesis by simp
next
  case False
  then have "truncated m cap = m" by (auto simp: truncated_def split: option.split)
  moreover from False have "tokens m \<le> cap"
    by (auto simp: tokens_def div_ceil_def text_size_def split: option.split)
  ultimately show ?thesis by simp
qed

lemma truncated_fields [simp]:
  "m_role (truncated m cap) = m_role m" "m_tool_calls (truncated m cap) = m_tool_calls m"
  "m_tool_call_id (truncated m cap) = m_tool_call_id m"
  by (auto simp: truncated_def Let_def split: option.split)

text \<open>The code's comment promises that a compaction ends within the shares. Whatever is cut exceeds its cap: the
  cap's bytes stay, up to a character boundary, and the note comes on top.\<close>

lemma truncation_exceeds_its_cap:
  assumes "m_content m = Some text" and "length text > cap * 4" and "is_char_boundary text (cap * 4)"
  shows "cap < tokens (truncated m cap)"
proof -
  have "floor_boundary text (cap * 4) = cap * 4"
    using assms(3) by (cases "cap * 4") auto
  with assms show ?thesis
    by (simp add: truncated_def tokens_def div_ceil_def text_size_def dropped_note_def Let_def)
qed

section \<open>The tail\<close>

definition cost :: "nat \<Rightarrow> message \<Rightarrow> nat" where
  "cost message_cap m = min (tokens m) message_cap"

lemma split_point_le: "split_point history tail_cap message_cap k used \<le> k"
  by (induction history tail_cap message_cap k used rule: split_point.induct) (auto simp: Let_def le_SucI)

lemma split_point_cost:
  assumes "message_cap \<le> tail_cap"
  shows "k \<le> length history \<Longrightarrow> used = sum_list (map (cost message_cap) (drop k history)) \<Longrightarrow> used \<le> tail_cap \<Longrightarrow>
    sum_list (map (cost message_cap) (drop (split_point history tail_cap message_cap k used) history)) \<le> tail_cap"
proof (induction k arbitrary: used)
  case (Suc k)
  have d: "drop k history = history ! k # drop (Suc k) history"
    using Suc.prems(1) by (simp add: Cons_nth_drop_Suc)
  show ?case
  proof (cases "Suc k < length history \<and> used + cost message_cap (history ! k) > tail_cap")
    case True
    with Suc.prems show ?thesis by (simp add: cost_def)
  next
    case False
    have "used + cost message_cap (history ! k) \<le> tail_cap"
    proof (cases "Suc k < length history")
      case False
      with Suc.prems(1,2) assms show ?thesis by (simp add: cost_def)
    qed (use False in simp)
    with Suc.IH [of "used + cost message_cap (history ! k)"] Suc.prems(1,2) have
      "sum_list (map (cost message_cap) (drop (split_point history tail_cap message_cap k
         (used + cost message_cap (history ! k))) history)) \<le> tail_cap"
      by (simp add: d)
    moreover have "split_point history tail_cap message_cap (Suc k) used
        = split_point history tail_cap message_cap k (used + cost message_cap (history ! k))"
      using False unfolding cost_def Let_def split_point.simps by (rule if_not_P)
    ultimately show ?thesis by simp
  qed
qed simp

lemma tail_tokens:
  assumes "list_all (\<lambda>m. text_size m < address_space) ms"
  shows "total_tokens (map (\<lambda>m. truncated m cap) ms)
    \<le> sum_list (map (cost cap) ms) + 18 * length (filter (\<lambda>m. cap < tokens m) ms)"
  using assms
proof (induction ms)
  case (Cons m ms)
  then show ?case using tokens_truncated [of m cap] by (simp add: total_tokens_def cost_def split: if_splits)
qed (simp add: total_tokens_def)

lemma truncated_count: "cap * length (filter (\<lambda>m. cap < tokens m) ms) \<le> sum_list (map (cost cap) ms)"
  by (induction ms) (auto simp: cost_def)

section \<open>The pins\<close>

lemma fit_steers_tokens: "total_tokens (fit_steers message_cap r ss) \<le> r"
  by (induction message_cap r ss rule: fit_steers.induct) (auto simp: Let_def total_tokens_def)

lemma total_tokens_append [simp]: "total_tokens (xs @ ys) = total_tokens xs + total_tokens ys"
  and total_tokens_Cons [simp]: "total_tokens (x # xs) = tokens x + total_tokens xs"
  and total_tokens_rev [simp]: "total_tokens (rev xs) = total_tokens xs"
  and total_tokens_Nil [simp]: "total_tokens [] = 0"
  by (simp_all add: total_tokens_def flip: rev_map)

lemma after_last_Some: "after_last P xs = Some (x, ys) \<Longrightarrow> \<exists>zs. xs = zs @ x # ys \<and> P x \<and> list_all (\<lambda>y. \<not> P y) ys"
proof (induction xs)
  case (Cons a xs)
  show ?case
  proof (cases "after_last P xs")
    case None
    then have "list_all (\<lambda>y. \<not> P y) xs"
      by (induction xs) (auto split: option.splits if_splits)
    with None Cons.prems show ?thesis by (auto split: if_splits)
  next
    case (Some r)
    with Cons show ?thesis by (metis append_Cons after_last.simps(2) option.simps(5))
  qed
qed simp

lemma pin_tokens:
  assumes "list_all (\<lambda>m. text_size m < address_space) older"
  shows "total_tokens (pin_task message_cap pin_cap older) \<le> pin_cap + 18"
proof (cases "after_last is_task older")
  case (Some r)
  obtain task later where r: "r = (task, later)" by (cases r)
  from Some r have "task \<in> set older" by (auto dest: after_last_Some)
  with assms have "tokens (truncated task pin_cap) \<le> pin_cap + 18"
    using tokens_truncated [of task pin_cap] by (auto simp: list_all_iff split: if_splits)
  moreover have "total_tokens (fit_steers message_cap (pin_cap - tokens (truncated task pin_cap)) (rev (filter is_steer later)))
      \<le> pin_cap - tokens (truncated task pin_cap)" by (rule fit_steers_tokens)
  ultimately show ?thesis by (simp add: pin_task_def Some r Let_def)
qed (simp add: pin_task_def)

section \<open>A compaction makes progress\<close>

text \<open>No list and no text is longer than half the address space.\<close>

definition bounded :: "message list \<Rightarrow> bool" where
  "bounded ms \<longleftrightarrow> length ms < 2 ^ 62 \<and> list_all (\<lambda>m. text_size m < 2 ^ 62) ms"

lemma bounded_sub: "bounded ms \<Longrightarrow> set ns \<subseteq> set ms \<Longrightarrow> list_all (\<lambda>m. text_size m < address_space) ns"
  by (fastforce simp: bounded_def list_all_iff)

lemma room_min: "room budget n = Some r \<Longrightarrow> min_history_room \<le> r"
  by (auto simp: room_def)

lemma two_truncated:
  assumes "share r 20 * n \<le> share r 50" and "min_history_room \<le> r"
  shows "n \<le> 2"
proof (rule ccontr)
  assume "\<not> n \<le> 2"
  then have "share r 20 * 3 \<le> share r 20 * n" by (intro mult_le_mono2) simp
  from order_trans [OF this assms(1)] have "r div 5 * 3 \<le> r div 2" by (simp add: share_def)
  moreover have "r < 5 * (r div 5) + 5" "2 * (r div 2) \<le> r" by simp_all
  ultimately show False using assms(2) by (simp add: min_history_room_def)
qed

lemma plan_tokens:
  fixes r
  defines "plan h \<equiv> plan_compaction h (share r 50) (share r 20) (share r 10)"
  assumes "bounded history" and "min_history_room \<le> r"
  shows "total_tokens (cp_tail (plan history)) \<le> share r 50 + 36"
    and "total_tokens (cp_pinned (plan history)) \<le> share r 10 + 18"
proof -
  let ?s = "split_point history (share r 50) (share r 20) (length history) 0"
  let ?tail = "drop ?s history"
  have "share r 20 \<le> share r 50" by (simp add: share_def div_le_mono)
  from split_point_cost [OF this, of "length history" history 0]
  have c: "sum_list (map (cost (share r 20)) ?tail) \<le> share r 50" by simp
  have "length (filter (\<lambda>m. share r 20 < tokens m) ?tail) \<le> 2"
    by (rule two_truncated [OF order_trans [OF truncated_count c] assms(3)])
  moreover have "list_all (\<lambda>m. text_size m < address_space) ?tail"
    using assms(2) by (rule bounded_sub) (rule set_drop_subset)
  ultimately show "total_tokens (cp_tail (plan history)) \<le> share r 50 + 36"
    using tail_tokens [of ?tail "share r 20"] c by (simp add: plan_def plan_compaction_def Let_def)
  have "list_all (\<lambda>m. text_size m < address_space) (take ?s history)"
    using assms(2) by (rule bounded_sub) (rule set_take_subset)
  then show "total_tokens (cp_pinned (plan history)) \<le> share r 10 + 18"
    by (simp add: plan_def plan_compaction_def Let_def pin_tokens)
qed

definition summary_of ::
  "(message list \<Rightarrow> string option) \<Rightarrow> nat \<Rightarrow> message list \<Rightarrow> message" where
  "summary_of collect_vlm_text summary_cap older =
     message_user (summary_label @ CHR 0x0A # trim (compaction_note
       (if older = [] then None
        else (case collect_vlm_text (compaction_request summary_cap older) of
                Some text \<Rightarrow> if trim text \<noteq> [] then Some text else None
              | None \<Rightarrow> None)) older))"

lemma compact_history_Some:
  assumes "compact_history collect_vlm_text budget history n = Some c"
  obtains r where "room budget n = Some r" "must_compact budget history n"
    "cm_history c = truncated (summary_of collect_vlm_text (min (share r 15) summary_max_tokens)
         (cp_evicted (plan_compaction history (share r 50) (share r 20) (share r 10)))) (min (share r 15) summary_max_tokens)
       # cp_pinned (plan_compaction history (share r 50) (share r 20) (share r 10))
       @ cp_tail (plan_compaction history (share r 50) (share r 20) (share r 10))"
  using assms
  by (cases "room budget n") (auto simp: compact_history_def summary_of_def Let_def split: if_splits)

lemma trim_length: "length (trim s) \<le> length s"
proof -
  have "length (dropWhile P xs) \<le> length xs" for P and xs :: string by (induction xs) auto
  then show ?thesis unfolding trim_def trim_by_def by (metis length_rev order_trans)
qed

lemma previous_length: "bounded older \<Longrightarrow> length (previous_summary older) < 2 ^ 62"
proof -
  have d: "length (trim (drop k t)) \<le> length t" for k and t :: string
    using trim_length [of "drop k t"] by simp
  assume "bounded older"
  then show ?thesis
    by (auto simp: previous_summary_def strip_prefix_def bounded_def text_size_def
        intro!: le_less_trans [OF d] split: list.split option.split)
qed

lemma summary_size:
  assumes "bounded older" and reply: "\<And>req text. collect_vlm_text req = Some text \<Longrightarrow> length text < 2 ^ 62"
  shows "text_size (summary_of collect_vlm_text cap older) < address_space"
proof -
  have n: "length (compaction_note completion older) < 2 ^ 62 + 200"
    if "\<And>text. completion = Some text \<Longrightarrow> length text < 2 ^ 62" for completion
  proof (cases completion)
    case None
    have "length (show_nat (length older)) \<le> 19"
      using assms(1) by (intro show_nat_length) (simp_all add: bounded_def)
    with None previous_length [OF assms(1)] show ?thesis by (simp add: compaction_note_def)
  next
    case (Some t)
    with that trim_length [of t] show ?thesis by (fastforce simp: compaction_note_def)
  qed
  let ?c = "if older = [] then None
        else (case collect_vlm_text (compaction_request cap older) of
                Some text \<Rightarrow> if trim text \<noteq> [] then Some text else None
              | None \<Rightarrow> None)"
  have "length (compaction_note ?c older) < 2 ^ 62 + 200"
    by (rule n) (auto split: if_splits option.splits dest: reply)
  with trim_length [of "compaction_note ?c older"] show ?thesis
    by (simp add: summary_of_def text_size_def message_user_def summary_label_def)
qed

text \<open>C22 (bounds). Compaction makes progress whatever the summarizer answers, or fails to: the history it leaves
  holds at most three quarters of the room and 72 tokens, so it is not due again at once. The code's comment
  promises three quarters; the 72 tokens are the four notes a compaction can add. The history and the
  summarizer's answer have to fit into memory.\<close>

theorem compaction_makes_progress:
  assumes "compact_history collect_vlm_text budget history n = Some c" and "room budget n = Some r" and "bounded history"
    and "\<And>req text. collect_vlm_text req = Some text \<Longrightarrow> length text < 2 ^ 62"
  shows "total_tokens (cm_history c) \<le> share r 75 + 72 \<and> \<not> must_compact budget (cm_history c) n"
proof -
  from compact_history_Some [OF assms(1)] assms(2) have h: "cm_history c
      = truncated (summary_of collect_vlm_text (min (share r 15) summary_max_tokens)
         (cp_evicted (plan_compaction history (share r 50) (share r 20) (share r 10)))) (min (share r 15) summary_max_tokens)
       # cp_pinned (plan_compaction history (share r 50) (share r 20) (share r 10))
       @ cp_tail (plan_compaction history (share r 50) (share r 20) (share r 10))" by auto
  have r: "min_history_room \<le> r" using assms(2) by (rule room_min)
  let ?plan = "plan_compaction history (share r 50) (share r 20) (share r 10)"
  have b: "bounded (cp_evicted ?plan)"
    using assms(3) by (auto simp: bounded_def plan_compaction_def Let_def list_all_iff dest: in_set_takeD)
  have summary: "text_size (summary_of collect_vlm_text k (cp_evicted ?plan)) < address_space" for k
    using b assms(4) by (rule summary_size)
  have s: "tokens (truncated (summary_of collect_vlm_text k (cp_evicted ?plan)) k) \<le> k + 18" for k
    using tokens_truncated [OF summary [of k], where cap = k] by (simp split: if_splits)
  have t: "total_tokens (cm_history c) \<le> share r 15 + 18 + (share r 10 + 18) + (share r 50 + 36)"
    unfolding h using plan_tokens [OF assms(3) r] s [of "min (share r 15) summary_max_tokens"] by simp
  moreover have "share r 15 + share r 10 + share r 50 \<le> share r 75" "share r 75 + 72 < r"
    using r by (simp_all add: share_def min_history_room_def)
  ultimately show ?thesis using assms(2) by (simp add: must_compact_def)
qed

section \<open>What a compaction keeps\<close>

lemma split_point_less:
  assumes "history \<noteq> []"
  shows "split_point history tail_cap message_cap (length history) used < length history"
proof -
  obtain k where k: "length history = Suc k" using assms by (cases history) simp_all
  then have "split_point history tail_cap message_cap (Suc k) used
      = split_point history tail_cap message_cap k (used + min (tokens (history ! k)) message_cap)"
    by (simp add: Let_def)
  with split_point_le k show ?thesis by (metis less_Suc_eq_le)
qed

lemma after_last_append:
  "after_last P (xs @ ys) =
     (case after_last P ys of Some r \<Rightarrow> Some r | None \<Rightarrow> map_option (\<lambda>(x, zs). (x, zs @ ys)) (after_last P xs))"
  by (induction xs) (auto split: option.splits)

lemma task_kept:
  assumes "after_last is_task history = Some (task, later)"
  shows "let plan = plan_compaction history tail_cap message_cap pin_cap in
    truncated task pin_cap \<in> set (cp_pinned plan) \<or> truncated task message_cap \<in> set (cp_tail plan)"
proof -
  let ?s = "split_point history tail_cap message_cap (length history) 0"
  have h: "(case after_last is_task (drop ?s history) of
      Some r \<Rightarrow> Some r | None \<Rightarrow> map_option (\<lambda>(x, zs). (x, zs @ drop ?s history)) (after_last is_task (take ?s history)))
    = Some (task, later)"
    using assms after_last_append [of is_task "take ?s history" "drop ?s history"] by simp
  show ?thesis
  proof (cases "after_last is_task (drop ?s history)")
    case None
    with h obtain rest where "after_last is_task (take ?s history) = Some (task, rest)" by auto
    then show ?thesis by (simp add: plan_compaction_def pin_task_def Let_def)
  next
    case (Some r)
    with h have "after_last is_task (drop ?s history) = Some (task, later)" by simp
    then have "task \<in> set (drop ?s history)" by (auto dest: after_last_Some)
    then show ?thesis by (simp add: plan_compaction_def Let_def)
  qed
qed

lemma truncated_label:
  assumes "m_content m = Some (p @ CHR 0x0A # t)" and "length p \<le> cap * 4"
  shows "\<exists>tx. m_content (truncated m cap) = Some (p @ tx)"
proof (cases "length (p @ CHR 0x0A # t) > cap * 4")
  case True
  have "is_char_boundary (p @ CHR 0x0A # t) (length p)"
    by (simp add: is_char_boundary_def nth_append)
  from floor_boundary_ge [OF this assms(2)] obtain k where
    "floor_boundary (p @ CHR 0x0A # t) (cap * 4) = length p + k" by (auto simp: le_iff_add)
  with True assms(1) show ?thesis by (auto simp: truncated_def Let_def)
next
  case False
  then have "truncated m cap = m" using assms(1) by (simp add: truncated_def)
  with assms(1) show ?thesis by simp
qed

lemma summary_label_length: "length summary_label < 100"
  by (simp add: summary_label_def)

text \<open>C23 (safety). What a compaction keeps: its first message is the summary, recognisable by its label, so the next
  compaction folds it in; the task at hand, the last \<open>User task\<close> of the history, is still there in its own words, cut
  at worst to the share of a pin or of a message; and the newest message ends the list as it ended the history.\<close>

theorem compaction_keeps_the_task:
  assumes "compact_history collect_vlm_text budget history n = Some c" and "room budget n = Some r"
    and "after_last is_task history = Some (task, later)"
  shows "(\<exists>tx. m_content (hd (cm_history c)) = Some (summary_label @ tx))
    \<and> (truncated task (share r 10) \<in> set (cm_history c) \<or> truncated task (share r 20) \<in> set (cm_history c))
    \<and> last (cm_history c) = truncated (last history) (share r 20)"
proof (intro conjI)
  let ?plan = "plan_compaction history (share r 50) (share r 20) (share r 10)"
  from compact_history_Some [OF assms(1)] assms(2) have h: "cm_history c
      = truncated (summary_of collect_vlm_text (min (share r 15) summary_max_tokens) (cp_evicted ?plan))
          (min (share r 15) summary_max_tokens) # cp_pinned ?plan @ cp_tail ?plan" by auto
  have "100 \<le> share r 15"
    using room_min [OF assms(2)] by (simp add: share_def min_history_room_def)
  then have "length summary_label \<le> min (share r 15) summary_max_tokens * 4"
    using summary_label_length by (simp add: summary_max_tokens_def)
  then show "\<exists>tx. m_content (hd (cm_history c)) = Some (summary_label @ tx)"
    unfolding h by (simp add: truncated_label summary_of_def message_user_def)
  show "truncated task (share r 10) \<in> set (cm_history c) \<or> truncated task (share r 20) \<in> set (cm_history c)"
    using task_kept [OF assms(3), of "share r 50" "share r 20" "share r 10"] by (auto simp: h Let_def)
  let ?s = "split_point history (share r 50) (share r 20) (length history) 0"
  have "history \<noteq> []" using assms(3) by auto
  then have "?s < length history" by (rule split_point_less)
  then have "drop ?s history \<noteq> []" "last (drop ?s history) = last history" by simp_all
  moreover have "cp_tail ?plan = map (\<lambda>m. truncated m (share r 20)) (drop ?s history)"
    by (simp add: plan_compaction_def Let_def)
  ultimately show "last (cm_history c) = truncated (last history) (share r 20)"
    by (simp add: h last_map)
qed

section \<open>What is sent answers what was asked\<close>

abbreviation is_tool :: "message \<Rightarrow> bool" where
  "is_tool m \<equiv> m_role m = ''tool''"

text \<open>The endpoints accept a list when each tool message answers a call of the assistant message before it, and
  no call is answered twice.\<close>

fun answered :: "string set \<Rightarrow> message list \<Rightarrow> bool" where
  "answered open_ids [] = True"
| "answered open_ids (m # ms) =
     (if m_role m = ''assistant'' then answered (opens m) ms
      else if is_tool m then
        (\<exists>call_id \<in> open_ids. m_tool_call_id m = Some call_id \<and> answered (open_ids - {call_id}) ms)
      else answered {} ms)"

lemma sanitize_answered: "answered ids (sanitize ids ms)"
  by (induction ids ms rule: sanitize.induct) (auto split: option.split)

lemma sanitize_subseq: "subseq (sanitize ids ms) ms"
  by (induction ids ms rule: sanitize.induct) (auto split: option.split)

lemma sanitize_rest: "filter (\<lambda>m. \<not> is_tool m) (sanitize ids ms) = filter (\<lambda>m. \<not> is_tool m) ms"
  by (induction ids ms rule: sanitize.induct) (auto split: option.split)

lemma finite_opens [simp]: "finite (opens m)"
  by (simp add: opens_def split: option.split)

lemma sanitize_most:
  assumes "finite oy" and "os \<subseteq> oy" and "subseq ys ms" and "answered oy ys"
    and "filter (\<lambda>m. \<not> is_tool m) ys = filter (\<lambda>m. \<not> is_tool m) ms"
  shows "length ys \<le> length (sanitize os ms) + card (oy - os)"
  using assms
proof (induction ms arbitrary: ys os oy)
  case (Cons m ms)
  show ?case
  proof (cases "is_tool m")
    case False
    have "length (filter (\<lambda>m. \<not> is_tool m) ys) \<le> length (filter (\<lambda>m. \<not> is_tool m) ms)" if "subseq ys ms"
      using that by (intro list_emb_length) (rule subseq_filter)
    then have "\<not> subseq ys ms" using Cons.prems(5) False by auto
    then obtain zs where ys: "ys = m # zs" and zs: "subseq zs ms"
      using Cons.prems(3) by (cases ys) (auto split: if_splits)
    have "length zs \<le> length (sanitize i ms)" if "answered i zs" "finite i" for i
      using Cons.IH [of i i zs] zs that Cons.prems(5) False by (simp add: ys)
    with Cons.prems(4) False show ?thesis by (auto simp: ys intro!: trans_le_add1 split: if_splits)
  next
    case tool: True
    let ?d = "oy - os"
    show ?thesis
    proof (cases "subseq ys ms")
      case skip: True
      have rest: "filter (\<lambda>m. \<not> is_tool m) ys = filter (\<lambda>m. \<not> is_tool m) ms" using Cons.prems(5) tool by simp
      show ?thesis
      proof (cases "\<exists>i \<in> os. m_tool_call_id m = Some i")
        case False
        with Cons.IH [OF Cons.prems(1,2) skip Cons.prems(4) rest] tool show ?thesis by (auto split: option.split)
      next
        case True
        then obtain i where i: "i \<in> os" "m_tool_call_id m = Some i" by blast
        have "length ys \<le> length (sanitize (os - {i}) ms) + card (oy - (os - {i}))"
          using Cons.IH [OF Cons.prems(1) _ skip Cons.prems(4) rest] Cons.prems(2) by blast
        moreover have "oy - (os - {i}) = insert i ?d" using i Cons.prems(2) by auto
        ultimately show ?thesis using i tool Cons.prems(1) by simp
      qed
    next
      case False
      then obtain zs where ys: "ys = m # zs" and zs: "subseq zs ms"
        using Cons.prems(3) by (cases ys) (auto split: if_splits)
      from Cons.prems(4) tool obtain i where i: "i \<in> oy" "m_tool_call_id m = Some i" "answered (oy - {i}) zs"
        by (auto simp: ys split: if_splits)
      have rest: "filter (\<lambda>m. \<not> is_tool m) zs = filter (\<lambda>m. \<not> is_tool m) ms" using Cons.prems(5) tool by (simp add: ys)
      show ?thesis
      proof (cases "i \<in> os")
        case True
        then have "oy - {i} - (os - {i}) = ?d" by auto
        with Cons.IH [of "oy - {i}" "os - {i}" zs] Cons.prems(1,2) zs i rest True tool show ?thesis
          by (simp add: ys Diff_mono)
      next
        case False
        then have "os \<subseteq> oy - {i}" using Cons.prems(2) by auto
        moreover have "card ?d = Suc (card (oy - {i} - os))"
        proof -
          have "?d = insert i (oy - {i} - os)" using False i by auto
          then show ?thesis using Cons.prems(1) by simp
        qed
        ultimately show ?thesis
          using Cons.IH [of "oy - {i}" os zs] Cons.prems(1) zs i rest False tool by (simp add: ys)
      qed
    qed
  qed
qed (auto dest: list_emb_Nil2)

lemma sanitize_id: "sanitize ids ms = ms \<longleftrightarrow> answered ids ms"
proof
  show "answered ids ms" if "sanitize ids ms = ms" using sanitize_answered [of ids ms] that by simp
  show "sanitize ids ms = ms" if "answered ids ms"
    using that by (induction ids ms rule: sanitize.induct) (auto split: option.split)
qed

text \<open>C24 (functional). The list sent to the model is well formed and loses no more than it must: it is a subsequence
  of the history with every message that is not a tool result, each of its tool results answers a call of the
  assistant message before it and no call twice, no other such list is longer, and a history is sent as it is exactly
  when it is of that form.\<close>

theorem sanitize_keeps_the_most:
  "subseq (sanitize_for_vlm history) history
   \<and> filter (\<lambda>m. \<not> is_tool m) (sanitize_for_vlm history) = filter (\<lambda>m. \<not> is_tool m) history
   \<and> answered {} (sanitize_for_vlm history)
   \<and> {ys. subseq ys history \<and> filter (\<lambda>m. \<not> is_tool m) ys = filter (\<lambda>m. \<not> is_tool m) history \<and> answered {} ys}
      \<subseteq> {ys. length ys \<le> length (sanitize_for_vlm history)}
   \<and> (sanitize_for_vlm history = history \<longleftrightarrow> answered {} history)"
  using sanitize_most [of "{}" "{}" _ history]
  by (auto simp: sanitize_for_vlm_def sanitize_subseq sanitize_rest sanitize_answered sanitize_id)

section \<open>Witnesses\<close>

text \<open>A context window that leaves the least room, the task and two long results.\<close>

definition demo_text :: "nat \<Rightarrow> message" where
  "demo_text n = message_assistant (replicate n CHR ''x'')"

definition demo_task :: message where
  "demo_task = message_user ''User task (authoritative): inspect the loading dock''"

definition demo_history :: "message list" where
  "demo_history = [demo_task, demo_text 5000, demo_text 3600, demo_text 100]"

definition demo_summarizer :: "message list \<Rightarrow> string option" where
  "demo_summarizer ms = Some ''dock inspected''"

definition demo_compaction :: compaction where
  "demo_compaction = the (compact_history demo_summarizer (Some 4096) demo_history 100)"

lemma demo_text: "tokens (demo_text n) = (n + 3) div 4" "text_size (demo_text n) = n" "\<not> is_task (demo_text n)"
  by (simp_all add: demo_text_def message_assistant_def message_user_def tokens_def text_size_def div_ceil_def starts_def)

lemma demo_history:
  "room (Some 4096) 100 = Some 2048" "bounded demo_history"
  "after_last is_task demo_history = Some (demo_task, tl demo_history)"
  "compact_history demo_summarizer (Some 4096) demo_history 100 = Some demo_compaction"
proof -
  show r: "room (Some 4096) 100 = Some 2048"
    by (simp add: room_def min_history_room_def context_reserve_tokens_def)
  have s: "text_size demo_task < 2 ^ 62" "is_task demo_task" by code_simp+
  then show "bounded demo_history" "after_last is_task demo_history = Some (demo_task, tl demo_history)"
    by (simp_all add: bounded_def demo_history_def demo_text)
  have "must_compact (Some 4096) demo_history 100"
    by (simp add: must_compact_def r demo_history_def demo_text)
  then show "compact_history demo_summarizer (Some 4096) demo_history 100 = Some demo_compaction"
    by (simp add: demo_compaction_def compact_history_def r Let_def)
qed

theorem compaction_makes_progress_witness:
  "total_tokens (cm_history demo_compaction) \<le> 1608 \<and> \<not> must_compact (Some 4096) (cm_history demo_compaction) 100"
  using compaction_makes_progress [OF demo_history(4,1,2)] by (simp add: demo_summarizer_def share_def)

theorem compaction_keeps_the_task_witness:
  "truncated demo_task 204 \<in> set (cm_history demo_compaction) \<or> truncated demo_task 409 \<in> set (cm_history demo_compaction)"
  using compaction_keeps_the_task [OF demo_history(4,1,3)] by (simp add: share_def)

section \<open>Two gaps\<close>

text \<open>The pins stand for the current task when it fell out of the tail. The plan looks for a task among the evicted
  messages only, so a superseded task is pinned although the current one is still in the tail.\<close>

lemma superseded_task_is_pinned:
  "let old = message_user ''User task (authoritative): a''; new = message_user ''User task (authoritative): b'';
       plan = plan_compaction [old, new] 9 9 9 in
     cp_pinned plan = [old] \<and> cp_tail plan = [new]"
  by code_simp

text \<open>A compaction that evicts nothing does not call the summarizer, yet tells the model it was unavailable.\<close>

lemma nothing_evicted_note:
  "trim (compaction_note None []) =
     ''[0 earlier messages were dropped without a new summary because the summarizer was unavailable.]''"
  by code_simp

end
