(* ===== verification/Pilot_Expand.thy ===== *)
theory Pilot_Expand
  imports Pilot_Reply
begin

text \<open>
  From a JSON tree to the plan the executor runs: \<open>expand_rtdl_to_plan\<close> of \<open>system/pilot/src/planner.rs\<close>. A plan is
  an arena of nodes; a node's children are indices into it. The counter of op ids is shared by all sessions, so
  the values it hands out are an input; the JSON printer is a parameter.

  The main results: an expansion is the tree the JSON spells, and the executor's validation accepts it, unless the label
  of the tree is blank without being empty.
\<close>

section \<open>Expansion\<close>

record expand_env =
  xe_targets :: "(string, string \<times> string) hmap"
  xe_plan_id :: string
  xe_root_description :: string
  xe_run_tag :: string
  xe_seq :: "nat \<Rightarrow> u64"
  xe_render :: "json \<Rightarrow> string"

text \<open>The id of the \<open>n\<close>-th node of this expansion: \<open>xe_seq x n\<close> is what its \<open>fetch_add\<close> returns.\<close>

definition next_op_id :: "expand_env \<Rightarrow> nat \<Rightarrow> string" where
  "next_op_id x n = xe_run_tag x @ ''-'' @ show_u64 (xe_seq x n + 1)"

definition pick_description :: "(string \<times> json) list \<Rightarrow> string \<Rightarrow> string \<Rightarrow> string \<Rightarrow> string" where
  "pick_description obj path root_description synthesized =
     (case as_str (map_of obj ''description'') of
        Some d \<Rightarrow>
          if trim d \<noteq> [] then trim d
          else if path = ''$'' \<and> root_description \<noteq> [] then root_description else synthesized
      | None \<Rightarrow> if path = ''$'' \<and> root_description \<noteq> [] then root_description else synthesized)"

definition known_key :: "string list \<Rightarrow> string \<Rightarrow> bool" where
  "known_key required key \<longleftrightarrow> key = ''op'' \<or> key \<in> set required \<or> key \<in> {''op_id'', ''description''}"

definition reject_unknown_node_keys :: "(string \<times> json) list \<Rightarrow> string \<Rightarrow> string \<Rightarrow> string list \<Rightarrow> string + unit" where
  "reject_unknown_node_keys obj path op required =
     (case find (\<lambda>key. \<not> known_key required key) (map fst obj) of
        Some key \<Rightarrow> Inl (path @ '': '' @ op @ '' node has unexpected field `'' @ key @ ''`'')
      | None \<Rightarrow>
          (case find (\<lambda>req. map_of obj req = None) required of
             Some req \<Rightarrow> Inl (path @ '': '' @ op @ '' node must contain `'' @ req @ ''`'')
           | None \<Rightarrow> Inr ()))"

definition operator_node :: "expand_env \<Rightarrow> string \<Rightarrow> string \<Rightarrow> (string \<times> json) list \<Rightarrow> nat \<Rightarrow> nat \<Rightarrow> rtdl_node" where
  "operator_node x path op obj steps i =
     \<lparr>rn_node_kind = (if op = ''sequence'' then rtdl_sequence else rtdl_parallel), rn_children = [], rn_call = None,
      rn_op_id = next_op_id x i,
      rn_description = pick_description obj path (xe_root_description x)
        (op @ '' of '' @ show_nat steps @ '' step(s)'')\<rparr>"

definition do_node ::
  "expand_env \<Rightarrow> string \<Rightarrow> (string \<times> json) list \<Rightarrow> string \<Rightarrow> string \<times> string \<Rightarrow> json \<Rightarrow> nat \<Rightarrow> nat \<Rightarrow> rtdl_node" where
  "do_node x path obj cap target args call_index i =
     \<lparr>rn_node_kind = rtdl_do, rn_children = [],
      rn_call = Some \<lparr>cc_call_id = xe_plan_id x @ '':'' @ show_nat call_index, cc_provider_id = fst target,
        cc_contract_id = snd target, cc_args_json = xe_render x args\<rparr>,
      rn_op_id = next_op_id x i,
      rn_description = pick_description obj path (xe_root_description x) (''call '' @ cap)\<rparr>"

lemma size_member: "map_of obj k = Some v \<Longrightarrow> size v < size (JObj obj)"
proof (induction obj)
  case (Cons e obj)
  then show ?case by (cases e) (auto split: if_splits)
qed simp

text \<open>\<open>next_call\<close> and the arena are threaded through; a success is the node's index with both.\<close>

function (sequential)
  expand_node :: "expand_env \<Rightarrow> string \<Rightarrow> json \<Rightarrow> nat \<Rightarrow> rtdl_node list \<Rightarrow> string + nat \<times> nat \<times> rtdl_node list"
and expand_children ::
  "expand_env \<Rightarrow> string \<Rightarrow> nat \<Rightarrow> json list \<Rightarrow> nat \<Rightarrow> rtdl_node list \<Rightarrow> string + nat list \<times> nat \<times> rtdl_node list" where
  "expand_node x path (JObj obj) next_call nodes =
     (case as_str (map_of obj ''op'') of
        None \<Rightarrow> Inl (path @ ''.op must be a string'')
      | Some op \<Rightarrow>
          if op = ''sequence'' \<or> op = ''parallel'' then
            (case reject_unknown_node_keys obj path op [''children''] of
               Inl e \<Rightarrow> Inl e
             | Inr _ \<Rightarrow>
                 (case map_of obj ''children'' of
                    Some (JArr children) \<Rightarrow>
                      (case expand_children x path 0 children next_call
                              (nodes @ [operator_node x path op obj (length children) (length nodes)]) of
                         Inl e \<Rightarrow> Inl e
                       | Inr (indices, next_call', nodes') \<Rightarrow>
                           Inr (length nodes, next_call',
                             nodes'[length nodes := (nodes' ! length nodes)\<lparr>rn_children := indices\<rparr>]))
                  | _ \<Rightarrow> Inl (path @ ''.children must be an array'')))
          else if op = ''do'' then
            (case reject_unknown_node_keys obj path op [''cap'', ''args''] of
               Inl e \<Rightarrow> Inl e
             | Inr _ \<Rightarrow>
                 (case as_str (map_of obj ''cap'') of
                    None \<Rightarrow> Inl (path @ ''.cap must be a string'')
                  | Some cap \<Rightarrow>
                      (case map_of obj ''args'' of
                         Some (JObj args) \<Rightarrow>
                           (case hm_get (xe_targets x) cap of
                              None \<Rightarrow> Inl (path @ ''.cap unknown capability `'' @ cap @ ''`'')
                            | Some target \<Rightarrow>
                                Inr (length nodes, Suc next_call,
                                  nodes @ [do_node x path obj cap target (JObj args) next_call (length nodes)]))
                       | _ \<Rightarrow> Inl (path @ ''.args must be an object''))))
          else Inl (path @ ''.op unknown operator `'' @ op @ ''`''))"
| "expand_node x path node next_call nodes = Inl (path @ '': RTDL node must be an object'')"
| "expand_children x path idx [] next_call nodes = Inr ([], next_call, nodes)"
| "expand_children x path idx (c # cs) next_call nodes =
     (case expand_node x (path @ ''.children['' @ show_nat idx @ '']'') c next_call nodes of
        Inl e \<Rightarrow> Inl e
      | Inr (i, next_call', nodes') \<Rightarrow>
          (case expand_children x path (Suc idx) cs next_call' nodes' of
             Inl e \<Rightarrow> Inl e
           | Inr (is_, next_call'', nodes'') \<Rightarrow> Inr (i # is_, next_call'', nodes'')))"
  by pat_completeness auto
termination
proof (relation "measure (\<lambda>r. case r of
      Inl (x, path, node, next_call, nodes) \<Rightarrow> size node
    | Inr (x, path, idx, cs, next_call, nodes) \<Rightarrow> size_list size cs)", goal_cases)
  case (2 x path obj next_call nodes op u j children)
  then show ?case using size_member [of obj "''children''" "JArr children"] by simp
qed auto

declare expand_node.simps [simp del]

definition expand_rtdl_to_plan :: "expand_env \<Rightarrow> json \<Rightarrow> string + plan" where
  "expand_rtdl_to_plan x rtdl =
     (case expand_node x ''$'' rtdl 0 [] of
        Inl e \<Rightarrow> Inl e
      | Inr (root_index, _, nodes) \<Rightarrow>
          Inr \<lparr>pl_plan_id = xe_plan_id x, pl_root_index = root_index, pl_nodes = nodes\<rparr>)"

section \<open>The tree a JSON document spells\<close>

datatype op_tree =
    Operator string string "op_tree list"
  | Leaf string string "string \<times> string" string

text \<open>\<open>label\<close> is the description of a node; only the root falls back on the label of the whole tree.\<close>

definition label :: "expand_env \<Rightarrow> bool \<Rightarrow> (string \<times> json) list \<Rightarrow> string \<Rightarrow> string" where
  "label x root obj synthesized =
     (case as_str (map_of obj ''description'') of
        Some d \<Rightarrow> if trim d \<noteq> [] then trim d
                  else if root \<and> xe_root_description x \<noteq> [] then xe_root_description x else synthesized
      | None \<Rightarrow> if root \<and> xe_root_description x \<noteq> [] then xe_root_description x else synthesized)"

definition node_keys :: "string list \<Rightarrow> (string \<times> json) list \<Rightarrow> bool" where
  "node_keys required obj \<longleftrightarrow> (\<forall>key \<in> fst ` set obj. known_key required key)
     \<and> (\<forall>req \<in> set required. map_of obj req \<noteq> None)"

primrec spells :: "expand_env \<Rightarrow> op_tree \<Rightarrow> bool \<Rightarrow> json \<Rightarrow> bool" where
  "spells x (Operator op d ts) = (\<lambda>root j. \<exists>obj cs. j = JObj obj \<and> map_of obj ''op'' = Some (JStr op)
     \<and> op \<in> {''sequence'', ''parallel''} \<and> node_keys [''children''] obj \<and> map_of obj ''children'' = Some (JArr cs)
     \<and> d = label x root obj (op @ '' of '' @ show_nat (length cs) @ '' step(s)'')
     \<and> list_all2 (\<lambda>f c. f False c) (map (spells x) ts) cs)"
| "spells x (Leaf cap d target args) = (\<lambda>root j. \<exists>obj kvs. j = JObj obj \<and> map_of obj ''op'' = Some (JStr ''do'')
     \<and> node_keys [''cap'', ''args''] obj \<and> map_of obj ''cap'' = Some (JStr cap)
     \<and> map_of obj ''args'' = Some (JObj kvs) \<and> args = xe_render x (JObj kvs)
     \<and> hm_get (xe_targets x) cap = Some target \<and> d = label x root obj (''call '' @ cap))"

text \<open>\<open>arena nodes i t\<close>: the nodes from index \<open>i\<close> on hold the tree \<open>t\<close>, every child after its parent.\<close>

primrec arena :: "rtdl_node list \<Rightarrow> op_tree \<Rightarrow> nat \<Rightarrow> bool" where
  "arena nodes (Operator op d ts) = (\<lambda>i. i < length nodes
     \<and> rn_node_kind (nodes ! i) = (if op = ''sequence'' then rtdl_sequence else rtdl_parallel)
     \<and> rn_call (nodes ! i) = None \<and> rn_description (nodes ! i) = d
     \<and> (\<forall>c \<in> set (rn_children (nodes ! i)). i < c)
     \<and> list_all2 (\<lambda>f c. f c) (map (arena nodes) ts) (rn_children (nodes ! i)))"
| "arena nodes (Leaf cap d target args) = (\<lambda>i. i < length nodes
     \<and> rn_node_kind (nodes ! i) = rtdl_do \<and> rn_children (nodes ! i) = [] \<and> rn_description (nodes ! i) = d
     \<and> (\<exists>call. rn_call (nodes ! i) = Some call \<and> cc_provider_id call = fst target
          \<and> cc_contract_id call = snd target \<and> cc_args_json call = args))"

declare spells.simps [simp del] arena.simps [simp del]

lemma arena_same:
  "arena nodes t i \<Longrightarrow> length nodes \<le> length nodes' \<Longrightarrow> (\<And>j. i \<le> j \<Longrightarrow> j < length nodes \<Longrightarrow> nodes' ! j = nodes ! j) \<Longrightarrow>
     arena nodes' t i"
proof (induction t arbitrary: i)
  case (Operator op d ts)
  have sub: "arena nodes' s c" if "s \<in> set ts" "arena nodes s c" "i < c" for s c
    using Operator.IH [OF that(1,2)] Operator.prems(2,3) that(3) by simp
  have c: "\<forall>c \<in> set (rn_children (nodes ! i)). i < c"
    and "list_all2 (arena nodes) ts (rn_children (nodes ! i))"
    using Operator.prems(1) by (auto simp: arena.simps list_all2_map1)
  then have "list_all2 (arena nodes') ts (rn_children (nodes ! i))"
    by (auto elim!: list.rel_mono_strong intro: sub)
  with Operator.prems show ?case by (auto simp: arena.simps list_all2_map1)
qed (auto simp: arena.simps)

lemma pick_label: "pick_description obj path (xe_root_description x) s = label x (path = ''$'') obj s"
  by (simp add: pick_description_def label_def)

lemma reject_iff: "reject_unknown_node_keys obj path op required = Inr () \<longleftrightarrow> node_keys required obj"
proof -
  have "find (\<lambda>key. \<not> known_key required key) (map fst obj) = None \<longleftrightarrow> (\<forall>key \<in> fst ` set obj. known_key required key)"
    by (auto simp: find_None_iff)
  moreover have "find (\<lambda>req. map_of obj req = None) required = None \<longleftrightarrow> (\<forall>req \<in> set required. map_of obj req \<noteq> None)"
    by (auto simp: find_None_iff)
  ultimately show ?thesis
    by (auto simp: reject_unknown_node_keys_def node_keys_def split: option.split)
qed

lemma reject_not: "\<not> node_keys required obj \<Longrightarrow> \<exists>e. reject_unknown_node_keys obj path op required = Inl e"
  using reject_iff [of obj path op required] by (cases "reject_unknown_node_keys obj path op required") auto

lemma child_path: "(path @ ''.children['' @ n @ '']'' = ''$'') = False"
  by (cases path) auto

section \<open>An expansion is the tree its JSON spells\<close>

lemma spells_object: "spells x t root j \<Longrightarrow> \<exists>obj. j = JObj obj"
  by (cases t) (auto simp: spells.simps)

lemma spells_operator:
  assumes "map_of obj ''op'' = Some (JStr op)" and "op = ''sequence'' \<or> op = ''parallel''"
  shows "spells x t root (JObj obj) \<longleftrightarrow> (\<exists>ts cs. node_keys [''children''] obj \<and> map_of obj ''children'' = Some (JArr cs)
    \<and> list_all2 (\<lambda>t. spells x t False) ts cs
    \<and> t = Operator op (label x root obj (op @ '' of '' @ show_nat (length cs) @ '' step(s)'')) ts)"
  using assms by (cases t) (auto simp: spells.simps list_all2_map1)

lemma spells_leaf:
  assumes "map_of obj ''op'' = Some (JStr ''do'')"
  shows "spells x t root (JObj obj) \<longleftrightarrow> (\<exists>cap kvs target. node_keys [''cap'', ''args''] obj
    \<and> map_of obj ''cap'' = Some (JStr cap) \<and> map_of obj ''args'' = Some (JObj kvs)
    \<and> hm_get (xe_targets x) cap = Some target
    \<and> t = Leaf cap (label x root obj (''call '' @ cap)) target (xe_render x (JObj kvs)))"
  using assms by (cases t) (auto simp: spells.simps)

lemma expand_do:
  assumes op: "map_of obj ''op'' = Some (JStr ''do'')"
  shows "case expand_node x path (JObj obj) next_call nodes of
     Inl e \<Rightarrow> \<not> (\<exists>t. spells x t (path = ''$'') (JObj obj))
   | Inr (i, next_call', nodes') \<Rightarrow> i = length nodes \<and> (\<exists>new. new \<noteq> [] \<and> nodes' = nodes @ new)
       \<and> (\<exists>t. spells x t (path = ''$'') (JObj obj) \<and> arena nodes' t i)"
proof -
  have names: "''do'' \<noteq> ''sequence''" "''do'' \<noteq> ''parallel''" by simp_all
  show ?thesis
  proof (cases "\<exists>cap kvs target. node_keys [''cap'', ''args''] obj
      \<and> map_of obj ''cap'' = Some (JStr cap) \<and> map_of obj ''args'' = Some (JObj kvs)
      \<and> hm_get (xe_targets x) cap = Some target")
    case True
    then obtain cap kvs target where c: "node_keys [''cap'', ''args''] obj" "map_of obj ''cap'' = Some (JStr cap)"
      "map_of obj ''args'' = Some (JObj kvs)" "hm_get (xe_targets x) cap = Some target" by blast
    then have e: "expand_node x path (JObj obj) next_call nodes
        = Inr (length nodes, Suc next_call, nodes @ [do_node x path obj cap target (JObj kvs) next_call (length nodes)])"
      using names op reject_iff [of obj path "''do''" "[''cap'', ''args'']"] by (simp add: expand_node.simps as_str_def)
    have "arena (nodes @ [do_node x path obj cap target (JObj kvs) next_call (length nodes)])
        (Leaf cap (label x (path = ''$'') obj (''call '' @ cap)) target (xe_render x (JObj kvs))) (length nodes)"
      by (simp add: arena.simps do_node_def pick_label)
    moreover have "spells x (Leaf cap (label x (path = ''$'') obj (''call '' @ cap)) target (xe_render x (JObj kvs)))
        (path = ''$'') (JObj obj)"
      unfolding spells_leaf [OF op] using c by blast
    ultimately show ?thesis unfolding e by auto
  next
    case False
    then have "\<exists>e. expand_node x path (JObj obj) next_call nodes = Inl e"
    proof (cases "node_keys [''cap'', ''args''] obj")
      case True
      with False show ?thesis
        using names op reject_iff [of obj path "''do''" "[''cap'', ''args'']"]
        by (auto simp: expand_node.simps as_str_def split: json.split option.split)
    next
      case no: False
      from reject_not [OF this, of path "''do''"] names op show ?thesis
        by (auto simp: expand_node.simps as_str_def)
    qed
    with False spells_leaf [OF op, of x _ "path = ''$''"] show ?thesis by auto
  qed
qed

lemma expand_spells:
  "case expand_node x path j next_call nodes of
     Inl e \<Rightarrow> \<not> (\<exists>t. spells x t (path = ''$'') j)
   | Inr (i, next_call', nodes') \<Rightarrow> i = length nodes \<and> (\<exists>new. new \<noteq> [] \<and> nodes' = nodes @ new)
       \<and> (\<exists>t. spells x t (path = ''$'') j \<and> arena nodes' t i)"
  "case expand_children x path idx cs next_call nodes of
     Inl e \<Rightarrow> \<not> (\<exists>ts. list_all2 (\<lambda>t. spells x t False) ts cs)
   | Inr (ids, next_call', nodes') \<Rightarrow> (\<exists>new. nodes' = nodes @ new) \<and> (\<forall>i \<in> set ids. length nodes \<le> i)
       \<and> (\<exists>ts. list_all2 (\<lambda>t. spells x t False) ts cs \<and> list_all2 (arena nodes') ts ids)"
proof (induction x path j next_call nodes and x path idx cs next_call nodes rule: expand_node_expand_children.induct)
  case (1 x path obj next_call nodes)
  show ?case
  proof (cases "as_str (map_of obj ''op'')")
    case None
    then have "\<not> spells x t root (JObj obj)" for t root
      by (cases t) (auto simp: spells.simps as_str_def)
    with None show ?thesis by (simp add: expand_node.simps)
  next
    case (Some op)
    then have op: "map_of obj ''op'' = Some (JStr op)" by (auto simp: as_str_def split: option.splits json.splits)
    consider "op = ''sequence'' \<or> op = ''parallel''" | "op = ''do''"
      | "op \<noteq> ''sequence''" "op \<noteq> ''parallel''" "op \<noteq> ''do''" by blast
    then show ?thesis
    proof cases
      case o: 1
      note sp = spells_operator [OF op o, of x _ "path = ''$''"]
      show ?thesis
      proof (cases "\<exists>cs. node_keys [''children''] obj \<and> map_of obj ''children'' = Some (JArr cs)")
        case True
        then obtain cs where c: "node_keys [''children''] obj" "map_of obj ''children'' = Some (JArr cs)" by blast
        let ?nodes = "nodes @ [operator_node x path op obj (length cs) (length nodes)]"
        have r: "reject_unknown_node_keys obj path op [''children''] = Inr ()" using c(1) by (simp add: reject_iff)
        note IH = "1.IH" [OF Some o r c(2) refl]
        show ?thesis
        proof (cases "expand_children x path 0 cs next_call ?nodes")
          case (Inl e)
          with IH sp c have "\<not> (\<exists>t. spells x t (path = ''$'') (JObj obj))" by auto
          moreover have "expand_node x path (JObj obj) next_call nodes = Inl e"
            using Some o c r Inl by (simp add: expand_node.simps)
          ultimately show ?thesis by simp
        next
          case (Inr res)
          obtain ids nc nodes' where res: "res = (ids, nc, nodes')" by (cases res) auto
          let ?top = "(nodes' ! length nodes)\<lparr>rn_children := ids\<rparr>"
          from IH Inr res obtain new ts where new: "nodes' = ?nodes @ new" and ids: "\<forall>i \<in> set ids. length nodes < i"
            and ts: "list_all2 (\<lambda>t. spells x t False) ts cs" "list_all2 (arena nodes') ts ids" by (auto simp: Suc_le_eq)
          have e: "expand_node x path (JObj obj) next_call nodes = Inr (length nodes, nc, nodes'[length nodes := ?top])"
            using Some o c r Inr res by (simp add: expand_node.simps)
          have "arena (nodes'[length nodes := ?top]) t i" if "arena nodes' t i" "i \<in> set ids" for t i
            using that(2) ids by (intro arena_same [OF that(1)]) auto
          then have "list_all2 (arena (nodes'[length nodes := ?top])) ts ids"
            by (intro list.rel_mono_strong [OF ts(2)])
          then have "arena (nodes'[length nodes := ?top])
              (Operator op (label x (path = ''$'') obj (op @ '' of '' @ show_nat (length cs) @ '' step(s)'')) ts) (length nodes)"
            using ids o by (auto simp: arena.simps list_all2_map1 new operator_node_def pick_label nth_append)
          moreover have "nodes'[length nodes := ?top] = nodes @ (?top # new)" by (simp add: new)
          ultimately show ?thesis unfolding e using sp c ts(1) by auto
        qed
      next
        case False
        then have "\<exists>e. expand_node x path (JObj obj) next_call nodes = Inl e"
        proof (cases "node_keys [''children''] obj")
          case True
          with False Some o reject_iff [of obj path op "[''children'']"] show ?thesis
            by (auto simp: expand_node.simps split: json.split option.split)
        next
          case no: False
          from reject_not [OF this, of path op] Some o show ?thesis by (auto simp: expand_node.simps)
        qed
        with False sp show ?thesis by auto
      qed
    next
      case 2
      with expand_do op show ?thesis by simp
    next
      case 3
      then have "\<not> spells x t root (JObj obj)" for t root
        using op by (cases t) (auto simp: spells.simps)
      with Some 3 show ?thesis by (simp add: expand_node.simps)
    qed
  qed
next
  case (3 x path idx next_call nodes)
  then show ?case by simp
next
  case (4 x path idx c cs next_call nodes)
  let ?p = "path @ ''.children['' @ show_nat idx @ '']''"
  show ?case
  proof (cases "expand_node x ?p c next_call nodes")
    case (Inl e)
    with "4.IH"(1) show ?thesis by (auto simp: child_path list_all2_Cons2)
  next
    case (Inr res)
    obtain i nc nodes1 where res: "res = (i, nc, nodes1)" by (cases res) auto
    with "4.IH"(1) Inr obtain new t where i: "i = length nodes" "nodes1 = nodes @ new"
      and t: "spells x t False c" "arena nodes1 t i" by (auto simp: child_path)
    note IH = "4.IH"(2) [OF Inr res [symmetric] refl]
    show ?thesis
    proof (cases "expand_children x path (Suc idx) cs nc nodes1")
      case (Inl e)
      with IH Inr res show ?thesis by (auto simp: list_all2_Cons2)
    next
      case r2: (Inr res2)
      obtain ids nc2 nodes2 where res2: "res2 = (ids, nc2, nodes2)" by (cases res2) auto
      with IH r2 obtain new2 ts where n2: "nodes2 = nodes1 @ new2" "\<forall>j \<in> set ids. length nodes1 \<le> j"
        and ts: "list_all2 (\<lambda>t. spells x t False) ts cs" "list_all2 (arena nodes2) ts ids" by auto
      have "arena nodes2 t i" by (rule arena_same [OF t(2)]) (auto simp: n2(1) nth_append)
      with Inr res r2 res2 i n2 t(1) ts show ?thesis
        by (auto intro!: exI [of _ "t # ts"])
    qed
  qed
qed (auto simp: expand_node.simps dest: spells_object)

text \<open>C19 (refinement). Compiling a tree to an arena: the expansion succeeds exactly when the JSON spells a tree of
  operators and known capabilities, with no other fields, and then the arena holds that very tree from its root
  on: operators, descriptions, the order of the children, and the target and arguments of each call.\<close>

theorem expand_rtdl_to_plan_compiles:
  "case expand_rtdl_to_plan x rtdl of
     Inl e \<Rightarrow> \<not> (\<exists>t. spells x t True rtdl)
   | Inr pl \<Rightarrow> \<exists>t. spells x t True rtdl \<and> arena (pl_nodes pl) t (pl_root_index pl)"
  using expand_spells(1) [where x = x and path = "''$''" and j = rtdl and next_call = 0 and nodes = "[]"]
  by (auto simp: expand_rtdl_to_plan_def split: sum.splits prod.splits)

section \<open>The executor accepts what Pilot expands\<close>

definition calls_of :: "rtdl_node list \<Rightarrow> capability_call list" where
  "calls_of nodes = concat (map (\<lambda>n. case rn_call n of None \<Rightarrow> [] | Some c \<Rightarrow> [c]) nodes)"

lemma calls_of_simps [simp]:
  "calls_of [] = []" "calls_of (n # ns) = (case rn_call n of None \<Rightarrow> [] | Some c \<Rightarrow> [c]) @ calls_of ns"
  "calls_of (ns @ ms) = calls_of ns @ calls_of ms"
  by (simp_all add: calls_of_def)

definition targets_named :: "expand_env \<Rightarrow> bool" where
  "targets_named x \<longleftrightarrow> (\<forall>(cap, provider_id, contract_id) \<in> set (xe_targets x). provider_id \<noteq> [] \<and> contract_id \<noteq> [])"

definition label_given :: "expand_env \<Rightarrow> bool" where
  "label_given x \<longleftrightarrow> xe_root_description x = [] \<or> trim (xe_root_description x) \<noteq> []"

definition node_ok :: "expand_env \<Rightarrow> nat \<Rightarrow> nat \<Rightarrow> rtdl_node \<Rightarrow> bool" where
  "node_ok x n j node \<longleftrightarrow> rn_op_id node = next_op_id x j \<and> trim (rn_description node) \<noteq> []
     \<and> (rn_node_kind node = rtdl_do \<and> rn_children node = [] \<and> (\<exists>call. rn_call node = Some call \<and> call_wf call)
        \<or> rn_node_kind node \<in> {rtdl_sequence, rtdl_parallel} \<and> (\<forall>c \<in> set (rn_children node). j < c \<and> c < n))"

lemma node_ok_mono: "node_ok x n j node \<Longrightarrow> n \<le> m \<Longrightarrow> node_ok x m j node"
  by (auto simp: node_ok_def)

lemma trim_blank: "trim s = [] \<longleftrightarrow> list_all is_ws s"
proof
  assume "trim s = []"
  then have "\<forall>c \<in> set (dropWhile is_ws s). is_ws c"
    unfolding trim_def trim_by_def by (simp only: rev_is_Nil_conv dropWhile_eq_Nil_conv set_rev)
  then have "dropWhile is_ws s = []"
    using hd_dropWhile_not [of is_ws s] by (cases "dropWhile is_ws s") auto
  then show "list_all is_ws s" by (simp add: list_all_iff dropWhile_eq_Nil_conv)
next
  assume "list_all is_ws s"
  then have "dropWhile is_ws s = []" by (simp add: list_all_iff dropWhile_eq_Nil_conv)
  then show "trim s = []" unfolding trim_def trim_by_def by (simp only: rev.simps dropWhile.simps)
qed

lemma described:
  "label_given x \<Longrightarrow> trim s \<noteq> [] \<Longrightarrow> trim (pick_description obj path (xe_root_description x) s) \<noteq> []"
  by (auto simp: pick_description_def label_given_def split: option.split)

lemma synthesized: "trim (''call '' @ cap) \<noteq> []" "trim (op @ '' of '' @ n @ '' step(s)'') \<noteq> []"
  by (simp_all add: trim_blank is_ws_def)

lemma operator_ok: "label_given x \<Longrightarrow> op = ''sequence'' \<or> op = ''parallel'' \<Longrightarrow> \<forall>c \<in> set ids. j < c \<and> c < n \<Longrightarrow>
    node_ok x n j ((operator_node x path op obj steps j)\<lparr>rn_children := ids\<rparr>)"
  using described [OF _ synthesized(2)] by (auto simp: node_ok_def operator_node_def)

lemma leaf_ok: "label_given x \<Longrightarrow> targets_named x \<Longrightarrow> hm_get (xe_targets x) cap = Some target \<Longrightarrow>
    node_ok x n j (do_node x path obj cap target args k j)"
  using described [OF _ synthesized(1)] 
  by (cases target) (fastforce simp: node_ok_def do_node_def call_wf_def targets_named_def dest: hm_get_in_set)

definition call_id :: "expand_env \<Rightarrow> nat \<Rightarrow> string" where
  "call_id x k = xe_plan_id x @ '':'' @ show_nat k"

text \<open>What an expansion adds to the arena.\<close>

definition adds :: "expand_env \<Rightarrow> nat \<Rightarrow> rtdl_node list \<Rightarrow> nat \<Rightarrow> rtdl_node list \<Rightarrow> bool" where
  "adds x k nodes k' nodes' \<longleftrightarrow> k \<le> k' \<and> (\<exists>new. nodes' = nodes @ new
     \<and> (\<forall>j. length nodes \<le> j \<and> j < length nodes' \<longrightarrow> node_ok x (length nodes') j (nodes' ! j))
     \<and> map cc_call_id (calls_of new) = map (call_id x) [k..<k'])"

lemma adds_refl: "adds x k nodes k nodes"
  by (auto simp: adds_def)

lemma adds_trans:
  assumes "adds x k nodes k1 nodes1" and "adds x k1 nodes1 k2 nodes2"
  shows "adds x k nodes k2 nodes2"
proof -
  from assms obtain n1 n2 where n: "nodes1 = nodes @ n1" "nodes2 = nodes1 @ n2" and k: "k \<le> k1" "k1 \<le> k2"
    and ok: "\<And>j. length nodes \<le> j \<Longrightarrow> j < length nodes1 \<Longrightarrow> node_ok x (length nodes1) j (nodes1 ! j)"
      "\<And>j. length nodes1 \<le> j \<Longrightarrow> j < length nodes2 \<Longrightarrow> node_ok x (length nodes2) j (nodes2 ! j)"
    and ids: "map cc_call_id (calls_of n1) = map (call_id x) [k..<k1]"
      "map cc_call_id (calls_of n2) = map (call_id x) [k1..<k2]"
    by (auto simp: adds_def)
  have "node_ok x (length nodes2) j (nodes2 ! j)" if "length nodes \<le> j" "j < length nodes2" for j
  proof (cases "j < length nodes1")
    case True
    from node_ok_mono [OF ok(1) [OF that(1) True]] have "node_ok x (length nodes2) j (nodes1 ! j)"
      by (simp add: n(2))
    with True show ?thesis by (simp add: n(2) nth_append)
  qed (use ok(2) that(2) in simp)
  moreover have "map cc_call_id (calls_of (n1 @ n2)) = map (call_id x) [k..<k2]"
    using ids upt_add_eq_append [of k k1 "k2 - k1"] k by simp
  ultimately show ?thesis using n k by (auto simp: adds_def)
qed

lemma expand_operator:
  assumes op: "as_str (map_of obj ''op'') = Some op" "op = ''sequence'' \<or> op = ''parallel''"
    and e: "expand_node x path (JObj obj) k nodes = Inr (i, k', nodes')"
  obtains cs ids nodes1 where "reject_unknown_node_keys obj path op [''children''] = Inr ()"
    "map_of obj ''children'' = Some (JArr cs)"
    "expand_children x path 0 cs k (nodes @ [operator_node x path op obj (length cs) (length nodes)])
      = Inr (ids, k', nodes1)"
    "i = length nodes" "nodes' = nodes1[length nodes := (nodes1 ! length nodes)\<lparr>rn_children := ids\<rparr>]"
proof -
  let ?i = "length nodes"
  from op e have eq: "(case reject_unknown_node_keys obj path op [''children''] of
         Inl e \<Rightarrow> Inl e
       | Inr _ \<Rightarrow>
           (case map_of obj ''children'' of
              Some (JArr children) \<Rightarrow>
                (case expand_children x path 0 children k (nodes @ [operator_node x path op obj (length children) ?i]) of
                   Inl e \<Rightarrow> Inl e
                 | Inr (indices, k', nodes') \<Rightarrow>
                     Inr (?i, k', nodes'[?i := (nodes' ! ?i)\<lparr>rn_children := indices\<rparr>]))
            | _ \<Rightarrow> Inl (path @ ''.children must be an array''))) = Inr (i, k', nodes')"
    by (simp only: expand_node.simps option.case if_True)
  then obtain cs where r: "reject_unknown_node_keys obj path op [''children''] = Inr ()"
    and cs: "map_of obj ''children'' = Some (JArr cs)"
    by (cases "reject_unknown_node_keys obj path op [''children'']"; cases "map_of obj ''children''";
        cases "the (map_of obj ''children'')") simp_all
  let ?e = "expand_children x path 0 cs k (nodes @ [operator_node x path op obj (length cs) ?i])"
  from eq r cs have eq: "(case ?e of Inl e \<Rightarrow> Inl e
      | Inr (indices, k', nodes') \<Rightarrow> Inr (?i, k', nodes'[?i := (nodes' ! ?i)\<lparr>rn_children := indices\<rparr>])) = Inr (i, k', nodes')"
    by simp
  then obtain ids nodes1 where e1: "?e = Inr (ids, k', nodes1)" by (cases ?e) auto
  with eq have "i = ?i" "nodes' = nodes1[?i := (nodes1 ! ?i)\<lparr>rn_children := ids\<rparr>]" by auto
  with that [OF r cs e1] show thesis by simp
qed

lemma expand_leaf:
  assumes op: "as_str (map_of obj ''op'') = Some op" "expand_node x path (JObj obj) k nodes = Inr (i, k', nodes')"
    "op = ''do''"
  shows "\<exists>cap args target. hm_get (xe_targets x) cap = Some target \<and> i = length nodes \<and> k' = Suc k
    \<and> nodes' = nodes @ [do_node x path obj cap target (JObj args) k (length nodes)]"
proof -
  have names: "''do'' \<noteq> ''sequence''" "''do'' \<noteq> ''parallel''" by simp_all
  from op names show ?thesis
    by (auto simp: expand_node.simps split: sum.splits option.splits json.splits)
qed

lemma expand_adds:
  assumes "label_given x" and "targets_named x"
  shows "expand_node x path j k nodes = Inr (i, k', nodes') \<Longrightarrow>
     i = length nodes \<and> i < length nodes' \<and> adds x k nodes k' nodes'"
    and "expand_children x path idx cs k nodes = Inr (ids, k', nodes') \<Longrightarrow>
     (\<forall>i \<in> set ids. length nodes \<le> i \<and> i < length nodes') \<and> adds x k nodes k' nodes'"
  using assms
proof (induction x path j k nodes and x path idx cs k nodes arbitrary: i k' nodes' and ids k' nodes'
    rule: expand_node_expand_children.induct)
  case (1 x path obj k nodes)
  then obtain op where op: "as_str (map_of obj ''op'') = Some op"
    by (cases "as_str (map_of obj ''op'')") (auto simp: expand_node.simps)
  consider "op = ''sequence'' \<or> op = ''parallel''" | "op = ''do''" "\<not> (op = ''sequence'' \<or> op = ''parallel'')"
    using "1.prems"(1) op by (auto simp: expand_node.simps split: if_splits)
  then show ?case
  proof cases
    case o: 1
    from expand_operator [OF op o "1.prems"(1)] obtain cs ids nodes1
      where r: "reject_unknown_node_keys obj path op [''children''] = Inr ()"
      and cs: "map_of obj ''children'' = Some (JArr cs)"
      and e: "expand_children x path 0 cs k (nodes @ [operator_node x path op obj (length cs) (length nodes)])
        = Inr (ids, k', nodes1)"
      and res: "i = length nodes" "nodes' = nodes1[length nodes := (nodes1 ! length nodes)\<lparr>rn_children := ids\<rparr>]" .
    from "1.IH" [OF op o r cs refl e "1.prems"(2,3)]
    have ids: "\<forall>i \<in> set ids. length nodes < i \<and> i < length nodes1"
      and a: "adds x k (nodes @ [operator_node x path op obj (length cs) (length nodes)]) k' nodes1"
      by auto
    from a obtain new where new: "nodes1 = nodes @ operator_node x path op obj (length cs) (length nodes) # new"
      by (auto simp: adds_def)
    then have n': "nodes' = nodes @ (operator_node x path op obj (length cs) (length nodes))\<lparr>rn_children := ids\<rparr> # new"
      by (simp add: res)
    have "node_ok x (length nodes') j (nodes' ! j)" if "length nodes \<le> j" "j < length nodes'" for j
    proof (cases "j = length nodes")
      case True
      with operator_ok [OF "1.prems"(2) o, of ids "length nodes" "length nodes'"] ids show ?thesis
        by (simp add: n' new nth_append)
    next
      case False
      with a that have "node_ok x (length nodes1) j (nodes1 ! j)" by (simp add: adds_def new n')
      with False show ?thesis by (simp add: res)
    qed
    with a show ?thesis by (auto simp: adds_def n' new operator_node_def res)
  next
    case 2
    with expand_leaf [OF op "1.prems"(1)] obtain cap args target where "hm_get (xe_targets x) cap = Some target"
      and res: "i = length nodes" "k' = Suc k"
        "nodes' = nodes @ [do_node x path obj cap target (JObj args) k (length nodes)]" by blast
    then show ?thesis
      using leaf_ok [OF "1.prems"(2,3)]
      by (auto simp: adds_def nth_append not_less le_Suc_eq do_node_def call_id_def less_Suc_eq)
  qed
next
  case (4 x path idx c cs k nodes)
  then obtain j k1 nodes1 ids2 where
    e1: "expand_node x (path @ ''.children['' @ show_nat idx @ '']'') c k nodes = Inr (j, k1, nodes1)"
    and e2: "expand_children x path (Suc idx) cs k1 nodes1 = Inr (ids2, k', nodes')" and ids: "ids = j # ids2"
    by (auto split: sum.splits prod.splits)
  note 1 = "4.IH"(1) [OF e1 "4.prems"(2,3)] and 2 = "4.IH"(2) [OF e1 refl refl e2 "4.prems"(2,3)]
  then have "adds x k nodes k' nodes'" by (blast intro: adds_trans)
  moreover have "length nodes \<le> length nodes1" "length nodes1 \<le> length nodes'" using 1 2 by (auto simp: adds_def)
  ultimately show ?case using 1 2 by (auto simp: ids)
qed (auto simp: expand_node.simps adds_refl)

text \<open>A call of an expansion names a target of the catalogue.\<close>

definition listed :: "expand_env \<Rightarrow> capability_call \<Rightarrow> bool" where
  "listed x call \<longleftrightarrow> (\<exists>cap. hm_get (xe_targets x) cap = Some (cc_provider_id call, cc_contract_id call))"

lemma calls_of_update: "rn_call y = rn_call (xs ! i) \<Longrightarrow> calls_of (xs[i := y]) = calls_of xs"
  by (induction xs arbitrary: i) (auto split: nat.split)

lemma expand_listed:
  shows "expand_node x path j k nodes = Inr (i, k', nodes') \<Longrightarrow>
     \<forall>call \<in> set (calls_of nodes'). call \<in> set (calls_of nodes) \<or> listed x call"
    and "expand_children x path idx cs k nodes = Inr (ids, k', nodes') \<Longrightarrow>
     \<forall>call \<in> set (calls_of nodes'). call \<in> set (calls_of nodes) \<or> listed x call"
proof (induction x path j k nodes and x path idx cs k nodes arbitrary: i k' nodes' and ids k' nodes'
    rule: expand_node_expand_children.induct)
  case (1 x path obj k nodes)
  then obtain op where op: "as_str (map_of obj ''op'') = Some op"
    by (cases "as_str (map_of obj ''op'')") (auto simp: expand_node.simps)
  consider "op = ''sequence'' \<or> op = ''parallel''" | "op = ''do''" "\<not> (op = ''sequence'' \<or> op = ''parallel'')"
    using "1.prems"(1) op by (auto simp: expand_node.simps split: if_splits)
  then show ?case
  proof cases
    case o: 1
    from expand_operator [OF op o "1.prems"(1)] obtain cs ids nodes1
      where r: "reject_unknown_node_keys obj path op [''children''] = Inr ()"
      and cs: "map_of obj ''children'' = Some (JArr cs)"
      and e: "expand_children x path 0 cs k (nodes @ [operator_node x path op obj (length cs) (length nodes)])
        = Inr (ids, k', nodes1)"
      and res: "nodes' = nodes1[length nodes := (nodes1 ! length nodes)\<lparr>rn_children := ids\<rparr>]" .
    have "calls_of nodes' = calls_of nodes1" by (simp add: res calls_of_update)
    with "1.IH" [OF op o r cs refl e] show ?thesis by (auto simp: operator_node_def)
  next
    case 2
    with expand_leaf [OF op "1.prems"(1)] show ?thesis
      by (auto simp: do_node_def listed_def)
  qed
next
  case (4 x path idx c cs k nodes)
  then obtain j k1 nodes1 ids2 where
    e1: "expand_node x (path @ ''.children['' @ show_nat idx @ '']'') c k nodes = Inr (j, k1, nodes1)"
    and e2: "expand_children x path (Suc idx) cs k1 nodes1 = Inr (ids2, k', nodes')"
    by (auto split: sum.splits prod.splits)
  from "4.IH"(1) [OF e1] "4.IH"(2) [OF e1 refl refl e2] show ?case by blast
qed (auto simp: expand_node.simps)

definition hex_tag :: "string \<Rightarrow> bool" where
  "hex_tag tag \<longleftrightarrow> list_all (\<lambda>c. \<not> is_ws c) tag"

lemma op_id_trimmed: "hex_tag (xe_run_tag x) \<Longrightarrow> trim (next_op_id x n) = next_op_id x n"
proof -
  assume t: "hex_tag (xe_run_tag x)"
  have d: "\<not> is_ws c" if "is_digit c" for c using that by (auto simp: is_digit_def is_ws_def)
  have "list_all (\<lambda>c. \<not> is_ws c) (next_op_id x n)"
    using t show_nat_digits [of "unat (xe_seq x n + 1)"] d
    by (auto simp: next_op_id_def hex_tag_def list_all_iff show_u64_def is_ws_def)
  moreover have "next_op_id x n \<noteq> []" by (simp add: next_op_id_def)
  ultimately show ?thesis
    unfolding trim_def by (intro trim_by_id) (simp add: list_all_iff)
qed

lemma op_id_inj: "next_op_id x i = next_op_id x j \<Longrightarrow> xe_seq x i = xe_seq x j"
proof -
  assume "next_op_id x i = next_op_id x j"
  then have "unat (xe_seq x i + 1) = unat (xe_seq x j + 1)"
    by (simp add: next_op_id_def show_u64_def show_nat_inj)
  then have "xe_seq x i + 1 = xe_seq x j + 1" by (simp only: word_unat_eq_iff)
  then show ?thesis by simp
qed

lemma acyclic_arena:
  assumes "\<And>j. j < length (pl_nodes pl) \<Longrightarrow> node_ok x (length (pl_nodes pl)) j (pl_nodes pl ! j)"
  shows "(edge pl)\<^sup>+\<^sup>+ i j \<Longrightarrow> i < length (pl_nodes pl) \<Longrightarrow> i < j \<and> j < length (pl_nodes pl)"
proof (induction rule: tranclp_induct)
  case (base j)
  with assms [of i] show ?case by (auto simp: edge_def cycle_children_def node_ok_def Let_def rtdl_defs split: if_splits)
next
  case (step j k)
  with assms [of j] show ?case
    by (auto simp: edge_def cycle_children_def node_ok_def Let_def rtdl_defs split: if_splits)
qed

text \<open>C18 (safety). When the tree's label is empty or not blank, the catalogue names a provider and a contract for every entry, the
  run's tag is a hexadecimal number and the counter of the node ids hands out no number twice, Pilot dispatches no plan that the executor refuses: if the
  expansion accepts the tree that the model wrote then \<open>validate_plan\<close> accepts the plan, and its call ids are all
  different, so none of its asynchronous calls can hide another from a cancellation. Without the condition on the
  label it is false: see \<open>blank_label_is_refused\<close>.\<close>

theorem expanded_plan_validates:
  assumes "expand_rtdl_to_plan x rtdl = Inr pl" and "label_given x" and "targets_named x" and "hex_tag (xe_run_tag x)"
    and "inj_on (xe_seq x) {..<length (pl_nodes pl)}"
  shows "validate_plan pl = Inr () \<and> distinct (map cc_call_id (calls_of (pl_nodes pl)))"
proof -
  let ?n = "length (pl_nodes pl)"
  from assms(1) obtain r k where e: "expand_node x ''$'' rtdl 0 [] = Inr (r, k, pl_nodes pl)" and r: "pl_root_index pl = r"
    by (auto simp: expand_rtdl_to_plan_def split: sum.splits)
  from expand_adds(1) [OF assms(2,3) e] have root: "r < ?n" and a: "adds x 0 [] k (pl_nodes pl)" by auto
  then have ok: "node_ok x ?n j (pl_nodes pl ! j)" if "j < ?n" for j using that by (simp add: adds_def)
  have "trim (rn_op_id (pl_nodes pl ! i)) \<noteq> trim (rn_op_id (pl_nodes pl ! j))" if "i < ?n" "j < ?n" "i \<noteq> j" for i j
    using ok [OF that(1)] ok [OF that(2)] that op_id_trimmed [OF assms(4)] op_id_inj [of x i j] inj_onD [OF assms(5), of i j]
    by (auto simp: node_ok_def)
  then have "distinct (map (\<lambda>n. trim (rn_op_id n)) (pl_nodes pl))" by (simp add: distinct_conv_nth)
  moreover have "list_all (node_wf ?n) (pl_nodes pl)"
    unfolding list_all_length
  proof (intro allI impI)
    fix j assume "j < ?n"
    from ok [OF this] op_id_trimmed [OF assms(4)] show "node_wf ?n (pl_nodes pl ! j)"
      by (auto simp: node_ok_def node_wf_def list_all_iff rtdl_defs next_op_id_def)
  qed
  moreover have "\<not> (edge pl)\<^sup>+\<^sup>+ m m" if "(edge pl)\<^sup>*\<^sup>* (pl_root_index pl) m" for m
  proof -
    have "m < ?n" using that root r acyclic_arena [OF ok, of "pl_root_index pl" m] by (auto dest: rtranclpD)
    with acyclic_arena [OF ok, of m m] show ?thesis by blast
  qed
  moreover have "inj (call_id x)" by (auto simp: inj_def call_id_def dest: show_nat_inj)
  ultimately show ?thesis
    using a root r by (auto simp: validated_wf_acyclic plan_wf_def adds_def distinct_map intro: inj_on_subset)
qed


section \<open>Witness\<close>

definition demo_expand :: expand_env where
  "demo_expand = \<lparr>xe_targets = [(''arm.move'', ''arm'', ''robonix/primitive/arm/move'')], xe_plan_id = ''a7c3-1'',
     xe_root_description = ''tidy up'', xe_run_tag = ''a7c3'', xe_seq = (\<lambda>n. if n = 0 then 4 else 7),
     xe_render = (\<lambda>_. ''{}'')\<rparr>"

definition demo_rtdl :: json where
  "demo_rtdl = JObj [(''op'', JStr ''sequence''), (''children'', JArr [JObj [(''op'', JStr ''do''),
     (''op_id'', JNum 0), (''cap'', JStr ''arm.move''), (''args'', JObj [])]])]"

definition demo_expanded :: plan where
  "demo_expanded = projr (expand_rtdl_to_plan demo_expand demo_rtdl)"

lemma demo_expanded:
  "\<not> isl (expand_rtdl_to_plan demo_expand demo_rtdl)" "length (pl_nodes demo_expanded) = 2"
  "map rn_description (pl_nodes demo_expanded) = [''tidy up'', ''call arm.move'']"
  by code_simp+

theorem expanded_plan_validates_witness: "validate_plan demo_expanded = Inr ()"
proof -
  from demo_expanded(1) have "expand_rtdl_to_plan demo_expand demo_rtdl = Inr demo_expanded"
    by (simp add: demo_expanded_def)
  moreover have "label_given demo_expand" "targets_named demo_expand" "hex_tag (xe_run_tag demo_expand)" by code_simp+
  moreover have "inj_on (xe_seq demo_expand) {..<length (pl_nodes demo_expanded)}"
    unfolding demo_expanded(2) by (auto simp: inj_on_def demo_expand_def less_2_cases_iff)
  ultimately show ?thesis using expanded_plan_validates by blast
qed

text \<open>A label of blanks passes the expansion and is refused by the executor.\<close>

lemma blank_label_is_refused:
  "isl (validate_plan (projr (expand_rtdl_to_plan (demo_expand\<lparr>xe_root_description := '' ''\<rparr>) demo_rtdl)))"
  by code_simp

end
