(* ===== verification/Pilot_Catalog.thy ===== *)
theory Pilot_Catalog
  imports Pilot_Expand
begin

text \<open>
  The catalogue the planning model sees, \<open>system/pilot/src/discovery.rs\<close> and the capability names of
  \<open>planner.rs\<close>, on the model of Atlas: which capabilities are listed, under which names, and what a name in a plan
  is resolved to.
\<close>

section \<open>Names\<close>

text \<open>Area and leaf, the last two segments of a contract id.\<close>

definition llm_name :: "string \<Rightarrow> string" where
  "llm_name contract_id =
     (case rev (split_on (CHR ''/'') contract_id) of
        leaf # area # _ \<Rightarrow> if area = [] then leaf else area @ ''_'' @ leaf
      | [leaf] \<Rightarrow> leaf
      | [] \<Rightarrow> contract_id)"

definition is_legacy_plan_control_contract :: "string \<Rightarrow> bool" where
  "is_legacy_plan_control_contract contract_id \<longleftrightarrow>
     starts_with ''robonix/system/executor/builtin/'' contract_id
     \<and> last (split_on (CHR ''/'') contract_id)
         \<in> {''cancel_plan'', ''cancel_all_plans'', ''stop_plan_at'', ''get_all_plans'', ''get_plan_status''}"

section \<open>Discovery\<close>

definition is_mcp :: "capability \<Rightarrow> bool" where
  "is_mcp cap \<longleftrightarrow> c_transport cap = transport_i32 Transport_Mcp
     \<and> (case c_params cap of Some (Some (Wire_Mcp _)) \<Rightarrow> True | _ \<Rightarrow> False)"

definition discover :: "atlas \<Rightarrow> (string \<times> capability) list" where
  "discover st =
     concat (map (\<lambda>provider. map (\<lambda>cap. (cp_id provider, cap)) (filter is_mcp (cp_capabilities provider)))
       (query_with_prefix [] Kind_Unspecified [] [] Transport_Mcp st))"

definition non_llm_callable_contract_ids :: "contract_map \<Rightarrow> string set" where
  "non_llm_callable_contract_ids cts =
     set (map cd_id (filter (\<lambda>c. cd_llm_callable c = Some False) (list_with_prefix cts [])))"

record display_capability =
  dc_display_name :: string
  dc_provider_id :: string
  dc_cap :: capability

definition build_display_capabilities :: "(string \<times> capability) list \<Rightarrow> string set \<Rightarrow> display_capability list" where
  "build_display_capabilities cap_list excluded =
     sort_key dc_display_name
       (map (\<lambda>(provider_id, cap). \<lparr>dc_display_name = provider_id @ ''.'' @ llm_name (c_contract_id cap),
            dc_provider_id = provider_id, dc_cap = cap\<rparr>)
          (filter (\<lambda>(_, cap). \<not> is_legacy_plan_control_contract (c_contract_id cap)
                     \<and> c_contract_id cap \<notin> excluded) cap_list))"

definition build_capability_target_map :: "display_capability list \<Rightarrow> (string, string \<times> string) hmap" where
  "build_capability_target_map caps =
     fold (\<lambda>cap. hm_insert (dc_display_name cap) (dc_provider_id cap, c_contract_id (dc_cap cap))) caps []"

text \<open>What a planning round offers the model, from the state of Atlas and its contracts.\<close>

definition target_map :: "contract_map \<Rightarrow> atlas \<Rightarrow> (string, string \<times> string) hmap" where
  "target_map cts st =
     build_capability_target_map (build_display_capabilities (discover st) (non_llm_callable_contract_ids cts))"

section \<open>Manuals\<close>

record cap_doc =
  cdoc_provider_id :: string
  cdoc_kind :: string
  cdoc_description :: string

definition parse_description :: "string \<Rightarrow> string" where
  "parse_description md =
     (case strip_prefix ''---'' (trim_start md) of
        None \<Rightarrow> []
      | Some rest \<Rightarrow>
          (case split_once_str (CHR 0x0A # ''---'') rest of
             None \<Rightarrow> []
           | Some (front, _) \<Rightarrow>
               (case find (\<lambda>line. strip_prefix ''description:'' (trim line) \<noteq> None) (lines_of front) of
                  None \<Rightarrow> []
                | Some line \<Rightarrow>
                    trim_char (CHR 0x22) (trim (the (strip_prefix ''description:'' (trim line)))))))"

definition provider_kind_label :: "int \<Rightarrow> string" where
  "provider_kind_label k =
     (case kind_try_from k of
        Some Kind_Primitive \<Rightarrow> ''primitive''
      | Some Kind_Service \<Rightarrow> ''service''
      | Some Kind_Skill \<Rightarrow> ''skill''
      | _ \<Rightarrow> [])"

definition cap_md_index :: "atlas \<Rightarrow> cap_doc list" where
  "cap_md_index st =
     map (\<lambda>provider. \<lparr>cdoc_provider_id = cp_id provider, cdoc_kind = provider_kind_label (cp_kind provider),
          cdoc_description = parse_description (cp_capability_md provider)\<rparr>)
       (filter (\<lambda>provider. trim (cp_capability_md provider) \<noteq> [])
          (query_with_prefix [] Kind_Unspecified [] [] Transport_Unspecified st))"

section \<open>What a name stands for\<close>

lemma find_append: "find P (xs @ ys) = (case find P xs of None \<Rightarrow> find P ys | Some x \<Rightarrow> Some x)"
  by (induction xs) auto

lemma connect_named: "fst (connect u now cons p c t st) = Inr x \<Longrightarrow> p \<noteq> [] \<and> c \<noteq> []"
proof -
  have e: "\<exists>e. require f [] = Inl e" for f by (simp add: require_def)
  assume "fst (connect u now cons p c t st) = Inr x"
  with e [of "''provider_id''"] e [of "''contract_id''"] show ?thesis
    by (auto simp: connect_def split: sum.splits if_splits)
qed

lemma find_found: "find P xs = Some x \<Longrightarrow> x \<in> set xs \<and> P x"
  by (induction xs) (auto split: if_splits)

lemma target_map_get:
  "hm_get (fold (\<lambda>cap. hm_insert (dc_display_name cap) (dc_provider_id cap, c_contract_id (dc_cap cap))) caps m) name
     = (case find (\<lambda>cap. dc_display_name cap = name) (rev caps) of
          None \<Rightarrow> hm_get m name
        | Some cap \<Rightarrow> Some (dc_provider_id cap, c_contract_id (dc_cap cap)))"
proof (induction caps arbitrary: m)
  case (Cons a caps)
  show ?case
    by (cases "find (\<lambda>cap. dc_display_name cap = name) (rev caps)")
      (auto simp: Cons.IH hm_simps find_append split: option.split)
qed simp

lemma target_map_listed:
  assumes "hm_get (target_map cts st) name = Some (p, c)"
  obtains cap where "(p, cap) \<in> set (discover st)" "c = c_contract_id cap" "name = p @ ''.'' @ llm_name c"
    "\<not> is_legacy_plan_control_contract c" "c \<notin> non_llm_callable_contract_ids cts"
proof -
  from assms obtain d where "find (\<lambda>cap. dc_display_name cap = name)
      (rev (build_display_capabilities (discover st) (non_llm_callable_contract_ids cts))) = Some d"
    and d: "p = dc_provider_id d" "c = c_contract_id (dc_cap d)"
    by (auto simp: target_map_def build_capability_target_map_def target_map_get split: option.splits)
  then have "d \<in> set (build_display_capabilities (discover st) (non_llm_callable_contract_ids cts))"
    and "dc_display_name d = name" by (auto dest: find_found)
  with d that show thesis by (auto simp: build_display_capabilities_def)
qed

lemma catalogue_targets_connect:
  assumes "atlas_inv st" and "hm_get (target_map cts st) name = Some (p, c)" and "trim p = p" and "trim cons \<noteq> []"
  shows "p \<noteq> [] \<and> c \<noteq> [] \<and> c \<notin> non_llm_callable_contract_ids cts \<and> \<not> is_legacy_plan_control_contract c
    \<and> (\<exists>ep ps. fst (connect u now cons p c Transport_Mcp st) = Inr (''ch-'' @ u, ep, ps))"
proof -
  from target_map_listed [OF assms(2)] obtain cap where cap: "(p, cap) \<in> set (discover st)" "c = c_contract_id cap"
    and vis: "\<not> is_legacy_plan_control_contract c" "c \<notin> non_llm_callable_contract_ids cts" by blast
  from cap obtain r where r: "r \<in> set (query_with_prefix [] Kind_Unspecified [] [] Transport_Mcp st)"
    and p: "p = cp_id r" and m: "cap \<in> set (cp_capabilities r)" "is_mcp cap" by (auto simp: discover_def)
  from queried_connects [OF assms(1) r m(1), of cons u now] assms(3,4) cap(2)
  obtain tr where "transport_try_from (c_transport cap) = Some tr"
    and tr: "\<exists>ep ps. fst (connect u now cons p c tr st) = Inr (''ch-'' @ u, ep, ps)" by (auto simp: p)
  moreover have "transport_try_from (c_transport cap) = Some Transport_Mcp"
    using m(2) by (simp only: is_mcp_def transport_roundtrip)
  ultimately have con: "\<exists>ep ps. fst (connect u now cons p c Transport_Mcp st) = Inr (''ch-'' @ u, ep, ps)" by simp
  then have "p \<noteq> []" "c \<noteq> []" by (auto dest: connect_named)
  with con vis show ?thesis by blast
qed

text \<open>C21 (safety). Every call of a plan Pilot builds from its catalogue can be served when it is dispatched: on every
  state of Atlas with its invariant, whatever tree the model wrote, each call of the expansion names a provider
  and a contract for which \<open>connect\<close> over MCP on the same state succeeds, and the contract is one the model may
  call.\<close>

theorem expanded_calls_connect:
  assumes "atlas_inv st" and "expand_rtdl_to_plan (x\<lparr>xe_targets := target_map cts st\<rparr>) rtdl = Inr pl"
    and "call \<in> set (calls_of (pl_nodes pl))" and "trim (cc_provider_id call) = cc_provider_id call" and "trim cons \<noteq> []"
  shows "cc_contract_id call \<notin> non_llm_callable_contract_ids cts
    \<and> \<not> is_legacy_plan_control_contract (cc_contract_id call)
    \<and> (\<exists>ep ps. fst (connect u now cons (cc_provider_id call) (cc_contract_id call) Transport_Mcp st)
         = Inr (''ch-'' @ u, ep, ps))"
proof -
  from assms(2) obtain r k where
    "expand_node (x\<lparr>xe_targets := target_map cts st\<rparr>) ''$'' rtdl 0 [] = Inr (r, k, pl_nodes pl)"
    by (auto simp: expand_rtdl_to_plan_def split: sum.splits)
  from expand_listed(1) [OF this] assms(3) obtain cap
    where "hm_get (target_map cts st) cap = Some (cc_provider_id call, cc_contract_id call)"
    by (auto simp: listed_def)
  from catalogue_targets_connect [OF assms(1) this assms(4,5)] show ?thesis by blast
qed

definition demo_catalog_env :: expand_env where
  "demo_catalog_env = demo_expand\<lparr>xe_targets := target_map [] demo_async_atlas\<rparr>"

definition demo_catalog_rtdl :: json where
  "demo_catalog_rtdl = JObj [(''op'', JStr ''parallel''), (''children'', JArr [JObj [(''op'', JStr ''do''),
     (''cap'', JStr ''arm.arm_move''), (''args'', JObj [])]])]"

definition demo_catalog_plan :: plan where
  "demo_catalog_plan = projr (expand_rtdl_to_plan demo_catalog_env demo_catalog_rtdl)"

theorem expanded_calls_connect_witness:
  "let call = hd (calls_of (pl_nodes demo_catalog_plan)) in cc_contract_id call = ''robonix/service/arm/move''
     \<and> (\<exists>ep ps. fst (connect ''u1'' 5 ''executor'' (cc_provider_id call) (cc_contract_id call) Transport_Mcp demo_async_atlas)
          = Inr (''ch-u1'', ep, ps))"
proof -
  have inv: "atlas_inv demo_async_atlas"
    unfolding demo_async_atlas_def atlas_run_def by (rule atlas.inv_reachable) simp
  have r: "\<not> isl (expand_rtdl_to_plan demo_catalog_env demo_catalog_rtdl)"
    and c: "calls_of (pl_nodes demo_catalog_plan) \<noteq> []"
    and t: "trim (cc_provider_id (hd (calls_of (pl_nodes demo_catalog_plan))))
      = cc_provider_id (hd (calls_of (pl_nodes demo_catalog_plan)))"
    and id: "cc_contract_id (hd (calls_of (pl_nodes demo_catalog_plan))) = ''robonix/service/arm/move''"
    and e: "trim ''executor'' \<noteq> []" by code_simp+
  from r have "expand_rtdl_to_plan (demo_expand\<lparr>xe_targets := target_map [] demo_async_atlas\<rparr>) demo_catalog_rtdl
      = Inr demo_catalog_plan"
    by (simp add: demo_catalog_plan_def demo_catalog_env_def)
  from expanded_calls_connect [OF inv this hd_in_set [OF c] t e, of "''u1''" 5] id show ?thesis by simp
qed

text \<open>Two contracts of one provider can share their display name; the catalogue then lists both and the name stands
  for the one sorted last, so the model cannot call the other.\<close>

lemma display_names_collide:
  "let cap = (\<lambda>c. \<lparr>c_provider_id = ''arm'', c_provider_kind = 2, c_contract_id = c, c_transport = 3,
               c_params = Some (Some (Wire_Mcp [])), c_description = [], c_namespace_mismatch = False\<rparr>);
       listed = build_display_capabilities [(''arm'', cap ''robonix/primitive/arm/stop''),
                  (''arm'', cap ''robonix/service/arm/stop'')] {} in
     map dc_display_name listed = [''arm.arm_stop'', ''arm.arm_stop'']
     \<and> build_capability_target_map listed = [(''arm.arm_stop'', (''arm'', ''robonix/service/arm/stop''))]"
  by code_simp

end
