(* ===== verification/Pilot_Forest.thy ===== *)
theory Pilot_Forest
  imports Pilot_History Pilot_Catalog Exec_Control
begin

text \<open>
  The parts of a turn of Pilot, \<open>system/pilot/src/planner.rs\<close>: the standing task and what may change it, the trees in
  flight and the checks a reply has to pass against them, the driver of one dispatched plan, and what is written to
  the history. The JSON reader and printer (which takes an object as a map) and the \<open>Debug\<close> printer of strings
  are parameters.
\<close>

section \<open>The standing task\<close>

record task =
  tk_task_id :: string
  tk_session_id :: string
  tk_text :: string
  tk_context_json :: string

definition as_bool :: "json option \<Rightarrow> bool option" where
  "as_bool j = (case j of Some (JBool b) \<Rightarrow> Some b | _ \<Rightarrow> None)"

text \<open>The value of \<open>context_json\<close>, when it is one.\<close>

definition task_context :: "(string \<Rightarrow> string + json) \<Rightarrow> task \<Rightarrow> json option" where
  "task_context read task =
     (let j = trim (tk_context_json task) in
      if j = [] then None else (case read j of Inl _ \<Rightarrow> None | Inr v \<Rightarrow> Some v))"

definition task_is_session_end :: "(string \<Rightarrow> string + json) \<Rightarrow> task \<Rightarrow> bool" where
  "task_is_session_end read task =
     (case task_context read task of
        None \<Rightarrow> False
      | Some v \<Rightarrow>
          as_bool (case json_get ''session_end'' v of
              Some x \<Rightarrow> Some x | None \<Rightarrow> json_get ''robonix_session_end'' v) = Some True)"

definition task_modality :: "(string \<Rightarrow> string + json) \<Rightarrow> task \<Rightarrow> string option" where
  "task_modality read task =
     (case task_context read task of None \<Rightarrow> None | Some v \<Rightarrow> as_str (json_get ''modality'' v))"

definition response_mode :: "(string \<Rightarrow> string + json) \<Rightarrow> task \<Rightarrow> string" where
  "response_mode read task =
     (if task_modality read task = Some ''voice''
      then ''Response mode for this task only: voice. Keep user-facing replies brief, plain, and suitable for TTS (about 30 Chinese characters or 50 English words).''
      else ''Response mode for this task only: text. Earlier voice-only constraints no longer apply.'')"

definition default_success_criterion :: string where
  "default_success_criterion = ''The user's request is completed and the result has been verified.''"

definition new_task :: "string \<Rightarrow> task_state" where
  "new_task text = \<lparr>ts_goal = text, ts_success_criterion = default_success_criterion, ts_status = ''in_progress''\<rparr>"

definition start_or_resume_task :: "string \<Rightarrow> task_state option \<Rightarrow> task_state option" where
  "start_or_resume_task user_text current_task =
     (if trim user_text = [] then current_task else Some (new_task (trim user_text)))"

definition append_steer ::
  "(string \<Rightarrow> string + json) \<Rightarrow> task \<Rightarrow> message list \<times> task_state option \<Rightarrow> bool \<times> message list \<times> task_state option" where
  "append_steer read task s =
     (case s of (history, current_task) \<Rightarrow>
        if trim (tk_text task) = [] then (False, history, current_task)
        else (True,
          history @ [message_user (''User steer (authoritative): '' @ trim (tk_text task) @ CHR 0x0A # response_mode read task)],
          Some (new_task (trim (tk_text task)))))"

fun drain_steers ::
  "(string \<Rightarrow> string + json) \<Rightarrow> task list \<Rightarrow> message list \<times> task_state option \<Rightarrow> bool \<times> message list \<times> task_state option" where
  "drain_steers read [] s = (False, s)"
| "drain_steers read (task # tasks) s =
     (case append_steer read task s of (pulled, s') \<Rightarrow>
        (case drain_steers read tasks s' of (pulled', s'') \<Rightarrow> (pulled \<or> pulled', s'')))"

definition apply_task_update :: "task_state option \<Rightarrow> task_state \<Rightarrow> bool \<Rightarrow> bool \<times> task_state option" where
  "apply_task_update current_task update can_finish =
     (case current_task of
        None \<Rightarrow> (False, None)
      | Some state \<Rightarrow>
          if ts_goal update \<noteq> ts_goal state then (False, Some state)
          else
            (let criterion =
                   (if ts_success_criterion state = default_success_criterion \<and> trim (ts_success_criterion update) \<noteq> []
                    then ts_success_criterion update else ts_success_criterion state);
                 status = (if ts_status update = ''done'' \<and> can_finish then ''done'' else ''in_progress'');
                 state' = \<lparr>ts_goal = ts_goal state, ts_success_criterion = criterion, ts_status = status\<rparr>
             in (state' \<noteq> state, Some state')))"

definition task_state_record :: "(json \<Rightarrow> string) \<Rightarrow> task_state \<Rightarrow> message" where
  "task_state_record print_json state =
     message_user (''Pilot task-state update (authoritative state, not a new user instruction): ''
       @ print_json (JObj [(''goal'', JStr (ts_goal state)), (''success_criterion'', JStr (ts_success_criterion state)),
                           (''status'', JStr (ts_status state))]))"

definition append_request_context :: "string \<Rightarrow> string option \<Rightarrow> message list \<Rightarrow> message list" where
  "append_request_context runtime_context correction history =
     history @ (if runtime_context = [] then [] else [message_user runtime_context])
       @ (case correction of None \<Rightarrow> [] | Some c \<Rightarrow> [message_user c])"

section \<open>Trees in flight\<close>

record tree_step =
  sp_op_id :: string
  sp_description :: string
  sp_capability :: string

record tree_meta =
  tm_description :: string
  tm_control_only :: bool
  tm_call_signatures :: "string list"
  tm_steps :: "tree_step list"

type_synonym forest = "(string, tree_meta) hmap"

definition do_calls :: "plan \<Rightarrow> (rtdl_node \<times> capability_call) list" where
  "do_calls plan =
     concat (map (\<lambda>n. case rn_call n of Some c \<Rightarrow> if rn_node_kind n = rtdl_do then [(n, c)] else [] | None \<Rightarrow> [])
       (pl_nodes plan))"

definition plan_call_count :: "plan \<Rightarrow> nat" where
  "plan_call_count plan = length (do_calls plan)"

definition is_control_only :: "plan \<Rightarrow> bool" where
  "is_control_only plan \<longleftrightarrow>
     (let dos = filter (\<lambda>n. rn_node_kind n = rtdl_do) (pl_nodes plan) in
      dos \<noteq> [] \<and> list_all (\<lambda>n. (case rn_call n of Some c \<Rightarrow> contract_leaf (cc_contract_id c) | None \<Rightarrow> [])
        \<in> {''cancel_plan'', ''cancel_all_plans'', ''get_all_plans'', ''get_plan_status'', ''stop_plan_at''}) dos)"

definition plan_steps :: "plan \<Rightarrow> tree_step list" where
  "plan_steps plan =
     map (\<lambda>(n, c). \<lparr>sp_op_id = rn_op_id n, sp_description = rn_description n,
         sp_capability = contract_leaf (cc_contract_id c)\<rparr>) (do_calls plan)"

definition mixes_control_inspection_with_action :: "plan \<Rightarrow> bool" where
  "mixes_control_inspection_with_action plan \<longleftrightarrow>
     (let leaves = map (\<lambda>c. contract_leaf (cc_contract_id c)) (calls_of (pl_nodes plan));
          inspects = (\<lambda>leaf. leaf = ''get_plan_status'' \<or> leaf = ''get_all_plans'')
      in list_ex inspects leaves \<and> list_ex (\<lambda>leaf. \<not> inspects leaf) leaves)"

definition call_signature :: "(string \<Rightarrow> string + json) \<Rightarrow> (json \<Rightarrow> string) \<Rightarrow> capability_call \<Rightarrow> string" where
  "call_signature read print_json call =
     cc_provider_id call @ ''|'' @ cc_contract_id call @ ''|''
       @ (case read (cc_args_json call) of Inr v \<Rightarrow> print_json v | Inl _ \<Rightarrow> cc_args_json call)"

definition plan_call_signatures :: "(string \<Rightarrow> string + json) \<Rightarrow> (json \<Rightarrow> string) \<Rightarrow> plan \<Rightarrow> string list" where
  "plan_call_signatures read print_json plan = map (call_signature read print_json) (calls_of (pl_nodes plan))"

definition duplicate_in_flight_signature :: "string list \<Rightarrow> forest \<Rightarrow> string option" where
  "duplicate_in_flight_signature signatures forest =
     find (\<lambda>s. list_ex (\<lambda>(_, meta). s \<in> set (tm_call_signatures meta)) forest) signatures"

definition plan_cancel_targets :: "(string \<Rightarrow> string + json) \<Rightarrow> plan \<Rightarrow> string list" where
  "plan_cancel_targets read plan =
     concat (map (\<lambda>c. case read (cc_args_json c) of
          Inr v \<Rightarrow> (case as_str (json_get ''plan_id'' v) of Some t \<Rightarrow> [t] | None \<Rightarrow> [])
        | Inl _ \<Rightarrow> [])
       (filter (\<lambda>c. contract_leaf (cc_contract_id c) = ''cancel_plan'') (calls_of (pl_nodes plan))))"

section \<open>Plan control\<close>

definition cancellable :: "forest \<Rightarrow> string list" where
  "cancellable forest = map fst (filter (\<lambda>(_, meta). \<not> tm_control_only meta) forest)"

fun cancellation_targets :: "meta_plan_op \<Rightarrow> forest \<Rightarrow> string list" where
  "cancellation_targets (Meta_Cancel plan_id _) forest = [plan_id]"
| "cancellation_targets (Meta_Cancel_All _) forest = cancellable forest"
| "cancellation_targets (Meta_Stop_At plan_id _ _) forest = [plan_id]"

text \<open>The request of \<open>execute_meta_plan_op\<close>, and its deadline in ms.\<close>

fun meta_request :: "meta_plan_op \<Rightarrow> control_request" where
  "meta_request (Meta_Cancel plan_id wait_ms) =
     \<lparr>cq_action = ''cancel'', cq_plan_id = plan_id, cq_op_id = [], cq_when = [], cq_wait_ms = wait_ms\<rparr>"
| "meta_request (Meta_Cancel_All wait_ms) =
     \<lparr>cq_action = ''cancel_all'', cq_plan_id = [], cq_op_id = [], cq_when = [], cq_wait_ms = wait_ms\<rparr>"
| "meta_request (Meta_Stop_At plan_id op_id stop) =
     \<lparr>cq_action = ''stop_at'', cq_plan_id = plan_id, cq_op_id = op_id, cq_when = stop, cq_wait_ms = 0\<rparr>"

definition meta_deadline_ms :: "meta_plan_op \<Rightarrow> u64" where
  "meta_deadline_ms op = max (saturating_add (cq_wait_ms (meta_request op)) 2000) 2000"

text \<open>What comes of the request: a deadline or transport error is on the left.\<close>

definition meta_result :: "string + control_response \<Rightarrow> string + string" where
  "meta_result response =
     (case response of
        Inl e \<Rightarrow> Inl e
      | Inr r \<Rightarrow> if ct_success r then Inr (ct_message r) else Inl (ct_error r))"

text \<open>The requests of \<open>cancel_forest_plans\<close>; their answers are only logged.\<close>

definition cancel_forest_plans :: "forest \<Rightarrow> control_request list" where
  "cancel_forest_plans forest =
     map (\<lambda>plan_id. \<lparr>cq_action = ''cancel'', cq_plan_id = plan_id, cq_op_id = [], cq_when = [], cq_wait_ms = 5000\<rparr>)
       (cancellable forest)"

definition invalid_cancel_target :: "string list \<Rightarrow> forest \<Rightarrow> string set \<Rightarrow> string option" where
  "invalid_cancel_target targets forest cancel_requested =
     find (\<lambda>t. t \<in> cancel_requested
        \<or> (case hm_get forest t of None \<Rightarrow> True | Some meta \<Rightarrow> tm_control_only meta)) targets"

definition meta_op_problem :: "meta_plan_op \<Rightarrow> forest \<Rightarrow> string set \<Rightarrow> string option" where
  "meta_op_problem op forest cancel_requested =
     (if forest = [] then Some ''No plan is in flight, so there is nothing to cancel or stop; the plan-control op was not executed. Plan control is only for plans listed in In-flight trees. If the request is answered, put the answer in content and return an empty sequence as rtdl with task_update: null; if it needs robot work, return that work as an RTDL tree.''
      else (case invalid_cancel_target (cancellation_targets op forest) forest cancel_requested of
          Some target \<Rightarrow> Some (''Plan-control target '' @ target @ '' is not active or is already stopping. Re-read In-flight trees and choose a currently listed plan_id. Do not retry a completed control operation.'')
        | None \<Rightarrow>
            (case op of
               Meta_Stop_At plan_id op_id _ \<Rightarrow>
                 if (case hm_get forest plan_id of
                       None \<Rightarrow> True | Some meta \<Rightarrow> \<not> list_ex (\<lambda>s. sp_op_id s = op_id) (tm_steps meta))
                 then Some (''RTDL plan '' @ plan_id @ '' has no listed target_op_id '' @ op_id @ ''. Copy an exact op_id from In-flight trees and do not guess which step is current.'')
                 else None
             | _ \<Rightarrow> None)))"

definition empty_dispatch_problem :: "plan \<Rightarrow> task_state option \<Rightarrow> forest \<Rightarrow> nat option \<Rightarrow> string option" where
  "empty_dispatch_problem plan task_update forest executor_active_plans =
     (case task_update of
        None \<Rightarrow> None
      | Some state \<Rightarrow>
          if ts_status state \<noteq> ''in_progress'' \<or> plan_call_count plan > 0 \<or> forest \<noteq> [] then None
          else if executor_active_plans \<noteq> Some 0 then None
          else Some ''`rtdl` calls no capability while `task_update.status` is `in_progress` and nothing is in flight: dispatch the next step, ask in `content` for what you need and send `task_update: null` if the task cannot proceed, or mark it `done` only when its success criterion already holds.'')"

definition should_replan_after_plan_done :: "bool \<Rightarrow> bool \<Rightarrow> bool \<Rightarrow> bool \<Rightarrow> bool" where
  "should_replan_after_plan_done canceled requested_cancellation cancellation_batch_complete interaction_active \<longleftrightarrow>
     interaction_active \<and> (\<not> canceled \<or> requested_cancellation \<and> cancellation_batch_complete)"

text \<open>The count of the executor's live snapshot; \<open>None\<close> when it failed or cannot be read.\<close>

definition executor_active_count :: "(string \<Rightarrow> string + json) \<Rightarrow> string option \<Rightarrow> nat option" where
  "executor_active_count read plans_json =
     (case plans_json of
        None \<Rightarrow> None
      | Some raw \<Rightarrow>
          (case read raw of
             Inl _ \<Rightarrow> None
           | Inr v \<Rightarrow> (case json_get ''plans'' v of Some (JArr plans) \<Rightarrow> Some (length plans) | _ \<Rightarrow> None)))"

section \<open>The driver of a dispatched plan\<close>

record node_state =
  nd_node :: node_event_context
  nd_state :: nat
  nd_detail :: string
  nd_leaf_result :: "call_result option"

datatype forest_event =
    Ev_Node string node_state
  | Ev_Done string "node_state list" bool bool

definition upsert_terminal_result :: "node_state list \<Rightarrow> node_state \<Rightarrow> node_state list" where
  "upsert_terminal_result results ns =
     (let same = (\<lambda>r. ne_node_index (nd_node r) = ne_node_index (nd_node ns)) in
      if list_ex same results
      then takeWhile (\<lambda>r. \<not> same r) results @ ns # tl (dropWhile (\<lambda>r. \<not> same r) results)
      else results @ [ns])"

text \<open>What a driver has still to do before its next message: every send and every increment of the shared revision is
  a step of its own, so other tasks can see the state in between.\<close>

datatype driver_act = Act_Send forest_event | Act_Count node_state | Act_Bump

record driver =
  dr_plan_id :: string
  dr_results :: "node_state list"
  dr_any_failed :: bool
  dr_canceled :: bool
  dr_todo :: "driver_act list"

definition new_driver :: "string \<Rightarrow> driver" where
  "new_driver plan_id =
     \<lparr>dr_plan_id = plan_id, dr_results = [], dr_any_failed = False, dr_canceled = False, dr_todo = []\<rparr>"

text \<open>What a driver receives: the failure of the RPC itself, an event of the executor's stream, its end, an error.\<close>

datatype delivery = Rpc_Failed | Stream_Event rtdl_event | Stream_End | Stream_Error

definition plan_done :: "driver \<Rightarrow> forest_event" where
  "plan_done dr = Ev_Done (dr_plan_id dr) (dr_results dr) (dr_any_failed dr) (dr_canceled dr)"

fun drive_message :: "delivery \<Rightarrow> driver \<Rightarrow> driver" where
  "drive_message Rpc_Failed dr = dr\<lparr>dr_todo := [Act_Bump, Act_Send (Ev_Done (dr_plan_id dr) [] True False)]\<rparr>"
| "drive_message Stream_End dr = dr\<lparr>dr_todo := [Act_Bump, Act_Send (plan_done dr)]\<rparr>"
| "drive_message Stream_Error dr =
     dr\<lparr>dr_any_failed := True, dr_todo := [Act_Bump, Act_Send (plan_done (dr\<lparr>dr_any_failed := True\<rparr>))]\<rparr>"
| "drive_message (Stream_Event (Plan_Started _)) dr = dr"
| "drive_message (Stream_Event (Plan_Complete _ failed)) dr = dr\<lparr>dr_any_failed := dr_any_failed dr \<or> failed\<rparr>"
| "drive_message (Stream_Event (Node_State ctx state detail leaf)) dr =
     (let ns = \<lparr>nd_node = ctx, nd_state = state, nd_detail = detail, nd_leaf_result = leaf\<rparr> in
      dr\<lparr>dr_todo := Act_Send (Ev_Node (dr_plan_id dr) ns) # (if is_terminal_state state then [Act_Count ns] else [])\<rparr>)"

text \<open>The terminal state forwarded before, counted.\<close>

definition drive_count :: "node_state \<Rightarrow> driver \<Rightarrow> driver" where
  "drive_count ns dr =
     dr\<lparr>dr_canceled := dr_canceled dr \<or> nd_state ns = st_canceled,
        dr_any_failed := dr_any_failed dr \<or> (nd_state ns \<noteq> st_canceled \<and> nd_state ns \<noteq> st_succeeded),
        dr_results := upsert_terminal_result (dr_results dr) ns\<rparr>"

section \<open>What the history records\<close>

record printers =
  pp_read :: "string \<Rightarrow> string + json"
  pp_json :: "json \<Rightarrow> string"
  pp_debug :: "string \<Rightarrow> string"

definition read_opt :: "printers \<Rightarrow> string \<Rightarrow> json option" where
  "read_opt pp s = (case pp_read pp s of Inl _ \<Rightarrow> None | Inr v \<Rightarrow> Some v)"

text \<open>Strings are the bytes of UTF-8; \<open>chars()\<close> counts those that do not continue a character.\<close>

definition continues_char :: "char \<Rightarrow> bool" where
  "continues_char c \<longleftrightarrow> (of_char c :: nat) div 64 = 2"

definition char_count :: "string \<Rightarrow> nat" where
  "char_count s = length (filter (\<lambda>c. \<not> continues_char c) s)"

fun take_chars :: "nat \<Rightarrow> string \<Rightarrow> string" where
  "take_chars n [] = []"
| "take_chars n (c # cs) =
     (if continues_char c then c # take_chars n cs
      else (case n of 0 \<Rightarrow> [] | Suc k \<Rightarrow> c # take_chars k cs))"

definition compact_preview :: "string \<Rightarrow> nat \<Rightarrow> string" where
  "compact_preview value max_chars =
     (let flattened = concat (map (\<lambda>c. if c = CHR 0x0A then [CHR 0x5C, CHR ''n''] else [c]) value) in
      take_chars max_chars flattened @ (if char_count flattened > max_chars then ''...'' else []))"

definition projection_of :: "string \<Rightarrow> (string \<times> string list) option" where
  "projection_of contract_id =
     (if contract_id = ''robonix/system/scene/list_objects'' then Some (''objects'', [''id'', ''label''])
      else if contract_id = ''robonix/system/scene/list_regions''
        then Some (''regions'', [''id'', ''kind'', ''name'', ''stale'', ''stale_reason''])
      else None)"

definition some_of :: "string list \<Rightarrow> json \<Rightarrow> (string \<times> json) list" where
  "some_of keys v = concat (map (\<lambda>k. case json_get k v of Some x \<Rightarrow> [(k, x)] | None \<Rightarrow> []) keys)"

definition projected_root :: "string \<Rightarrow> json list \<Rightarrow> nat \<Rightarrow> nat \<Rightarrow> json \<Rightarrow> json" where
  "projected_root array_key projected count original_chars parsed =
     JObj ((array_key, JArr projected) # some_of [''map_id'', ''stamp_unix''] parsed
       @ [(''_robonix_truncation'', JObj [(''truncated'', JBool True),
            (''complete_record_index'', JBool (length projected = count)), (''original_chars'', JNum original_chars),
            (''total_records'', JNum count), (''returned_records'', JNum (length projected)),
            (''omitted_fields'', JBool True),
            (''instruction'', JStr ''Use a narrower capability for full record details; never infer absence when complete_record_index is false.'')])])"

text \<open>The longest prefix of the records that fits, when one does.\<close>

fun fit_records :: "(json list \<Rightarrow> string) \<Rightarrow> nat \<Rightarrow> nat \<Rightarrow> json list \<Rightarrow> string option" where
  "fit_records encode max_chars 0 records =
     (if char_count (encode []) \<le> max_chars then Some (encode []) else None)"
| "fit_records encode max_chars (Suc n) records =
     (if char_count (encode (take (Suc n) records)) \<le> max_chars then Some (encode (take (Suc n) records))
      else fit_records encode max_chars n records)"

function fit_preview :: "(nat \<Rightarrow> string) \<Rightarrow> nat \<Rightarrow> nat \<Rightarrow> string" where
  "fit_preview encode max_chars preview_chars =
     (if char_count (encode preview_chars) \<le> max_chars \<or> preview_chars = 0 then encode preview_chars
      else fit_preview encode max_chars (preview_chars div 2))"
  by pat_completeness auto
termination by (relation "measure (\<lambda>(_, _, n). n)") auto

declare fit_preview.simps [simp del]

definition preview_root :: "string \<Rightarrow> nat \<Rightarrow> json" where
  "preview_root value preview_chars =
     JObj [(''_robonix_truncation'', JObj [(''truncated'', JBool True), (''original_chars'', JNum (char_count value)),
             (''complete'', JBool False),
             (''instruction'', JStr ''The preview is incomplete; do not infer that an omitted value is absent.'')]),
           (''preview'', JStr (compact_preview value preview_chars))]"

definition compact_tool_result :: "printers \<Rightarrow> string \<Rightarrow> string \<Rightarrow> nat \<Rightarrow> string" where
  "compact_tool_result pp contract_id value max_chars =
     (if char_count value \<le> max_chars then value
      else
        (let preview = fit_preview (\<lambda>n. pp_json pp (preview_root value n)) max_chars (max_chars div 3) in
         case (projection_of contract_id, read_opt pp value) of
           (Some (array_key, keys), Some parsed) \<Rightarrow>
             (case json_get array_key parsed of
                Some (JArr items) \<Rightarrow>
                  (let records = map (\<lambda>item. JObj (some_of keys item)) items in
                   case fit_records (\<lambda>rs. pp_json pp (projected_root array_key rs (length items) (char_count value) parsed))
                          max_chars (length records) records of
                     Some encoded \<Rightarrow> encoded
                   | None \<Rightarrow> preview)
              | _ \<Rightarrow> preview)
         | _ \<Rightarrow> preview))"

definition rtdl_result_to_messages :: "printers \<Rightarrow> call_result \<Rightarrow> message list \<times> message list" where
  "rtdl_result_to_messages pp r =
     (case (if cr_success r then tool_result_to_messages (read_opt pp) (cr_call_id r) (cr_output r)
            else ([message_user (cr_output r)], [])) of
        (tool_messages, followups) \<Rightarrow>
          (map (\<lambda>msg. message_user (''Executor feedback for the current RTDL leaf (not a new user request): ''
              @ pp_json pp (JObj [(''leaf_result'', JObj [(''call_id'', JStr (cr_call_id r)),
                   (''contract_id'', JStr (cr_result_contract_id r)), (''success'', JBool (cr_success r)),
                   (''output'', JStr (case m_content msg of Some t \<Rightarrow> t | None \<Rightarrow> [])),
                   (''error'', JStr (cr_error r))])]))) tool_messages, followups))"

definition feed_results_into_history ::
  "printers \<Rightarrow> string \<Rightarrow> string \<Rightarrow> call_result list \<Rightarrow> message list \<Rightarrow> message list" where
  "feed_results_into_history pp plan_id plan_description results history =
     (let mapped = map (\<lambda>r. rtdl_result_to_messages pp
            (if is_image_output (read_opt pp) (cr_output r) then r
             else r\<lparr>cr_output := compact_tool_result pp (cr_result_contract_id r) (cr_output r) 4096\<rparr>)) results in
      history @ message_user (''Executor feedback scope: plan_id='' @ plan_id @ '', independent RTDL tree=''
          @ pp_debug pp plan_description @ ''. Attribute the following results only to this tree. A failure here blocks dependent steps in this tree, but does not cancel or invalidate other in-flight trees.'')
        # concat (map fst mapped) @ concat (map snd mapped))"

definition record_dispatched_plan :: "printers \<Rightarrow> plan \<Rightarrow> string \<Rightarrow> message list \<Rightarrow> message list" where
  "record_dispatched_plan pp plan description history =
     (let calls = concat (map (\<lambda>n. case rn_call n of
            None \<Rightarrow> []
          | Some c \<Rightarrow> [JObj [(''call_id'', JStr (cc_call_id c)), (''op_id'', JStr (rn_op_id n)),
                (''step'', JStr (rn_description n)), (''provider_id'', JStr (cc_provider_id c)),
                (''contract_id'', JStr (cc_contract_id c)),
                (''args'', case pp_read pp (cc_args_json c) of Inr v \<Rightarrow> v | Inl _ \<Rightarrow> JStr (cc_args_json c))]])
          (pl_nodes plan)) in
      if calls = [] then history
      else history @ [message_user (''Pilot harness dispatch record (already sent to Executor; not a new user request): ''
        @ pp_json pp (JObj [(''plan_id'', JStr (pl_plan_id plan)), (''description'', JStr description),
                            (''calls'', JArr calls)]))])"

section \<open>Rejected replies\<close>

definition raw_preview :: "printers \<Rightarrow> string \<Rightarrow> string" where
  "raw_preview pp raw =
     (if raw = [] then ''assistant content was empty''
      else ''assistant content preview: '' @ pp_debug pp (take_chars 240 raw) @ (if char_count raw > 240 then ''...'' else []))"

definition rtdl_recovery_final_text :: string where
  "rtdl_recovery_final_text = ''I couldn't produce a valid robot plan after retrying once. Please try again or rephrase the request.''"

definition empty_sequence_plan :: "string \<Rightarrow> plan" where
  "empty_sequence_plan plan_id =
     \<lparr>pl_plan_id = plan_id, pl_root_index = 0,
      pl_nodes = [\<lparr>rn_node_kind = rtdl_sequence, rn_children = [], rn_call = None, rn_op_id = ''recovery'',
        rn_description = ''recovery: no valid plan produced''\<rparr>]\<rparr>"

text \<open>The reply shown when a rejected reply ends the turn.\<close>

definition end_turn_after_rejection :: "string \<Rightarrow> string" where
  "end_turn_after_rejection assistant_content =
     (if trim assistant_content = [] then rtdl_recovery_final_text else assistant_content)"

definition newline :: string where "newline = [CHR 0x0A]"

definition build_rtdl_retry_prompt :: "printers \<Rightarrow> string \<Rightarrow> string \<Rightarrow> string list \<Rightarrow> string" where
  "build_rtdl_retry_prompt pp err raw_content names =
     ''Your previous RTDL response was rejected by Pilot.'' @ newline @ ''Error: '' @ err @ newline
     @ ''Previous response preview: '' @ raw_preview pp raw_content @ newline @ newline
     @ ''Fix the RTDL error and retry the same user request exactly once. If the error mentions an unknown capability, do not repeat that capability. Return ONLY a JSON object with exactly `content`, `rtdl_description`, `rtdl`, and `task_update`. The reply MUST begin with `{` and end with `}`: no prose, narration, or markdown fences before or after it (put any user-facing text inside `content`). Use only capability_name values from this list; do not invent provider names, method names, or aliases:''
     @ newline @ concat (map (\<lambda>name. ''- '' @ name @ newline) names)
     @ (if contains_str ''EOF while parsing'' err
        then newline @ ''Your reply was cut off because it ran past the output limit. Do not restate the task, the action catalogue, or any other prompt text: `task_update.goal` and `success_criterion` are one-line summaries, a few dozen characters each. Keep the whole reply short.'' @ newline
        else [])
     @ newline @ ''If no further capability call is needed, use {'' @ [dquote] @ ''op'' @ [dquote] @ '':'' @ [dquote] @ ''sequence''
     @ [dquote] @ '','' @ [dquote] @ ''children'' @ [dquote] @ '':[]} as `rtdl` with `task_update: null` (or `status: ''
     @ [dquote] @ ''done'' @ [dquote] @ ''` when the task is finished). If the user's requested action cannot be performed using the listed capabilities, explain the missing capability in `content` and return an empty RTDL sequence, again with `task_update: null`, instead of inventing a capability.''
     @ newline"

end
