(* ===== verification/Pilot_Turn.thy ===== *)
theory Pilot_Turn
  imports Pilot_Forest
begin

text \<open>
  A turn of Pilot: \<open>run_turn\<close> of \<open>system/pilot/src/planner.rs\<close> as a state machine. One step is what the supervisor, or
  the driver of a dispatched plan, does between two points where another task can see the difference. What a
  point brings in (a reply of the model, the answer of the executor, the catalogue of the round, a message on a
  stream) is on the step's label; the queue of forest events, the queue of user input, the interrupt flag and the
  revision counter are in the state. The supervisor keeps its own sender of forest events, and the service
  keeps the sender of user input until the turn has returned, so neither queue closes during a turn.
\<close>

section \<open>State\<close>

datatype pilot_body =
    Text_Chunk string
  | Final_Text string
  | Plan_Body plan
  | Batch_Body string nat "node_state list" bool
  | Status_Body nat string
  | Node_Body node_state
  | Task_Body task_state

definition session_active :: nat where "session_active = 0"
definition session_completed :: nat where "session_completed = 1"
definition session_failed :: nat where "session_failed = 2"

text \<open>What one planning round shows the model and resolves names with.\<close>

record view =
  vw_targets :: "(string, string \<times> string) hmap"
  vw_names :: "string list"
  vw_plan_count :: "nat option"
  vw_context :: string

record sampling =
  sa_view :: view
  sa_revision :: nat
  sa_correction :: "string option"
  sa_attempt :: nat

datatype turn_end = Ended | Interrupted | Broke string

record turn =
  tu_history :: "message list"
  tu_task :: "task_state option"
  tu_forest :: forest
  tu_cancel_requested :: "string set"
  tu_should_plan :: bool
  tu_last_content :: string
  tu_requests :: nat
  tu_round :: nat
  tu_plan_seq :: nat
  tu_steers :: "task list"
  tu_interrupt :: bool
  tu_events :: "forest_event list"
  tu_revision :: nat
  tu_drivers :: "driver list"
  tu_sampling :: "sampling option"
  tu_sent :: "pilot_body list"
  tu_controls :: "control_request list"
  tu_end :: "turn_end option"

record pilot_env =
  pv_max_rounds :: nat
  pv_run_tag :: string
  pv_budget :: "nat option"
  pv_printers :: printers

section \<open>Helpers of the supervisor\<close>

definition send_event :: "pilot_body \<Rightarrow> turn \<Rightarrow> turn" where
  "send_event body t = t\<lparr>tu_sent := tu_sent t @ [body]\<rparr>"

definition push :: "message \<Rightarrow> turn \<Rightarrow> turn" where
  "push m t = t\<lparr>tu_history := tu_history t @ [m]\<rparr>"

definition send_task :: "turn \<Rightarrow> turn" where
  "send_task t = (case tu_task t of None \<Rightarrow> t | Some state \<Rightarrow> send_event (Task_Body state) t)"

text \<open>The end of \<open>run_turn\<close> after a \<open>break\<close> of the loop.\<close>

definition finish :: "turn \<Rightarrow> turn" where
  "finish t = (send_event (Status_Body session_completed []) t)\<lparr>tu_end := Some Ended, tu_sampling := None\<rparr>"

text \<open>\<open>return_interrupted!\<close>.\<close>

definition interrupted :: "turn \<Rightarrow> turn" where
  "interrupted t =
     (send_event (Status_Body session_failed ''interrupted'')
        (t\<lparr>tu_controls := tu_controls t @ cancel_forest_plans (tu_forest t)\<rparr>))
        \<lparr>tu_end := Some Interrupted, tu_sampling := None\<rparr>"

definition task_done :: "turn \<Rightarrow> bool" where
  "task_done t \<longleftrightarrow> (case tu_task t of Some state \<Rightarrow> is_done state | None \<Rightarrow> False)"

definition task_active :: "turn \<Rightarrow> bool" where
  "task_active t \<longleftrightarrow> (case tu_task t of Some state \<Rightarrow> \<not> is_done state | None \<Rightarrow> False)"

definition take_steers :: "pilot_env \<Rightarrow> task list \<Rightarrow> turn \<Rightarrow> bool \<times> turn" where
  "take_steers pv tasks t =
     (case drain_steers (pp_read (pv_printers pv)) tasks (tu_history t, tu_task t) of
        (pulled, history, current) \<Rightarrow> (pulled, t\<lparr>tu_history := history, tu_task := current\<rparr>))"

text \<open>A \<open>return Err\<close> of \<open>run_turn\<close>: the service reports the error.\<close>

definition broke :: "string \<Rightarrow> turn \<Rightarrow> turn" where
  "broke e t = t\<lparr>tu_end := Some (Broke e), tu_sampling := None\<rparr>"

lemma broke_keeps [simp]:
  "tu_task (broke e t) = tu_task t" "tu_steers (broke e t) = tu_steers t" "tu_requests (broke e t) = tu_requests t"
  "tu_sent (broke e t) = tu_sent t" "tu_end (broke e t) = Some (Broke e)" "tu_sampling (broke e t) = None"
  by (simp_all add: broke_def)

section \<open>The start of a turn\<close>

definition fresh_turn :: "message list \<Rightarrow> task_state option \<Rightarrow> nat \<Rightarrow> turn" where
  "fresh_turn history standing plan_seq =
     \<lparr>tu_history = history, tu_task = standing, tu_forest = [], tu_cancel_requested = {}, tu_should_plan = True,
      tu_last_content = [], tu_requests = 0, tu_round = 0, tu_plan_seq = plan_seq, tu_steers = [], tu_interrupt = False,
      tu_events = [], tu_revision = 0, tu_drivers = [], tu_sampling = None, tu_sent = [], tu_controls = [], tu_end = None\<rparr>"

text \<open>\<open>brought\<close> is what the look around before the first round gives: the memories, or the error of a failed discovery of
  the capabilities or the contracts.\<close>

definition start_turn :: "pilot_env \<Rightarrow> task \<Rightarrow> string + string \<Rightarrow> message list \<Rightarrow> task_state option \<Rightarrow> nat \<Rightarrow> turn" where
  "start_turn pv task brought history standing plan_seq =
     (let t = fresh_turn history standing plan_seq; read = pp_read (pv_printers pv) in
      if task_is_session_end read task then finish t
      else (case brought of
        Inl e \<Rightarrow> broke e t
      | Inr memory_prompt \<Rightarrow>
        (let t = push (message_user (''User task (authoritative): '' @ tk_text task @ CHR 0x0A # response_mode read task)) t;
             t = (if memory_prompt = [] then t else push (message_user memory_prompt) t)
         in send_task (t\<lparr>tu_task := start_or_resume_task (tk_text task) standing\<rparr>))))"

section \<open>Waiting\<close>

definition wake_steer :: "pilot_env \<Rightarrow> task \<Rightarrow> task list \<Rightarrow> turn \<Rightarrow> turn" where
  "wake_steer pv task rest t =
     (case take_steers pv [task] (t\<lparr>tu_steers := rest\<rparr>) of
        (pulled, t') \<Rightarrow> if pulled then t'\<lparr>tu_should_plan := True\<rparr> else t')"

definition wake_node :: "pilot_env \<Rightarrow> string \<Rightarrow> node_state \<Rightarrow> turn \<Rightarrow> turn" where
  "wake_node pv plan_id ns t =
     (let description = (case hm_get (tu_forest t) plan_id of Some meta \<Rightarrow> tm_description meta | None \<Rightarrow> ''unknown tree'');
          t = (case nd_leaf_result ns of
                 Some r \<Rightarrow>
                   if is_terminal_state (nd_state ns)
                   then t\<lparr>tu_history := feed_results_into_history (pv_printers pv) plan_id description [r] (tu_history t)\<rparr>
                   else t
               | None \<Rightarrow> t);
          t = (if is_terminal_state (nd_state ns) \<and> nd_state ns \<noteq> st_succeeded
                  \<and> plan_id \<notin> tu_cancel_requested t \<and> task_active t
               then t\<lparr>tu_should_plan := True\<rparr> else t)
      in send_event (Node_Body (ns\<lparr>nd_node := (nd_node ns)\<lparr>ne_plan_id := plan_id\<rparr>\<rparr>)) t)"

definition wake_done :: "string \<Rightarrow> node_state list \<Rightarrow> bool \<Rightarrow> bool \<Rightarrow> turn \<Rightarrow> turn" where
  "wake_done plan_id results any_failed canceled t =
     (let requested = plan_id \<in> tu_cancel_requested t;
          t = t\<lparr>tu_forest := hm_remove plan_id (tu_forest t), tu_cancel_requested := tu_cancel_requested t - {plan_id}\<rparr>;
          t = (if requested
               then push (message_user (''Pilot harness event: the requested cancellation of RTDL plan '' @ plan_id
                 @ '' is complete. Do not query or cancel that plan again. Unrelated in-flight trees remain independent. If the current interaction requested only this stop and has no successor action, mark it done and report the completed stop now.'')) t
               else t);
          t = send_event (Batch_Body plan_id (tu_round t) results any_failed) t
      in if should_replan_after_plan_done canceled requested (tu_cancel_requested t = {}) (task_active t)
         then t\<lparr>tu_should_plan := True\<rparr> else t)"

fun wake_event :: "pilot_env \<Rightarrow> forest_event \<Rightarrow> turn \<Rightarrow> turn" where
  "wake_event pv (Ev_Node plan_id ns) t = wake_node pv plan_id ns t"
| "wake_event pv (Ev_Done plan_id results any_failed canceled) t = wake_done plan_id results any_failed canceled t"

section \<open>A planning round\<close>

text \<open>Everything up to the first request: \<open>found\<close> is what the discovery of the round gives, or its error, and
  \<open>non_history\<close> the size of what surrounds the history.\<close>

definition plan_round :: "pilot_env \<Rightarrow> string + view \<Rightarrow> nat \<Rightarrow> (message list \<Rightarrow> string option) \<Rightarrow> turn \<Rightarrow> turn" where
  "plan_round pv found non_history collect_vlm_text t =
     (let t = snd (take_steers pv (tu_steers t) (t\<lparr>tu_should_plan := False, tu_steers := []\<rparr>)) in
      case found of
        Inl e \<Rightarrow> broke (''atlas capability discovery failed: '' @ e) t
      | Inr vw \<Rightarrow>
     (let t = (case compact_history collect_vlm_text (pv_budget pv) (tu_history t) non_history of
                 Some c \<Rightarrow> t\<lparr>tu_history := cm_history c\<rparr> | None \<Rightarrow> t)
      in if tu_requests t \<ge> pv_max_rounds pv then finish (send_event (Final_Text (tu_last_content t)) t)
         else (send_event (Status_Body session_active ''Planning the next step'') t)
           \<lparr>tu_requests := tu_requests t + 1,
            tu_sampling := Some \<lparr>sa_view = vw, sa_revision = tu_revision t, sa_correction = None, sa_attempt = 0\<rparr>\<rparr>))"

datatype verdict =
    Bad string string
  | Control rtdl_envelope meta_plan_op
  | Tree rtdl_envelope plan

definition raised :: "string \<Rightarrow> string + 'a \<Rightarrow> string + 'a" where
  "raised what r = (case r of Inl e \<Rightarrow> Inl (what @ '': '' @ e) | Inr x \<Rightarrow> Inr x)"

text \<open>The reply read, with the plan counter after it. \<open>Bad error reply\<close> is a rejection, and the text shown if the turn
  ends with it; \<open>op_seq\<close> is what the counter of op ids hands out.\<close>

definition judge :: "pilot_env \<Rightarrow> view \<Rightarrow> (nat \<Rightarrow> u64) \<Rightarrow> string \<Rightarrow> turn \<Rightarrow> verdict \<times> nat" where
  "judge pv vw op_seq raw t =
     (let pp = pv_printers pv in
      case raised (''parse RTDL assistant response: '' @ raw_preview pp raw) (parse_rtdl_assistant_response (pp_read pp) raw) of
        Inl e \<Rightarrow> (Bad e rtdl_recovery_final_text, tu_plan_seq t)
      | Inr envelope \<Rightarrow>
          (case raised ''parse RTDL meta op'' (parse_meta_plan_op (rv_rtdl envelope)) of
             Inl e \<Rightarrow> (Bad e rtdl_recovery_final_text, tu_plan_seq t)
           | Inr (Some op) \<Rightarrow>
               (case meta_op_problem op (tu_forest t) (tu_cancel_requested t) of
                  Some problem \<Rightarrow> (Bad problem (end_turn_after_rejection (rv_content envelope)), tu_plan_seq t)
                | None \<Rightarrow> (Control envelope op, tu_plan_seq t))
           | Inr None \<Rightarrow>
               (case raised ''expand RTDL to Plan'' (expand_rtdl_to_plan
                       \<lparr>xe_targets = vw_targets vw, xe_plan_id = pv_run_tag pv @ ''-'' @ show_nat (tu_plan_seq t + 1),
                        xe_root_description = rv_rtdl_description envelope, xe_run_tag = pv_run_tag pv, xe_seq = op_seq,
                        xe_render = pp_json pp\<rparr> (rv_rtdl envelope)) of
                  Inl e \<Rightarrow> (Bad e rtdl_recovery_final_text, tu_plan_seq t + 1)
                | Inr graph \<Rightarrow>
                    (case empty_dispatch_problem graph (rv_task_update envelope) (tu_forest t) (vw_plan_count vw) of
                       Some problem \<Rightarrow> (Bad problem (end_turn_after_rejection (rv_content envelope)), tu_plan_seq t + 1)
                     | None \<Rightarrow> (Tree envelope graph, tu_plan_seq t + 1)))))"

text \<open>The update the model proposes, and the event that shows what came of it.\<close>

definition update_task :: "rtdl_envelope \<Rightarrow> bool \<Rightarrow> turn \<Rightarrow> bool \<times> turn" where
  "update_task envelope can_finish t =
     (case rv_task_update envelope of
        None \<Rightarrow> (False, t)
      | Some update \<Rightarrow>
          (case apply_task_update (tu_task t) update can_finish of
             (changed, current) \<Rightarrow> (changed, (if changed then send_task else id) (t\<lparr>tu_task := current\<rparr>))))"

definition record_task :: "pilot_env \<Rightarrow> bool \<Rightarrow> turn \<Rightarrow> turn" where
  "record_task pv changed t =
     (case tu_task t of
        Some state \<Rightarrow> if changed then push (task_state_record (pp_json (pv_printers pv)) state) t else t
      | None \<Rightarrow> t)"

definition control_round ::
  "pilot_env \<Rightarrow> rtdl_envelope \<Rightarrow> meta_plan_op \<Rightarrow> string + control_response \<Rightarrow> turn \<Rightarrow> turn" where
  "control_round pv envelope op response t =
     (let targets = cancellation_targets op (tu_forest t); content = rv_content envelope in
      case update_task envelope False t of
        (changed, t) \<Rightarrow>
          (let t = (if trim content = [] then t
                    else send_event (Text_Chunk content) ((push (message_assistant content) t)\<lparr>tu_last_content := content\<rparr>));
               t = record_task pv changed t;
               t = t\<lparr>tu_controls := tu_controls t @ [meta_request op], tu_round := tu_round t + 1\<rparr>
           in case meta_result response of
                Inr m \<Rightarrow>
                  (send_event (Status_Body session_active ''Plan control accepted'')
                    (push (message_user (''Pilot plan-control result: '' @ m @ '' This was an out-of-band meta operation, not an RTDL tree. Do not issue it again.'')) t))
                    \<lparr>tu_cancel_requested := tu_cancel_requested t \<union> set targets, tu_should_plan := targets = []\<rparr>
              | Inl e \<Rightarrow>
                  (push (message_user (''Pilot plan-control failure: '' @ e @ ''. The operation was not accepted; inspect the current In-flight trees before deciding whether to retry.'')) t)
                    \<lparr>tu_cancel_requested := tu_cancel_requested t - set targets, tu_should_plan := True\<rparr>))"

text \<open>A reply that calls nothing: an answer, a question, or progress while other trees run.\<close>

definition empty_round :: "string \<Rightarrow> bool \<Rightarrow> turn \<Rightarrow> turn" where
  "empty_round content hit_cap t =
     (if tu_forest t = [] then
        finish (send_event (Final_Text (if trim content = [] \<and> \<not> task_done t
          then ''I need more information before I can continue.'' else content)) t)
      else
        (let t = (if trim content = [] then t
                  else if task_done t then send_event (Final_Text content) t
                  else send_event (Status_Body session_active ''Waiting for in-flight work'') (send_event (Text_Chunk content) t))
         in if hit_cap then finish t else t))"

definition dispatch :: "pilot_env \<Rightarrow> rtdl_envelope \<Rightarrow> plan \<Rightarrow> bool \<Rightarrow> turn \<Rightarrow> turn" where
  "dispatch pv envelope graph hit_cap t =
     (let pp = pv_printers pv; content = rv_content envelope;
          t = (if trim content = [] then t else send_event (Text_Chunk content) t);
          t = send_event (Plan_Body graph) t;
          t = t\<lparr>tu_cancel_requested := tu_cancel_requested t \<union> set (plan_cancel_targets (pp_read pp) graph),
                tu_history := record_dispatched_plan pp graph (rv_rtdl_description envelope) (tu_history t),
                tu_forest := hm_insert (pl_plan_id graph)
                  \<lparr>tm_description = rv_rtdl_description envelope, tm_control_only = is_control_only graph,
                   tm_call_signatures = plan_call_signatures (pp_read pp) (pp_json pp) graph,
                   tm_steps = plan_steps graph\<rparr> (tu_forest t),
                tu_drivers := tu_drivers t @ [new_driver (pl_plan_id graph)]\<rparr>
      in if hit_cap then finish t else t)"

definition tree_round :: "pilot_env \<Rightarrow> rtdl_envelope \<Rightarrow> plan \<Rightarrow> turn \<Rightarrow> turn" where
  "tree_round pv envelope graph t =
     (let pp = pv_printers pv; content = rv_content envelope; calls = plan_call_count graph in
      if mixes_control_inspection_with_action graph then
        (push (message_user ''Pilot harness feedback: legacy plan-control builtins cannot be mixed with business RTDL. Use a root cancel_plan, cancel_all, or stop_plan_at meta op instead; dispatch successor work only after control completion.'') t)
          \<lparr>tu_should_plan := True\<rparr>
      else if invalid_cancel_target (plan_cancel_targets (pp_read pp) graph) (tu_forest t) (tu_cancel_requested t) \<noteq> None then
        (push (message_user ''Pilot harness feedback: that legacy cancel target is not cancellable now. Re-read In-flight trees and use one root plan-control meta op; do not retry a finished target or create a cancel RTDL tree.'') t)
          \<lparr>tu_should_plan := True\<rparr>
      else if duplicate_in_flight_signature (plan_call_signatures (pp_read pp) (pp_json pp) graph) (tu_forest t) \<noteq> None then
        (push (message_user ''Pilot harness feedback: that exact capability call is already in flight. Do not dispatch or cancel it again; wait for its result.'') t)
          \<lparr>tu_should_plan := False\<rparr>
      else
        (case update_task envelope (calls = 0) t of
           (changed, t) \<Rightarrow>
             (let t = (if content = [] then t
                       else (push (message_assistant content) t)\<lparr>tu_last_content := content\<rparr>);
                  t = record_task pv changed t;
                  t = t\<lparr>tu_round := tu_round t + 1\<rparr>;
                  hit_cap = (tu_round t \<ge> pv_max_rounds pv)
              in if calls = 0 then empty_round content hit_cap t else dispatch pv envelope graph hit_cap t)))"

section \<open>The model's answer\<close>

datatype sample =
    Sm_Interrupt
  | Sm_Steer
  | Sm_Open_Error string
  | Sm_Receive_Error string
  | Sm_Reply string bool

definition vlm_error :: "string \<Rightarrow> sampling \<Rightarrow> turn \<Rightarrow> turn" where
  "vlm_error e sa t =
     (if sa_attempt sa = 0 then t\<lparr>tu_sampling := Some (sa\<lparr>sa_attempt := 1\<rparr>)\<rparr>
      else broke e t)"

definition reply_round ::
  "pilot_env \<Rightarrow> sampling \<Rightarrow> string \<Rightarrow> (nat \<Rightarrow> u64) \<Rightarrow> string + control_response \<Rightarrow> turn \<Rightarrow> turn" where
  "reply_round pv sa raw op_seq response t =
     (case judge pv (sa_view sa) op_seq raw t of
        (verdict, plan_seq) \<Rightarrow>
          (let t = t\<lparr>tu_plan_seq := plan_seq\<rparr>;
               sent = (t\<lparr>tu_sampling := None,
                  tu_history := append_request_context (vw_context (sa_view sa)) (sa_correction sa) (tu_history t)\<rparr>)
           in case verdict of
                Bad e reply \<Rightarrow>
                  if sa_correction sa = None then
                    t\<lparr>tu_sampling := Some (sa\<lparr>sa_revision := tu_revision t, sa_attempt := 0,
                       sa_correction := Some (build_rtdl_retry_prompt (pv_printers pv) e raw (vw_names (sa_view sa)))\<rparr>)\<rparr>
                  else finish (send_event (Final_Text reply) (if reply = [] then sent else push (message_assistant reply) sent))
              | Control envelope op \<Rightarrow> control_round pv envelope op response sent
              | Tree envelope graph \<Rightarrow> tree_round pv envelope graph sent))"

fun sample_step ::
  "pilot_env \<Rightarrow> sampling \<Rightarrow> sample \<Rightarrow> (nat \<Rightarrow> u64) \<Rightarrow> string + control_response \<Rightarrow> turn \<Rightarrow> turn option" where
  "sample_step pv sa Sm_Interrupt op_seq response t = (if tu_interrupt t then Some (interrupted t) else None)"
| "sample_step pv sa Sm_Steer op_seq response t =
     (if tu_steers t = [] then None
      else Some ((snd (take_steers pv (tu_steers t) (t\<lparr>tu_steers := []\<rparr>)))\<lparr>tu_should_plan := True, tu_sampling := None\<rparr>))"
| "sample_step pv sa (Sm_Open_Error e) op_seq response t = Some (vlm_error e sa t)"
| "sample_step pv sa (Sm_Receive_Error e) op_seq response t =
     Some (if sa_attempt sa = 0
           then vlm_error e sa (send_event (Status_Body session_active ''VLM response delayed; retrying once'') t)
           else vlm_error e sa t)"
| "sample_step pv sa (Sm_Reply raw tool_calls) op_seq response t =
     Some (if tu_revision t \<noteq> sa_revision sa then t\<lparr>tu_should_plan := False, tu_sampling := None\<rparr>
           else if tool_calls then broke ''VLM returned tool_calls in RTDL mode'' t
           else reply_round pv sa raw op_seq response t)"

section \<open>Drivers\<close>

definition deliver :: "nat \<Rightarrow> delivery \<Rightarrow> turn \<Rightarrow> turn option" where
  "deliver i msg t =
     (if i < length (tu_drivers t) \<and> dr_todo (tu_drivers t ! i) = []
      then Some (t\<lparr>tu_drivers := (tu_drivers t)[i := drive_message msg (tu_drivers t ! i)]\<rparr>) else None)"

definition ends_driver :: "driver_act \<Rightarrow> bool" where
  "ends_driver a = (case a of Act_Send (Ev_Done _ _ _ _) \<Rightarrow> True | _ \<Rightarrow> False)"

definition driver_act :: "nat \<Rightarrow> turn \<Rightarrow> turn option" where
  "driver_act i t =
     (if i < length (tu_drivers t) then
        (let dr = tu_drivers t ! i in
         case dr_todo dr of
           [] \<Rightarrow> None
         | a # todo \<Rightarrow>
             (let dr = dr\<lparr>dr_todo := todo\<rparr>;
                  dr = (case a of Act_Count ns \<Rightarrow> drive_count ns dr | _ \<Rightarrow> dr);
                  t = (case a of
                         Act_Send ev \<Rightarrow> t\<lparr>tu_events := tu_events t @ [ev]\<rparr>
                       | _ \<Rightarrow> t\<lparr>tu_revision := tu_revision t + 1\<rparr>)
              in Some (t\<lparr>tu_drivers :=
                   (if ends_driver a then take i (tu_drivers t) @ drop (Suc i) (tu_drivers t)
                    else (tu_drivers t)[i := dr])\<rparr>)))
      else None)"

section \<open>The steps of a turn\<close>

datatype label =
    L_Steer task
  | L_Interrupt
  | L_Other_Plan
  | L_Deliver nat delivery
  | L_Act nat
  | L_Top_Interrupt
  | L_Finish
  | L_Wake_Steer
  | L_Wake_Event
  | L_Plan "string + view" nat "message list \<Rightarrow> string option"
  | L_Sample sample "nat \<Rightarrow> u64" "string + control_response"

text \<open>At the top of the loop: neither sampling nor asked to stop.\<close>

definition loop_top :: "turn \<Rightarrow> bool" where
  "loop_top t \<longleftrightarrow> tu_sampling t = None \<and> \<not> tu_interrupt t"

definition resting :: "turn \<Rightarrow> bool" where
  "resting t \<longleftrightarrow> tu_forest t = [] \<and> (task_done t \<or> tu_task t = None)"

fun turn_step :: "pilot_env \<Rightarrow> label \<Rightarrow> turn \<Rightarrow> turn option" where
  "turn_step pv (L_Steer task) t = Some (t\<lparr>tu_steers := tu_steers t @ [task]\<rparr>)"
| "turn_step pv L_Interrupt t = Some (t\<lparr>tu_interrupt := True\<rparr>)"
| "turn_step pv L_Other_Plan t = Some (t\<lparr>tu_plan_seq := tu_plan_seq t + 1\<rparr>)"
| "turn_step pv (L_Deliver i msg) t = deliver i msg t"
| "turn_step pv (L_Act i) t = driver_act i t"
| "turn_step pv L_Top_Interrupt t =
     (if tu_sampling t = None \<and> tu_interrupt t then Some (interrupted t) else None)"
| "turn_step pv L_Finish t =
     (if loop_top t \<and> \<not> tu_should_plan t \<and> resting t then Some (finish (send_event (Final_Text (tu_last_content t)) t)) else None)"
| "turn_step pv L_Wake_Steer t =
     (if loop_top t \<and> \<not> tu_should_plan t \<and> \<not> resting t then
        (case tu_steers t of [] \<Rightarrow> None | task # rest \<Rightarrow> Some (wake_steer pv task rest t))
      else None)"
| "turn_step pv L_Wake_Event t =
     (if loop_top t \<and> \<not> tu_should_plan t \<and> tu_forest t \<noteq> [] \<and> tu_steers t = [] then
        (case tu_events t of [] \<Rightarrow> None | ev # rest \<Rightarrow> Some (wake_event pv ev (t\<lparr>tu_events := rest\<rparr>)))
      else None)"
| "turn_step pv (L_Plan found non_history collect_vlm_text) t =
     (if loop_top t \<and> tu_should_plan t then Some (plan_round pv found non_history collect_vlm_text t) else None)"
| "turn_step pv (L_Sample sm op_seq response) t =
     (case tu_sampling t of None \<Rightarrow> None | Some sa \<Rightarrow> sample_step pv sa sm op_seq response t)"

text \<open>A run: nothing happens after the end.\<close>

fun turn_run :: "pilot_env \<Rightarrow> label list \<Rightarrow> turn \<Rightarrow> turn option" where
  "turn_run pv [] t = Some t"
| "turn_run pv (l # ls) t =
     (if tu_end t \<noteq> None then None
      else (case turn_step pv l t of None \<Rightarrow> None | Some t' \<Rightarrow> turn_run pv ls t'))"

end
