(* ===== verification/Pilot_Fleet.thy ===== *)
theory Pilot_Fleet
  imports Pilot_Turn
begin

text \<open>
  What a turn of Pilot does to its trees in flight, stated on its own: trees are launched, asked to stop, report and
  are retired. \<open>run_turn\<close> with its drivers is shown to do nothing else, so that the invariant of the abstract machine
  holds of every turn.
\<close>

section \<open>The abstract machine\<close>

record fleet =
  fl_trees :: forest
  fl_stopping :: "string set"
  fl_running :: "string list"
  fl_reports :: "string list"
  fl_seq :: nat

definition plan_name :: "string \<Rightarrow> nat \<Rightarrow> string" where
  "plan_name tag k = tag @ ''-'' @ show_nat k"

text \<open>A tree that can be asked to stop: in flight, with work of its own, and not asked before.\<close>

definition stoppable :: "fleet \<Rightarrow> string set" where
  "stoppable f = {i. i \<notin> fl_stopping f \<and> (\<exists>m. hm_get (fl_trees f) i = Some m \<and> \<not> tm_control_only m)}"

definition unlike_all :: "tree_meta \<Rightarrow> fleet \<Rightarrow> bool" where
  "unlike_all m f \<longleftrightarrow> (\<forall>(i, m') \<in> set (fl_trees f). set (tm_call_signatures m) \<inter> set (tm_call_signatures m') = {})"

inductive fleet_step :: "string \<Rightarrow> fleet \<Rightarrow> fleet \<Rightarrow> bool" for tag where
  stay: "fl_seq f \<le> n \<Longrightarrow> fleet_step tag f (f\<lparr>fl_seq := n\<rparr>)"
| launch: "\<lbrakk>fl_seq f < k; set ts \<subseteq> stoppable f; unlike_all m f\<rbrakk> \<Longrightarrow>
     fleet_step tag f (f\<lparr>fl_trees := hm_insert (plan_name tag k) m (fl_trees f), fl_stopping := fl_stopping f \<union> set ts,
       fl_running := fl_running f @ [plan_name tag k], fl_seq := k\<rparr>)"
| ask: "set ts \<subseteq> stoppable f \<Longrightarrow> fleet_step tag f (f\<lparr>fl_stopping := fl_stopping f \<union> set ts\<rparr>)"
| report: "fl_running f = is @ i # js \<Longrightarrow>
     fleet_step tag f (f\<lparr>fl_running := is @ js, fl_reports := fl_reports f @ [i]\<rparr>)"
| retire: "fl_reports f = i # is \<Longrightarrow>
     fleet_step tag f (f\<lparr>fl_trees := hm_remove i (fl_trees f), fl_stopping := fl_stopping f - {i}, fl_reports := is\<rparr>)"

definition fleet_good :: "string \<Rightarrow> fleet \<Rightarrow> bool" where
  "fleet_good tag f \<longleftrightarrow> hm_wf (fl_trees f)
     \<and> distinct (fl_running f @ fl_reports f)
     \<and> set (fl_running f @ fl_reports f) = {i. hm_get (fl_trees f) i \<noteq> None}
     \<and> (\<forall>i \<in> fl_stopping f. \<exists>m. hm_get (fl_trees f) i = Some m \<and> \<not> tm_control_only m)
     \<and> (\<forall>i m j m'. hm_get (fl_trees f) i = Some m \<and> hm_get (fl_trees f) j = Some m' \<and> i \<noteq> j \<longrightarrow>
          set (tm_call_signatures m) \<inter> set (tm_call_signatures m') = {})
     \<and> (\<forall>i. hm_get (fl_trees f) i \<noteq> None \<longrightarrow> (\<exists>k \<le> fl_seq f. i = plan_name tag k))"

lemma plan_name_inj: "plan_name tag j = plan_name tag k \<longleftrightarrow> j = k"
  by (auto simp: plan_name_def dest: show_nat_inj)

lemma stutter: "fleet_step tag f f"
  using fleet_step.stay [of f "fl_seq f" tag] by simp

lemma fleet_good_launch:
  assumes g: "fleet_good tag f" and k: "fl_seq f < k" and ts: "set ts \<subseteq> stoppable f" and m: "unlike_all m f"
  shows "fleet_good tag (f\<lparr>fl_trees := hm_insert (plan_name tag k) m (fl_trees f), fl_stopping := fl_stopping f \<union> set ts,
       fl_running := fl_running f @ [plan_name tag k], fl_seq := k\<rparr>)"
proof -
  let ?i = "plan_name tag k"
  have wf: "hm_wf (fl_trees f)" using g by (simp add: fleet_good_def)
  have new: "hm_get (fl_trees f) ?i = None"
  proof (rule ccontr)
    assume "\<not> ?thesis"
    then have "\<exists>j \<le> fl_seq f. ?i = plan_name tag j" using g by (simp add: fleet_good_def)
    then show False using k by (auto simp: plan_name_inj)
  qed
  have ne: "j \<noteq> ?i" if "hm_get (fl_trees f) j = Some m'" for j m' using that new by auto
  have u: "x \<notin> set (tm_call_signatures m')" if "hm_get (fl_trees f) j = Some m'" "x \<in> set (tm_call_signatures m)" for j m' x
    using m hm_get_in_set [OF that(1)] that(2) by (auto simp: unlike_all_def)
  have stop: "\<exists>m. hm_get (fl_trees f) j = Some m \<and> \<not> tm_control_only m" if "j \<in> fl_stopping f \<union> set ts" for j
    using that ts g by (auto simp: stoppable_def fleet_good_def)
  have live: "set (fl_running f @ fl_reports f) = {i. hm_get (fl_trees f) i \<noteq> None}"
    and d: "distinct (fl_running f @ fl_reports f)" using g by (auto simp: fleet_good_def)
  have "\<exists>j \<le> k. i = plan_name tag j" if "hm_get (fl_trees f) i \<noteq> None" for i
    using g that k unfolding fleet_good_def by (meson le_trans less_imp_le)
  moreover have "?i \<notin> set (fl_running f @ fl_reports f)" using live new by simp
  moreover have "\<exists>m'. (if j = ?i then Some m else hm_get (fl_trees f) j) = Some m' \<and> \<not> tm_control_only m'"
    if "j \<in> fl_stopping f \<union> set ts" for j using stop [OF that] ne by auto
  ultimately show ?thesis
    using live d wf g new unfolding fleet_good_def
    by (auto simp: hm_simps hm_wfs split: if_splits dest: u)
qed

lemma fleet_good_step: "fleet_step tag f f' \<Longrightarrow> fleet_good tag f \<Longrightarrow> fleet_good tag f'"
proof (induction rule: fleet_step.induct)
  case (stay f n)
  then show ?case unfolding fleet_good_def by simp (meson le_trans)
next
  case (launch f k ts m)
  then show ?case by (intro fleet_good_launch)
next
  case (ask ts f)
  then show ?case by (auto simp: fleet_good_def stoppable_def)
next
  case (report f "is" i js)
  then show ?case by (auto simp: fleet_good_def)
next
  case (retire f i "is")
  then have "i \<notin> set (fl_running f)" "i \<notin> set is" by (auto simp: fleet_good_def)
  with retire show ?case
    unfolding fleet_good_def by (auto simp: hm_simps hm_wfs split: if_splits)
qed

section \<open>A turn as the abstract machine\<close>

definition reports_of :: "forest_event list \<Rightarrow> string list" where
  "reports_of evs = concat (map (\<lambda>ev. case ev of Ev_Done i _ _ _ \<Rightarrow> [i] | Ev_Node _ _ \<Rightarrow> []) evs)"

lemma reports_of_simps [simp]:
  "reports_of [] = []" "reports_of (Ev_Done i rs a c # evs) = i # reports_of evs"
  "reports_of (Ev_Node i ns # evs) = reports_of evs" "reports_of (xs @ ys) = reports_of xs @ reports_of ys"
  by (simp_all add: reports_of_def)

definition fleet_of :: "turn \<Rightarrow> fleet" where
  "fleet_of t = \<lparr>fl_trees = tu_forest t, fl_stopping = tu_cancel_requested t, fl_running = map dr_plan_id (tu_drivers t),
     fl_reports = reports_of (tu_events t), fl_seq = tu_plan_seq t\<rparr>"

text \<open>A driver speaks for its own plan only.\<close>

definition act_ok :: "string \<Rightarrow> driver_act \<Rightarrow> bool" where
  "act_ok i a \<longleftrightarrow> (case a of Act_Send (Ev_Done j _ _ _) \<Rightarrow> j = i | Act_Send (Ev_Node j _) \<Rightarrow> j = i | _ \<Rightarrow> True)"

definition driver_ok :: "driver \<Rightarrow> bool" where
  "driver_ok dr \<longleftrightarrow> list_all (act_ok (dr_plan_id dr)) (dr_todo dr)"

definition turn_ok :: "turn \<Rightarrow> bool" where
  "turn_ok t \<longleftrightarrow> list_all driver_ok (tu_drivers t)"

text \<open>The steps that leave the fleet alone, but for plan ids taken from the counter.\<close>

definition same_fleet :: "turn \<Rightarrow> turn \<Rightarrow> bool" where
  "same_fleet t t' \<longleftrightarrow> tu_forest t' = tu_forest t \<and> tu_cancel_requested t' = tu_cancel_requested t
     \<and> tu_drivers t' = tu_drivers t \<and> tu_events t' = tu_events t \<and> tu_plan_seq t' = tu_plan_seq t"

lemma same_fleet_refl [simp]: "same_fleet t t"
  by (simp add: same_fleet_def)

lemma same_fleet_trans: "same_fleet s t \<Longrightarrow> same_fleet t u \<Longrightarrow> same_fleet s u"
  by (simp add: same_fleet_def)

lemma same_fleet_of: "same_fleet t t' \<Longrightarrow> fleet_of t' = fleet_of t"
  by (simp add: same_fleet_def fleet_of_def)

lemma fleet_of_sel [simp]:
  "fl_trees (fleet_of t) = tu_forest t" "fl_stopping (fleet_of t) = tu_cancel_requested t"
  "fl_running (fleet_of t) = map dr_plan_id (tu_drivers t)" "fl_reports (fleet_of t) = reports_of (tu_events t)"
  "fl_seq (fleet_of t) = tu_plan_seq t"
  by (simp_all add: fleet_of_def)

lemma same_fleet_updates [simp]:
  "same_fleet t (s\<lparr>tu_history := h\<rparr>) = same_fleet t s" "same_fleet t (s\<lparr>tu_task := k\<rparr>) = same_fleet t s"
  "same_fleet t (s\<lparr>tu_should_plan := b\<rparr>) = same_fleet t s" "same_fleet t (s\<lparr>tu_last_content := c\<rparr>) = same_fleet t s"
  "same_fleet t (s\<lparr>tu_requests := n\<rparr>) = same_fleet t s" "same_fleet t (s\<lparr>tu_round := n\<rparr>) = same_fleet t s"
  "same_fleet t (s\<lparr>tu_steers := ts\<rparr>) = same_fleet t s" "same_fleet t (s\<lparr>tu_interrupt := b\<rparr>) = same_fleet t s"
  "same_fleet t (s\<lparr>tu_revision := n\<rparr>) = same_fleet t s" "same_fleet t (s\<lparr>tu_sampling := sa\<rparr>) = same_fleet t s"
  "same_fleet t (s\<lparr>tu_sent := bs\<rparr>) = same_fleet t s" "same_fleet t (s\<lparr>tu_controls := qs\<rparr>) = same_fleet t s"
  "same_fleet t (s\<lparr>tu_end := e\<rparr>) = same_fleet t s"
  by (simp_all add: same_fleet_def)

lemma same_fleet_helpers [simp]:
  "same_fleet t (send_event b s) = same_fleet t s" "same_fleet t (push m s) = same_fleet t s"
  "same_fleet t (send_task s) = same_fleet t s" "same_fleet t (finish s) = same_fleet t s"
  "same_fleet t (interrupted s) = same_fleet t s" "same_fleet t (record_task pv c s) = same_fleet t s"
  "same_fleet t (snd (take_steers pv ts s)) = same_fleet t s" "same_fleet t (vlm_error e sa s) = same_fleet t s"
  "same_fleet t (empty_round tx cap s) = same_fleet t s" "same_fleet t (wake_node pv i ns s) = same_fleet t s"
  "same_fleet t (snd (update_task env fin s)) = same_fleet t s" "same_fleet t (broke e s) = same_fleet t s"
  by (auto simp: broke_def send_event_def push_def send_task_def finish_def interrupted_def record_task_def take_steers_def
      vlm_error_def empty_round_def wake_node_def update_task_def Let_def split: option.split prod.split)

lemma same_fleet_round [simp]: "same_fleet t (plan_round pv vw n cs s) = same_fleet t s"
  by (simp add: plan_round_def Let_def split: option.split sum.split)

lemma same_fleet_wake_steer [simp]: "same_fleet t (wake_steer pv task rest s) = same_fleet t s"
proof (cases "take_steers pv [task] (s\<lparr>tu_steers := rest\<rparr>)")
  case (Pair pulled u)
  then have "same_fleet t u = same_fleet t (s\<lparr>tu_steers := rest\<rparr>)"
    using same_fleet_helpers(7) [of t pv "[task]" "s\<lparr>tu_steers := rest\<rparr>"] by simp
  then show ?thesis by (simp add: wake_steer_def Pair)
qed

lemma valid_targets: "invalid_cancel_target ts (tu_forest t) (tu_cancel_requested t) = None \<longleftrightarrow> set ts \<subseteq> stoppable (fleet_of t)"
  by (auto simp: invalid_cancel_target_def stoppable_def fleet_of_def find_None_iff split: option.splits)

lemma fleet_of_control:
  "fleet_of (control_round pv env op response t) = (fleet_of t)\<lparr>fl_stopping :=
     (case meta_result response of
        Inr _ \<Rightarrow> tu_cancel_requested t \<union> set (cancellation_targets op (tu_forest t))
      | Inl _ \<Rightarrow> tu_cancel_requested t - set (cancellation_targets op (tu_forest t)))\<rparr>"
proof (cases "update_task env False t")
  case (Pair changed u)
  then have "same_fleet t u" using same_fleet_helpers(11) [of t env False t] by simp
  then show ?thesis
    by (auto simp: control_round_def Pair Let_def fleet_of_def same_fleet_def send_event_def push_def record_task_def
        split: sum.split option.split)
qed

lemma fleet_of_dispatch:
  "fleet_of (dispatch pv env graph hit_cap t) = (fleet_of t)\<lparr>
     fl_trees := hm_insert (pl_plan_id graph) \<lparr>tm_description = rv_rtdl_description env, tm_control_only = is_control_only graph,
        tm_call_signatures = plan_call_signatures (pp_read (pv_printers pv)) (pp_json (pv_printers pv)) graph,
        tm_steps = plan_steps graph\<rparr> (tu_forest t),
     fl_stopping := tu_cancel_requested t \<union> set (plan_cancel_targets (pp_read (pv_printers pv)) graph),
     fl_running := map dr_plan_id (tu_drivers t) @ [pl_plan_id graph]\<rparr>"
  by (simp add: dispatch_def Let_def fleet_of_def send_event_def finish_def new_driver_def)

lemma unlike_all_iff:
  "duplicate_in_flight_signature sigs (tu_forest t) = None \<longleftrightarrow>
     unlike_all \<lparr>tm_description = d, tm_control_only = c, tm_call_signatures = sigs, tm_steps = st\<rparr> (fleet_of t)"
  by (auto simp: duplicate_in_flight_signature_def unlike_all_def fleet_of_def find_None_iff list_ex_iff)

text \<open>A round with a tree either leaves the fleet alone or launches the tree.\<close>

lemma fleet_of_tree:
  assumes "pl_plan_id graph = plan_name tag k"
  shows "fleet_of (tree_round pv env graph t) = fleet_of t
    \<or> (\<exists>m ts. set ts \<subseteq> stoppable (fleet_of t) \<and> unlike_all m (fleet_of t) \<and>
         fleet_of (tree_round pv env graph t) = (fleet_of t)\<lparr>fl_trees := hm_insert (plan_name tag k) m (fl_trees (fleet_of t)),
           fl_stopping := fl_stopping (fleet_of t) \<union> set ts, fl_running := fl_running (fleet_of t) @ [plan_name tag k]\<rparr>)"
proof -
  let ?pp = "pv_printers pv"
  let ?ts = "plan_cancel_targets (pp_read ?pp) graph"
  let ?sigs = "plan_call_signatures (pp_read ?pp) (pp_json ?pp) graph"
  obtain changed u where u: "update_task env (plan_call_count graph = 0) t = (changed, u)" by (meson surj_pair)
  then have same: "same_fleet t u" using same_fleet_helpers(11) [of t env "plan_call_count graph = 0" t] by simp
  show ?thesis
  proof (cases "mixes_control_inspection_with_action graph
      \<or> invalid_cancel_target ?ts (tu_forest t) (tu_cancel_requested t) \<noteq> None
      \<or> duplicate_in_flight_signature ?sigs (tu_forest t) \<noteq> None")
    case True
    then have "same_fleet t (tree_round pv env graph t)"
      by (auto simp: tree_round_def Let_def)
    then show ?thesis by (simp add: same_fleet_of)
  next
    case False
    define v where "v = (record_task pv changed (if rv_content env = [] then u
      else (push (message_assistant (rv_content env)) u)\<lparr>tu_last_content := rv_content env\<rparr>))"
    have v: "same_fleet t v" using same by (simp add: v_def)
    let ?v = "v\<lparr>tu_round := tu_round v + 1\<rparr>"
    have r: "tree_round pv env graph t =
        (if plan_call_count graph = 0 then empty_round (rv_content env) (tu_round ?v \<ge> pv_max_rounds pv) ?v
         else dispatch pv env graph (tu_round ?v \<ge> pv_max_rounds pv) ?v)"
      using False u by (simp add: tree_round_def Let_def v_def)
    show ?thesis
    proof (cases "plan_call_count graph = 0")
      case True
      then show ?thesis using v by (simp add: r same_fleet_of)
    next
      case calls: False
      have "fleet_of ?v = fleet_of t" using v by (simp add: same_fleet_of)
      moreover have "tu_forest v = tu_forest t" "tu_cancel_requested v = tu_cancel_requested t" "tu_drivers v = tu_drivers t"
        using v by (simp_all add: same_fleet_def)
      ultimately have "fleet_of (tree_round pv env graph t) = (fleet_of t)\<lparr>fl_trees := hm_insert (plan_name tag k)
            \<lparr>tm_description = rv_rtdl_description env, tm_control_only = is_control_only graph,
             tm_call_signatures = ?sigs, tm_steps = plan_steps graph\<rparr> (fl_trees (fleet_of t)),
           fl_stopping := fl_stopping (fleet_of t) \<union> set ?ts, fl_running := fl_running (fleet_of t) @ [plan_name tag k]\<rparr>"
        using calls assms by (simp add: r fleet_of_dispatch)
      moreover have "set ?ts \<subseteq> stoppable (fleet_of t)" using False valid_targets by blast
      moreover have "unlike_all \<lparr>tm_description = rv_rtdl_description env, tm_control_only = is_control_only graph,
          tm_call_signatures = ?sigs, tm_steps = plan_steps graph\<rparr> (fleet_of t)"
        using False unlike_all_iff by blast
      ultimately show ?thesis by blast
    qed
  qed
qed

lemma raised_Inr [simp]: "raised what r = Inr x \<longleftrightarrow> r = Inr x"
  by (simp add: raised_def split: sum.split)

lemma judged:
  assumes "judge pv vw op_seq raw t = (v, n)"
  shows "tu_plan_seq t \<le> n"
    and "v = Control env op \<Longrightarrow> n = tu_plan_seq t \<and> set (cancellation_targets op (tu_forest t)) \<subseteq> stoppable (fleet_of t)"
    and "v = Tree env graph \<Longrightarrow> n = tu_plan_seq t + 1 \<and> pl_plan_id graph = plan_name (pv_run_tag pv) n"
  using assms
  by (auto simp: judge_def Let_def plan_name_def expand_rtdl_to_plan_def valid_targets [symmetric] meta_op_problem_def
      split: sum.splits option.splits if_splits)

lemma stoppable_seq [simp]: "stoppable (f\<lparr>fl_seq := n\<rparr>) = stoppable f"
  by (simp add: stoppable_def)

lemma unlike_all_seq [simp]: "unlike_all m (f\<lparr>fl_seq := n\<rparr>) = unlike_all m f"
  by (simp add: unlike_all_def)

lemma fleet_step_reply: "fleet_step (pv_run_tag pv) (fleet_of t) (fleet_of (reply_round pv sa raw op_seq response t))"
proof -
  let ?f = "fleet_of t"
  obtain v n where j: "judge pv (sa_view sa) op_seq raw t = (v, n)" by (meson surj_pair)
  let ?sent = "t\<lparr>tu_plan_seq := n, tu_sampling := None,
      tu_history := append_request_context (vw_context (sa_view sa)) (sa_correction sa) (tu_history t)\<rparr>"
  have sent: "fleet_of ?sent = ?f\<lparr>fl_seq := n\<rparr>" by (simp add: fleet_of_def)
  have stay: "fleet_step (pv_run_tag pv) ?f (?f\<lparr>fl_seq := n\<rparr>)"
    using judged(1) [OF j] by (intro fleet_step.stay) simp
  show ?thesis
  proof (cases v)
    case (Bad e reply)
    have "fleet_of (reply_round pv sa raw op_seq response t) = ?f\<lparr>fl_seq := n\<rparr>"
      by (simp add: reply_round_def j Bad Let_def fleet_of_def finish_def send_event_def push_def)
    then show ?thesis using stay by simp
  next
    case (Control env op)
    let ?ts = "set (cancellation_targets op (tu_forest t))"
    from judged(2) [OF j Control] have n: "n = tu_plan_seq t" and ts: "?ts \<subseteq> stoppable ?f" by auto
    have f: "?f\<lparr>fl_seq := tu_plan_seq t\<rparr> = ?f" by (simp add: fleet_of_def)
    have r: "reply_round pv sa raw op_seq response t = control_round pv env op response ?sent"
      by (simp add: reply_round_def j Control Let_def)
    have s: "fleet_of ?sent = ?f" using sent by (simp add: n f)
    show ?thesis
    proof (cases "meta_result response")
      case (Inl e)
      have "tu_cancel_requested t - ?ts = tu_cancel_requested t" using ts by (auto simp: stoppable_def)
      then have "fleet_of (control_round pv env op response ?sent) = ?f\<lparr>fl_seq := tu_plan_seq t\<rparr>"
        unfolding fleet_of_control s by (simp add: Inl fleet_of_def)
      then show ?thesis using fleet_step.stay [of ?f "tu_plan_seq t"] by (simp add: r)
    next
      case (Inr m)
      have "fleet_of (control_round pv env op response ?sent) = ?f\<lparr>fl_stopping := fl_stopping ?f \<union> ?ts\<rparr>"
        unfolding fleet_of_control s by (simp add: Inr)
      then show ?thesis using fleet_step.ask [OF ts] by (simp add: r)
    qed
  next
    case (Tree env graph)
    from judged(3) [OF j Tree] have n: "n = tu_plan_seq t + 1" and id: "pl_plan_id graph = plan_name (pv_run_tag pv) n" by auto
    have r: "reply_round pv sa raw op_seq response t = tree_round pv env graph ?sent"
      by (simp add: reply_round_def j Tree Let_def)
    from fleet_of_tree [OF id, of pv env ?sent] consider
        "fleet_of (tree_round pv env graph ?sent) = ?f\<lparr>fl_seq := n\<rparr>"
      | m ts where "set ts \<subseteq> stoppable ?f" "unlike_all m ?f" "fleet_of (tree_round pv env graph ?sent)
          = ?f\<lparr>fl_seq := n, fl_trees := hm_insert (plan_name (pv_run_tag pv) n) m (fl_trees ?f),
             fl_stopping := fl_stopping ?f \<union> set ts, fl_running := fl_running ?f @ [plan_name (pv_run_tag pv) n]\<rparr>"
      unfolding sent by auto
    then show ?thesis
    proof cases
      case 1
      then show ?thesis using stay by (simp add: r)
    next
      case 2
      have "fl_seq ?f < n" by (simp add: n)
      have "?f\<lparr>fl_seq := n, fl_trees := T, fl_stopping := S, fl_running := R\<rparr>
          = ?f\<lparr>fl_trees := T, fl_stopping := S, fl_running := R, fl_seq := n\<rparr>" for T S R
        by (simp add: fleet_of_def)
      with fleet_step.launch [OF \<open>fl_seq ?f < n\<close> 2(1,2), of "pv_run_tag pv"] 2(3) show ?thesis by (simp add: r)
    qed
  qed
qed

lemma drive_message_id [simp]: "dr_plan_id (drive_message msg dr) = dr_plan_id dr"
  by (cases "(msg, dr)" rule: drive_message.cases) (simp_all add: Let_def)

lemma drive_message_ok: "driver_ok dr \<Longrightarrow> driver_ok (drive_message msg dr)"
  by (cases "(msg, dr)" rule: drive_message.cases) (simp_all add: Let_def driver_ok_def act_ok_def plan_done_def)

lemma driver_step:
  assumes "driver_act i t = Some t'" and "turn_ok t"
  shows "fleet_step tag (fleet_of t) (fleet_of t') \<and> turn_ok t'"
proof -
  let ?dr = "tu_drivers t ! i"
  from assms(1) obtain a todo where i: "i < length (tu_drivers t)" and a: "dr_todo ?dr = a # todo"
    by (cases "dr_todo ?dr") (auto simp: driver_act_def split: if_splits)
  have ok: "driver_ok ?dr" using assms(2) i by (simp add: turn_ok_def list_all_length)
  have split: "map dr_plan_id (tu_drivers t) = map dr_plan_id (take i (tu_drivers t)) @ dr_plan_id ?dr
      # map dr_plan_id (drop (Suc i) (tu_drivers t))"
    using i id_take_nth_drop [OF i] by (metis list.simps(9) map_append)
  show ?thesis
  proof (cases "ends_driver a")
    case True
    then obtain j rs b c where fin: "a = Act_Send (Ev_Done j rs b c)"
      by (auto simp: ends_driver_def split: driver_act.splits forest_event.splits)
    then have j: "j = dr_plan_id ?dr" using ok a by (simp add: driver_ok_def act_ok_def)
    have t': "t' = t\<lparr>tu_events := tu_events t @ [Ev_Done j rs b c],
        tu_drivers := take i (tu_drivers t) @ drop (Suc i) (tu_drivers t)\<rparr>"
      using assms(1) i a fin True by (simp add: driver_act_def Let_def)
    have "list_all driver_ok (take i (tu_drivers t) @ drop (Suc i) (tu_drivers t))"
      using assms(2) by (auto simp: turn_ok_def list_all_iff dest: in_set_takeD in_set_dropD)
    moreover have "fl_running (fleet_of t) = map dr_plan_id (take i (tu_drivers t)) @ j # map dr_plan_id (drop (Suc i) (tu_drivers t))"
      using split by (simp add: j)
    from fleet_step.report [OF this, of tag] have "fleet_step tag (fleet_of t) (fleet_of t')"
      by (simp add: t' fleet_of_def)
    ultimately show ?thesis by (simp add: turn_ok_def t')
  next
    case False
    define dr where "dr = (case a of Act_Count ns \<Rightarrow> drive_count ns (?dr\<lparr>dr_todo := todo\<rparr>) | _ \<Rightarrow> ?dr\<lparr>dr_todo := todo\<rparr>)"
    have dr: "dr_plan_id dr = dr_plan_id ?dr" "driver_ok dr"
      using ok a by (cases a; simp add: dr_def drive_count_def driver_ok_def)+
    have t': "tu_drivers t' = (tu_drivers t)[i := dr]" "tu_forest t' = tu_forest t" "tu_plan_seq t' = tu_plan_seq t"
      "tu_cancel_requested t' = tu_cancel_requested t" "reports_of (tu_events t') = reports_of (tu_events t)"
      using assms(1) i a False
      by (auto simp: driver_act_def Let_def dr_def ends_driver_def split: driver_act.splits forest_event.splits)
    have "map dr_plan_id (tu_drivers t') = map dr_plan_id (tu_drivers t)"
      using dr(1) i by (simp add: t' map_update list_update_same_conv)
    then have "fleet_of t' = (fleet_of t)\<lparr>fl_seq := fl_seq (fleet_of t)\<rparr>" by (simp add: fleet_of_def t')
    then have "fleet_step tag (fleet_of t) (fleet_of t')" using fleet_step.stay [of "fleet_of t" "fl_seq (fleet_of t)" tag] by simp
    moreover have "turn_ok t'"
      using assms(2) dr(2) by (auto simp: turn_ok_def t' list_all_iff dest: set_update_subset_insert [THEN subsetD])
    ultimately show ?thesis by simp
  qed
qed

lemma deliver_step:
  assumes "deliver i msg t = Some t'" and "turn_ok t"
  shows "fleet_step tag (fleet_of t) (fleet_of t') \<and> turn_ok t'"
proof -
  from assms(1) have i: "i < length (tu_drivers t)"
    and t': "t' = t\<lparr>tu_drivers := (tu_drivers t)[i := drive_message msg (tu_drivers t ! i)]\<rparr>"
    by (auto simp: deliver_def split: if_splits)
  have "map dr_plan_id (tu_drivers t') = map dr_plan_id (tu_drivers t)"
    using i by (simp add: t' map_update list_update_same_conv)
  then have "fleet_of t' = (fleet_of t)\<lparr>fl_seq := fl_seq (fleet_of t)\<rparr>" by (simp add: fleet_of_def t')
  then have "fleet_step tag (fleet_of t) (fleet_of t')"
    using fleet_step.stay [of "fleet_of t" "fl_seq (fleet_of t)" tag] by simp
  moreover have "turn_ok t'"
    using assms(2) i drive_message_ok [of "tu_drivers t ! i" msg]
    by (auto simp: turn_ok_def t' list_all_iff dest: set_update_subset_insert [THEN subsetD])
  ultimately show ?thesis by simp
qed

lemma same_fleet_step: "same_fleet t t' \<Longrightarrow> fleet_step tag (fleet_of t) (fleet_of t')"
  by (simp add: same_fleet_of stutter)

lemma turn_ok_same: "same_fleet t t' \<Longrightarrow> turn_ok t' = turn_ok t"
  by (simp add: same_fleet_def turn_ok_def)

lemma turn_ok_reply: "turn_ok t \<Longrightarrow> turn_ok (reply_round pv sa raw op_seq response t)"
proof -
  have c: "turn_ok (control_round pv env op response u)" if "turn_ok u" for u env op
  proof (cases "update_task env False u")
    case (Pair changed w)
    then have "same_fleet u w" using same_fleet_helpers(11) [of u env False u] by simp
    with that show ?thesis
      by (auto simp: control_round_def Pair Let_def turn_ok_def same_fleet_def send_event_def push_def record_task_def
          split: sum.split option.split)
  qed
  have d: "turn_ok (dispatch pv env graph cap u)" if "turn_ok u" for u env graph cap
    using that by (simp add: dispatch_def Let_def turn_ok_def send_event_def finish_def new_driver_def driver_ok_def)
  have e: "turn_ok (empty_round tx cap u) = turn_ok u" "turn_ok (push m u) = turn_ok u" "turn_ok (record_task pv ch u) = turn_ok u"
    "turn_ok (snd (update_task env b u)) = turn_ok u" "turn_ok (finish u) = turn_ok u" "turn_ok (send_event x u) = turn_ok u"
    "turn_ok (u\<lparr>tu_round := n\<rparr>) = turn_ok u" "turn_ok (u\<lparr>tu_last_content := tx\<rparr>) = turn_ok u"
    "turn_ok (u\<lparr>tu_should_plan := b\<rparr>) = turn_ok u" for u tx cap m ch env b n x
    by (rule turn_ok_same; simp)+
  have tr: "turn_ok (tree_round pv env graph u)" if "turn_ok u" for u env graph
  proof (cases "update_task env (plan_call_count graph = 0) u")
    case (Pair changed w)
    then have "turn_ok w" using e(4) [of env "plan_call_count graph = 0" u] that by simp
    then show ?thesis
      using that by (simp add: tree_round_def Let_def Pair e d)
  qed
  assume ok: "turn_ok t"
  obtain v n where j: "judge pv (sa_view sa) op_seq raw t = (v, n)" by (meson surj_pair)
  let ?sent = "t\<lparr>tu_plan_seq := n, tu_sampling := None,
      tu_history := append_request_context (vw_context (sa_view sa)) (sa_correction sa) (tu_history t)\<rparr>"
  have "turn_ok ?sent" using ok by (simp add: turn_ok_def)
  then show ?thesis
    by (cases v) (simp_all add: reply_round_def j Let_def c tr e, simp_all add: turn_ok_def)
qed

lemma wake_step:
  assumes "turn_ok t" and "tu_events t = ev # rest" and "t' = wake_event pv ev (t\<lparr>tu_events := rest\<rparr>)"
  shows "fleet_step (pv_run_tag pv) (fleet_of t) (fleet_of t') \<and> turn_ok t'"
proof (cases ev)
  case (Ev_Node i ns)
  have "same_fleet (t\<lparr>tu_events := rest\<rparr>) t'" by (simp add: assms(3) Ev_Node)
  then have "fleet_of t' = fleet_of (t\<lparr>tu_events := rest\<rparr>)" "turn_ok t'"
    using same_fleet_of turn_ok_same assms(1) by (auto simp: turn_ok_def)
  then show ?thesis
    using fleet_step.stay [of "fleet_of t" "tu_plan_seq t" "pv_run_tag pv"] by (simp add: fleet_of_def assms(2) Ev_Node)
next
  case (Ev_Done i rs a c)
  have "fleet_of t' = (fleet_of t)\<lparr>fl_trees := hm_remove i (fl_trees (fleet_of t)),
      fl_stopping := fl_stopping (fleet_of t) - {i}, fl_reports := reports_of rest\<rparr>"
    by (simp add: assms(3) Ev_Done wake_done_def Let_def fleet_of_def send_event_def push_def)
  moreover have "fl_reports (fleet_of t) = i # reports_of rest" by (simp add: assms(2) Ev_Done)
  from fleet_step.retire [OF this, of "pv_run_tag pv"] have "fleet_step (pv_run_tag pv) (fleet_of t) ((fleet_of t)\<lparr>fl_trees := hm_remove i (fl_trees (fleet_of t)),
      fl_stopping := fl_stopping (fleet_of t) - {i}, fl_reports := reports_of rest\<rparr>)" .
  moreover have "turn_ok t'"
    using assms(1) by (simp add: assms(3) Ev_Done wake_done_def Let_def turn_ok_def send_event_def push_def)
  ultimately show ?thesis by simp
qed

lemma step_in_fleet:
  assumes "turn_step pv l t = Some t'" and "turn_ok t"
  shows "fleet_step (pv_run_tag pv) (fleet_of t) (fleet_of t') \<and> turn_ok t'"
proof -
  have same: ?thesis if "same_fleet t t'"
    using that assms(2) same_fleet_step turn_ok_same by blast
  show ?thesis
  proof (cases l)
    case L_Other_Plan
    then have t': "t' = t\<lparr>tu_plan_seq := tu_plan_seq t + 1\<rparr>" using assms(1) by simp
    then show ?thesis
      using assms(2) fleet_step.stay [of "fleet_of t" "tu_plan_seq t + 1" "pv_run_tag pv"]
      by (simp add: fleet_of_def turn_ok_def)
  next
    case (L_Deliver i msg)
    with assms show ?thesis by (simp add: deliver_step)
  next
    case (L_Act i)
    with assms show ?thesis by (simp add: driver_step)
  next
    case L_Wake_Event
    with assms show ?thesis using wake_step [of t _ _ t' pv] by (auto split: if_splits list.splits)
  next
    case (L_Sample sm op_seq response)
    with assms(1) obtain sa where sa: "tu_sampling t = Some sa" "sample_step pv sa sm op_seq response t = Some t'"
      by (auto split: option.splits)
    show ?thesis
    proof (cases "\<exists>raw. sm = Sm_Reply raw False \<and> tu_revision t = sa_revision sa")
      case True
      with sa(2) obtain raw where "t' = reply_round pv sa raw op_seq response t" by auto
      then show ?thesis using fleet_step_reply turn_ok_reply assms(2) by auto
    next
      case False
      then have "same_fleet t t'"
        using sa(2) by (cases sm) (auto split: if_splits)
      then show ?thesis by (rule same)
    qed
  qed (rule same, use assms(1) in \<open>(auto split: if_splits list.splits)[1]\<close>)+
qed

text \<open>C25 (refinement). A turn of Pilot, its supervisor and the drivers of its plans together, does to its trees in flight
  only what the abstract machine of launches, requests to stop, reports and retirements allows, and a driver
  reports for its own plan only: every step of the turn is one step of that machine.\<close>

theorem turn_refines_fleet:
  assumes "turn_step pv l t = Some t'" and "turn_ok t"
  shows "fleet_step (pv_run_tag pv) (fleet_of t) (fleet_of t') \<and> turn_ok t'"
  using assms by (rule step_in_fleet)

section \<open>What holds of every turn\<close>

definition turn_started :: "pilot_env \<Rightarrow> turn \<Rightarrow> bool" where
  "turn_started pv t \<longleftrightarrow> (\<exists>task brought history standing n. t = start_turn pv task brought history standing n)"

definition turn_next :: "pilot_env \<Rightarrow> turn \<Rightarrow> turn \<Rightarrow> bool" where
  "turn_next pv t t' \<longleftrightarrow> tu_end t = None \<and> (\<exists>l. turn_step pv l t = Some t')"

definition turn_good :: "pilot_env \<Rightarrow> turn \<Rightarrow> bool" where
  "turn_good pv t \<longleftrightarrow> turn_ok t \<and> fleet_good (pv_run_tag pv) (fleet_of t)"

lemma turn_good_start: "turn_started pv t \<Longrightarrow> turn_good pv t"
proof -
  have g: "turn_good pv (fresh_turn h st n)" for h st n
    by (simp add: turn_good_def turn_ok_def fleet_good_def fleet_of_def fresh_turn_def)
  have same: "same_fleet (fresh_turn h st n) (start_turn pv task m h st n)" for task m h st n
    by (simp add: start_turn_def Let_def split: sum.split)
  assume "turn_started pv t"
  then obtain task m h st n where "t = start_turn pv task m h st n" by (auto simp: turn_started_def)
  with g [of h st n] same_fleet_of [OF same] turn_ok_same [OF same] show ?thesis by (simp add: turn_good_def)
qed

interpretation turns: inv_relation "turn_started pv" "turn_next pv" "turn_good pv" for pv
  by unfold_locales
    (rule turn_good_start, assumption, auto simp: turn_next_def turn_good_def dest: step_in_fleet intro: fleet_good_step)

lemma run_next: "turn_run pv ls t = Some t' \<Longrightarrow> (turn_next pv)\<^sup>*\<^sup>* t t'"
proof (induction ls arbitrary: t)
  case (Cons l ls)
  then obtain u where "turn_step pv l t = Some u" "tu_end t = None" "turn_run pv ls u = Some t'"
    by (auto split: if_splits option.splits)
  with Cons.IH show ?case by (auto simp: turn_next_def intro: converse_rtranclp_into_rtranclp)
qed simp

lemma run_good:
  assumes "turn_run pv ls (start_turn pv task brought history standing n) = Some t"
  shows "turn_good pv t"
  by (rule turns.good_reachable [OF _ run_next [OF assms]]) (unfold turn_started_def, blast)

text \<open>C26 (invariant). The forest of a turn is what runs: at every moment of every run, a tree is in flight exactly when
  its driver is still running or its report is in the queue, never both and never twice. So a turn that waits with
  trees in flight waits for reports that are still to come, and a plan id is never reused while it is in use.\<close>

theorem in_flight_is_what_runs:
  assumes "turn_run pv ls (start_turn pv task brought history standing n) = Some t"
  shows "distinct (map dr_plan_id (tu_drivers t) @ reports_of (tu_events t))
    \<and> {i. hm_get (tu_forest t) i \<noteq> None} = set (map dr_plan_id (tu_drivers t)) \<union> set (reports_of (tu_events t))"
  using run_good [OF assms] by (simp add: turn_good_def fleet_good_def)

text \<open>C27 (safety). The same call never runs twice at a time: in every run, two different trees in flight have no call
  in common, provider, contract and arguments taken together; and only trees with work of their own are being
  stopped.\<close>

theorem no_call_in_flight_twice:
  assumes "turn_run pv ls (start_turn pv task brought history standing n) = Some t"
    and "hm_get (tu_forest t) i = Some m" and "hm_get (tu_forest t) j = Some m'" and "i \<noteq> j"
  shows "set (tm_call_signatures m) \<inter> set (tm_call_signatures m') = {} \<and> (i \<in> tu_cancel_requested t \<longrightarrow> \<not> tm_control_only m)"
  using run_good [OF assms(1)] assms(2-4) by (auto simp: turn_good_def fleet_good_def)

section \<open>How a turn ends\<close>

fun closing :: "pilot_body \<Rightarrow> bool" where
  "closing (Status_Body state _) = (state \<noteq> session_active)"
| "closing _ = False"

definition closings :: "turn \<Rightarrow> pilot_body list" where
  "closings t = filter closing (tu_sent t)"

definition still_open :: "turn \<Rightarrow> bool" where
  "still_open t \<longleftrightarrow> tu_end t = None \<and> closings t = []"

text \<open>The last event is \<open>body\<close>, and none before it closes.\<close>

definition closed_by :: "pilot_body \<Rightarrow> turn \<Rightarrow> bool" where
  "closed_by body t \<longleftrightarrow> tu_sent t \<noteq> [] \<and> last (tu_sent t) = body \<and> filter closing (butlast (tu_sent t)) = []"

definition closes :: "turn \<Rightarrow> bool" where
  "closes t \<longleftrightarrow>
     (case tu_end t of
        None \<Rightarrow> closings t = []
      | Some (Broke _) \<Rightarrow> closings t = []
      | Some Ended \<Rightarrow> closed_by (Status_Body session_completed []) t
      | Some Interrupted \<Rightarrow> closed_by (Status_Body session_failed ''interrupted'') t
          \<and> set (cancel_forest_plans (tu_forest t)) \<subseteq> set (tu_controls t))"

lemma open_closes: "still_open t \<Longrightarrow> closes t"
  by (simp add: still_open_def closes_def)

lemma open_updates [simp]:
  "still_open (s\<lparr>tu_history := h\<rparr>) = still_open s" "still_open (s\<lparr>tu_task := k\<rparr>) = still_open s"
  "still_open (s\<lparr>tu_should_plan := b\<rparr>) = still_open s" "still_open (s\<lparr>tu_last_content := c\<rparr>) = still_open s"
  "still_open (s\<lparr>tu_requests := n\<rparr>) = still_open s" "still_open (s\<lparr>tu_round := n\<rparr>) = still_open s"
  "still_open (s\<lparr>tu_steers := ts\<rparr>) = still_open s" "still_open (s\<lparr>tu_interrupt := b\<rparr>) = still_open s"
  "still_open (s\<lparr>tu_revision := n\<rparr>) = still_open s" "still_open (s\<lparr>tu_sampling := sa\<rparr>) = still_open s"
  "still_open (s\<lparr>tu_controls := qs\<rparr>) = still_open s" "still_open (s\<lparr>tu_forest := f\<rparr>) = still_open s"
  "still_open (s\<lparr>tu_cancel_requested := cs\<rparr>) = still_open s" "still_open (s\<lparr>tu_drivers := ds\<rparr>) = still_open s"
  "still_open (s\<lparr>tu_events := es\<rparr>) = still_open s" "still_open (s\<lparr>tu_plan_seq := n\<rparr>) = still_open s"
  by (simp_all add: still_open_def closings_def)

lemma open_send [simp]: "still_open (send_event b s) = (\<not> closing b \<and> still_open s)"
  by (auto simp: still_open_def closings_def send_event_def)

lemma closing_active [simp]: "closing (Status_Body session_active m) = False"
  by simp

lemma closes_finish [simp]: "still_open s \<Longrightarrow> closes (finish s)"
  by (simp add: still_open_def closes_def closed_by_def closings_def finish_def send_event_def)

lemma closes_interrupted [simp]: "still_open s \<Longrightarrow> closes (interrupted s)"
  by (auto simp: still_open_def closes_def closed_by_def closings_def interrupted_def send_event_def)

lemma closes_broke [simp]: "still_open s \<Longrightarrow> closes (broke e s)"
  by (simp add: still_open_def closes_def closings_def broke_def)

lemma open_helpers [simp]:
  "still_open (push m s) = still_open s" "still_open (send_task s) = still_open s" "still_open (record_task pv c s) = still_open s"
  "still_open (snd (take_steers pv ts s)) = still_open s" "still_open (wake_node pv i ns s) = still_open s"
  "still_open (snd (update_task env fin s)) = still_open s" "still_open (wake_done i rs a c s) = still_open s"
  by (auto simp: push_def send_task_def record_task_def take_steers_def wake_node_def update_task_def wake_done_def Let_def
      split: option.split prod.split)

lemma open_wake_steer [simp]: "still_open (wake_steer pv task rest s) = still_open s"
proof (cases "take_steers pv [task] (s\<lparr>tu_steers := rest\<rparr>)")
  case (Pair pulled u)
  then have "still_open u = still_open s"
    using open_helpers(4) [of pv "[task]" "s\<lparr>tu_steers := rest\<rparr>"] by simp
  then show ?thesis by (simp add: wake_steer_def Pair)
qed

lemma closes_round: "still_open s \<Longrightarrow> closes (plan_round pv vw n cs s)"
  by (simp add: plan_round_def Let_def open_closes split: option.split sum.split)

lemma open_control: "still_open s \<Longrightarrow> still_open (control_round pv env op response s)"
proof (cases "update_task env False s")
  case (Pair changed u)
  assume "still_open s"
  then have "still_open u" using open_helpers(6) [of env False s] Pair by simp
  then show ?thesis by (simp add: control_round_def Pair Let_def split: sum.split)
qed

lemma closes_tree: "still_open s \<Longrightarrow> closes (tree_round pv env graph s)"
proof (cases "update_task env (plan_call_count graph = 0) s")
  case (Pair changed u)
  assume s: "still_open s"
  then have "still_open u" using open_helpers(6) [of env "plan_call_count graph = 0" s] Pair by simp
  with s show ?thesis
    by (simp add: tree_round_def Pair Let_def empty_round_def dispatch_def open_closes)
qed

lemma closes_reply: "still_open s \<Longrightarrow> closes (reply_round pv sa raw op_seq response s)"
  by (auto simp: reply_round_def Let_def open_closes open_control closes_tree split: prod.split verdict.split)

lemma closes_step:
  assumes "turn_step pv l t = Some t'" and "still_open t"
  shows "closes t'"
proof (cases l)
  case L_Wake_Event
  with assms show ?thesis
    by (cases "hd (tu_events t)") (auto intro: open_closes split: if_splits list.splits)
next
  case (L_Sample sm op_seq response)
  with assms(1) obtain sa where "sample_step pv sa sm op_seq response t = Some t'" by (auto split: option.splits)
  with assms(2) show ?thesis
    by (cases sm) (auto simp: vlm_error_def closes_reply intro: open_closes split: if_splits)
next
  case (L_Act i)
  with assms show ?thesis
    by (auto simp: driver_act_def Let_def intro!: open_closes split: if_splits list.splits driver_act.splits)
qed (use assms in \<open>auto simp: deliver_def closes_round intro: open_closes split: if_splits list.splits\<close>)

lemma run_closes: "turn_run pv ls t = Some t' \<Longrightarrow> closes t \<Longrightarrow> closes t'"
proof (induction ls arbitrary: t)
  case (Cons l ls)
  then obtain u where u: "turn_step pv l t = Some u" "tu_end t = None" "turn_run pv ls u = Some t'"
    by (auto split: if_splits option.splits)
  then have "still_open t" using Cons.prems(2) by (simp add: closes_def still_open_def)
  with Cons.IH u closes_step show ?case by blast
qed simp

text \<open>C28 (safety). A turn closes once, with its last event, and an interrupt reaches every tree. In every run: no status but
  \<open>Active\<close> is sent before the turn ends; its last event is \<open>Completed\<close>, or \<open>Failed\<close> when it was interrupted, the only
  one of its kind, and there is none when it ends in an error, which the service reports; and when it was
  interrupted, every plan in flight with work of its own has been sent a request to cancel.\<close>

theorem turn_closes_once:
  assumes "turn_run pv ls (start_turn pv task brought history standing n) = Some t"
  shows "closes t"
proof (rule run_closes [OF assms])
  have "still_open (fresh_turn history standing n)"
    by (simp add: still_open_def closings_def fresh_turn_def)
  then show "closes (start_turn pv task brought history standing n)"
    by (auto simp: start_turn_def Let_def intro!: open_closes split: sum.split)
qed

end
