(* ===== verification/Pilot_Turn_Props.thy ===== *)
theory Pilot_Turn_Props
  imports Pilot_Fleet
begin

text \<open>
  What a turn of Pilot owes its user and its budget: the goal is always the user's last word, only a reply that calls
  nothing finishes a task, and a turn asks the model a bounded number of times. At the end, runs that show where the
  supervisor falls short of its comments.
\<close>

section \<open>The user's last word\<close>

definition goal :: "turn \<Rightarrow> string option" where
  "goal t = map_option ts_goal (tu_task t)"

text \<open>The last text that is not blank, or what was there before.\<close>

definition last_word :: "string list \<Rightarrow> string option \<Rightarrow> string option" where
  "last_word texts g = fold (\<lambda>x g. if trim x = [] then g else Some (trim x)) texts g"

definition same_talk :: "turn \<Rightarrow> turn \<Rightarrow> bool" where
  "same_talk t t' \<longleftrightarrow> tu_task t' = tu_task t \<and> tu_steers t' = tu_steers t"

lemma same_talk_refl [simp]: "same_talk t t"
  by (simp add: same_talk_def)

lemma same_talk_updates [simp]:
  "same_talk t (s\<lparr>tu_history := h\<rparr>) = same_talk t s" "same_talk t (s\<lparr>tu_should_plan := b\<rparr>) = same_talk t s"
  "same_talk t (s\<lparr>tu_last_content := c\<rparr>) = same_talk t s" "same_talk t (s\<lparr>tu_requests := n\<rparr>) = same_talk t s"
  "same_talk t (s\<lparr>tu_round := n\<rparr>) = same_talk t s" "same_talk t (s\<lparr>tu_interrupt := b\<rparr>) = same_talk t s"
  "same_talk t (s\<lparr>tu_revision := n\<rparr>) = same_talk t s" "same_talk t (s\<lparr>tu_sampling := sa\<rparr>) = same_talk t s"
  "same_talk t (s\<lparr>tu_sent := bs\<rparr>) = same_talk t s" "same_talk t (s\<lparr>tu_controls := qs\<rparr>) = same_talk t s"
  "same_talk t (s\<lparr>tu_end := e\<rparr>) = same_talk t s" "same_talk t (s\<lparr>tu_forest := f\<rparr>) = same_talk t s"
  "same_talk t (s\<lparr>tu_cancel_requested := cs\<rparr>) = same_talk t s" "same_talk t (s\<lparr>tu_drivers := ds\<rparr>) = same_talk t s"
  "same_talk t (s\<lparr>tu_events := es\<rparr>) = same_talk t s" "same_talk t (s\<lparr>tu_plan_seq := n\<rparr>) = same_talk t s"
  by (simp_all add: same_talk_def)

lemma same_talk_helpers [simp]:
  "same_talk t (send_event b s) = same_talk t s" "same_talk t (push m s) = same_talk t s"
  "same_talk t (send_task s) = same_talk t s" "same_talk t (finish s) = same_talk t s"
  "same_talk t (interrupted s) = same_talk t s" "same_talk t (record_task pv c s) = same_talk t s"
  "same_talk t (vlm_error e sa s) = same_talk t s" "same_talk t (empty_round tx cap s) = same_talk t s"
  "same_talk t (dispatch pv env graph cap s) = same_talk t s" "same_talk t (broke e s) = same_talk t s"
  "same_talk t (wake_node pv i ns s) = same_talk t s" "same_talk t (wake_done i rs a k s) = same_talk t s"
  by (auto simp: broke_def send_event_def push_def send_task_def finish_def interrupted_def record_task_def
      vlm_error_def empty_round_def dispatch_def wake_node_def wake_done_def Let_def split: option.split)

lemma same_talk_control: "same_talk (snd (update_task env False t)) (control_round pv env op response t)"
  by (cases "update_task env False t") (simp add: control_round_def Let_def split: sum.split)

lemma same_talk_tree:
  "same_talk t (tree_round pv env graph t) \<or>
   same_talk (snd (update_task env (plan_call_count graph = 0) t)) (tree_round pv env graph t)"
  by (cases "update_task env (plan_call_count graph = 0) t") (auto simp: tree_round_def Let_def)

lemma apply_keeps_goal:
  "apply_task_update current update can_finish = (changed, current') \<Longrightarrow> map_option ts_goal current' = map_option ts_goal current"
  by (auto simp: apply_task_update_def Let_def split: option.splits if_splits)

lemma apply_done:
  assumes "apply_task_update current update can_finish = (changed, Some state)" and "is_done state"
  shows "(\<exists>old. current = Some old \<and> is_done old)
    \<or> can_finish \<and> ts_status update = ''done'' \<and> Some (ts_goal update) = map_option ts_goal current"
  using assms by (auto simp: apply_task_update_def Let_def is_done_def split: option.splits if_splits)

lemma update_keeps_goal [simp]: "goal (snd (update_task env can_finish t)) = goal t"
  by (auto simp: update_task_def goal_def send_task_def send_event_def dest: apply_keeps_goal split: option.split prod.split)

lemma update_steers [simp]: "tu_steers (snd (update_task env can_finish t)) = tu_steers t"
  by (auto simp: update_task_def send_task_def send_event_def split: option.split prod.split)

lemma goal_same: "same_talk t t' \<Longrightarrow> goal t' = goal t \<and> tu_steers t' = tu_steers t"
  by (simp add: same_talk_def goal_def)

lemma drained:
  "drain_steers read tasks (h, k) = (pulled, h', k') \<Longrightarrow>
     map_option ts_goal k' = last_word (map tk_text tasks) (map_option ts_goal k)"
proof (induction tasks arbitrary: h k pulled)
  case (Cons task tasks)
  obtain p h1 k1 where 1: "append_steer read task (h, k) = (p, h1, k1)" by (metis prod_cases3)
  with Cons.prems obtain p2 where "drain_steers read tasks (h1, k1) = (p2, h', k')"
    by (auto split: prod.splits)
  from Cons.IH [OF this] 1 show ?case
    by (auto simp: last_word_def append_steer_def new_task_def split: if_splits)
qed (simp add: last_word_def)

lemma taken:
  "goal (snd (take_steers pv tasks t)) = last_word (map tk_text tasks) (goal t)"
  "tu_steers (snd (take_steers pv tasks t)) = tu_steers t"
  by (auto simp: take_steers_def goal_def drained split: prod.split)

fun queued :: "label \<Rightarrow> task list" where
  "queued (L_Steer task) = [task]"
| "queued _ = []"

definition heard :: "task list \<Rightarrow> turn \<Rightarrow> turn \<Rightarrow> bool" where
  "heard tasks t t' \<longleftrightarrow> goal t' = last_word (map tk_text tasks) (goal t)"

lemma heard_same: "same_talk t t' \<Longrightarrow> heard [] t t' \<and> tu_steers t' = tu_steers t"
  by (simp add: heard_def goal_same last_word_def)

lemma reply_talk: "goal (reply_round pv sa raw op_seq response t) = goal t \<and>
    tu_steers (reply_round pv sa raw op_seq response t) = tu_steers t"
proof -
  obtain v n where j: "judge pv (sa_view sa) op_seq raw t = (v, n)" by (meson surj_pair)
  let ?sent = "t\<lparr>tu_plan_seq := n, tu_sampling := None,
      tu_history := append_request_context (vw_context (sa_view sa)) (sa_correction sa) (tu_history t)\<rparr>"
  have s: "goal ?sent = goal t" "tu_steers ?sent = tu_steers t" by (simp_all add: goal_def)
  show ?thesis
  proof (cases v)
    case (Bad e reply)
    have "same_talk t (reply_round pv sa raw op_seq response t)"
      by (simp add: reply_round_def j Bad Let_def)
    then show ?thesis using goal_same by blast
  next
    case (Control env op)
    with goal_same [OF same_talk_control [of env ?sent pv op response]] s show ?thesis
      by (simp add: reply_round_def j Let_def)
  next
    case (Tree env graph)
    with same_talk_tree [of ?sent pv env graph] s show ?thesis
      by (auto simp: reply_round_def j Let_def dest!: goal_same)
  qed
qed

lemma round_talk:
  "goal (plan_round pv vw n cs t) = last_word (map tk_text (tu_steers t)) (goal t)" "tu_steers (plan_round pv vw n cs t) = []"
proof -
  let ?u = "snd (take_steers pv (tu_steers t) (t\<lparr>tu_should_plan := False, tu_steers := []\<rparr>))"
  have "same_talk ?u (plan_round pv vw n cs t)" by (simp add: plan_round_def Let_def split: option.split sum.split)
  from goal_same [OF this] show "goal (plan_round pv vw n cs t) = last_word (map tk_text (tu_steers t)) (goal t)"
    "tu_steers (plan_round pv vw n cs t) = []"
    by (simp_all add: taken) (simp add: goal_def)
qed

lemma wake_talk:
  "goal (wake_steer pv task rest t) = last_word [tk_text task] (goal t)" "tu_steers (wake_steer pv task rest t) = rest"
proof -
  let ?u = "snd (take_steers pv [task] (t\<lparr>tu_steers := rest\<rparr>))"
  have "same_talk ?u (wake_steer pv task rest t)"
    by (cases "take_steers pv [task] (t\<lparr>tu_steers := rest\<rparr>)") (simp add: wake_steer_def)
  from goal_same [OF this] show "goal (wake_steer pv task rest t) = last_word [tk_text task] (goal t)"
    "tu_steers (wake_steer pv task rest t) = rest"
    by (simp_all add: taken) (simp add: goal_def)
qed

lemma heard_step:
  assumes "turn_step pv l t = Some t'"
  shows "\<exists>tasks. tu_steers t @ queued l = tasks @ tu_steers t' \<and> heard tasks t t'"
proof -
  have same: ?thesis if "same_talk t t'" "queued l = []"
    using heard_same [OF that(1)] that(2) by (intro exI [of _ "[]"]) simp
  show ?thesis
  proof (cases l)
    case (L_Steer task)
    with assms show ?thesis by (auto simp: heard_def goal_def last_word_def)
  next
    case L_Wake_Steer
    with assms obtain task rest where "tu_steers t = task # rest" "t' = wake_steer pv task rest t"
      by (auto split: if_splits list.splits)
    then show ?thesis using L_Wake_Steer by (intro exI [of _ "[task]"]) (simp add: heard_def wake_talk)
  next
    case L_Wake_Event
    with assms obtain ev rest where "t' = wake_event pv ev (t\<lparr>tu_events := rest\<rparr>)"
      by (auto split: if_splits list.splits)
    then have "same_talk t t'" by (cases ev) simp_all
    then show ?thesis using L_Wake_Event by (intro same) simp_all
  next
    case (L_Plan vw n cs)
    with assms have "t' = plan_round pv vw n cs t" by (auto split: if_splits)
    then show ?thesis using L_Plan by (intro exI [of _ "tu_steers t"]) (simp add: heard_def round_talk)
  next
    case (L_Sample sm op_seq response)
    with assms obtain sa where sa: "sample_step pv sa sm op_seq response t = Some t'" by (auto split: option.splits)
    show ?thesis
    proof (cases sm)
      case Sm_Steer
      have "goal t' = last_word (map tk_text (tu_steers t)) (goal t)" "tu_steers t' = []"
        using sa Sm_Steer taken [of pv "tu_steers t" "t\<lparr>tu_steers := []\<rparr>"] by (auto simp: goal_def split: if_splits)
      then show ?thesis using L_Sample by (intro exI [of _ "tu_steers t"]) (simp add: heard_def)
    next
      case (Sm_Reply raw tool_calls)
      then have "goal t' = goal t \<and> tu_steers t' = tu_steers t"
        using sa reply_talk [of pv sa raw op_seq response t] by (auto simp: goal_def split: if_splits)
      then show ?thesis using L_Sample by (intro exI [of _ "[]"]) (simp add: heard_def last_word_def)
    qed (rule same, use sa L_Sample in \<open>(auto split: if_splits)[1]\<close>, use L_Sample in \<open>(simp)[1]\<close>)+
  next
    case (L_Act i)
    have "same_talk t t'"
    proof (cases "dr_todo (tu_drivers t ! i)")
      case (Cons a todo)
      with assms L_Act show ?thesis by (cases a) (auto simp: driver_act_def Let_def split: if_splits)
    qed (use assms L_Act in \<open>auto simp: driver_act_def split: if_splits\<close>)
    then show ?thesis using L_Act by (intro same) simp_all
  qed (rule same, use assms in \<open>(auto simp: deliver_def split: if_splits)[1]\<close>, (simp)[1])+
qed

lemma heard_run:
  "turn_run pv ls t = Some t' \<Longrightarrow> \<exists>tasks. tu_steers t @ concat (map queued ls) = tasks @ tu_steers t' \<and> heard tasks t t'"
proof (induction ls arbitrary: t)
  case Nil
  then show ?case by (intro exI [of _ "[]"]) (simp add: heard_def last_word_def)
next
  case (Cons l ls)
  then obtain u where u: "turn_step pv l t = Some u" "turn_run pv ls u = Some t'"
    by (auto split: if_splits option.splits)
  from heard_step [OF u(1)] obtain xs where xs: "tu_steers t @ queued l = xs @ tu_steers u" "heard xs t u" by blast
  from Cons.IH [OF u(2)] obtain ys where ys: "tu_steers u @ concat (map queued ls) = ys @ tu_steers t'" "heard ys u t'" by blast
  have "tu_steers t @ concat (map queued (l # ls)) = (xs @ ys) @ tu_steers t'"
    using xs(1) ys(1) by (metis append.assoc concat.simps(2) list.simps(9))
  moreover have "heard (xs @ ys) t t'" using xs(2) ys(2) by (simp add: heard_def last_word_def)
  ultimately show ?case by blast
qed

text \<open>C29 (invariant). The goal is the user's last word, whatever the model answers: in every run, the inputs queued so far
  are those heard, in order, and those still in the queue, and the goal of the standing task is the last heard text
  that is not blank, the turn's own included unless the discovery at its start failed; before that, the goal the session
  had.\<close>

theorem goal_is_the_users_last_word:
  assumes "turn_run pv ls (start_turn pv task brought history standing n) = Some t"
    and "\<not> task_is_session_end (pp_read (pv_printers pv)) task"
  shows "\<exists>tasks. concat (map queued ls) = tasks @ tu_steers t
    \<and> goal t = last_word ((if isl brought then [] else [tk_text task]) @ map tk_text tasks) (map_option ts_goal standing)"
proof (cases brought)
  case (Inl e)
  with assms have "tu_end (start_turn pv task brought history standing n) \<noteq> None"
    by (simp add: start_turn_def Let_def broke_def)
  with assms(1) have "ls = []" and "t = start_turn pv task brought history standing n" by (cases ls; simp)+
  with Inl assms(2) show ?thesis
    by (simp add: start_turn_def Let_def broke_def fresh_turn_def goal_def last_word_def)
next
  case (Inr memory_prompt)
  let ?t0 = "start_turn pv task brought history standing n"
  have "same_talk ((fresh_turn history standing n)\<lparr>tu_task := start_or_resume_task (tk_text task) standing\<rparr>) ?t0"
    using assms(2) by (simp add: start_turn_def Let_def Inr) (simp add: same_talk_def push_def)
  from goal_same [OF this] have "goal ?t0 = last_word [tk_text task] (map_option ts_goal standing)" "tu_steers ?t0 = []"
    by (auto simp: goal_def start_or_resume_task_def new_task_def last_word_def fresh_turn_def)
  with heard_run [OF assms(1)] show ?thesis by (auto simp: heard_def last_word_def Inr)
qed

section \<open>What finishes a task\<close>

lemma take_not_done:
  "drain_steers read tasks (h, k) = (pulled, h', k') \<Longrightarrow> k' = k \<or> (\<exists>state. k' = Some state \<and> \<not> is_done state)"
proof (induction tasks arbitrary: h k pulled)
  case (Cons task tasks)
  obtain p h1 k1 where 1: "append_steer read task (h, k) = (p, h1, k1)" by (metis prod_cases3)
  with Cons.prems obtain p2 where "drain_steers read tasks (h1, k1) = (p2, h', k')"
    by (auto split: prod.splits)
  from Cons.IH [OF this] 1 show ?case
    by (auto simp: append_steer_def new_task_def is_done_def split: if_splits)
qed simp

lemma taken_not_done: "task_done (snd (take_steers pv tasks t)) \<Longrightarrow> task_done t"
proof -
  obtain p h k where d: "drain_steers (pp_read (pv_printers pv)) tasks (tu_history t, tu_task t) = (p, h, k)" by (metis prod_cases3)
  assume "task_done (snd (take_steers pv tasks t))"
  with take_not_done [OF d] show ?thesis by (auto simp: take_steers_def d task_done_def)
qed

lemma done_same: "same_talk t t' \<Longrightarrow> task_done t' = task_done t"
  by (simp add: same_talk_def task_done_def)

lemma update_done:
  assumes "task_done (snd (update_task env can_finish t))" and "\<not> task_done t"
  shows "can_finish \<and> (\<exists>u. rv_task_update env = Some u \<and> ts_status u = ''done'' \<and> Some (ts_goal u) = goal t)"
proof (cases "rv_task_update env")
  case (Some u)
  obtain changed k where k: "apply_task_update (tu_task t) u can_finish = (changed, k)" by (meson surj_pair)
  have "tu_task (snd (update_task env can_finish t)) = k"
    by (simp add: update_task_def Some k send_task_def send_event_def split: option.split)
  with assms(1) obtain state where "k = Some state" "is_done state" by (auto simp: task_done_def split: option.splits)
  with apply_done k assms(2) Some show ?thesis by (fastforce simp: goal_def task_done_def)
qed (use assms in \<open>simp add: update_task_def\<close>)

lemma reply_done:
  assumes "task_done (reply_round pv sa raw op_seq response t)" and "\<not> task_done t"
  obtains env graph u where "fst (judge pv (sa_view sa) op_seq raw t) = Tree env graph" "plan_call_count graph = 0"
    "rv_task_update env = Some u" "ts_status u = ''done''" "Some (ts_goal u) = goal t"
proof -
  obtain v n where j: "judge pv (sa_view sa) op_seq raw t = (v, n)" by (meson surj_pair)
  let ?sent = "t\<lparr>tu_plan_seq := n, tu_sampling := None,
      tu_history := append_request_context (vw_context (sa_view sa)) (sa_correction sa) (tu_history t)\<rparr>"
  have s: "\<not> task_done ?sent" "goal ?sent = goal t" using assms(2) by (simp_all add: task_done_def goal_def)
  show thesis
  proof (cases v)
    case (Bad e reply)
    have "same_talk t (reply_round pv sa raw op_seq response t)" by (simp add: reply_round_def j Bad Let_def)
    with assms show ?thesis by (simp add: done_same)
  next
    case (Control env op)
    then have "task_done (snd (update_task env False ?sent))"
      using assms(1) done_same [OF same_talk_control [of env ?sent pv op response]] by (simp add: reply_round_def j Let_def)
    from update_done [OF this s(1)] show ?thesis by simp
  next
    case (Tree env graph)
    then have "task_done (snd (update_task env (plan_call_count graph = 0) ?sent))"
      using assms(1) same_talk_tree [of ?sent pv env graph] s(1) by (auto simp: reply_round_def j Let_def dest!: done_same)
    from update_done [OF this s(1)] obtain u where "plan_call_count graph = 0" "rv_task_update env = Some u"
      "ts_status u = ''done''" "Some (ts_goal u) = goal t" by (auto simp: s(2))
    then show ?thesis using that j Tree by simp
  qed
qed

lemma sample_done:
  assumes s: "tu_sampling t = Some sa" and sa: "sample_step pv sa sm op_seq response t = Some t'"
    and "\<not> task_done t" and "task_done t'"
  shows "\<exists>raw sa env graph u. sm = Sm_Reply raw False
    \<and> tu_sampling t = Some sa \<and> sa_revision sa = tu_revision t
    \<and> fst (judge pv (sa_view sa) op_seq raw t) = Tree env graph \<and> plan_call_count graph = 0
    \<and> rv_task_update env = Some u \<and> ts_status u = ''done'' \<and> Some (ts_goal u) = goal t"
proof -
  have same: ?thesis if "same_talk t t'" using that assms(3,4) by (simp add: done_same)
  show ?thesis
  proof (cases sm)
    case Sm_Steer
    with sa assms(4) have "task_done (snd (take_steers pv (tu_steers t) (t\<lparr>tu_steers := []\<rparr>)))"
      by (auto simp: task_done_def split: if_splits)
    from taken_not_done [OF this] assms(3) show ?thesis by (simp add: task_done_def)
  next
    case (Sm_Reply raw tool_calls)
    show ?thesis
    proof (cases "tu_revision t = sa_revision sa \<and> \<not> tool_calls")
      case True
      with sa Sm_Reply assms(4) have "task_done (reply_round pv sa raw op_seq response t)" by simp
      from reply_done [OF this assms(3)] show ?thesis using True Sm_Reply s by metis
    next
      case False
      then have "same_talk t t'" using sa Sm_Reply by (auto split: if_splits)
      then show ?thesis by (rule same)
    qed
  qed (rule same, use sa in \<open>(auto split: if_splits)[1]\<close>)+
qed

text \<open>Only the model's word on the current goal finishes a task, and only in a reply that calls nothing: a
  step that makes a task done reads a reply that was sampled for the trees in flight now, expands to a tree without
  calls, says \<open>done\<close> and repeats the goal as it stands.\<close>

lemma done_needs_a_reply_without_calls:
  assumes "turn_step pv l t = Some t'" and "\<not> task_done t" and "task_done t'"
  shows "\<exists>raw op_seq response sa env graph u. l = L_Sample (Sm_Reply raw False) op_seq response
    \<and> tu_sampling t = Some sa \<and> sa_revision sa = tu_revision t
    \<and> fst (judge pv (sa_view sa) op_seq raw t) = Tree env graph \<and> plan_call_count graph = 0
    \<and> rv_task_update env = Some u \<and> ts_status u = ''done'' \<and> Some (ts_goal u) = goal t"
proof (cases l)
  case (L_Sample sm op_seq response)
  with assms(1) obtain sa where "tu_sampling t = Some sa" and "sample_step pv sa sm op_seq response t = Some t'"
    by (auto split: option.splits)
  from sample_done [OF this assms(2,3)] L_Sample show ?thesis by blast
next
  case L_Wake_Steer
  with assms(1) obtain task rest where "t' = wake_steer pv task rest t" by (auto split: if_splits list.splits)
  then have "same_talk (snd (take_steers pv [task] (t\<lparr>tu_steers := rest\<rparr>))) t'"
    by (cases "take_steers pv [task] (t\<lparr>tu_steers := rest\<rparr>)") (simp add: wake_steer_def)
  then have "task_done (t\<lparr>tu_steers := rest\<rparr>)" using assms(3) done_same taken_not_done by blast
  with assms(2) show ?thesis by (simp add: task_done_def)
next
  case (L_Plan vw n cs)
  with assms(1) have "t' = plan_round pv vw n cs t" by (auto split: if_splits)
  then have "same_talk (snd (take_steers pv (tu_steers t) (t\<lparr>tu_should_plan := False, tu_steers := []\<rparr>))) t'"
    by (simp add: plan_round_def Let_def split: option.split sum.split)
  then have "task_done (t\<lparr>tu_should_plan := False, tu_steers := []\<rparr>)" using assms(3) done_same taken_not_done by blast
  with assms(2) show ?thesis by (simp add: task_done_def)
next
  case L_Wake_Event
  with assms(1) obtain ev rest where "t' = wake_event pv ev (t\<lparr>tu_events := rest\<rparr>)" by (auto split: if_splits list.splits)
  then have "same_talk t t'" by (cases ev) simp_all
  with assms(2,3) show ?thesis by (simp add: done_same)
next
  case (L_Act i)
  have "tu_task t' = tu_task t"
  proof (cases "dr_todo (tu_drivers t ! i)")
    case (Cons a todo)
    with assms L_Act show ?thesis by (cases a) (auto simp: driver_act_def Let_def split: if_splits)
  qed (use assms L_Act in \<open>auto simp: driver_act_def split: if_splits\<close>)
  with assms(2,3) show ?thesis by (simp add: task_done_def)
qed (use assms in \<open>auto simp: task_done_def deliver_def finish_def interrupted_def send_event_def split: if_splits\<close>)

section \<open>A bounded number of requests\<close>

text \<open>What is left of a planning request: two replies, each with one retry.\<close>

definition left :: "turn \<Rightarrow> nat" where
  "left t = (case tu_sampling t of None \<Rightarrow> 0 | Some sa \<Rightarrow> (if sa_correction sa = None then 4 else 2) - sa_attempt sa)"

definition spent :: "nat \<Rightarrow> turn \<Rightarrow> bool" where
  "spent n t \<longleftrightarrow> tu_requests t = n \<and> tu_sampling t = None"

lemma spent_updates [simp]:
  "spent n (s\<lparr>tu_history := h\<rparr>) = spent n s" "spent n (s\<lparr>tu_task := k\<rparr>) = spent n s"
  "spent n (s\<lparr>tu_should_plan := b\<rparr>) = spent n s" "spent n (s\<lparr>tu_last_content := c\<rparr>) = spent n s"
  "spent n (s\<lparr>tu_round := m\<rparr>) = spent n s" "spent n (s\<lparr>tu_steers := ts\<rparr>) = spent n s"
  "spent n (s\<lparr>tu_sent := bs\<rparr>) = spent n s" "spent n (s\<lparr>tu_controls := qs\<rparr>) = spent n s"
  "spent n (s\<lparr>tu_end := e\<rparr>) = spent n s" "spent n (s\<lparr>tu_forest := f\<rparr>) = spent n s"
  "spent n (s\<lparr>tu_cancel_requested := cs\<rparr>) = spent n s" "spent n (s\<lparr>tu_drivers := ds\<rparr>) = spent n s"
  "spent n (s\<lparr>tu_plan_seq := m\<rparr>) = spent n s" "spent n (s\<lparr>tu_events := es\<rparr>) = spent n s"
  by (simp_all add: spent_def)

lemma spent_helpers [simp]:
  "spent n (send_event b s) = spent n s" "spent n (push m s) = spent n s" "spent n (send_task s) = spent n s"
  "spent n (record_task pv c s) = spent n s" "spent n (snd (take_steers pv ts s)) = spent n s"
  "spent n (snd (update_task env fin s)) = spent n s" "spent n (wake_node pv i ns s) = spent n s"
  "spent n (wake_done i rs a c s) = spent n s"
  by (auto simp: send_event_def push_def send_task_def record_task_def take_steers_def update_task_def wake_node_def
      wake_done_def Let_def spent_def split: option.split prod.split)

lemma spent_broke: "spent n s \<Longrightarrow> spent n (broke e s)"
  by (simp add: spent_def)

lemma spent_finish: "spent n s \<Longrightarrow> spent n (finish s)"
  by (simp add: finish_def spent_def send_event_def)

lemma spent_control: "spent n s \<Longrightarrow> spent n (control_round pv env op response s)"
proof (cases "update_task env False s")
  case (Pair changed u)
  assume "spent n s"
  then have "spent n u" using spent_helpers(6) [of n env False s] Pair by simp
  then show ?thesis by (simp add: control_round_def Pair Let_def split: sum.split)
qed

lemma spent_tree: "spent n s \<Longrightarrow> spent n (tree_round pv env graph s)"
proof (cases "update_task env (plan_call_count graph = 0) s")
  case (Pair changed u)
  assume s: "spent n s"
  then have "spent n u" using spent_helpers(6) [of n env "plan_call_count graph = 0" s] Pair by simp
  with s show ?thesis
    by (auto simp: tree_round_def Pair Let_def empty_round_def dispatch_def intro: spent_finish)
qed

text \<open>A reply is the end of its planning request, or its first rejection.\<close>

lemma reply_left:
  assumes "tu_sampling t = Some sa" and "sa_attempt sa \<le> 1"
  shows "tu_requests (reply_round pv sa raw op_seq response t) = tu_requests t
    \<and> left (reply_round pv sa raw op_seq response t) < left t"
proof -
  obtain v n where j: "judge pv (sa_view sa) op_seq raw t = (v, n)" by (meson surj_pair)
  let ?sent = "t\<lparr>tu_plan_seq := n, tu_sampling := None,
      tu_history := append_request_context (vw_context (sa_view sa)) (sa_correction sa) (tu_history t)\<rparr>"
  have s: "spent (tu_requests t) ?sent" by (simp add: spent_def)
  have over: ?thesis if "spent (tu_requests t) (reply_round pv sa raw op_seq response t)"
    using that assms by (simp add: spent_def left_def)
  show ?thesis
  proof (cases v)
    case (Bad e reply)
    show ?thesis
    proof (cases "sa_correction sa")
      case None
      with assms show ?thesis by (simp add: reply_round_def j Bad Let_def left_def)
    next
      case (Some c)
      show ?thesis by (rule over) (use s in \<open>simp add: reply_round_def j Bad Let_def Some spent_finish\<close>)
    qed
  next
    case (Control env op)
    show ?thesis by (rule over) (use s in \<open>simp add: reply_round_def j Control Let_def spent_control\<close>)
  next
    case (Tree env graph)
    show ?thesis by (rule over) (use s in \<open>simp add: reply_round_def j Tree Let_def spent_tree\<close>)
  qed
qed

definition retried_once :: "turn \<Rightarrow> bool" where
  "retried_once t \<longleftrightarrow> (case tu_sampling t of None \<Rightarrow> True | Some sa \<Rightarrow> sa_attempt sa \<le> 1)"

lemma sample_left:
  assumes "sample_step pv sa sm op_seq response t = Some t'" and "tu_sampling t = Some sa" and "sa_attempt sa \<le> 1"
  shows "tu_requests t' = tu_requests t \<and> left t' < left t \<and> retried_once t'"
proof (cases "\<exists>raw. sm = Sm_Reply raw False \<and> tu_revision t = sa_revision sa")
  case True
  with assms(1) obtain raw where t': "t' = reply_round pv sa raw op_seq response t" by auto
  have "retried_once (reply_round pv sa raw op_seq response t)"
  proof -
    obtain v n where j: "judge pv (sa_view sa) op_seq raw t = (v, n)" by (meson surj_pair)
    let ?sent = "t\<lparr>tu_plan_seq := n, tu_sampling := None,
        tu_history := append_request_context (vw_context (sa_view sa)) (sa_correction sa) (tu_history t)\<rparr>"
    have s: "spent (tu_requests t) ?sent" by (simp add: spent_def)
    have over: "retried_once u" if "spent n u" for n u using that by (simp add: spent_def retried_once_def)
    show ?thesis
    proof (cases v)
      case (Bad e reply)
      with over [OF spent_finish [OF s]] show ?thesis
        by (cases "sa_correction sa") (simp_all add: reply_round_def j Let_def retried_once_def finish_def)
    next
      case (Control env op)
      with over [OF spent_control [OF s]] show ?thesis by (simp add: reply_round_def j Let_def)
    next
      case (Tree env graph)
      with over [OF spent_tree [OF s]] show ?thesis by (simp add: reply_round_def j Let_def)
    qed
  qed
  with reply_left [OF assms(2,3)] t' show ?thesis by simp
next
  case False
  have steer: "spent (tu_requests t) ((snd (take_steers pv ts (t\<lparr>tu_steers := []\<rparr>)))\<lparr>tu_should_plan := True, tu_sampling := None\<rparr>)" for ts
    by (simp add: take_steers_def spent_def split: prod.split)
  have over: ?thesis if "spent (tu_requests t) t'"
    using that assms(2,3) by (simp add: spent_def left_def retried_once_def)
  show ?thesis
  proof (cases "spent (tu_requests t) t'")
    case False
    with assms \<open>\<not> (\<exists>raw. _ raw)\<close> steer show ?thesis
      by (cases sm) (auto simp: vlm_error_def left_def retried_once_def spent_def interrupted_def send_event_def split: if_splits)
  qed (rule over)
qed

fun plans :: "label \<Rightarrow> nat" where
  "plans (L_Plan _ _ _) = 1"
| "plans _ = 0"

fun asks :: "label \<Rightarrow> nat" where
  "asks (L_Sample _ _ _) = 1"
| "asks _ = 0"

definition over :: "turn \<Rightarrow> nat" where
  "over t = (if tu_end t = None then 0 else 1)"

lemma budget_step:
  assumes "turn_step pv l t = Some t'" and "tu_end t = None" and "retried_once t" and "tu_requests t \<le> pv_max_rounds pv"
  shows "retried_once t' \<and> tu_requests t' \<le> pv_max_rounds pv \<and> tu_requests t + plans l \<le> tu_requests t' + over t'
    \<and> left t' + asks l + 4 * tu_requests t \<le> left t + 4 * tu_requests t'"
proof -
  have same: ?thesis if "tu_requests t' = tu_requests t" "tu_sampling t' = tu_sampling t" "plans l = 0" "asks l = 0"
    using that assms(3,4) by (simp add: left_def retried_once_def)
  have closed: ?thesis if "spent (tu_requests t) t'" "tu_sampling t = None" "plans l = 0 \<or> over t' = 1" "plans l \<le> 1" "asks l = 0"
    using that assms(4) by (auto simp: left_def retried_once_def spent_def)
  show ?thesis
  proof (cases l)
    case (L_Sample sm op_seq response)
    with assms(1) obtain sa where sa: "tu_sampling t = Some sa" "sample_step pv sa sm op_seq response t = Some t'"
      by (auto split: option.splits)
    from sample_left [OF sa(2,1)] sa(1) assms(3,4) show ?thesis by (simp add: retried_once_def L_Sample)
  next
    case (L_Plan vw n cs)
    with assms(1) have t': "t' = plan_round pv vw n cs t" and idle: "tu_sampling t = None"
      by (auto simp: loop_top_def split: if_splits)
    have s: "spent (tu_requests t) (snd (take_steers pv (tu_steers t) (t\<lparr>tu_should_plan := False, tu_steers := []\<rparr>)))"
      by simp (simp add: spent_def idle)
    have "(spent (tu_requests t) t' \<and> over t' = 1) \<or> tu_requests t < pv_max_rounds pv \<and> tu_requests t' = tu_requests t + 1
        \<and> (\<exists>sa. tu_sampling t' = Some sa \<and> sa_correction sa = None \<and> sa_attempt sa = 0)"
      using s by (auto simp: t' plan_round_def Let_def spent_def over_def finish_def broke_def send_event_def split: option.split sum.split)
    then show ?thesis
    proof
      assume "spent (tu_requests t) t' \<and> over t' = 1"
      then show ?thesis using idle L_Plan by (intro closed) auto
    next
      assume "tu_requests t < pv_max_rounds pv \<and> tu_requests t' = tu_requests t + 1
        \<and> (\<exists>sa. tu_sampling t' = Some sa \<and> sa_correction sa = None \<and> sa_attempt sa = 0)"
      then show ?thesis using L_Plan by (auto simp: left_def retried_once_def)
    qed
  next
    case L_Wake_Event
    with assms(1) obtain ev rest where t': "t' = wake_event pv ev (t\<lparr>tu_events := rest\<rparr>)" and idle: "tu_sampling t = None"
      by (auto simp: loop_top_def split: if_splits list.splits)
    have "spent (tu_requests t) t'" using idle by (cases ev) (simp_all add: t', simp_all add: spent_def)
    then show ?thesis using idle L_Wake_Event by (intro closed) auto
  next
    case L_Wake_Steer
    with assms(1) obtain task rest where t': "t' = wake_steer pv task rest t" and idle: "tu_sampling t = None"
      by (auto simp: loop_top_def split: if_splits list.splits)
    have "spent (tu_requests t) t'"
      using idle by (auto simp: t' wake_steer_def take_steers_def spent_def split: prod.split)
    then show ?thesis using idle L_Wake_Steer by (intro closed) auto
  next
    case (L_Act i)
    have "tu_requests t' = tu_requests t \<and> tu_sampling t' = tu_sampling t"
    proof (cases "dr_todo (tu_drivers t ! i)")
      case (Cons a todo)
      with assms L_Act show ?thesis by (cases a) (auto simp: driver_act_def Let_def split: if_splits)
    qed (use assms L_Act in \<open>auto simp: driver_act_def split: if_splits\<close>)
    then show ?thesis using L_Act by (intro same) auto
  next
    case L_Finish
    with assms show ?thesis
      by (auto simp: loop_top_def finish_def send_event_def left_def retried_once_def split: if_splits)
  next
    case L_Top_Interrupt
    with assms show ?thesis
      by (auto simp: interrupted_def send_event_def left_def retried_once_def split: if_splits)
  qed (use assms in \<open>auto simp: deliver_def left_def retried_once_def split: if_splits\<close>)
qed

text \<open>C30 (termination). A turn cannot go on asking the model: with a limit of \<open>m\<close> rounds, every run makes at most \<open>m\<close>
  planning requests, whatever asked for them, enters a planning round at most \<open>m + 1\<close> times, and handles at most \<open>4 m\<close>
  answers, retries and corrections included.\<close>

theorem requests_are_bounded:
  assumes "turn_run pv ls (start_turn pv task brought history standing n) = Some t"
  shows "tu_requests t \<le> pv_max_rounds pv \<and> sum_list (map plans ls) \<le> pv_max_rounds pv + 1
    \<and> sum_list (map asks ls) \<le> 4 * pv_max_rounds pv"
proof -
  have run: "tu_requests u' \<le> pv_max_rounds pv \<and> tu_requests u + sum_list (map plans ls) \<le> tu_requests u' + over u'
      \<and> left u' + sum_list (map asks ls) + 4 * tu_requests u \<le> left u + 4 * tu_requests u'"
    if "turn_run pv ls u = Some u'" "retried_once u" "tu_requests u \<le> pv_max_rounds pv" for ls u u'
    using that
  proof (induction ls arbitrary: u)
    case (Cons l ls)
    then obtain v where v: "turn_step pv l u = Some v" "tu_end u = None" "turn_run pv ls v = Some u'"
      by (auto split: if_splits option.splits)
    from budget_step [OF v(1,2) Cons.prems(2,3)] have b: "retried_once v" "tu_requests v \<le> pv_max_rounds pv"
      "tu_requests u + plans l \<le> tu_requests v + over v"
      "left v + asks l + 4 * tu_requests u \<le> left u + 4 * tu_requests v" by auto
    have "over v = 0 \<or> ls = [] \<and> v = u'"
      using v(3) by (cases ls) (auto simp: over_def split: if_splits)
    with Cons.IH [OF v(3) b(1,2)] b(3,4) show ?case by auto
  qed simp
  let ?t0 = "start_turn pv task brought history standing n"
  have "spent 0 (fresh_turn history standing n)" by (simp add: fresh_turn_def spent_def)
  then have "spent 0 ?t0" by (auto simp: start_turn_def Let_def spent_finish spent_broke split: sum.split)
  then have "retried_once ?t0" "tu_requests ?t0 = 0" "left ?t0 = 0" by (simp_all add: spent_def retried_once_def left_def)
  then show ?thesis using run [OF assms] by (auto simp: over_def split: if_splits)
qed

section \<open>Runs\<close>

text \<open>Two replies: one that moves the arm, one that calls nothing and declares the task done.\<close>

definition demo_read :: "string \<Rightarrow> string + json" where
  "demo_read s =
     (if s = ''{move}'' then Inr (JObj [(''content'', JStr ''on it''), (''rtdl_description'', JStr ''move the arm''),
        (''rtdl'', demo_rtdl), (''task_update'', JNull)])
      else if s = ''{done}'' then Inr (JObj [(''content'', JStr ''all done''), (''rtdl_description'', JStr ''nothing''),
        (''rtdl'', JObj [(''op'', JStr ''sequence''), (''children'', JArr [])]),
        (''task_update'', JObj [(''goal'', JStr ''tidy up''), (''success_criterion'', JStr ''tidy''), (''status'', JStr ''done'')])])
      else if s = ''{home}'' then Inr (JObj [(''content'', JStr ''and back''), (''rtdl_description'', JStr ''home''),
        (''rtdl'', JObj [(''op'', JStr ''do''), (''cap'', JStr ''arm.home''), (''args'', JObj [])]), (''task_update'', JNull)])
      else Inl ''EOF while parsing'')"

definition demo_pilot :: pilot_env where
  "demo_pilot = \<lparr>pv_max_rounds = 8, pv_run_tag = ''a7c3'', pv_budget = None,
     pv_printers = \<lparr>pp_read = demo_read, pp_json = (\<lambda>_. ''{}''), pp_debug = (\<lambda>s. s)\<rparr>\<rparr>"

definition user_task :: "string \<Rightarrow> task" where
  "user_task tx = \<lparr>tk_task_id = ''t'', tk_session_id = ''s'', tk_text = tx, tk_context_json = []\<rparr>"

definition demo_start :: turn where
  "demo_start = start_turn demo_pilot (user_task ''tidy up'') (Inr []) [] None 0"

definition demo_view :: view where
  "demo_view = \<lparr>vw_targets = (''arm.home'', ''arm'', ''robonix/primitive/arm/home'') # xe_targets demo_expand, vw_names = [''arm.move''], vw_plan_count = Some 0, vw_context = []\<rparr>"

abbreviation demo_plan :: label where "demo_plan \<equiv> L_Plan (Inr demo_view) 0 (\<lambda>_. None)"

abbreviation demo_reply :: "string \<Rightarrow> label" where
  "demo_reply raw \<equiv> L_Sample (Sm_Reply raw False) (xe_seq demo_expand) (Inl [])"

abbreviation demo_leaf :: "nat \<Rightarrow> label" where
  "demo_leaf state \<equiv> L_Deliver 0 (Stream_Event (Node_State
     \<lparr>ne_plan_id = ''a7c3-1'', ne_node_index = 1, ne_node_kind = 2, ne_op_id = ''o'', ne_description = ''call''\<rparr> state [] None))"

text \<open>The arm moves; the user speaks again, and a leaf succeeds while the model is thinking about it.\<close>

definition demo_labels :: "label list" where
  "demo_labels = [demo_plan, demo_reply ''{move}'', L_Steer (user_task ''stop it''), L_Wake_Steer, demo_plan,
     demo_leaf 2, L_Act 0, L_Act 0, demo_reply ''{done}'', L_Wake_Event]"

definition demo_turn :: turn where
  "demo_turn = the (turn_run demo_pilot demo_labels demo_start)"

lemma demo_turn: "turn_run demo_pilot demo_labels
    (start_turn demo_pilot (user_task ''tidy up'') (Inr []) [] None 0) = Some demo_turn"
proof -
  have "turn_run demo_pilot demo_labels demo_start \<noteq> None" by code_simp
  then have "Some demo_turn = turn_run demo_pilot demo_labels demo_start"
    unfolding demo_turn_def by (rule option.collapse)
  then show ?thesis unfolding demo_start_def by (rule sym)
qed

theorem in_flight_is_what_runs_witness:
  "{i. hm_get (tu_forest demo_turn) i \<noteq> None} = set (map dr_plan_id (tu_drivers demo_turn)) \<union> set (reports_of (tu_events demo_turn))"
  using in_flight_is_what_runs [OF demo_turn] by (rule conjunct2)

theorem turn_closes_once_witness: "closes demo_turn"
  by (rule turn_closes_once [OF demo_turn])

theorem requests_are_bounded_witness: "tu_requests demo_turn \<le> 8 \<and> sum_list (map asks demo_labels) \<le> 32"
proof -
  have "pv_max_rounds demo_pilot = 8" by (simp add: demo_pilot_def)
  with requests_are_bounded [OF demo_turn] show ?thesis by simp
qed

theorem goal_is_the_users_last_word_witness: "goal demo_turn = Some ''stop it''"
proof -
  have s: "\<not> task_is_session_end (pp_read (pv_printers demo_pilot)) (user_task ''tidy up'')" by code_simp
  have e: "tu_steers demo_turn = []" "last_word [''tidy up'', ''stop it''] None = Some ''stop it''" by code_simp+
  have q: "concat (map queued demo_labels) = [user_task ''stop it'']" by (simp add: demo_labels_def)
  have "tk_text (user_task x) = x" for x by (simp add: user_task_def)
  with goal_is_the_users_last_word [OF demo_turn s] e q show ?thesis by auto
qed

theorem turn_refines_fleet_witness:
  "fleet_step ''a7c3'' (fleet_of demo_start) (fleet_of (the (turn_step demo_pilot demo_plan demo_start)))"
proof -
  have "turn_step demo_pilot demo_plan demo_start \<noteq> None" by code_simp
  then have "turn_step demo_pilot demo_plan demo_start = Some (the (turn_step demo_pilot demo_plan demo_start))"
    by (rule option.collapse [symmetric])
  moreover have "turn_ok demo_start" by code_simp
  ultimately show ?thesis using turn_refines_fleet [of demo_pilot demo_plan demo_start] by (simp add: demo_pilot_def)
qed

definition demo_pair_labels :: "label list" where
  "demo_pair_labels = [demo_plan, demo_reply ''{move}'', L_Steer (user_task ''and back''), L_Wake_Steer, demo_plan,
     demo_reply ''{home}'']"

definition demo_pair_turn :: turn where
  "demo_pair_turn = the (turn_run demo_pilot demo_pair_labels demo_start)"

theorem no_call_in_flight_twice_witness:
  "let sigs = (\<lambda>i. set (tm_call_signatures (the (hm_get (tu_forest demo_pair_turn) i)))) in
     sigs ''a7c3-1'' \<noteq> {} \<and> sigs ''a7c3-1'' \<inter> sigs ''a7c3-2'' = {}"
proof -
  have "turn_run demo_pilot demo_pair_labels demo_start \<noteq> None" by code_simp
  then have "Some demo_pair_turn = turn_run demo_pilot demo_pair_labels demo_start"
    unfolding demo_pair_turn_def by (rule option.collapse)
  then have run: "turn_run demo_pilot demo_pair_labels
      (start_turn demo_pilot (user_task ''tidy up'') (Inr []) [] None 0) = Some demo_pair_turn"
    unfolding demo_start_def by (rule sym)
  have "hm_get (tu_forest demo_pair_turn) ''a7c3-1'' \<noteq> None" "hm_get (tu_forest demo_pair_turn) ''a7c3-2'' \<noteq> None"
    and sigs: "tm_call_signatures (the (hm_get (tu_forest demo_pair_turn) ''a7c3-1'')) \<noteq> []" by code_simp+
  then obtain m m' where "hm_get (tu_forest demo_pair_turn) ''a7c3-1'' = Some m"
    and "hm_get (tu_forest demo_pair_turn) ''a7c3-2'' = Some m'" by blast
  with no_call_in_flight_twice [OF run this] sigs show ?thesis by (simp add: Let_def)
qed

theorem done_needs_a_reply_without_calls_witness:
  "let t = the (turn_step demo_pilot demo_plan demo_start) in \<exists>sa env graph.
     tu_sampling t = Some sa \<and> fst (judge demo_pilot (sa_view sa) (xe_seq demo_expand) ''{done}'' t) = Tree env graph
     \<and> plan_call_count graph = 0"
proof -
  let ?t = "the (turn_step demo_pilot demo_plan demo_start)"
  let ?t' = "the (turn_step demo_pilot (demo_reply ''{done}'') ?t)"
  have "turn_step demo_pilot (demo_reply ''{done}'') ?t \<noteq> None" by code_simp
  then have "turn_step demo_pilot (demo_reply ''{done}'') ?t = Some ?t'" by (rule option.collapse [symmetric])
  moreover have "\<not> task_done ?t" "task_done ?t'" by code_simp+
  ultimately obtain raw op_seq response sa env graph where
    "demo_reply ''{done}'' = L_Sample (Sm_Reply raw False) op_seq response" "tu_sampling ?t = Some sa"
    "fst (judge demo_pilot (sa_view sa) op_seq raw ?t) = Tree env graph" "plan_call_count graph = 0"
    using done_needs_a_reply_without_calls by meson
  then show ?thesis by (simp add: Let_def)
qed

section \<open>Where the supervisor falls short\<close>

text \<open>A steer can be left unanswered while its tree runs. In this run the user says \<open>stop it\<close> during a
  motion, and a leaf succeeds while the model thinks about it: the answer is dropped as stale, and the event that made
  it stale does not ask for another. The turn then waits for the tree, with nothing queued and no round due, and a
  further success changes nothing.\<close>

lemma steer_waits_for_the_tree:
  "goal demo_turn = Some ''stop it'' \<and> tu_steers demo_turn = [] \<and> tu_events demo_turn = []
   \<and> tu_sampling demo_turn = None \<and> \<not> tu_should_plan demo_turn \<and> tu_controls demo_turn = []
   \<and> map dr_plan_id (tu_drivers demo_turn) = [''a7c3-1'']
   \<and> map_option tu_should_plan (turn_run demo_pilot [demo_leaf 2, L_Act 0, L_Act 0, L_Wake_Event] demo_turn) = Some False"
  by code_simp

text \<open>The comment on \<open>apply_task_update\<close> accepts \<open>done\<close> with no execution in flight only; the code looks at the reply's
  own calls. Here the task is done while its tree runs; the final text is sent, and sent again when the tree
  reports.\<close>

definition done_early :: turn where
  "done_early = the (turn_run demo_pilot [demo_plan, demo_reply ''{move}'', demo_leaf 3, L_Act 0, L_Act 0, L_Wake_Event,
     demo_plan, demo_reply ''{done}''] demo_start)"

lemma done_while_a_tree_runs:
  "task_done done_early \<and> map fst (tu_forest done_early) = [''a7c3-1''] \<and> length (tu_drivers done_early) = 1
   \<and> tu_end done_early = None"
  by code_simp

lemma final_text_twice:
  "map_option (\<lambda>t. length (filter (\<lambda>b. b = Final_Text ''all done'') (tu_sent t)))
     (turn_run demo_pilot [L_Deliver 0 Stream_End, L_Act 0, L_Act 0, L_Wake_Event, L_Finish] done_early) = Some 2"
  by code_simp

text \<open>A task the service has queued as a steer is lost when the turn ends before the supervisor looks at the
  queue again.\<close>

lemma steer_lost_at_the_end:
  "map_option (\<lambda>t. (tu_end t, map tk_text (tu_steers t)))
     (turn_run demo_pilot [demo_plan, L_Steer (user_task ''now the kitchen''), demo_reply ''{done}''] demo_start)
   = Some (Some Ended, [''now the kitchen''])"
  by code_simp

text \<open>With the last round used up, a tree is dispatched and the turn reports \<open>Completed\<close> while the tree runs on, without a
  supervisor and without a request to cancel.\<close>

lemma last_round_abandons_its_tree:
  "map_option (\<lambda>t. (tu_end t, length (tu_drivers t), tu_controls t))
     (turn_run (demo_pilot\<lparr>pv_max_rounds := 1\<rparr>) [demo_plan, demo_reply ''{move}''] demo_start) = Some (Some Ended, 1, [])"
  by code_simp

end
