(* ===== verification/Pilot_Service.thy ===== *)
theory Pilot_Service
  imports Pilot_Turn
begin

text \<open>
  The service of Pilot, \<open>system/pilot/src/service.rs\<close>: how the tasks clients submit become turns, user input for a turn
  that is running, or requests to stop. Every lock of a shared map, every send and every await is a step of its own,
  so the steps of requests and turns interleave. The random ids, and whether the executor can be reached, are inputs.

  The main results: a session never has two turns, and what a turn is sent is for its own session; a request to stop
  reaches a turn that is running. Two runs show what falls between: a stop during the start of a turn, and the retry
  of a task that was refused.
\<close>

section \<open>What a task asks for\<close>

definition context_flag :: "(string \<Rightarrow> string + json) \<Rightarrow> string \<Rightarrow> task \<Rightarrow> bool" where
  "context_flag read key task =
     (case task_context read task of None \<Rightarrow> False | Some v \<Rightarrow> as_bool (json_get key v) = Some True)"

definition task_is_abort_turn :: "(string \<Rightarrow> string + json) \<Rightarrow> task \<Rightarrow> bool" where
  "task_is_abort_turn read = context_flag read ''abort_turn''"

definition strict_expected_turn :: "(string \<Rightarrow> string + json) \<Rightarrow> task \<Rightarrow> bool" where
  "strict_expected_turn read = context_flag read ''strict_expected_turn''"

definition expected_turn_id :: "(string \<Rightarrow> string + json) \<Rightarrow> task \<Rightarrow> string option" where
  "expected_turn_id read task =
     (case task_context read task of
        None \<Rightarrow> None
      | Some v \<Rightarrow> (case as_str (json_get ''expected_turn_id'' v) of Some i \<Rightarrow> if i = [] then None else Some i | None \<Rightarrow> None))"

section \<open>Task ids\<close>

definition seen_task_ids_per_session :: nat where "seen_task_ids_per_session = 256"

text \<open>The oldest ids are dropped beyond the bound.\<close>

definition newest :: "nat \<Rightarrow> 'a list \<Rightarrow> 'a list" where
  "newest n xs = drop (length xs - n) xs"

definition accept_task_id_once ::
  "string \<Rightarrow> string \<Rightarrow> (string, string list) hmap \<Rightarrow> bool \<times> (string, string list) hmap" where
  "accept_task_id_once session_id task_id sessions =
     (if task_id = [] then (True, sessions)
      else
        (let ids = (case hm_get sessions session_id of Some ids \<Rightarrow> ids | None \<Rightarrow> []) in
         if task_id \<in> set ids then (False, hm_insert session_id ids sessions)
         else (True, hm_insert session_id (newest seen_task_ids_per_session (ids @ [task_id])) sessions)))"

section \<open>Turns and requests\<close>

text \<open>Of a turn: registered as the session's input; its interrupt channel too; running; unable to reach the executor;
  returned; its interrupt channel removed; gone. \<open>at_open\<close>: somebody may still read its queue.\<close>

datatype turn_stage = Registered | Armed | Running | Unreachable | Returned | Disarmed | Gone

record active_turn =
  at_session :: string
  at_turn_id :: string
  at_stage :: turn_stage
  at_open :: bool
  at_stop :: bool
  at_queue :: "task list"

text \<open>A request accepted, or about to send its task to the turn it found.\<close>

datatype request = Accepted task | Joining task nat

datatype answer =
    Duplicate
  | Stopping bool
  | Wrong_Turn string string
  | Subscribed nat
  | Steer_Unavailable

record service =
  sv_seen :: "(string, string list) hmap"
  sv_steers :: "(string, nat) hmap"
  sv_cancels :: "(string, nat) hmap"
  sv_turns :: "active_turn list"
  sv_requests :: "request list"
  sv_answers :: "answer list"

definition service_start :: service where
  "service_start = \<lparr>sv_seen = [], sv_steers = [], sv_cancels = [], sv_turns = [], sv_requests = [], sv_answers = []\<rparr>"

definition answer :: "answer \<Rightarrow> service \<Rightarrow> service" where
  "answer a s = s\<lparr>sv_answers := sv_answers s @ [a]\<rparr>"

definition close_request :: "nat \<Rightarrow> service \<Rightarrow> service" where
  "close_request i s = s\<lparr>sv_requests := take i (sv_requests s) @ drop (Suc i) (sv_requests s)\<rparr>"

definition set_turn :: "nat \<Rightarrow> active_turn \<Rightarrow> service \<Rightarrow> service" where
  "set_turn k tu s = s\<lparr>sv_turns := (sv_turns s)[k := tu]\<rparr>"

text \<open>\<open>submit_task\<close> up to the first answer: the ids, and the check against a repeated submission.\<close>

definition submit :: "task \<Rightarrow> string \<Rightarrow> string \<Rightarrow> service \<Rightarrow> service" where
  "submit task session_uuid task_uuid s =
     (let task = (if tk_session_id task = [] then task\<lparr>tk_session_id := session_uuid\<rparr> else task);
          task = (if tk_task_id task = [] then task\<lparr>tk_task_id := task_uuid\<rparr> else task)
      in case accept_task_id_once (tk_session_id task) (tk_task_id task) (sv_seen s) of
           (True, seen) \<Rightarrow> s\<lparr>sv_seen := seen, sv_requests := sv_requests s @ [Accepted task]\<rparr>
         | (False, seen) \<Rightarrow> answer Duplicate (s\<lparr>sv_seen := seen\<rparr>))"

definition abort_turn :: "task \<Rightarrow> service \<Rightarrow> service" where
  "abort_turn task s =
     (case hm_get (sv_cancels s) (tk_session_id task) of
        None \<Rightarrow> answer (Stopping False) s
      | Some k \<Rightarrow>
          answer (Stopping (\<not> at_stop (sv_turns s ! k)))
            (set_turn k ((sv_turns s ! k)\<lparr>at_stop := True\<rparr>) s))"

definition new_turn :: "task \<Rightarrow> active_turn" where
  "new_turn task = \<lparr>at_session = tk_session_id task, at_turn_id = tk_task_id task, at_stage = Registered, at_open = True,
     at_stop = False, at_queue = []\<rparr>"

text \<open>The decision under the lock of the active turns: a new turn, or input for the one that is there.\<close>

definition route :: "(string \<Rightarrow> string + json) \<Rightarrow> nat \<Rightarrow> task \<Rightarrow> service \<Rightarrow> service" where
  "route read i task s =
     (case hm_get (sv_steers s) (tk_session_id task) of
        None \<Rightarrow>
          close_request i s
            \<lparr>sv_steers := hm_insert (tk_session_id task) (length (sv_turns s)) (sv_steers s),
             sv_turns := sv_turns s @ [new_turn task]\<rparr>
      | Some k \<Rightarrow>
          (case expected_turn_id read task of
             Some expected \<Rightarrow>
               if expected \<noteq> at_turn_id (sv_turns s ! k) \<and> strict_expected_turn read task
               then answer (Wrong_Turn expected (at_turn_id (sv_turns s ! k))) (close_request i s)
               else s\<lparr>sv_requests := (sv_requests s)[i := Joining task k]\<rparr>
           | None \<Rightarrow> s\<lparr>sv_requests := (sv_requests s)[i := Joining task k]\<rparr>))"

definition steer_queue_size :: nat where "steer_queue_size = 32"

text \<open>Sending waits while the queue is full, and fails when nobody can read it any more.\<close>

definition send_steer :: "nat \<Rightarrow> task \<Rightarrow> nat \<Rightarrow> service \<Rightarrow> service option" where
  "send_steer i task k s =
     (let tu = sv_turns s ! k in
      if \<not> at_open tu then Some (answer Steer_Unavailable (close_request i s))
      else if length (at_queue tu) < steer_queue_size
        then Some (answer (Subscribed k) (set_turn k (tu\<lparr>at_queue := at_queue tu @ [task]\<rparr>) (close_request i s)))
      else None)"

definition handle :: "(string \<Rightarrow> string + json) \<Rightarrow> nat \<Rightarrow> service \<Rightarrow> service option" where
  "handle read i s =
     (case sv_requests s ! i of
        Accepted task \<Rightarrow>
          Some (if task_is_abort_turn read task then abort_turn task (close_request i s) else route read i task s)
      | Joining task k \<Rightarrow> send_steer i task k s)"

text \<open>The rest of \<open>submit_task\<close> for a new turn, and the task it spawns. A turn takes its input when it likes.\<close>

datatype turn_move = Arm | Connect bool | Take | Return | Disarm | Leave

fun turn_moves :: "turn_move \<Rightarrow> nat \<Rightarrow> service \<Rightarrow> service option" where
  "turn_moves Arm k s =
     (let tu = sv_turns s ! k in
      if at_stage tu = Registered
      then Some (answer (Subscribed k) (set_turn k (tu\<lparr>at_stage := Armed\<rparr>)
             (s\<lparr>sv_cancels := hm_insert (at_session tu) k (sv_cancels s)\<rparr>)))
      else None)"
| "turn_moves (Connect reached) k s =
     (let tu = sv_turns s ! k in
      if at_stage tu = Armed then Some (set_turn k (tu\<lparr>at_stage := (if reached then Running else Unreachable)\<rparr>) s) else None)"
| "turn_moves Take k s =
     (let tu = sv_turns s ! k in
      if at_stage tu = Running \<and> at_queue tu \<noteq> [] then Some (set_turn k (tu\<lparr>at_queue := tl (at_queue tu)\<rparr>) s) else None)"
| "turn_moves Return k s =
     (let tu = sv_turns s ! k in
      if at_stage tu = Running then Some (set_turn k (tu\<lparr>at_stage := Returned, at_open := False, at_queue := []\<rparr>) s) else None)"
| "turn_moves Disarm k s =
     (let tu = sv_turns s ! k in
      if at_stage tu = Returned \<or> at_stage tu = Unreachable
      then Some (set_turn k (tu\<lparr>at_stage := Disarmed\<rparr>) (s\<lparr>sv_cancels := hm_remove (at_session tu) (sv_cancels s)\<rparr>))
      else None)"
| "turn_moves Leave k s =
     (let tu = sv_turns s ! k in
      if at_stage tu = Disarmed
      then Some (set_turn k (tu\<lparr>at_stage := Gone, at_open := False, at_queue := []\<rparr>)
             (s\<lparr>sv_steers := hm_remove (at_session tu) (sv_steers s)\<rparr>))
      else None)"

datatype service_label = V_Submit task string string | V_Handle nat | V_Turn turn_move nat

fun service_step :: "(string \<Rightarrow> string + json) \<Rightarrow> service_label \<Rightarrow> service \<Rightarrow> service option" where
  "service_step read (V_Submit task session_uuid task_uuid) s = Some (submit task session_uuid task_uuid s)"
| "service_step read (V_Handle i) s = (if i < length (sv_requests s) then handle read i s else None)"
| "service_step read (V_Turn m k) s = (if k < length (sv_turns s) then turn_moves m k s else None)"

fun service_run :: "(string \<Rightarrow> string + json) \<Rightarrow> service_label list \<Rightarrow> service \<Rightarrow> service option" where
  "service_run read [] s = Some s"
| "service_run read (l # ls) s = (case service_step read l s of None \<Rightarrow> None | Some s' \<Rightarrow> service_run read ls s')"

section \<open>What a client hears\<close>

text \<open>The task \<open>subscribe_turn_events\<close> spawns: what the turn broadcasts, each item with the number of the newest
  subscriber when it is looked at; \<open>own\<close> is this subscriber's number. The stream ends where the list ends.\<close>

datatype broadcast = Bc_Event pilot_body | Bc_Error string | Bc_Lagged nat

datatype client_item = Item pilot_body | Internal string | Exhausted string

definition is_final :: "pilot_body \<Rightarrow> bool" where
  "is_final body = (case body of Final_Text _ \<Rightarrow> True | _ \<Rightarrow> False)"

fun subscriber :: "nat \<Rightarrow> (nat \<times> broadcast) list \<Rightarrow> client_item list" where
  "subscriber own [] = []"
| "subscriber own ((newest_one, Bc_Event body) # r) =
     (if newest_one \<noteq> own then [] else Item body # (if is_final body then [] else subscriber own r))"
| "subscriber own ((newest_one, Bc_Error e) # r) = [Internal e]"
| "subscriber own ((newest_one, Bc_Lagged n) # r) =
     [Exhausted (''Pilot event subscriber lagged by '' @ show_nat n @ '' event(s)'')]"

text \<open>A client is answered by one final text at most, and hears nothing after it.\<close>

lemma final_text_is_last:
  "Item (Final_Text text) \<in> set (butlast (subscriber own bs)) \<Longrightarrow> False"
proof (induction own bs rule: subscriber.induct)
  case (2 own newest_one body r)
  then show ?case by (cases "subscriber own r") (auto simp: is_final_def split: if_splits)
qed auto

definition pilot_health_report :: "string \<Rightarrow> module_health_report" where
  "pilot_health_report provider_id =
     \<lparr>mr_schema_version = 1,
      mr_module = Some \<lparr>mh_module_key = [], mh_module_id = ''pilot'', mh_provider_id = provider_id,
        mh_health = 0, mh_state = ''active'', mh_reason_code = ''OK'', mh_detail = ''pilot serving'',
        mh_source = [], mh_received_ts_ns = 0, mh_ttl_ms = 5000\<rparr>\<rparr>"

section \<open>The registries of turns\<close>

definition service_inv :: "service \<Rightarrow> bool" where
  "service_inv s \<longleftrightarrow>
     (\<forall>i k. hm_get (sv_steers s) i = Some k \<longleftrightarrow>
        k < length (sv_turns s) \<and> at_session (sv_turns s ! k) = i \<and> at_stage (sv_turns s ! k) \<noteq> Gone)
     \<and> (\<forall>i k. hm_get (sv_cancels s) i = Some k \<longleftrightarrow>
        k < length (sv_turns s) \<and> at_session (sv_turns s ! k) = i
          \<and> at_stage (sv_turns s ! k) \<in> {Armed, Running, Unreachable, Returned})
     \<and> (\<forall>tu \<in> set (sv_turns s). (\<forall>task \<in> set (at_queue tu). tk_session_id task = at_session tu)
          \<and> length (at_queue tu) \<le> steer_queue_size
          \<and> (at_stage tu \<in> {Registered, Armed, Running, Unreachable} \<longrightarrow> at_open tu)
          \<and> (at_stage tu \<in> {Returned, Gone} \<longrightarrow> \<not> at_open tu))
     \<and> (\<forall>task k. Joining task k \<in> set (sv_requests s) \<longrightarrow>
          k < length (sv_turns s) \<and> at_session (sv_turns s ! k) = tk_session_id task)"

lemma inv_start: "service_inv service_start"
  by (simp add: service_inv_def service_start_def)

lemma inv_answer [simp]: "service_inv (answer a s) = service_inv s"
  by (simp add: service_inv_def answer_def)

lemma inv_close: "service_inv s \<Longrightarrow> service_inv (close_request i s)"
  by (auto simp: service_inv_def close_request_def dest: in_set_takeD in_set_dropD)

lemma inv_seen: "service_inv s \<Longrightarrow> service_inv (s\<lparr>sv_seen := seen\<rparr>)"
  by (simp add: service_inv_def)

lemma inv_accepted: "service_inv s \<Longrightarrow> service_inv (s\<lparr>sv_seen := seen, sv_requests := sv_requests s @ [Accepted task]\<rparr>)"
  by (simp add: service_inv_def)

text \<open>A change of a turn that keeps its session and its stage.\<close>

lemma inv_set:
  assumes "service_inv s" and "k < length (sv_turns s)"
    and "at_session tu = at_session (sv_turns s ! k)" and "at_stage tu = at_stage (sv_turns s ! k)"
    and "at_open tu = at_open (sv_turns s ! k)"
    and "\<forall>task \<in> set (at_queue tu). tk_session_id task = at_session tu" and "length (at_queue tu) \<le> steer_queue_size"
  shows "service_inv (set_turn k tu s)"
proof -
  have same: "at_session ((sv_turns s)[k := tu] ! j) = at_session (sv_turns s ! j)"
    "at_stage ((sv_turns s)[k := tu] ! j) = at_stage (sv_turns s ! j)" for j
    using assms(2-4) by (cases "j = k"; simp)+
  have "sv_turns s ! k \<in> set (sv_turns s)" using assms(2) by simp
  with assms show ?thesis
    by (auto simp: service_inv_def set_turn_def same dest!: set_update_subset_insert [THEN subsetD])
qed

lemma inv_submit: "service_inv s \<Longrightarrow> service_inv (submit task u v s)"
proof -
  assume "service_inv s"
  then have "service_inv (case r of (True, seen) \<Rightarrow> s\<lparr>sv_seen := seen, sv_requests := sv_requests s @ [Accepted t]\<rparr>
      | (False, seen) \<Rightarrow> answer Duplicate (s\<lparr>sv_seen := seen\<rparr>))" for r t
    by (auto simp: inv_seen inv_accepted split: prod.split bool.split)
  then show ?thesis unfolding submit_def Let_def .
qed

lemma turn_facts:
  assumes "service_inv s" and "k < length (sv_turns s)"
  shows "\<forall>t \<in> set (at_queue (sv_turns s ! k)). tk_session_id t = at_session (sv_turns s ! k)"
    and "length (at_queue (sv_turns s ! k)) \<le> steer_queue_size"
    and "at_stage (sv_turns s ! k) \<in> {Registered, Armed, Running, Unreachable} \<Longrightarrow> at_open (sv_turns s ! k)"
    and "at_stage (sv_turns s ! k) \<noteq> Gone \<Longrightarrow> hm_get (sv_steers s) (at_session (sv_turns s ! k)) = Some k"
  using assms nth_mem [OF assms(2)] by (auto simp: service_inv_def)

lemma inv_abort:
  assumes s: "service_inv s"
  shows "service_inv (abort_turn task s)"
proof (cases "hm_get (sv_cancels s) (tk_session_id task)")
  case (Some k)
  with s have "k < length (sv_turns s)" by (simp add: service_inv_def)
  with turn_facts [OF s this] show ?thesis by (simp add: abort_turn_def Some inv_set [OF s])
qed (use s in \<open>simp add: abort_turn_def\<close>)

lemma inv_send_steer:
  assumes s: "service_inv s" and i: "i < length (sv_requests s)" and r: "sv_requests s ! i = Joining task k"
    and j: "send_steer i task k s = Some s'"
  shows "service_inv s'"
proof -
  from i r have "Joining task k \<in> set (sv_requests s)" by (metis nth_mem)
  with s have k: "k < length (sv_turns s)" "at_session (sv_turns s ! k) = tk_session_id task"
    by (auto simp: service_inv_def)
  have c: "service_inv (close_request i s)" "sv_turns (close_request i s) = sv_turns s"
    using inv_close [OF s] by (simp_all add: close_request_def)
  from j turn_facts [OF s k(1)] k show ?thesis
    by (auto simp: send_steer_def Let_def c split: if_splits intro!: inv_set)
qed

lemma inv_joining:
  assumes "service_inv s" and "hm_get (sv_steers s) (tk_session_id task) = Some k"
  shows "service_inv (s\<lparr>sv_requests := (sv_requests s)[i := Joining task k]\<rparr>)"
  using assms by (auto simp: service_inv_def dest!: set_update_subset_insert [THEN subsetD])

lemma inv_new:
  assumes s: "service_inv s" and none: "hm_get (sv_steers s) (tk_session_id task) = None"
  shows "service_inv (s\<lparr>sv_steers := hm_insert (tk_session_id task) (length (sv_turns s)) (sv_steers s),
             sv_turns := sv_turns s @ [new_turn task]\<rparr>)"
proof -
  have gone: "at_stage (sv_turns s ! k) = Gone"
    if "k < length (sv_turns s)" and "at_session (sv_turns s ! k) = tk_session_id task" for k
    using s none that unfolding service_inv_def by (metis option.distinct(1))
  have joins: "k < length (sv_turns s) \<and> at_session (sv_turns s ! k) = tk_session_id t"
    if "Joining t k \<in> set (sv_requests s)" for t k
    using s that by (simp add: service_inv_def)
  from s show ?thesis
    unfolding service_inv_def
    by (elim conjE, intro conjI) (auto simp: nth_append new_turn_def gone less_Suc_eq dest: joins)
qed

lemma inv_route: "service_inv s \<Longrightarrow> service_inv (route read i task s)"
proof -
  assume s: "service_inv s"
  have "service_inv (close_request i s)" by (rule inv_close [OF s])
  then have "service_inv (close_request i s\<lparr>sv_steers := hm_insert (tk_session_id task) (length (sv_turns s)) (sv_steers s),
      sv_turns := sv_turns s @ [new_turn task]\<rparr>)" if "hm_get (sv_steers s) (tk_session_id task) = None"
    using inv_new [of "close_request i s" task] that by (simp add: close_request_def)
  then show ?thesis
    using s inv_close [OF s, of i] inv_joining [OF s] by (auto simp: route_def split: option.split)
qed

text \<open>A turn moves on: \<open>steers\<close> and \<open>cancels\<close> say what the registries hold for its session afterwards.\<close>

lemma inv_moved:
  assumes s: "service_inv s" and k: "k < length (sv_turns s)" and "at_stage (sv_turns s ! k) \<noteq> Gone"
    and tu: "at_session tu = at_session (sv_turns s ! k)" "at_queue tu = at_queue (sv_turns s ! k) \<or> at_queue tu = []"
    and steers: "hm_get steers = (hm_get (sv_steers s)) (at_session tu := if at_stage tu = Gone then None else Some k)"
    and cancels: "hm_get cancels = (hm_get (sv_cancels s))
      (at_session tu := if at_stage tu \<in> {Armed, Running, Unreachable, Returned} then Some k else None)"
    and open_: "at_stage tu \<in> {Registered, Armed, Running, Unreachable} \<Longrightarrow> at_open tu"
    and closed: "at_stage tu \<in> {Returned, Gone} \<Longrightarrow> \<not> at_open tu"
  shows "service_inv (set_turn k tu (s\<lparr>sv_steers := steers, sv_cancels := cancels\<rparr>))"
proof -
  note old = turn_facts [OF s k]
  have other: "at_stage (sv_turns s ! j) = Gone"
    if "j < length (sv_turns s)" and "at_session (sv_turns s ! j) = at_session (sv_turns s ! k)" and "j \<noteq> k" for j
    using s that old(4) assms(3) unfolding service_inv_def by (metis option.inject)
  have "hm_get steers i = Some j \<longleftrightarrow> j < length (sv_turns s) \<and> at_session ((sv_turns s)[k := tu] ! j) = i
      \<and> at_stage ((sv_turns s)[k := tu] ! j) \<noteq> Gone" for i j
    using s k tu(1) other [of j] by (cases "j = k") (auto simp: steers service_inv_def)
  moreover have "hm_get cancels i = Some j \<longleftrightarrow> j < length (sv_turns s) \<and> at_session ((sv_turns s)[k := tu] ! j) = i
      \<and> at_stage ((sv_turns s)[k := tu] ! j) \<in> {Armed, Running, Unreachable, Returned}" for i j
    using s k tu(1) other [of j] by (cases "j = k") (auto simp: cancels service_inv_def)
  moreover have "(\<forall>t \<in> set (at_queue u). tk_session_id t = at_session u) \<and> length (at_queue u) \<le> steer_queue_size
      \<and> (at_stage u \<in> {Registered, Armed, Running, Unreachable} \<longrightarrow> at_open u)
      \<and> (at_stage u \<in> {Returned, Gone} \<longrightarrow> \<not> at_open u)" if "u \<in> set ((sv_turns s)[k := tu])" for u
  proof (cases "u = tu")
    case True
    with tu old(1,2) open_ closed show ?thesis by auto
  next
    case False
    with that have "u \<in> set (sv_turns s)" using set_update_subset_insert by fastforce
    with s show ?thesis by (simp add: service_inv_def)
  qed
  moreover have "j < length (sv_turns s) \<and> at_session ((sv_turns s)[k := tu] ! j) = tk_session_id t"
    if "Joining t j \<in> set (sv_requests s)" for t j
    using s that tu(1) by (cases "j = k") (auto simp: service_inv_def)
  ultimately show ?thesis by (simp add: service_inv_def set_turn_def)
qed

lemma cancel_fact:
  assumes "service_inv s" and "k < length (sv_turns s)" and "at_stage (sv_turns s ! k) \<noteq> Gone"
  shows "hm_get (sv_cancels s) (at_session (sv_turns s ! k))
      = (if at_stage (sv_turns s ! k) \<in> {Armed, Running, Unreachable, Returned} then Some k else None)"
proof (cases "hm_get (sv_cancels s) (at_session (sv_turns s ! k))")
  case None
  with assms show ?thesis unfolding service_inv_def by (metis option.distinct(1))
next
  case (Some j)
  with assms(1) have "j < length (sv_turns s)" "at_session (sv_turns s ! j) = at_session (sv_turns s ! k)"
    and stage: "at_stage (sv_turns s ! j) \<in> {Armed, Running, Unreachable, Returned}"
    by (auto simp: service_inv_def)
  moreover from stage have "at_stage (sv_turns s ! j) \<noteq> Gone" by auto
  ultimately have "j = k" using turn_facts(4) assms by (metis option.inject)
  with Some stage show ?thesis by simp
qed

lemma inv_move:
  assumes s: "service_inv s" and k: "k < length (sv_turns s)" and "turn_moves m k s = Some s'"
  shows "service_inv s'"
proof -
  have live: "at_stage (sv_turns s ! k) \<noteq> Gone" using assms(3) by (cases m) (auto simp: Let_def split: if_splits)
  note moved = inv_moved [OF s k live] and open_ = turn_facts(3) [OF s k]
  have steers: "hm_get (sv_steers s) = (hm_get (sv_steers s))(at_session (sv_turns s ! k) := Some k)"
    using turn_facts(4) [OF s k live] by (simp add: fun_upd_idem)
  have cancels: "hm_get (sv_cancels s) = (hm_get (sv_cancels s))(at_session (sv_turns s ! k) :=
      if at_stage (sv_turns s ! k) \<in> {Armed, Running, Unreachable, Returned} then Some k else None)"
    using cancel_fact [OF s k live] by (simp add: fun_upd_idem)
  show ?thesis
  proof (cases m)
    case Arm
    with assms(3) show ?thesis
      using moved [of "(sv_turns s ! k)\<lparr>at_stage := Armed\<rparr>" "sv_steers s"
          "hm_insert (at_session (sv_turns s ! k)) k (sv_cancels s)"] steers open_
      by (auto simp: Let_def split: if_splits)
  next
    case (Connect reached)
    with assms(3) show ?thesis
      using moved [of "(sv_turns s ! k)\<lparr>at_stage := if reached then Running else Unreachable\<rparr>" "sv_steers s"
          "sv_cancels s"] steers cancels open_
      by (auto simp: Let_def split: if_splits)
  next
    case Take
    with assms(3) turn_facts [OF s k] show ?thesis
      by (auto simp: Let_def split: if_splits intro!: inv_set [OF s k] dest: list.set_sel(2))
  next
    case Return
    with assms(3) show ?thesis
      using moved [of "(sv_turns s ! k)\<lparr>at_stage := Returned, at_open := False, at_queue := []\<rparr>" "sv_steers s"
          "sv_cancels s"] steers cancels
      by (auto simp: Let_def split: if_splits)
  next
    case Disarm
    with assms(3) show ?thesis
      using moved [of "(sv_turns s ! k)\<lparr>at_stage := Disarmed\<rparr>" "sv_steers s"
          "hm_remove (at_session (sv_turns s ! k)) (sv_cancels s)"] steers
      by (auto simp: Let_def split: if_splits)
  next
    case Leave
    with assms(3) show ?thesis
      using moved [of "(sv_turns s ! k)\<lparr>at_stage := Gone, at_open := False, at_queue := []\<rparr>"
          "hm_remove (at_session (sv_turns s ! k)) (sv_steers s)" "sv_cancels s"] cancels
      by (auto simp: Let_def split: if_splits)
  qed
qed

lemma inv_handle:
  assumes s: "service_inv s" and i: "i < length (sv_requests s)" and "handle read i s = Some s'"
  shows "service_inv s'"
proof (cases "sv_requests s ! i")
  case (Accepted task)
  with assms(3) show ?thesis
    using inv_abort [OF inv_close [OF s]] inv_route [OF s] by (auto simp: handle_def split: if_splits)
next
  case (Joining task k)
  with assms show ?thesis using inv_send_steer by (auto simp: handle_def)
qed

lemma inv_service_step: "service_step read l s = Some s' \<Longrightarrow> service_inv s \<Longrightarrow> service_inv s'"
  by (cases l) (auto split: if_splits intro: inv_submit inv_handle inv_move)

interpretation services: inv_relation "\<lambda>s. s = service_start" "\<lambda>s s'. \<exists>l. service_step read l s = Some s'" service_inv for read
  by unfold_locales (auto simp: inv_start intro: inv_service_step)

lemma service_run_steps: "service_run read ls s = Some s' \<Longrightarrow> (\<lambda>s s'. \<exists>l. service_step read l s = Some s')\<^sup>*\<^sup>* s s'"
proof (induction ls arbitrary: s)
  case (Cons l ls)
  then obtain u where "service_step read l s = Some u" "service_run read ls u = Some s'" by (auto split: option.splits)
  with Cons.IH show ?case by (blast intro: converse_rtranclp_into_rtranclp)
qed simp

lemma run_inv: "service_run read ls service_start = Some s \<Longrightarrow> service_inv s"
  by (rule services.good_reachable [OF refl service_run_steps])

section \<open>Properties\<close>

text \<open>C33 (invariant). A session has at most one turn at a time, from the moment it is registered until it is gone, however
  submissions, starts and ends interleave; and what waits in the queue of a turn is input of its own session, never more
  than the queue holds.\<close>

theorem one_turn_per_session:
  assumes "service_run read ls service_start = Some s" and "j < length (sv_turns s)" and "k < length (sv_turns s)"
    and "at_session (sv_turns s ! j) = at_session (sv_turns s ! k)"
    and "at_stage (sv_turns s ! j) \<noteq> Gone" and "at_stage (sv_turns s ! k) \<noteq> Gone"
  shows "j = k \<and> (\<forall>task \<in> set (at_queue (sv_turns s ! k)). tk_session_id task = at_session (sv_turns s ! k))
    \<and> length (at_queue (sv_turns s ! k)) \<le> steer_queue_size"
proof -
  note i = run_inv [OF assms(1)]
  have "Some j = Some k" using turn_facts(4) [OF i] assms(2-6) by metis
  with turn_facts(1,2) [OF i assms(3)] show ?thesis by simp
qed

text \<open>A request to stop reaches the turn that is running: whatever happened before, when the service handles
  it, the turn of that session is told to stop, and no other turn is touched.\<close>

lemma abort_reaches_the_running_turn:
  assumes "service_run read ls service_start = Some s" and "k < length (sv_turns s)"
    and "at_stage (sv_turns s ! k) = Running" and "i < length (sv_requests s)" and "sv_requests s ! i = Accepted task"
    and "task_is_abort_turn read task" and "tk_session_id task = at_session (sv_turns s ! k)"
  shows "\<exists>s'. service_step read (V_Handle i) s = Some s' \<and> at_stop (sv_turns s' ! k)
    \<and> (\<forall>j. j \<noteq> k \<longrightarrow> sv_turns s' ! j = sv_turns s ! j)"
proof -
  have "hm_get (sv_cancels s) (tk_session_id task) = Some k"
    using cancel_fact [OF run_inv [OF assms(1)] assms(2)] assms(3,7) by simp
  with assms(2,4-6) show ?thesis
    by (simp add: handle_def abort_turn_def close_request_def set_turn_def answer_def)
qed

definition is_submit :: "service_label \<Rightarrow> bool" where
  "is_submit l = (case l of V_Submit _ _ _ \<Rightarrow> True | _ \<Rightarrow> False)"

text \<open>An id with at most \<open>n\<close> newer ones.\<close>

definition remembered :: "string \<Rightarrow> string \<Rightarrow> nat \<Rightarrow> (string, string list) hmap \<Rightarrow> bool" where
  "remembered session_id task_id n sessions \<longleftrightarrow>
     (\<exists>ids later. hm_get sessions session_id = Some (ids @ task_id # later) \<and> length later \<le> n)"

lemma accept_remembers:
  assumes "remembered i t n sessions" and "Suc n < seen_task_ids_per_session"
  shows "remembered i t (Suc n) (snd (accept_task_id_once i' t' sessions))"
proof -
  obtain ids later where m: "hm_get sessions i = Some (ids @ t # later)" "length later \<le> n"
    using assms(1) by (auto simp: remembered_def)
  have "\<exists>pre. newest seen_task_ids_per_session ((ids @ t # later) @ [t']) = pre @ t # later @ [t']"
    using m(2) assms(2) by (auto simp: newest_def)
  with m show ?thesis
    by (auto simp: accept_task_id_once_def remembered_def Let_def intro: le_SucI) force+
qed

lemma submit_seen: "\<exists>i t. sv_seen (submit task u v s) = snd (accept_task_id_once i t (sv_seen s))"
proof -
  have "sv_seen (case r of (True, seen) \<Rightarrow> s\<lparr>sv_seen := seen, sv_requests := sv_requests s @ [Accepted t]\<rparr>
      | (False, seen) \<Rightarrow> answer Duplicate (s\<lparr>sv_seen := seen\<rparr>)) = snd r" for r t
    by (auto simp: answer_def split: prod.split bool.split)
  then show ?thesis unfolding submit_def Let_def by blast
qed

lemma seen_step:
  assumes "service_step read l s = Some s'" and "remembered i t n (sv_seen s)" and "Suc n < seen_task_ids_per_session"
  shows "remembered i t (if is_submit l then Suc n else n) (sv_seen s')"
proof (cases l)
  case (V_Submit task u v)
  obtain i' t' where "sv_seen s' = snd (accept_task_id_once i' t' (sv_seen s))"
    using assms(1) submit_seen [of task u v s] by (auto simp: V_Submit)
  with accept_remembers [OF assms(2,3)] show ?thesis by (simp add: V_Submit is_submit_def)
next
  case (V_Handle i)
  with assms(1) have "sv_seen s' = sv_seen s"
    by (auto simp: handle_def abort_turn_def route_def send_steer_def Let_def answer_def close_request_def set_turn_def
        split: if_splits request.splits option.splits)
  with assms(2) show ?thesis by (simp add: V_Handle is_submit_def)
next
  case (V_Turn m k)
  with assms(1) have "sv_seen s' = sv_seen s"
    by (cases m) (auto simp: Let_def answer_def set_turn_def split: if_splits)
  with assms(2) show ?thesis by (simp add: V_Turn is_submit_def)
qed

lemma seen_run:
  assumes "service_run read ls s = Some s'" and "remembered i t n (sv_seen s)"
    and "n + length (filter is_submit ls) < seen_task_ids_per_session - 1"
  shows "remembered i t (n + length (filter is_submit ls)) (sv_seen s')"
  using assms
proof (induction ls arbitrary: n s)
  case (Cons l ls)
  from Cons.prems(1) obtain u where u: "service_step read l s = Some u" "service_run read ls u = Some s'"
    by (auto split: option.splits)
  with seen_step [OF u(1) Cons.prems(2)] Cons.prems(3)
  have "remembered i t (if is_submit l then Suc n else n) (sv_seen u)" by simp
  from Cons.IH [OF u(2) this] Cons.prems(3) show ?case by (auto split: if_splits)
qed simp

text \<open>A task is taken once: after it was accepted, and whatever else happens, submitting it again has no
  effect but an empty answer, as long as fewer than 255 other submissions came in between.\<close>

lemma repeated_submission_is_ignored:
  assumes "tk_session_id task \<noteq> []" and "tk_task_id task \<noteq> []"
    and "fst (accept_task_id_once (tk_session_id task) (tk_task_id task) (sv_seen s))"
    and "service_run read ls (submit task u v s) = Some s'"
    and "length (filter is_submit ls) < seen_task_ids_per_session - 1"
  shows "sv_answers (submit task u v s') = sv_answers s' @ [Duplicate]
    \<and> sv_requests (submit task u v s') = sv_requests s' \<and> sv_turns (submit task u v s') = sv_turns s'
    \<and> sv_steers (submit task u v s') = sv_steers s' \<and> sv_cancels (submit task u v s') = sv_cancels s'"
proof -
  have "remembered (tk_session_id task) (tk_task_id task) 0 (sv_seen (submit task u v s))"
    using assms(1-3)
    by (auto simp: submit_def accept_task_id_once_def remembered_def newest_def seen_task_ids_per_session_def Let_def
        split: option.splits if_splits)
  from seen_run [OF assms(4) this] assms(5)
  have "remembered (tk_session_id task) (tk_task_id task) (length (filter is_submit ls)) (sv_seen s')" by simp
  then show ?thesis
    using assms(1,2) by (auto simp: remembered_def submit_def accept_task_id_once_def answer_def)
qed

section \<open>Concrete runs\<close>

definition demo_reader :: "string \<Rightarrow> string + json" where
  "demo_reader s = (if s = ''stop'' then Inr (JObj [(''abort_turn'', JBool True)]) else Inl ''not JSON'')"

definition demo_submit :: "string \<Rightarrow> string \<Rightarrow> service_label" where
  "demo_submit task_id context_json =
     V_Submit \<lparr>tk_task_id = task_id, tk_session_id = ''s'', tk_text = ''tidy up'', tk_context_json = context_json\<rparr> [] []"

definition demo_begin :: "service_label list" where
  "demo_begin = [demo_submit ''1'' [], V_Handle 0]"

definition demo_running :: "service_label list" where
  "demo_running = demo_begin @ [V_Turn Arm 0, V_Turn (Connect True) 0]"

definition demo_service :: "service_label list \<Rightarrow> service" where
  "demo_service ls = the (service_run demo_reader ls service_start)"

text \<open>A request to stop that comes while its turn is starting, before the interrupt channel is there, is answered with
  \<open>no active turn\<close>, and the turn runs.\<close>

lemma stop_lost_while_starting:
  "let s = demo_service (demo_begin @ [demo_submit ''2'' ''stop'', V_Handle 0, V_Turn Arm 0, V_Turn (Connect True) 0]) in
     sv_answers s = [Stopping False, Subscribed 0] \<and> map at_stage (sv_turns s) = [Running]
     \<and> map at_stop (sv_turns s) = [False]"
  by code_simp

text \<open>Input sent to a turn that has just returned is refused; its id is spent, so the retry is ignored, although no turn is
  there any more.\<close>

lemma refused_input_is_spent:
  "let s = demo_service (demo_running @ [demo_submit ''2'' [], V_Handle 0, V_Turn Return 0, V_Handle 0,
       V_Turn Disarm 0, V_Turn Leave 0, demo_submit ''2'' []]) in
     sv_answers s = [Subscribed 0, Steer_Unavailable, Duplicate] \<and> sv_requests s = []
     \<and> map at_stage (sv_turns s) = [Gone]"
  by code_simp

text \<open>Input queued while the executor turns out to be unreachable is lost with the queue.\<close>

lemma input_of_a_failed_start_is_lost:
  "let s = demo_service (demo_begin @ [V_Turn Arm 0, demo_submit ''2'' [], V_Handle 0, V_Handle 0,
       V_Turn (Connect False) 0, V_Turn Disarm 0, V_Turn Leave 0]) in
     sv_answers s = [Subscribed 0, Subscribed 0] \<and> sv_requests s = [] \<and> map at_stage (sv_turns s) = [Gone]
     \<and> map at_queue (sv_turns s) = [[]]"
  by code_simp

lemma demo_service_run:
  "service_run demo_reader ls service_start \<noteq> None \<Longrightarrow> service_run demo_reader ls service_start = Some (demo_service ls)"
  unfolding demo_service_def by (rule option.collapse [symmetric])

text \<open>Input joins the running turn; a second task joins instead of starting another.\<close>

theorem one_turn_per_session_witness:
  "list_all (\<lambda>task. tk_session_id task = ''s'')
     (at_queue (sv_turns (demo_service (demo_running @ [demo_submit ''2'' [], V_Handle 0, V_Handle 0])) ! 0))"
proof -
  let ?ls = "demo_running @ [demo_submit ''2'' [], V_Handle 0, V_Handle 0]"
  have "service_run demo_reader ?ls service_start \<noteq> None" by code_simp
  note run = demo_service_run [OF this]
  have "0 < length (sv_turns (demo_service ?ls))" "at_stage (sv_turns (demo_service ?ls) ! 0) \<noteq> Gone"
    "at_session (sv_turns (demo_service ?ls) ! 0) = ''s''" by code_simp+
  with one_turn_per_session [OF run this(1) this(1) refl this(2) this(2)] show ?thesis by (simp add: list_all_iff)
qed

theorem abort_reaches_the_running_turn_witness:
  "\<exists>s'. service_step demo_reader (V_Handle 0) (demo_service (demo_running @ [demo_submit ''2'' ''stop''])) = Some s'
     \<and> at_stop (sv_turns s' ! 0)"
proof -
  let ?ls = "demo_running @ [demo_submit ''2'' ''stop'']"
  let ?task = "\<lparr>tk_task_id = ''2'', tk_session_id = ''s'', tk_text = ''tidy up'', tk_context_json = ''stop''\<rparr>"
  have "service_run demo_reader ?ls service_start \<noteq> None" by code_simp
  note run = demo_service_run [OF this]
  have "0 < length (sv_turns (demo_service ?ls))" "at_stage (sv_turns (demo_service ?ls) ! 0) = Running"
    "0 < length (sv_requests (demo_service ?ls))" "sv_requests (demo_service ?ls) ! 0 = Accepted ?task"
    "task_is_abort_turn demo_reader ?task" "tk_session_id ?task = at_session (sv_turns (demo_service ?ls) ! 0)"
    by code_simp+
  from abort_reaches_the_running_turn [OF run this] show ?thesis by blast
qed

theorem repeated_submission_is_ignored_witness:
  "sv_answers (submit \<lparr>tk_task_id = ''1'', tk_session_id = ''s'', tk_text = ''tidy up'', tk_context_json = []\<rparr> [] []
      (demo_service demo_running)) = [Subscribed 0, Duplicate]"
proof -
  let ?task = "\<lparr>tk_task_id = ''1'', tk_session_id = ''s'', tk_text = ''tidy up'', tk_context_json = []\<rparr>"
  let ?ls = "[V_Handle 0, V_Turn Arm 0, V_Turn (Connect True) 0]"
  have "service_run demo_reader demo_running service_start \<noteq> None" by code_simp
  note run = demo_service_run [OF this]
  have "service_run demo_reader ?ls (submit ?task [] [] service_start) = Some (demo_service demo_running)"
    using run [unfolded demo_running_def demo_begin_def append.simps]
    by (simp only: demo_submit_def service_run.simps(2) [of demo_reader "V_Submit _ _ _"] service_step.simps(1) option.case
        demo_running_def demo_begin_def append.simps)
  moreover have "fst (accept_task_id_once ''s'' ''1'' (sv_seen service_start))" by code_simp
  moreover have "length (filter is_submit ?ls) < seen_task_ids_per_session - 1" by code_simp
  ultimately have "sv_answers (submit ?task [] [] (demo_service demo_running)) = sv_answers (demo_service demo_running) @ [Duplicate]"
    using repeated_submission_is_ignored [of ?task service_start demo_reader ?ls "[]" "[]" "demo_service demo_running"] by simp
  moreover have "sv_answers (demo_service demo_running) = [Subscribed 0]" by code_simp
  ultimately show ?thesis by simp
qed

end
