(* ===== verification/Pilot_Transcript.thy ===== *)
theory Pilot_Transcript
  imports Pilot_Forest Unix_Path
begin

text \<open>
  The transcript of a session, \<open>system/pilot/src/transcript.rs\<close>: an append-only file of JSON lines, from which a
  session is rebuilt after a restart. The JSON reader and printer are parameters; the clock is an input. A stored
  struct is read from an object only (serde would take an array of its fields too; Pilot writes none).

  The main results: over any run with failed writes that are cut back, compactions, crashes and restarts, a file that is
  UTF-8 and the records still queued stand for the session; a crash in the middle of an append costs only records of that append, from some point
  on; and the one exception, a crash in the middle of a character, loses the session for good.
\<close>

section \<open>Objects\<close>

text \<open>\<open>serde_json::Map\<close> keeps its fields in the order of their keys, as any \<open>BTreeMap\<close> does.\<close>

fun obj_insert :: "string \<Rightarrow> 'v \<Rightarrow> (string \<times> 'v) list \<Rightarrow> (string \<times> 'v) list" where
  "obj_insert k v [] = [(k, v)]"
| "obj_insert k v ((k', v') # r) =
     (if k = k' then (k, v) # r else if k < k' then (k, v) # (k', v') # r else (k', v') # obj_insert k v r)"

definition obj_extend :: "(string \<times> json) list \<Rightarrow> (string \<times> json) list \<Rightarrow> (string \<times> json) list" where
  "obj_extend new obj = fold (\<lambda>(k, v). obj_insert k v) new obj"

definition json_obj :: "(string \<times> json) list \<Rightarrow> json" where
  "json_obj new = JObj (obj_extend new [])"

text \<open>The fields that are there: \<open>skip_serializing_if\<close> leaves the others out.\<close>

definition present :: "(string \<times> json option) list \<Rightarrow> (string \<times> json) list" where
  "present fs = concat (map (\<lambda>(k, v). case v of Some x \<Rightarrow> [(k, x)] | None \<Rightarrow> []) fs)"

lemma map_of_insert [simp]: "map_of (obj_insert k v obj) = (map_of obj)(k \<mapsto> v)"
  by (induction obj) (auto simp: fun_eq_iff)

lemma map_of_extend: "map_of (obj_extend new obj) k = (case map_of (rev new) k of Some v \<Rightarrow> Some v | None \<Rightarrow> map_of obj k)"
  unfolding obj_extend_def
  by (induction new arbitrary: obj) (auto simp: map_add_def split: option.splits prod.splits)

lemma present_keys: "fst ` set (present fs) \<subseteq> fst ` set fs"
  by (force simp: present_def split: option.splits)

lemma map_of_present:
  "distinct (map fst fs) \<Longrightarrow> map_of (rev (present fs)) k = (case map_of fs k of Some v \<Rightarrow> v | None \<Rightarrow> None)"
proof (induction fs)
  case (Cons f fs)
  obtain k' v where f: "f = (k', v)" by force
  have step: "map_of (rev (present (f # fs))) k
      = (case map_of (rev (present fs)) k of Some x \<Rightarrow> Some x | None \<Rightarrow> if k = k' then v else None)"
    by (cases v) (auto simp: f present_def map_add_def split: option.splits)
  have "map_of (rev (present fs)) k' = None"
    using Cons.prems present_keys [of fs] by (auto simp: f map_of_eq_None_iff)
  with Cons step show ?case by (cases "k = k'") (simp_all add: f split: option.split)
qed (simp add: present_def)

section \<open>Records\<close>

definition tool_call_json :: "tool_call \<Rightarrow> json" where
  "tool_call_json tc = json_obj [(''id'', JStr (tl_id tc)), (''type'', JStr (tl_kind tc)),
     (''function'', json_obj [(''name'', JStr (tl_name tc)), (''arguments'', JStr (tl_arguments tc))])]"

definition message_field_list :: "message \<Rightarrow> (string \<times> json option) list" where
  "message_field_list m =
     [(''role'', Some (JStr (m_role m))), (''name'', map_option JStr (m_name m)),
      (''content'', map_option JStr (m_content m)),
      (''tool_calls'', map_option (\<lambda>calls. JArr (map tool_call_json calls)) (m_tool_calls m)),
      (''tool_call_id'', map_option JStr (m_tool_call_id m)),
      (''image_bytes'', map_option (\<lambda>image. JNum (length image)) (m_image_base64 m))]"

definition message_fields :: "message \<Rightarrow> json" where
  "message_fields m = json_obj (present (message_field_list m))"

definition message_record :: "string \<Rightarrow> message \<Rightarrow> json" where
  "message_record now m =
     JObj (obj_extend (present (message_field_list m))
       (obj_extend [(''ts'', JStr now), (''kind'', JStr ''message'')] []))"

definition task_json :: "task_state option \<Rightarrow> json" where
  "task_json task =
     (case task of
        None \<Rightarrow> JNull
      | Some state \<Rightarrow> json_obj [(''goal'', JStr (ts_goal state)),
          (''success_criterion'', JStr (ts_success_criterion state)), (''status'', JStr (ts_status state))])"

definition task_record :: "string \<Rightarrow> task_state option \<Rightarrow> json" where
  "task_record now task = json_obj [(''ts'', JStr now), (''kind'', JStr ''task_state''), (''task'', task_json task)]"

definition compaction_record :: "string \<Rightarrow> message list \<Rightarrow> nat \<Rightarrow> nat \<Rightarrow> bool \<Rightarrow> json" where
  "compaction_record now history evicted_messages pinned_messages summarized =
     json_obj [(''ts'', JStr now), (''kind'', JStr ''compaction''), (''evicted_messages'', JNum evicted_messages),
       (''pinned_messages'', JNum pinned_messages), (''summarized'', JBool summarized),
       (''history'', JArr (map message_fields history))]"

definition session_record :: "string \<Rightarrow> string \<Rightarrow> string \<Rightarrow> json" where
  "session_record now session_id version =
     json_obj [(''ts'', JStr now), (''kind'', JStr ''session''), (''session_id'', JStr session_id),
       (''pilot_version'', JStr version)]"

section \<open>Writing\<close>

record archive_env =
  ae_print :: "json \<Rightarrow> string"
  ae_read :: "string \<Rightarrow> string + json"
  ae_version :: string

record transcript =
  tr_path :: pathbuf
  tr_session_id :: string
  tr_written :: nat
  tr_task :: "task_state option"
  tr_pending :: "json list"

text \<open>The bytes of a file, or none when there is no file. A write is refused before the file is there, fails and is cut
  back, fails with some bytes left because cutting back fails too, or succeeds.\<close>

type_synonym disk_file = "string option"

datatype write_end = Unopened | Cut_Back | Torn nat | Written

definition bytes_of :: "disk_file \<Rightarrow> string" where
  "bytes_of f = (case f of Some t \<Rightarrow> t | None \<Rightarrow> [])"

text \<open>The records of the next append; the clock is read in the order of the calls.\<close>

definition due :: "archive_env \<Rightarrow> string \<Rightarrow> transcript \<Rightarrow> disk_file \<Rightarrow> json list" where
  "due ae now tr f =
     (if bytes_of f = [] then [session_record now (tr_session_id tr) (ae_version ae)] else []) @ tr_pending tr"

definition line_text :: "archive_env \<Rightarrow> json \<Rightarrow> string" where
  "line_text ae j = ae_print ae j @ [CHR 0x0A]"

definition append_text :: "archive_env \<Rightarrow> string \<Rightarrow> transcript \<Rightarrow> disk_file \<Rightarrow> string" where
  "append_text ae now tr f =
     (if bytes_of f \<noteq> [] \<and> last (bytes_of f) \<noteq> CHR 0x0A then [CHR 0x0A] else [])
       @ concat (map (line_text ae) (due ae now tr f))"

definition try_append :: "archive_env \<Rightarrow> string \<Rightarrow> write_end \<Rightarrow> transcript \<Rightarrow> disk_file \<Rightarrow> bool \<times> disk_file" where
  "try_append ae now w tr f =
     (case w of
        Unopened \<Rightarrow> (False, f)
      | Cut_Back \<Rightarrow> (False, Some (bytes_of f))
      | Torn n \<Rightarrow> (False, Some (bytes_of f @ take n (append_text ae now tr f)))
      | Written \<Rightarrow> (True, Some (bytes_of f @ append_text ae now tr f)))"

definition flush :: "archive_env \<Rightarrow> string \<Rightarrow> write_end \<Rightarrow> transcript \<Rightarrow> disk_file \<Rightarrow> transcript \<times> disk_file" where
  "flush ae now w tr f =
     (if tr_pending tr = [] then (tr, f)
      else (case try_append ae now w tr f of
              (ok, f') \<Rightarrow> (if ok then tr\<lparr>tr_pending := []\<rparr> else tr, f')))"

text \<open>\<open>record\<close> up to the flush: message \<open>i\<close> of those not yet written is stamped \<open>clock i\<close>, the task state after them.\<close>

definition new_messages :: "(nat \<Rightarrow> string) \<Rightarrow> message list \<Rightarrow> transcript \<Rightarrow> json list" where
  "new_messages clock history tr =
     (let fresh = drop (min (tr_written tr) (length history)) history
      in map2 (\<lambda>i m. message_record (clock i) m) [0..<length fresh] fresh)"

definition enqueue :: "(nat \<Rightarrow> string) \<Rightarrow> message list \<Rightarrow> task_state option \<Rightarrow> transcript \<Rightarrow> transcript" where
  "enqueue clock history task tr =
     (let queued = new_messages clock history tr;
          tr = tr\<lparr>tr_pending := tr_pending tr @ queued, tr_written := length history\<rparr>
      in if tr_task tr \<noteq> task
         then tr\<lparr>tr_pending := tr_pending tr @ [task_record (clock (length queued)) task], tr_task := task\<rparr> else tr)"

definition record_history ::
  "archive_env \<Rightarrow> (nat \<Rightarrow> string) \<Rightarrow> string \<Rightarrow> write_end \<Rightarrow> message list \<Rightarrow> task_state option \<Rightarrow> transcript \<Rightarrow> disk_file \<Rightarrow> transcript \<times> disk_file" where
  "record_history ae clock now w history task tr f = flush ae now w (enqueue clock history task tr) f"

definition enqueue_compaction :: "string \<Rightarrow> message list \<Rightarrow> nat \<Rightarrow> nat \<Rightarrow> bool \<Rightarrow> transcript \<Rightarrow> transcript" where
  "enqueue_compaction now history evicted_messages pinned_messages summarized tr =
     tr\<lparr>tr_pending := tr_pending tr @ [compaction_record now history evicted_messages pinned_messages summarized],
        tr_written := length history\<rparr>"

definition record_compaction ::
  "archive_env \<Rightarrow> string \<Rightarrow> write_end \<Rightarrow> message list \<Rightarrow> nat \<Rightarrow> nat \<Rightarrow> bool \<Rightarrow> transcript \<Rightarrow> disk_file \<Rightarrow> transcript \<times> disk_file" where
  "record_compaction ae now w history evicted_messages pinned_messages summarized tr f =
     flush ae now w (enqueue_compaction now history evicted_messages pinned_messages summarized tr) f"

section \<open>Reading\<close>

text \<open>A field \<open>Option<T>\<close>: absent and null are \<open>None\<close>.\<close>

definition opt_field :: "(json \<Rightarrow> 'a option) \<Rightarrow> json option \<Rightarrow> 'a option option" where
  "opt_field parse v =
     (case v of None \<Rightarrow> Some None | Some JNull \<Rightarrow> Some None | Some j \<Rightarrow> map_option Some (parse j))"

definition str_of :: "json \<Rightarrow> string option" where
  "str_of j = as_str (Some j)"

definition parse_tool_call :: "json \<Rightarrow> tool_call option" where
  "parse_tool_call j =
     (case (as_str (json_get ''id'' j), as_str (json_get ''type'' j), json_get ''function'' j) of
        (Some i, Some kind, Some f) \<Rightarrow>
          (case (as_str (json_get ''name'' f), as_str (json_get ''arguments'' f)) of
             (Some n, Some a) \<Rightarrow> Some \<lparr>tl_id = i, tl_kind = kind, tl_name = n, tl_arguments = a\<rparr>
           | _ \<Rightarrow> None)
      | _ \<Rightarrow> None)"

definition parse_tool_calls :: "json \<Rightarrow> tool_call list option" where
  "parse_tool_calls j = (case j of JArr calls \<Rightarrow> those (map parse_tool_call calls) | _ \<Rightarrow> None)"

definition parse_message :: "json \<Rightarrow> message option" where
  "parse_message j =
     (case (as_str (json_get ''role'' j), opt_field str_of (json_get ''name'' j), opt_field str_of (json_get ''content'' j),
            opt_field parse_tool_calls (json_get ''tool_calls'' j), opt_field str_of (json_get ''tool_call_id'' j),
            opt_field str_of (json_get ''image_base64'' j)) of
        (Some role, Some name, Some content, Some calls, Some answers, Some img) \<Rightarrow>
          Some \<lparr>m_role = role, m_name = name, m_content = content, m_tool_calls = calls, m_tool_call_id = answers,
                m_image_base64 = img\<rparr>
      | _ \<Rightarrow> None)"

definition parse_task_state :: "json \<Rightarrow> task_state option" where
  "parse_task_state j =
     (case (as_str (json_get ''goal'' j), as_str (json_get ''success_criterion'' j), as_str (json_get ''status'' j)) of
        (Some goal, Some criterion, Some status) \<Rightarrow>
          Some \<lparr>ts_goal = goal, ts_success_criterion = criterion, ts_status = status\<rparr>
      | _ \<Rightarrow> None)"

record restored =
  re_history :: "message list"
  re_task :: "task_state option"

definition nothing :: restored where
  "nothing = \<lparr>re_history = [], re_task = None\<rparr>"

definition apply_record :: "json \<Rightarrow> restored \<Rightarrow> restored option" where
  "apply_record j r =
     (case as_str (json_get ''kind'' j) of
        Some kind \<Rightarrow>
          if kind = ''session'' then Some r
          else if kind = ''message'' then
            map_option (\<lambda>m. r\<lparr>re_history := re_history r @ [m]\<rparr>) (parse_message j)
          else if kind = ''task_state'' then
            map_option (\<lambda>task. r\<lparr>re_task := task\<rparr>) (opt_field parse_task_state (json_get ''task'' j))
          else if kind = ''compaction'' then
            (case json_get ''history'' j of
               Some (JArr messages) \<Rightarrow>
                 map_option (\<lambda>history. r\<lparr>re_history := history\<rparr>) (those (map parse_message messages))
             | _ \<Rightarrow> None)
          else None
      | None \<Rightarrow> None)"

definition absorb :: "json \<Rightarrow> restored \<Rightarrow> restored" where
  "absorb j r = (case apply_record j r of Some r' \<Rightarrow> r' | None \<Rightarrow> r)"

definition replay_line :: "archive_env \<Rightarrow> string \<Rightarrow> restored \<Rightarrow> restored" where
  "replay_line ae line r =
     (if trim line = [] then r else (case ae_read ae line of Inl _ \<Rightarrow> r | Inr j \<Rightarrow> absorb j r))"

definition replay_text :: "archive_env \<Rightarrow> string \<Rightarrow> restored" where
  "replay_text ae text = fold (replay_line ae) (lines_of text) nothing"

text \<open>What \<open>read_to_string\<close> accepts: well-formed UTF-8. A leading byte says what ranges the next bytes must be in.\<close>

definition between :: "nat \<Rightarrow> nat \<Rightarrow> char \<Rightarrow> bool" where
  "between lo hi c \<longleftrightarrow> lo \<le> of_char c \<and> of_char c \<le> hi"

definition lead :: "char \<Rightarrow> (nat \<times> nat) list option" where
  "lead a =
     (if between 0 0x7F a then Some []
      else if between 0xC2 0xDF a then Some [(0x80, 0xBF)]
      else if between 0xE0 0xE0 a then Some [(0xA0, 0xBF), (0x80, 0xBF)]
      else if between 0xED 0xED a then Some [(0x80, 0x9F), (0x80, 0xBF)]
      else if between 0xE1 0xEF a then Some [(0x80, 0xBF), (0x80, 0xBF)]
      else if between 0xF0 0xF0 a then Some [(0x90, 0xBF), (0x80, 0xBF), (0x80, 0xBF)]
      else if between 0xF1 0xF3 a then Some [(0x80, 0xBF), (0x80, 0xBF), (0x80, 0xBF)]
      else if between 0xF4 0xF4 a then Some [(0x80, 0x8F), (0x80, 0xBF), (0x80, 0xBF)]
      else None)"

fun utf8_from :: "(nat \<times> nat) list \<Rightarrow> string \<Rightarrow> bool" where
  "utf8_from need [] = (need = [])"
| "utf8_from [] (a # r) = (case lead a of Some need \<Rightarrow> utf8_from need r | None \<Rightarrow> False)"
| "utf8_from ((lo, hi) # need) (b # r) = (between lo hi b \<and> utf8_from need r)"

definition utf8 :: "string \<Rightarrow> bool" where
  "utf8 = utf8_from []"

definition replay :: "archive_env \<Rightarrow> disk_file \<Rightarrow> restored option" where
  "replay ae f =
     (case f of None \<Rightarrow> None | Some text \<Rightarrow> if utf8 text then Some (replay_text ae text) else None)"

section \<open>What is stored is read back\<close>

definition no_image :: "message \<Rightarrow> message" where
  "no_image m = m\<lparr>m_image_base64 := None\<rparr>"

lemma json_get_extend:
  "json_get k (JObj (obj_extend new obj)) = (case map_of (rev new) k of Some v \<Rightarrow> Some v | None \<Rightarrow> map_of obj k)"
  by (simp add: json_get_def map_of_extend)

lemma json_get_obj [simp]: "json_get k (json_obj new) = map_of (rev new) k"
  by (simp add: json_obj_def json_get_extend split: option.split)

lemma opt_str [simp]: "opt_field str_of (map_option JStr x) = Some x"
  by (cases x) (auto simp: opt_field_def str_of_def as_str_def)

lemma those_map: "(\<And>x. x \<in> set xs \<Longrightarrow> f (g x) = Some (h x)) \<Longrightarrow> those (map (\<lambda>x. f (g x)) xs) = Some (map h xs)"
  by (induction xs) auto

lemma stored_tool_call: "parse_tool_call (tool_call_json tc) = Some tc"
  by (simp add: parse_tool_call_def tool_call_json_def as_str_def)

lemma stored_tool_calls [simp]: "opt_field parse_tool_calls (map_option (\<lambda>calls. JArr (map tool_call_json calls)) x) = Some x"
  using those_map [of _ parse_tool_call tool_call_json "\<lambda>x. x"]
  by (cases x) (auto simp: opt_field_def parse_tool_calls_def stored_tool_call comp_def)

lemma stored_field:
  "json_get k (message_fields m) = (case map_of (message_field_list m) k of Some v \<Rightarrow> v | None \<Rightarrow> None)"
  unfolding message_fields_def json_get_obj by (rule map_of_present) (simp add: message_field_list_def)

lemma record_field:
  "json_get k (message_record now m) =
     (case (case map_of (message_field_list m) k of Some v \<Rightarrow> v | None \<Rightarrow> None) of
        Some v \<Rightarrow> Some v
      | None \<Rightarrow> if k = ''kind'' then Some (JStr ''message'') else if k = ''ts'' then Some (JStr now) else None)"
proof -
  have "map_of (rev (present (message_field_list m))) k
      = (case map_of (message_field_list m) k of Some v \<Rightarrow> v | None \<Rightarrow> None)"
    by (rule map_of_present) (simp add: message_field_list_def)
  then show ?thesis by (simp add: message_record_def json_get_extend map_of_extend split: option.split)
qed

lemma stored_message: "parse_message (message_fields m) = Some (no_image m)"
  by (simp add: parse_message_def stored_field message_field_list_def no_image_def as_str_def opt_field_def [of str_of None])

lemma record_message: "parse_message (message_record now m) = Some (no_image m)"
proof -
  have "json_get k (message_record now m) = json_get k (message_fields m)" if "k \<noteq> ''kind''" and "k \<noteq> ''ts''" for k
    using that by (simp add: record_field stored_field split: option.split)
  with stored_message [of m] show ?thesis by (simp add: parse_message_def)
qed

lemma opt_field_obj [simp]: "opt_field parse (Some (json_obj new)) = map_option Some (parse (json_obj new))"
  by (simp add: opt_field_def json_obj_def)

lemma stored_task: "opt_field parse_task_state (Some (task_json task)) = Some task"
  by (cases task) (simp_all add: task_json_def parse_task_state_def as_str_def opt_field_def [of _ "Some JNull"])

lemma absorb_message: "absorb (message_record now m) r = r\<lparr>re_history := re_history r @ [no_image m]\<rparr>"
proof -
  have "json_get ''kind'' (message_record now m) = Some (JStr ''message'')"
    by (simp add: record_field message_field_list_def)
  then show ?thesis by (simp add: absorb_def apply_record_def as_str_def record_message)
qed

lemma absorb_task: "absorb (task_record now task) r = r\<lparr>re_task := task\<rparr>"
  by (simp add: absorb_def apply_record_def task_record_def as_str_def stored_task)

lemma absorb_session: "absorb (session_record now session_id version) r = r"
  by (simp add: absorb_def apply_record_def session_record_def as_str_def)

lemma absorb_compaction:
  "absorb (compaction_record now history evicted_messages pinned_messages summarized) r = r\<lparr>re_history := map no_image history\<rparr>"
  using those_map [of history parse_message message_fields no_image]
  by (simp add: absorb_def apply_record_def compaction_record_def as_str_def stored_message comp_def)

section \<open>Lines of a file that grows\<close>








section \<open>An append, whole or cut\<close>









text \<open>Nothing makes a file UTF-8 again: an append starts with an ASCII character.\<close>

lemma lead_continues: "lead a = Some need \<Longrightarrow> \<forall>(lo, hi) \<in> set need. 0x80 \<le> lo"
  by (auto simp: lead_def split: if_splits)

lemma utf8_from_cut:
  assumes "between 0 0x7F c" and "utf8_from need (x @ c # y)" and "\<forall>(lo, hi) \<in> set need. 0x80 \<le> lo"
  shows "utf8_from need x"
  using assms
proof (induction need x rule: utf8_from.induct)
  case (1 need)
  then show ?case by (cases need) (auto simp: between_def)
next
  case (2 a r)
  then show ?case using lead_continues [of a] by (auto split: option.splits)
qed auto

lemma utf8_cut: "between 0 0x7F c \<Longrightarrow> utf8 (x @ c # y) \<Longrightarrow> utf8 x"
  unfolding utf8_def by (rule utf8_from_cut) auto

lemma utf8_snoc: "between 0 0x7F c \<Longrightarrow> utf8 x \<Longrightarrow> utf8 (x @ [c])"
proof -
  assume "between 0 0x7F c"
  then have ascii: "lead c = Some []" by (simp add: lead_def)
  have "utf8_from need (x @ [c])" if "utf8_from need x" for need
    using that by (induction need x rule: utf8_from.induct) (auto simp: ascii split: option.splits)
  then show "utf8 x \<Longrightarrow> utf8 (x @ [c])" by (simp add: utf8_def)
qed

lemma utf8_before_append:
  assumes "utf8 (bytes_of f @ take n (append_text ae now tr f))"
  shows "utf8 (bytes_of f)"
proof (cases "n = 0 \<or> bytes_of f = []")
  case False
  show ?thesis
  proof (cases "last (bytes_of f) = CHR 0x0A")
    case True
    with False obtain x where x: "bytes_of f = x @ [CHR 0x0A]" by (cases "bytes_of f" rule: rev_cases) auto
    have "utf8 x" using assms utf8_cut [of "CHR 0x0A" x] unfolding x by (simp add: between_def)
    then show ?thesis unfolding x by (rule utf8_snoc [rotated]) (simp add: between_def)
  next
    case last: False
    with False obtain y where "take n (append_text ae now tr f) = CHR 0x0A # y"
      by (cases n) (auto simp: append_text_def)
    with assms show ?thesis using utf8_cut [of "CHR 0x0A" "bytes_of f" y] by (simp add: between_def)
  qed
qed (use assms in \<open>auto simp: utf8_def\<close>)

section \<open>Sessions\<close>

text \<open>Where a session's file is. Bytes that could mean something in a path are percent-encoded.\<close>

definition hex_digit :: "nat \<Rightarrow> char" where
  "hex_digit n = ''0123456789ABCDEF'' ! n"

definition kept_byte :: "char \<Rightarrow> bool" where
  "kept_byte b \<longleftrightarrow> between 0x30 0x39 b \<or> between 0x41 0x5A b \<or> between 0x61 0x7A b \<or> b = CHR ''-'' \<or> b = CHR ''_''"

definition coded :: "char \<Rightarrow> string" where
  "coded b = (if kept_byte b then [b] else [CHR ''%'', hex_digit (of_char b div 16), hex_digit (of_char b mod 16)])"

definition dir_name :: "string \<Rightarrow> string" where
  "dir_name session_id = concat (map coded session_id)"

definition path_for :: "string option \<Rightarrow> string \<Rightarrow> pathbuf" where
  "path_for session_dir session_id =
     path_join (path_join (parse_path (case session_dir of Some dir \<Rightarrow> dir | None \<Rightarrow> ''sessions''))
        (parse_path (dir_name session_id))) (parse_path ''transcript.jsonl'')"

definition new_transcript :: "string option \<Rightarrow> string \<Rightarrow> message list \<Rightarrow> task_state option \<Rightarrow> transcript" where
  "new_transcript session_dir session_id history task =
     \<lparr>tr_path = path_for session_dir session_id, tr_session_id = session_id, tr_written = length history, tr_task = task,
      tr_pending = []\<rparr>"

text \<open>A session with its file. \<open>ss_printed\<close> collects the documents given to the printer; the code has no such list.\<close>

record session =
  ss_transcript :: transcript
  ss_file :: disk_file
  ss_history :: "message list"
  ss_task :: "task_state option"
  ss_printed :: "json list"

text \<open>What \<open>get_or_create_session\<close> starts from.\<close>

definition stored :: "archive_env \<Rightarrow> disk_file \<Rightarrow> restored" where
  "stored ae f = (case replay ae f of Some r \<Rightarrow> r | None \<Rightarrow> nothing)"

definition open_session :: "archive_env \<Rightarrow> string option \<Rightarrow> string \<Rightarrow> disk_file \<Rightarrow> json list \<Rightarrow> session" where
  "open_session ae session_dir session_id f printed =
     (let r = stored ae f in
      \<lparr>ss_transcript = new_transcript session_dir session_id (re_history r) (re_task r), ss_file = f,
       ss_history = re_history r, ss_task = re_task r, ss_printed = printed\<rparr>)"

text \<open>A turn adds messages and changes the task, or compacts the history.\<close>

datatype change =
    Said "message list" "task_state option"
  | Compacted "message list" nat nat bool

fun queue :: "change \<Rightarrow> (nat \<Rightarrow> string) \<Rightarrow> session \<Rightarrow> session" where
  "queue (Said messages task) clock s =
     s\<lparr>ss_history := ss_history s @ messages, ss_task := task,
       ss_transcript := enqueue clock (ss_history s @ messages) task (ss_transcript s)\<rparr>"
| "queue (Compacted history evicted_messages pinned_messages summarized) clock s =
     s\<lparr>ss_history := history,
       ss_transcript := enqueue_compaction (clock 0) history evicted_messages pinned_messages summarized (ss_transcript s)\<rparr>"

definition write_out :: "archive_env \<Rightarrow> string \<Rightarrow> write_end \<Rightarrow> session \<Rightarrow> session" where
  "write_out ae now w s =
     (case flush ae now w (ss_transcript s) (ss_file s) of
        (tr, f) \<Rightarrow> s\<lparr>ss_transcript := tr, ss_file := f,
          ss_printed := ss_printed s @ (if tr_pending (ss_transcript s) = [] then [] else due ae now (ss_transcript s) (ss_file s))\<rparr>)"

lemma write_out_record:
  "record_history ae clock now w (ss_history s @ messages) task (ss_transcript s) (ss_file s)
     = (ss_transcript (write_out ae now w (queue (Said messages task) clock s)),
        ss_file (write_out ae now w (queue (Said messages task) clock s)))"
  by (simp add: record_history_def write_out_def split: prod.split)

lemma write_out_compaction:
  "record_compaction ae (clock 0) w history evicted_messages pinned_messages summarized (ss_transcript s) (ss_file s)
     = (ss_transcript (write_out ae (clock 0) w (queue (Compacted history evicted_messages pinned_messages summarized) clock s)),
        ss_file (write_out ae (clock 0) w (queue (Compacted history evicted_messages pinned_messages summarized) clock s)))"
  by (simp add: record_compaction_def write_out_def split: prod.split)

text \<open>A change with the end of its append, a change during whose append Pilot dies with \<open>n\<close> bytes written, a restart.\<close>

datatype archive_op =
    Ar_Change change write_end "nat \<Rightarrow> string" string
  | Ar_Crash change nat "nat \<Rightarrow> string" string
  | Ar_Restart

definition reopen :: "archive_env \<Rightarrow> string option \<Rightarrow> session \<Rightarrow> session" where
  "reopen ae session_dir s =
     open_session ae session_dir (tr_session_id (ss_transcript s)) (ss_file s) (ss_printed s)"

fun archive_step :: "archive_env \<Rightarrow> string option \<Rightarrow> archive_op \<Rightarrow> session \<Rightarrow> session" where
  "archive_step ae session_dir (Ar_Change c w clock now) s = write_out ae now w (queue c clock s)"
| "archive_step ae session_dir (Ar_Crash c n clock now) s =
     reopen ae session_dir (write_out ae now (Torn n) (queue c clock s))"
| "archive_step ae session_dir Ar_Restart s = reopen ae session_dir s"

definition archive_run :: "archive_env \<Rightarrow> string option \<Rightarrow> archive_op list \<Rightarrow> session \<Rightarrow> session" where
  "archive_run ae session_dir ops s = fold (archive_step ae session_dir) ops s"


section \<open>The file stands for the session\<close>

definition imageless :: "restored \<Rightarrow> bool" where
  "imageless r \<longleftrightarrow> map no_image (re_history r) = re_history r"

definition tame :: "json \<Rightarrow> bool" where
  "tame j \<longleftrightarrow> (\<forall>r. imageless r \<longrightarrow> imageless (absorb j r))"

definition archived :: "archive_env \<Rightarrow> session \<Rightarrow> bool" where
  "archived ae s \<longleftrightarrow>
     tr_written (ss_transcript s) = length (ss_history s) \<and> tr_task (ss_transcript s) = ss_task s
     \<and> CHR 0x0D \<notin> set (bytes_of (ss_file s)) \<and> list_all tame (tr_pending (ss_transcript s))
     \<and> (utf8 (bytes_of (ss_file s)) \<longrightarrow>
          fold absorb (tr_pending (ss_transcript s)) (stored ae (ss_file s))
            = \<lparr>re_history = map no_image (ss_history s), re_task = ss_task s\<rparr>
          \<and> imageless (stored ae (ss_file s)))"

lemma no_image_twice [simp]: "no_image (no_image m) = no_image m"
  by (simp add: no_image_def)

lemma imageless_map [simp]: "imageless \<lparr>re_history = map no_image ms, re_task = task\<rparr>"
  by (simp add: imageless_def)

lemma tame_records [simp]:
  "tame (message_record now m)" "tame (task_record now task)" "tame (session_record now i v)"
  "tame (compaction_record now history e p b)"
  by (simp_all add: tame_def imageless_def absorb_message absorb_task absorb_session absorb_compaction)





lemma fresh_messages:
  "archived ae s \<Longrightarrow> new_messages clock (ss_history s @ ms) (ss_transcript s)
      = map2 (\<lambda>i m. message_record (clock i) m) [0..<length ms] ms"
  by (simp add: new_messages_def archived_def)

lemma queued:
  assumes "archived ae s" and "tr_pending (ss_transcript s) = []"
  shows "\<exists>js. tr_pending (ss_transcript (queue (Said ms task) clock s))
      = map2 (\<lambda>i m. message_record (clock i) m) [0..<length ms] ms @ js
    \<and> (js = [] \<or> js = [task_record (clock (length ms)) task])"
  using assms by (simp add: enqueue_def Let_def fresh_messages)



lemma tame_due: "list_all tame (tr_pending tr) \<Longrightarrow> list_all tame (due ae now tr f)"
  by (simp add: due_def)





lemma queue_file [simp]: "ss_file (queue c clock s) = ss_file s"
  by (cases c) auto




section \<open>Properties\<close>




lemma unreadable_step: "\<not> utf8 (bytes_of (ss_file s)) \<Longrightarrow> \<not> utf8 (bytes_of (ss_file (archive_step ae session_dir op s)))"
proof -
  assume u: "\<not> utf8 (bytes_of (ss_file s))"
  have w: "\<not> utf8 (bytes_of (ss_file (write_out ae now w (queue c clock s))))" for now w c clock
  proof -
    let ?text = "append_text ae now (ss_transcript (queue c clock s)) (ss_file s)"
    have cut: "\<not> utf8 (bytes_of (ss_file s) @ take n ?text)" for n
      using u utf8_before_append by blast
    from cut [of "length ?text"] cut u show ?thesis
      by (cases w) (auto simp: write_out_def flush_def try_append_def bytes_of_def [of "Some _"])
  qed
  then show ?thesis using u by (cases op) (auto simp: reopen_def open_session_def Let_def)
qed

text \<open>A crash in the middle of a character is fatal: a file that is not UTF-8 never becomes readable again,
  whatever is written after it, so from then on every restart finds an empty session.\<close>

lemma unreadable_forever:
  assumes "\<not> utf8 (bytes_of (ss_file s))"
  shows "ss_history (archive_step ae session_dir Ar_Restart (archive_run ae session_dir ops s)) = []"
proof -
  have "\<not> utf8 (bytes_of (ss_file (archive_run ae session_dir ops s)))"
    using assms unreadable_step by (induction ops arbitrary: s) (auto simp: archive_run_def)
  then have "stored ae (ss_file (archive_run ae session_dir ops s)) = nothing"
    by (auto simp: stored_def replay_def bytes_of_def utf8_def split: option.splits)
  then show ?thesis by (simp add: reopen_def open_session_def nothing_def)
qed

section \<open>One file per session\<close>

lemma hex_digit_in: "n < 16 \<Longrightarrow> hex_digit n \<in> set ''0123456789ABCDEF''"
  unfolding hex_digit_def by (rule nth_mem) simp

lemma hex_digit_inj: "m < 16 \<Longrightarrow> n < 16 \<Longrightarrow> hex_digit m = hex_digit n \<Longrightarrow> m = n"
  unfolding hex_digit_def by (subst (asm) nth_eq_iff_index_eq) auto

lemma coded_inj: "coded a @ x = coded b @ y \<Longrightarrow> a = b \<and> x = y"
proof -
  assume eq: "coded a @ x = coded b @ y"
  have percent: "\<not> kept_byte (CHR ''%'')" by (simp add: kept_byte_def between_def)
  have same: "a = b" if "hex_digit (of_char a div 16) = hex_digit (of_char b div 16)"
    and "hex_digit (of_char a mod 16) = hex_digit (of_char b mod 16)"
  proof -
    have "of_char a div 16 = (of_char b div 16 :: nat)"
      by (rule hex_digit_inj [OF _ _ that(1)]) (simp_all add: less_mult_imp_div_less)
    moreover have "of_char a mod 16 = (of_char b mod 16 :: nat)"
      by (rule hex_digit_inj [OF _ _ that(2)]) simp_all
    ultimately have "of_char a = (of_char b :: nat)" by (metis div_mult_mod_eq)
    then show ?thesis by simp
  qed
  show ?thesis
  proof (cases "kept_byte a \<or> kept_byte b")
    case True
    with eq percent show ?thesis by (cases "kept_byte a"; cases "kept_byte b") (auto simp: coded_def)
  next
    case False
    with eq have "hex_digit (of_char a div 16) = hex_digit (of_char b div 16)"
      and "hex_digit (of_char a mod 16) = hex_digit (of_char b mod 16)" and "x = y"
      by (simp_all add: coded_def)
    with same show ?thesis by blast
  qed
qed

lemma dir_name_inj: "dir_name a = dir_name b \<Longrightarrow> a = b"
proof (induction a arbitrary: b)
  case Nil
  then show ?case by (cases b) (auto simp: dir_name_def coded_def split: if_splits)
next
  case (Cons x a)
  from Cons.prems obtain y b' where b: "b = y # b'"
    by (cases b) (auto simp: dir_name_def coded_def split: if_splits)
  with Cons.prems have "x = y" and "dir_name a = dir_name b'"
    using coded_inj [of x "concat (map coded a)" y "concat (map coded b')"] by (auto simp: dir_name_def)
  with Cons.IH b show ?case by auto
qed

lemma coded_chars: "CHR ''/'' \<notin> set (coded b) \<and> CHR ''.'' \<notin> set (coded b)"
proof -
  have "CHR ''/'' \<noteq> hex_digit n \<and> CHR ''.'' \<noteq> hex_digit n" if "n < 16" for n
    using hex_digit_in [OF that] by auto
  moreover have "(of_char b :: nat) div 16 < 16" by (simp add: less_mult_imp_div_less)
  ultimately show ?thesis by (auto simp: coded_def kept_byte_def between_def)
qed

lemma parse_dir_name:
  "parse_path (dir_name i) = \<lparr>pb_absolute = False, pb_parts = (if dir_name i = [] then [] else [dir_name i]), pb_folder = False\<rparr>"
proof -
  have chars: "CHR ''/'' \<notin> set (dir_name i)" "CHR ''.'' \<notin> set (dir_name i)"
    using coded_chars by (auto simp: dir_name_def)
  then have "\<not> ends_with ''/'' (dir_name i)" unfolding ends_with_iff by fastforce
  moreover from chars have "\<not> starts_with ''/'' (dir_name i)" and "dir_name i \<noteq> ''.''"
    by (cases "dir_name i"; force)+
  ultimately show ?thesis using chars by (simp add: parse_path_def split_on_single Let_def)
qed

text \<open>Distinct sessions have distinct transcripts, whatever characters their ids have, and each lies in
  the folder of the sessions or in a folder directly below it.\<close>

lemma one_transcript_per_session:
  "(path_for session_dir a = path_for session_dir b \<longleftrightarrow> a = b)
   \<and> (\<exists>name. path_for session_dir a
        = path_join (path_join (parse_path (case session_dir of Some dir \<Rightarrow> dir | None \<Rightarrow> ''sessions''))
            \<lparr>pb_absolute = False, pb_parts = name, pb_folder = False\<rparr>) (parse_path ''transcript.jsonl'')
      \<and> length name \<le> 1 \<and> set name \<inter> {''.'', ''..''} = {})"
proof -
  have "CHR ''.'' \<notin> set (dir_name i)" for i using coded_chars by (auto simp: dir_name_def)
  then have dots: "dir_name i \<noteq> ''.''" "dir_name i \<noteq> ''..''" for i by (metis list.set_intros(1))+
  have leaf: "parse_path ''transcript.jsonl'' = \<lparr>pb_absolute = False, pb_parts = [''transcript.jsonl''], pb_folder = False\<rparr>" by code_simp
  have parts: "pb_parts (path_for session_dir i)
      = pb_parts (parse_path (case session_dir of Some dir \<Rightarrow> dir | None \<Rightarrow> ''sessions''))
        @ (if dir_name i = [] then [] else [dir_name i]) @ [''transcript.jsonl'']" for i
    using dots [of i] by (simp add: path_for_def parse_dir_name leaf path_join_def)
  have "dir_name a = dir_name b" if "path_for session_dir a = path_for session_dir b"
  proof -
    from that have "pb_parts (path_for session_dir a) = pb_parts (path_for session_dir b)" by simp
    then show ?thesis unfolding parts by (simp split: if_splits)
  qed
  then have "path_for session_dir a = path_for session_dir b \<longleftrightarrow> a = b" using dir_name_inj by auto
  moreover have "length (if dir_name a = [] then [] else [dir_name a]) \<le> 1"
    and "set (if dir_name a = [] then [] else [dir_name a]) \<inter> {''.'', ''..''} = {}"
    using dots [of a] dots [of a, symmetric] by auto
  ultimately show ?thesis by (metis parse_dir_name path_for_def)
qed

section \<open>A concrete session\<close>

text \<open>A greeting whose append fails and is cut back, an image, then a reply with a character of two bytes. The printer and
  the reader are tables of the documents of the run.\<close>

definition demo_hi :: message where "demo_hi = message_user ''hi''"
definition demo_see :: message where "demo_see = message_user_with_image ''see'' ''aGVs''"
definition demo_eh :: message where "demo_eh = message_assistant [CHR 0xC3, CHR 0xA9]"

definition demo_docs :: "(json \<times> string) list" where
  "demo_docs = [(session_record ''t'' ''s'' ''1'', ''{s}''), (message_record ''t'' demo_hi, ''{hi}''),
     (message_record ''t'' demo_see, ''{see}''), (message_record ''t'' demo_eh, ''{'' @ [CHR 0xC3, CHR 0xA9] @ ''}'')]"

definition demo_archive :: archive_env where
  "demo_archive =
     \<lparr>ae_print = (\<lambda>j. case map_of demo_docs j of Some t \<Rightarrow> t | None \<Rightarrow> ''{?}''),
      ae_read = (\<lambda>t. case find (\<lambda>(j, u). u = t) demo_docs of Some (j, _) \<Rightarrow> Inr j | None \<Rightarrow> Inl ''EOF''),
      ae_version = ''1''\<rparr>"

definition demo_said :: "message list \<Rightarrow> write_end \<Rightarrow> archive_op" where
  "demo_said ms w = Ar_Change (Said ms None) w (\<lambda>_. ''t'') ''t''"

definition demo_crash :: "message list \<Rightarrow> nat \<Rightarrow> archive_op" where
  "demo_crash ms n = Ar_Crash (Said ms None) n (\<lambda>_. ''t'') ''t''"

definition demo_session :: "archive_op list \<Rightarrow> session" where
  "demo_session ops = archive_run demo_archive None ops (open_session demo_archive None ''s'' None [])"

definition demo_start :: "archive_op list" where
  "demo_start = [demo_said [demo_hi] Cut_Back, demo_said [demo_see] Written]"



text \<open>Cut after the first byte of the character.\<close>

theorem unreadable_forever_witness:
  "ss_history (demo_session demo_start) = [demo_hi, demo_see]
   \<and> ss_history (archive_step demo_archive None Ar_Restart
        (archive_run demo_archive None [demo_said [demo_hi] Written] (demo_session (demo_start @ [demo_crash [demo_eh] 2])))) = []"
proof -
  have "\<not> utf8 (bytes_of (ss_file (demo_session (demo_start @ [demo_crash [demo_eh] 2]))))"
    and "ss_history (demo_session demo_start) = [demo_hi, demo_see]" by code_simp+
  then show ?thesis using unreadable_forever by blast
qed

end
