(* ===== verification/Pilot_Prompt.thy ===== *)
theory Pilot_Prompt
  imports Pilot_Transcript
begin

text \<open>
  What a planning request shows the model beside its standing instructions: \<open>system/pilot/src/prompt.rs\<close>, and the blocks on
  running plans of \<open>planner.rs\<close>. The catalogue of capabilities is told in full once and then by its changes; tables are
  sorted by key, as a \<open>BTreeMap\<close> is. Log records, and the ratios in them, are left out.

  The main result: whoever reads the records that reached the history knows the catalogue of the round, however rounds are
  dropped and the history is compacted in between.
\<close>

section \<open>Token counts\<close>

record vlm_usage =
  vu_prompt_tokens :: u64
  vu_completion_tokens :: u64
  vu_cached_tokens :: "u64 option"

record usage_totals =
  ut_requests_with_usage :: u64
  ut_input_tokens :: u64
  ut_output_tokens :: u64
  ut_requests_with_cache_metrics :: u64
  ut_cache_hit_requests :: u64
  ut_cache_metric_input_tokens :: u64
  ut_cached_input_tokens :: u64
  ut_uncached_input_tokens :: u64

definition record_usage :: "vlm_usage \<Rightarrow> usage_totals \<Rightarrow> usage_totals" where
  "record_usage usage t =
     (let t = t\<lparr>ut_requests_with_usage := saturating_add (ut_requests_with_usage t) 1,
                ut_input_tokens := saturating_add (ut_input_tokens t) (vu_prompt_tokens usage),
                ut_output_tokens := saturating_add (ut_output_tokens t) (vu_completion_tokens usage)\<rparr>
      in case vu_cached_tokens usage of
           None \<Rightarrow> t
         | Some hits \<Rightarrow>
             (let cached = min hits (vu_prompt_tokens usage);
                  t = t\<lparr>ut_requests_with_cache_metrics := saturating_add (ut_requests_with_cache_metrics t) 1,
                        ut_cache_metric_input_tokens := saturating_add (ut_cache_metric_input_tokens t) (vu_prompt_tokens usage),
                        ut_cached_input_tokens := saturating_add (ut_cached_input_tokens t) cached,
                        ut_uncached_input_tokens := saturating_add (ut_uncached_input_tokens t)
                          (saturating_sub (vu_prompt_tokens usage) cached)\<rparr>
              in if cached > 0 then t\<lparr>ut_cache_hit_requests := saturating_add (ut_cache_hit_requests t) 1\<rparr> else t))"

section \<open>The messages of a request\<close>

definition render_context_sections :: "(string \<times> string) list \<Rightarrow> string" where
  "render_context_sections sections = concat (map snd sections)"

definition continue_note :: string where
  "continue_note = ''Continue from the state above. Take the next action, or give your final answer if the task is complete.''"

definition close_trailing_assistant :: "message list \<Rightarrow> message list" where
  "close_trailing_assistant messages =
     (if messages \<noteq> [] \<and> m_role (last messages) = ''assistant'' then messages @ [message_user continue_note] else messages)"

definition assemble_planning_messages :: "(string \<times> string) list \<Rightarrow> message list \<Rightarrow> message list" where
  "assemble_planning_messages sections history =
     close_trailing_assistant (message_system (render_context_sections sections) # sanitize_for_vlm history)"

definition render_capability_docs :: "cap_doc list \<Rightarrow> string" where
  "render_capability_docs docs =
     (if docs = [] then []
      else newline @ newline @ ''## Capability docs'' @ newline @ ''Read a `[skill]` provider's manual with `read_capability_doc` before its first call; primitive and service manuals are optional. Use only the listed provider id.'' @ newline
        @ concat (map (\<lambda>d. ''- `'' @ cdoc_provider_id d @ ''`'' @ (if cdoc_kind d = ''skill'' then '' [skill]'' else [])
            @ '': '' @ cdoc_description d @ newline) docs))"

text \<open>A request never ends with the assistant's turn, and keeps the history in order behind the standing sections.\<close>

lemma request_ends_with_another:
  "m_role (last (assemble_planning_messages sections history)) \<noteq> ''assistant''"
  by (auto simp: assemble_planning_messages_def close_trailing_assistant_def message_user_def)

lemma request_keeps_history:
  "prefix (message_system (render_context_sections sections) # sanitize_for_vlm history)
     (assemble_planning_messages sections history)"
  by (simp add: assemble_planning_messages_def close_trailing_assistant_def)

section \<open>The catalogue\<close>

type_synonym entries = "(string \<times> string) list"

definition max_inline_description_chars :: nat where "max_inline_description_chars = 300"

definition summarize_description :: "string \<Rightarrow> string \<times> bool" where
  "summarize_description description =
     (let full = trim description;
          opening = trim (case split_once_str (newline @ newline) full of Some (a, _) \<Rightarrow> a | None \<Rightarrow> full);
          summary = take_chars max_inline_description_chars opening
      in (summary, length summary < length full))"

definition catalog_entry :: "printers \<Rightarrow> display_capability \<Rightarrow> string \<Rightarrow> string" where
  "catalog_entry pp cap schema_json =
     (case summarize_description (c_description (dc_cap cap)) of
        (summary, shortened) \<Rightarrow>
          ''- capability_name: '' @ dc_display_name cap @ newline @ ''  description: '' @ pp_json pp (JStr summary) @ newline
          @ ''  args_schema: '' @ pp_json pp (case pp_read pp schema_json of Inr v \<Rightarrow> v | Inl _ \<Rightarrow> JNull) @ newline
          @ (if shortened
             then ''  more: call `read_capability_doc` with provider_id `'' @ dc_provider_id cap
               @ ''` for this capability's full description'' @ newline
             else []))"

definition capability_entries :: "printers \<Rightarrow> display_capability list \<Rightarrow> entries" where
  "capability_entries pp caps =
     fold (\<lambda>cap m. case c_params (dc_cap cap) of
         Some (Some (Wire_Mcp schema_json)) \<Rightarrow> obj_insert (dc_display_name cap) (catalog_entry pp cap schema_json) m
       | _ \<Rightarrow> m) caps []"

definition render_full_catalog :: "entries \<Rightarrow> string" where
  "render_full_catalog es = newline @ newline @ ''## Available capabilities'' @ newline @ ''This is the complete catalog; it replaces any earlier catalog in this conversation.'' @ newline @ newline @ concat (map snd es)"

text \<open>What changed: entries added, entries with a new text, names gone.\<close>

definition catalog_changes :: "entries \<Rightarrow> entries \<Rightarrow> entries \<times> entries \<times> string list" where
  "catalog_changes shown current =
     (filter (\<lambda>(n, _). map_of shown n = None) current,
      filter (\<lambda>(n, e). case map_of shown n of Some old \<Rightarrow> old \<noteq> e | None \<Rightarrow> False) current,
      filter (\<lambda>n. map_of current n = None) (map fst shown))"

definition render_catalog_changes :: "entries \<times> entries \<times> string list \<Rightarrow> string" where
  "render_catalog_changes changes =
     (case changes of (added, changed, removed) \<Rightarrow>
        if added = [] \<and> changed = [] \<and> removed = [] then []
        else newline @ newline @ ''## Available capabilities: changes'' @ newline @ ''Apply these to the latest catalog above; entries not listed are unchanged.'' @ newline
          @ (if added = [] then [] else ''Added:'' @ newline @ concat (map snd added))
          @ (if changed = [] then [] else ''Changed (new entry):'' @ newline @ concat (map snd changed))
          @ (if removed = [] then []
             else ''Removed, no longer callable: '' @ join '', '' (map (\<lambda>n. ''`'' @ n @ ''`'') removed) @ newline))"

text \<open>The record of a round, before it is a text.\<close>

datatype catalog_record = Full entries | Changes "entries \<times> entries \<times> string list"

definition render_record :: "catalog_record \<Rightarrow> string" where
  "render_record r = (case r of Full es \<Rightarrow> render_full_catalog es | Changes c \<Rightarrow> render_catalog_changes c)"

record catalog_view =
  cv_shown :: "entries option"
  cv_staged :: "entries option"

definition no_view :: catalog_view where
  "no_view = \<lparr>cv_shown = None, cv_staged = None\<rparr>"

definition round_record :: "catalog_view \<Rightarrow> entries \<Rightarrow> catalog_record" where
  "round_record view current =
     (case cv_shown view of None \<Rightarrow> Full current | Some shown \<Rightarrow> Changes (catalog_changes shown current))"

definition update_view :: "printers \<Rightarrow> display_capability list \<Rightarrow> catalog_view \<Rightarrow> string \<times> catalog_view" where
  "update_view pp caps view =
     (let current = capability_entries pp caps in
      (render_record (round_record view current), view\<lparr>cv_staged := Some current\<rparr>))"

definition commit_view :: "catalog_view \<Rightarrow> catalog_view" where
  "commit_view view =
     (case cv_staged view of Some staged \<Rightarrow> view\<lparr>cv_shown := Some staged, cv_staged := None\<rparr> | None \<Rightarrow> view)"

definition reset_view :: "catalog_view \<Rightarrow> catalog_view" where
  "reset_view view = view\<lparr>cv_shown := None\<rparr>"

text \<open>The tables are sorted, so a table is determined by what it maps.\<close>

lemma insert_keys: "set (map fst (obj_insert k v obj)) = insert k (set (map fst obj))"
proof (induction obj)
  case (Cons e obj)
  then show ?case by (cases e) (simp add: insert_commute)
qed simp

lemma insert_sorted: "sorted_wrt (<) (map fst obj) \<Longrightarrow> sorted_wrt (<) (map fst (obj_insert k v obj))"
proof (induction obj)
  case (Cons e obj)
  obtain k' v' where e: "e = (k', v')" by force
  from Cons.prems have above: "\<forall>x\<in>set (map fst obj). k' < x" and rest: "sorted_wrt (<) (map fst obj)"
    by (simp_all add: e)
  consider "k = k'" | "k < k'" | "k' < k" by (metis linorder_cases)
  then show ?case
  proof cases
    case 3
    have "\<forall>x\<in>set (map fst (obj_insert k v obj)). k' < x" using above 3 by (simp only: insert_keys) auto
    with 3 Cons.IH [OF rest] show ?thesis by (auto simp: e)
  qed (use above rest in \<open>auto simp: e\<close>)
qed simp

lemma entries_sorted: "sorted_wrt (<) (map fst (capability_entries pp caps))"
proof -
  have "sorted_wrt (<) (map fst m) \<Longrightarrow> sorted_wrt (<) (map fst (fold (\<lambda>cap m. case c_params (dc_cap cap) of
         Some (Some (Wire_Mcp schema_json)) \<Rightarrow> obj_insert (dc_display_name cap) (catalog_entry pp cap schema_json) m
       | _ \<Rightarrow> m) caps m))" for m
    by (induction caps arbitrary: m) (auto intro!: insert_sorted split: option.split wire_params.split)
  from this [of "[]"] show ?thesis by (simp add: capability_entries_def)
qed

lemma entries_distinct: "distinct (map fst (capability_entries pp caps))"
  using entries_sorted strict_sorted_iff by blast

text \<open>Reading a record on top of what was known, and the reader's knowledge after all records of the history.\<close>

definition read_record :: "catalog_record \<Rightarrow> (string \<Rightarrow> string option) \<Rightarrow> string \<Rightarrow> string option" where
  "read_record r known =
     (case r of Full es \<Rightarrow> map_of es
      | Changes (added, changed, removed) \<Rightarrow>
          (\<lambda>n. if n \<in> set removed then None else case map_of (added @ changed) n of Some e \<Rightarrow> Some e | None \<Rightarrow> known n))"

lemma read_changes:
  assumes "distinct (map fst current)"
  shows "read_record (Changes (catalog_changes shown current)) (map_of shown) = map_of current"
proof
  fix n
  have removed: "n \<in> set (filter (\<lambda>n. map_of current n = None) (map fst shown)) \<longleftrightarrow> map_of current n = None \<and> map_of shown n \<noteq> None"
    by (auto simp: map_of_eq_None_iff)
  show "read_record (Changes (catalog_changes shown current)) (map_of shown) n = map_of current n"
    unfolding read_record_def catalog_changes_def catalog_record.case prod.case removed map_of_append map_add_def
    by (simp only: map_of_filter_distinct [OF assms]) (auto split: option.splits)
qed

text \<open>
  A round: the history may be compacted, which may lose the oldest records; the round's record then reaches the history or is
  dropped with the round.
\<close>

datatype round = Round (compacted: "nat option") (offered: "display_capability list") (reached: bool)

definition prompt_round :: "printers \<Rightarrow> round \<Rightarrow> catalog_view \<times> catalog_record list \<Rightarrow> catalog_view \<times> catalog_record list" where
  "prompt_round pp r = (\<lambda>(view, records).
     let view = (if compacted r = None then view else reset_view view);
         records = (case compacted r of Some k \<Rightarrow> drop k records | None \<Rightarrow> records);
         new = round_record view (capability_entries pp (offered r));
         view = snd (update_view pp (offered r) view)
     in if reached r then (commit_view view, records @ [new]) else (view, records))"

definition reading :: "catalog_record list \<Rightarrow> (string \<Rightarrow> string option) \<Rightarrow> string \<Rightarrow> string option" where
  "reading records known = fold read_record records known"

text \<open>Whoever reads the records knows what the view says was shown.\<close>

definition view_true :: "catalog_view \<times> catalog_record list \<Rightarrow> bool" where
  "view_true s = (\<forall>shown known. cv_shown (fst s) = Some shown \<longrightarrow> reading (snd s) known = map_of shown)"

lemma reads_round:
  assumes "view_true (view, records)"
  shows "reading (records @ [round_record view (capability_entries pp caps)]) known = map_of (capability_entries pp caps)"
proof -
  have one: "reading (records @ [r]) known = read_record r (reading records known)" for r
    by (simp add: reading_def)
  show ?thesis
  proof (cases "cv_shown view")
    case None
    then show ?thesis by (simp add: one round_record_def read_record_def)
  next
    case (Some shown)
    with assms have "reading records known = map_of shown" by (simp add: view_true_def)
    with Some show ?thesis by (simp add: one round_record_def read_changes [OF entries_distinct])
  qed
qed

lemma round_keeps_view: "view_true s \<Longrightarrow> view_true (prompt_round pp r s)"
proof (cases s)
  case (Pair view records)
  assume "view_true s"
  define view' where "view' = (if compacted r = None then view else reset_view view)"
  define records' where "records' = (case compacted r of Some k \<Rightarrow> drop k records | None \<Rightarrow> records)"
  have true: "view_true (view', records')"
    using \<open>view_true s\<close> by (auto simp: Pair view_true_def view'_def records'_def reset_view_def split: option.split)
  from reads_round [OF this, of pp "offered r"] true show ?thesis
    by (simp add: prompt_round_def Pair view'_def [symmetric] records'_def [symmetric] Let_def update_view_def commit_view_def)
      (simp add: view_true_def)
qed

lemma rounds_keep_view: "view_true s \<Longrightarrow> view_true (fold (prompt_round pp) rs s)"
  by (induction rs arbitrary: s) (simp_all add: round_keeps_view)

text \<open>C40 (refinement). From a fresh view, and whatever records earlier turns left in the history: the records of the last round that reached the
  history, read in order on top of anything, give that round's catalogue.
\<close>

theorem reader_knows_the_catalogue:
  assumes "reached r"
  shows "reading (snd (prompt_round pp r (fold (prompt_round pp) rs (no_view, earlier)))) known
    = map_of (capability_entries pp (offered r))"
proof -
  have "view_true (no_view, earlier)" by (simp add: view_true_def no_view_def)
  then have "view_true (prompt_round pp r (fold (prompt_round pp) rs (no_view, earlier)))"
    by (intro round_keeps_view rounds_keep_view)
  then show ?thesis
    using assms by (simp add: view_true_def prompt_round_def Let_def update_view_def commit_view_def split: prod.splits)
qed

definition demo_catalogue :: "display_capability list" where
  "demo_catalogue = [\<lparr>dc_display_name = ''cam.shot'', dc_provider_id = ''cam'',
     dc_cap = \<lparr>c_provider_id = ''cam'', c_provider_kind = 1, c_contract_id = ''a/shot'', c_transport = 3,
       c_params = Some (Some (Wire_Mcp ''{}'')), c_description = ''Takes a picture.'', c_namespace_mismatch = False\<rparr>\<rparr>]"

definition plain_printers :: printers where
  "plain_printers = \<lparr>pp_read = (\<lambda>_. Inl []), pp_json = (\<lambda>_. ''-''), pp_debug = (\<lambda>s. s)\<rparr>"

theorem reader_knows_the_catalogue_witness:
  "reading (snd (prompt_round plain_printers (Round (Some 1) demo_catalogue True)
      (fold (prompt_round plain_printers) [Round None demo_catalogue True, Round None [] False] (no_view, [])))) Map.empty ''cam.shot''
    = Some (''- capability_name: cam.shot'' @ newline @ ''  description: -'' @ newline @ ''  args_schema: -'' @ newline)"
proof -
  have r: "reached (Round (Some 1) demo_catalogue True)" and o: "offered (Round (Some 1) demo_catalogue True) = demo_catalogue" by simp_all
  show ?thesis unfolding reader_knows_the_catalogue [OF r] o by code_simp
qed

text \<open>Nothing is said in a round that finds the catalogue as it was shown.\<close>

lemma silent_iff_unchanged:
  assumes "cv_shown view = Some shown" and shown: "distinct (map fst shown)"
  shows "fst (update_view pp caps view) = [] \<longleftrightarrow> map_of shown = map_of (capability_entries pp caps)"
proof -
  let ?current = "capability_entries pp caps"
  have "catalog_changes shown ?current = ([], [], []) \<longleftrightarrow> map_of shown = map_of ?current"
  proof
    assume "catalog_changes shown ?current = ([], [], [])"
    with read_changes [OF entries_distinct, of shown pp caps] show "map_of shown = map_of ?current"
      by (simp add: read_record_def)
  next
    assume eq: "map_of shown = map_of ?current"
    have "map_of ?current n = Some e" if "(n, e) \<in> set ?current" for n e
      using that entries_distinct by (metis map_of_is_SomeI)
    moreover have "map_of shown n \<noteq> None" if "n \<in> fst ` set shown" for n
      using that by (simp add: map_of_eq_None_iff)
    ultimately show "catalog_changes shown ?current = ([], [], [])"
      by (auto simp: catalog_changes_def eq filter_empty_conv)
  qed
  then show ?thesis
    using assms(1) by (cases "catalog_changes shown ?current")
      (simp add: update_view_def round_record_def render_record_def render_catalog_changes_def Let_def)
qed

section \<open>Running plans\<close>

definition plan_counter :: "string \<Rightarrow> nat" where
  "plan_counter plan_id = (case parse_usize (leaf_after (CHR ''-'') plan_id) of Some n \<Rightarrow> n | None \<Rightarrow> 2 ^ 64 - 1)"

definition step_lines :: "tree_meta \<Rightarrow> string" where
  "step_lines meta =
     concat (map (\<lambda>(i, s). ''  '' @ show_nat (i + 1) @ ''. op_id='' @ sp_op_id s @ '' ['' @ sp_capability s @ ''] ''
         @ sp_description s @ newline) (zip [0..<length (tm_steps meta)] (tm_steps meta)))"

text \<open>The trees a block lists, oldest first.\<close>

definition listed_trees :: "forest \<Rightarrow> string set \<Rightarrow> (string \<times> tree_meta) list" where
  "listed_trees forest cancel_requested =
     sort_key (\<lambda>(plan_id, _). plan_counter plan_id)
       (filter (\<lambda>(plan_id, meta). \<not> tm_control_only meta \<and> plan_id \<notin> cancel_requested) forest)"

definition build_forest_block :: "forest \<Rightarrow> string set \<Rightarrow> string" where
  "build_forest_block forest cancel_requested =
     (let trees = listed_trees forest cancel_requested in
      if trees = [] then []
      else newline @ newline @ ''## In-flight trees'' @ newline @ ''These RTDL trees you dispatched earlier are still running concurrently. Plan control is NOT a capability call and must never be placed inside a sequence, parallel, or do node. To stop one immediately, emit a root `cancel_plan` meta op with its exact `plan_id` below; to stop all work, emit a root `cancel_all` meta op. Every plan's ordered executable steps are listed below. To stop at a requested semantic boundary (for example after step 8 or after reaching the restaurant), emit a root `stop_plan_at` meta op with that `plan_id`, the chosen `target_op_id`, and `when` (`on_enter` to stop before that op runs, `on_complete` to stop after it finishes). Do not assume the target is the currently running step, and do not query status first when the requested boundary is already present in this list. Bind the user's named boundary literally: `after X` means X/on_complete and `before X` means X/on_enter. Never rewrite `after X` as `before` its successor because those are not equivalent in branching/parallel trees. It cancels the whole plan when execution reaches that op. Cancel/stop each plan_id at most once '' @ [CHR 0xE2] @ [CHR 0x80] @ [CHR 0x94] @ '' a cancel that returned is already stopping; do NOT re-issue it. Do not reuse these ids for new trees. If an in-flight plan is already executing the same goal, do not cancel or re-issue it; wait for it to finish. This block contains trees owned by the current Pilot supervisor only. The authoritative Executor snapshot below may contain additional plans started by an earlier interaction. Never use this local block alone to answer how many tasks are running.'' @ newline
        @ concat (map (\<lambda>(plan_id, meta). ''- plan_id='' @ plan_id @ '' running: '' @ tm_description meta @ newline
            @ step_lines meta) trees))"

definition executor_active_snapshot :: "printers \<Rightarrow> string option \<Rightarrow> string \<times> nat option" where
  "executor_active_snapshot pp plans_json =
     (let unavailable = (newline @ newline @ ''## Executor active plans (authoritative live snapshot)'' @ newline @ ''- status: unavailable'' @ newline @ ''The live query failed. Never guess a task count or claim that no task is running. Tell the user that current execution state could not be verified.'' @ newline, None) in
      case plans_json of
        None \<Rightarrow> unavailable
      | Some raw \<Rightarrow>
          (case pp_read pp raw of
             Inl _ \<Rightarrow> unavailable
           | Inr v \<Rightarrow>
               (case json_get ''plans'' v of
                  Some (JArr plans) \<Rightarrow>
                    (newline @ newline @ ''## Executor active plans (authoritative live snapshot)'' @ newline @ ''This is the source of truth for every currently running RTDL plan, including long-running skills started by earlier interactions. For questions about running task count, names, state, or cancellation targets, answer from this snapshot rather than conversation history or the local forest. A plan remains running while listed here even when its provider is internally idle or motion-gated. Never say that no task is running unless count is exactly 0.'' @ newline @ ''snapshot_json: ''
                       @ pp_json pp (JObj [(''count'', JNum (length plans)), (''plans'', JArr plans)]) @ newline,
                     Some (length plans))
                | _ \<Rightarrow> unavailable)))"

lemma snapshot_count: "snd (executor_active_snapshot pp plans_json) = executor_active_count (pp_read pp) plans_json"
  by (auto simp: executor_active_snapshot_def executor_active_count_def Let_def split: option.split sum.split json.split)

text \<open>A plan with a stop point, which runs on up to there, is not listed any more.\<close>

lemma stopping_tree_is_hidden: "plan_id \<in> cancel_requested \<Longrightarrow> (plan_id, meta) \<notin> set (listed_trees forest cancel_requested)"
  by (simp add: listed_trees_def)

end
