(* ===== verification/Vitals_Health.thy ===== *)
theory Vitals_Health
  imports Exec_Control Pilot_Service Pilot_Transcript
begin

text \<open>
  The health of the system's modules as Vitals keeps it: \<open>system/vitals/src/module_health.rs\<close>, the poller of
  \<open>module_health_poll.rs\<close>, and the calls between them in \<open>service.rs\<close>. The store is a \<open>BTreeMap\<close> from module keys to the
  last known health; every change of a health is an event, and the last 256 events are kept. The clock is an input, as are
  the answers of the modules; log lines are left out, and so are the counters' wrap-around after 2^64 events.

  The main results: the events of a module chain from one health to the next and end at the one in the store; the kept
  events are the last 256 of all; a module that falls silent is in error by the first poll after its time to live.
\<close>

section \<open>Change logs\<close>

text \<open>A state that remembers a value per key and emits an event for each change of one.\<close>

fun log_run :: "('op \<Rightarrow> 's \<Rightarrow> 'e option \<times> 's) \<Rightarrow> 'op list \<Rightarrow> 's \<Rightarrow> 'e list \<times> 's" where
  "log_run step [] s = ([], s)"
| "log_run step (op # ops) s =
     (case step op s of (e, s') \<Rightarrow>
        (case log_run step ops s' of (es, t) \<Rightarrow> ((case e of Some x \<Rightarrow> x # es | None \<Rightarrow> es), t)))"

fun chain :: "('e \<Rightarrow> 'h) \<Rightarrow> ('e \<Rightarrow> 'h) \<Rightarrow> 'h \<Rightarrow> 'e list \<Rightarrow> 'h \<Rightarrow> bool" where
  "chain old new h [] h' = (h = h')"
| "chain old new h (e # es) h' = (old e = h \<and> new e \<noteq> h \<and> chain old new (new e) es h')"

locale change_log =
  fixes step :: "'op \<Rightarrow> 's \<Rightarrow> 'e option \<times> 's"
    and val :: "'s \<Rightarrow> 'k \<Rightarrow> 'h option"
    and key :: "'e \<Rightarrow> 'k"
    and old :: "'e \<Rightarrow> 'h"
    and new :: "'e \<Rightarrow> 'h"
    and good :: "'s \<Rightarrow> bool"
  assumes keeps: "good s \<Longrightarrow> good (snd (step op s))"
    and told: "\<lbrakk>good s; fst (step op s) = Some e\<rbrakk> \<Longrightarrow>
      new e \<noteq> old e \<and> val (snd (step op s)) (key e) = Some (new e) \<and> val s (key e) \<in> {None, Some (old e)}"
    and untold: "\<lbrakk>good s; val s k = Some h; val (snd (step op s)) k \<noteq> Some h\<rbrakk> \<Longrightarrow> \<exists>e. fst (step op s) = Some e \<and> key e = k"
begin

lemma known_key:
  assumes "good s" and "val s k = Some h" and "log_run step ops s = (es, t)"
  shows "\<exists>h'. val t k = Some h' \<and> chain old new h (filter (\<lambda>e. key e = k) es) h'"
  using assms
proof (induction ops arbitrary: s h es)
  case (Cons op ops)
  obtain e s' where st: "step op s = (e, s')" by force
  obtain es' where run: "log_run step ops s' = (es', t)" and es: "es = (case e of Some x \<Rightarrow> x # es' | None \<Rightarrow> es')"
    using Cons.prems(3) by (auto simp: st split: prod.splits)
  have good: "good s'" using keeps [OF Cons.prems(1), of op] by (simp add: st)
  show ?case
  proof (cases "\<exists>x. e = Some x \<and> key x = k")
    case True
    then obtain x where x: "e = Some x" "key x = k" by blast
    with told [OF Cons.prems(1), of op x] Cons.prems(2) have "new x \<noteq> h" "old x = h" "val s' k = Some (new x)" by (auto simp: st)
    with Cons.IH [OF good this(3) run] show ?thesis by (auto simp: es x)
  next
    case False
    with untold [OF Cons.prems(1,2), of op] have "val s' k = Some h" by (auto simp: st)
    from Cons.IH [OF good this run] False show ?thesis by (auto simp: es split: option.split)
  qed
qed simp

lemma unknown_key:
  assumes "good s" and "val s k = None" and "log_run step ops s = (es, t)"
  shows "case val t k of None \<Rightarrow> filter (\<lambda>e. key e = k) es = []
    | Some h' \<Rightarrow> \<exists>h. chain old new h (filter (\<lambda>e. key e = k) es) h'"
  using assms
proof (induction ops arbitrary: s es)
  case (Cons op ops)
  obtain e s' where st: "step op s = (e, s')" by force
  obtain es' where run: "log_run step ops s' = (es', t)" and es: "es = (case e of Some x \<Rightarrow> x # es' | None \<Rightarrow> es')"
    using Cons.prems(3) by (auto simp: st split: prod.splits)
  have good: "good s'" using keeps [OF Cons.prems(1), of op] by (simp add: st)
  show ?case
  proof (cases "val s' k")
    case None
    then have "\<not> (\<exists>x. e = Some x \<and> key x = k)" using told [OF Cons.prems(1), of op] by (auto simp: st)
    with Cons.IH [OF good None run] show ?thesis by (auto simp: es split: option.splits)
  next
    case (Some h)
    from known_key [OF good this run] obtain h' where last: "val t k = Some h'"
      and ch: "chain old new h (filter (\<lambda>e. key e = k) es') h'" by blast
    show ?thesis
    proof (cases "\<exists>x. e = Some x \<and> key x = k")
      case True
      then obtain x where x: "e = Some x" "key x = k" by blast
      with told [OF Cons.prems(1), of op x] Some have "new x \<noteq> old x" "new x = h" by (auto simp: st)
      with ch have "chain old new (old x) (filter (\<lambda>e. key e = k) es) h'" by (simp add: es x)
      with last show ?thesis by auto
    next
      case False
      with ch have "chain old new h (filter (\<lambda>e. key e = k) es) h'" by (auto simp: es split: option.split)
      with last show ?thesis by auto
    qed
  qed
qed (simp)

end

section \<open>The store\<close>

definition module_health_schema_version :: nat where "module_health_schema_version = 1"
definition health_ok :: nat where "health_ok = 0"
definition health_warn :: nat where "health_warn = 1"
definition health_error :: nat where "health_error = 2"
definition source_self_reported :: string where "source_self_reported = ''SELF_REPORTED''"
definition source_stale :: string where "source_stale = ''VITALS_SYNTHESIZED_STALE''"
definition source_config_disabled :: string where "source_config_disabled = ''CONFIG_DISABLED''"
definition max_events :: nat where "max_events = 256"
definition stale_reason_code :: string where "stale_reason_code = ''STALE''"
definition stale_detail :: string where "stale_detail = ''no health report received within ttl''"
definition disabled_reason_code :: string where "disabled_reason_code = ''DISABLED''"
definition disabled_detail :: string where "disabled_detail = ''disabled by deployment config''"
definition ns_per_ms :: u64 where "ns_per_ms = 1000000"

lemmas health_consts = health_ok_def health_warn_def health_error_def source_self_reported_def source_stale_def
  source_config_disabled_def stale_reason_code_def stale_detail_def disabled_reason_code_def disabled_detail_def
  module_health_schema_version_def

datatype module_health_error = Unsupported_Schema_Version nat nat | Missing_Module | Missing_Module_Id

definition module_health_error_text :: "module_health_error \<Rightarrow> string" where
  "module_health_error_text e =
     (case e of
        Unsupported_Schema_Version g x \<Rightarrow>
          ''unsupported module health schema_version='' @ show_nat g @ '', expected '' @ show_nat x
      | Missing_Module \<Rightarrow> ''module health report missing module''
      | Missing_Module_Id \<Rightarrow> ''module health report missing module_id'')"

record module_health_event =
  he_ts_ns :: u64
  he_seq :: nat
  he_module_key :: string
  he_previous_health :: nat
  he_current_health :: nat
  he_reason_code :: string
  he_detail :: string
  he_source :: string

record health_store =
  hs_latest :: "(string \<times> module_health) list"
  hs_events :: "module_health_event list"
  hs_snapshot_seq :: nat
  hs_event_seq :: nat

definition new_health_store :: health_store where
  "new_health_store = \<lparr>hs_latest = [], hs_events = [], hs_snapshot_seq = 0, hs_event_seq = 0\<rparr>"

definition module_key_from_parts :: "string \<Rightarrow> string \<Rightarrow> string" where
  "module_key_from_parts module_id provider_id =
     (let provider_id = trim provider_id in if provider_id \<noteq> [] then provider_id else trim module_id)"

definition module_key_for :: "module_health \<Rightarrow> string" where
  "module_key_for m = module_key_from_parts (mh_module_id m) (mh_provider_id m)"

definition is_expired :: "module_health \<Rightarrow> u64 \<Rightarrow> bool" where
  "is_expired m now_ns \<longleftrightarrow>
     saturating_add (mh_received_ts_ns m) (saturating_mul (ucast (mh_ttl_ms m)) ns_per_ms) \<le> now_ns"

definition event_of :: "nat \<Rightarrow> module_health \<Rightarrow> u64 \<Rightarrow> nat \<Rightarrow> module_health_event" where
  "event_of previous current ts_ns seq =
     \<lparr>he_ts_ns = ts_ns, he_seq = seq, he_module_key = mh_module_key current, he_previous_health = previous,
      he_current_health = mh_health current, he_reason_code = mh_reason_code current, he_detail = mh_detail current,
      he_source = mh_source current\<rparr>"

definition health_transition_event ::
  "module_health \<Rightarrow> module_health \<Rightarrow> u64 \<Rightarrow> health_store \<Rightarrow> module_health_event option \<times> health_store" where
  "health_transition_event previous current ts_ns s =
     (if mh_health previous = mh_health current then (None, s)
      else (let seq = hs_event_seq s + 1 in
        (Some (event_of (mh_health previous) current ts_ns seq), s\<lparr>hs_event_seq := seq\<rparr>)))"

definition push_event :: "module_health_event \<Rightarrow> health_store \<Rightarrow> health_store" where
  "push_event e s =
     (let kept = (if length (hs_events s) = max_events then tl (hs_events s) else hs_events s)
      in s\<lparr>hs_events := kept @ [e]\<rparr>)"

text \<open>The end of every update: the new health is stored, and its event, if there is one, kept.\<close>

definition store_health :: "module_health \<Rightarrow> module_health_event option \<times> health_store \<Rightarrow> module_health_event option \<times> health_store" where
  "store_health current = (\<lambda>(event, s).
     let s = s\<lparr>hs_latest := obj_insert (mh_module_key current) current (hs_latest s)\<rparr>
     in (event, case event of Some e \<Rightarrow> push_event e s | None \<Rightarrow> s))"

definition ingest_report ::
  "module_health_report \<Rightarrow> u64 \<Rightarrow> health_store \<Rightarrow> (module_health_error + module_health_event option) \<times> health_store" where
  "ingest_report report received_ts_ns s =
     (if mr_schema_version report \<noteq> module_health_schema_version
      then (Inl (Unsupported_Schema_Version (mr_schema_version report) module_health_schema_version), s)
      else case mr_module report of
        None \<Rightarrow> (Inl Missing_Module, s)
      | Some m \<Rightarrow>
          if trim (mh_module_id m) = [] then (Inl Missing_Module_Id, s)
          else
            (let module_key = module_key_for m;
                 m = m\<lparr>mh_module_key := module_key, mh_source := source_self_reported, mh_received_ts_ns := received_ts_ns\<rparr>;
                 (event, s) = store_health m
                   (case map_of (hs_latest s) module_key of
                      Some previous \<Rightarrow> health_transition_event previous m received_ts_ns s
                    | None \<Rightarrow> (None, s))
             in (Inr event, s)))"

definition synthesize_stale_if_expired ::
  "string \<Rightarrow> nat \<Rightarrow> u64 \<Rightarrow> health_store \<Rightarrow> module_health_event option \<times> health_store" where
  "synthesize_stale_if_expired module_key stale_health now_ns s =
     (case map_of (hs_latest s) module_key of
        None \<Rightarrow> (None, s)
      | Some previous \<Rightarrow>
          if mh_ttl_ms previous = 0 \<or> \<not> is_expired previous now_ns then (None, s)
          else if mh_source previous = source_stale \<and> mh_reason_code previous = stale_reason_code
            \<and> mh_health previous = stale_health then (None, s)
          else
            (let current = previous\<lparr>mh_health := stale_health, mh_state := ''stale'', mh_reason_code := stale_reason_code,
                   mh_detail := stale_detail, mh_source := source_stale, mh_received_ts_ns := now_ns\<rparr>;
                 (event, s) = health_transition_event previous current now_ns s;
                 s = s\<lparr>hs_latest := obj_insert module_key current (hs_latest s)\<rparr>
             in (event, case event of Some e \<Rightarrow> push_event e s | None \<Rightarrow> s)))"

definition upsert_synthesized ::
  "module_health \<Rightarrow> u64 \<Rightarrow> bool \<Rightarrow> health_store \<Rightarrow> module_health_event option \<times> health_store" where
  "upsert_synthesized current now_ns emit_initial_non_ok s =
     (let module_key = module_key_for current;
          current = current\<lparr>mh_module_key := module_key, mh_received_ts_ns := now_ns\<rparr>
      in store_health current
        (case map_of (hs_latest s) module_key of
           Some previous \<Rightarrow> health_transition_event previous current now_ns s
         | None \<Rightarrow>
             if emit_initial_non_ok \<and> mh_health current \<noteq> health_ok
             then (let seq = hs_event_seq s + 1
               in (Some (event_of health_ok current now_ns seq), s\<lparr>hs_event_seq := seq\<rparr>))
             else (None, s)))"

definition synthesize_expected_unavailable ::
  "string \<Rightarrow> string \<Rightarrow> nat \<Rightarrow> u32 \<Rightarrow> u64 \<Rightarrow> health_store \<Rightarrow> module_health_event option \<times> health_store" where
  "synthesize_expected_unavailable module_id provider_id health ttl_ms now_ns =
     upsert_synthesized
       \<lparr>mh_module_key = [], mh_module_id = trim module_id, mh_provider_id = trim provider_id, mh_health = health,
        mh_state = ''stale'', mh_reason_code = stale_reason_code, mh_detail = stale_detail, mh_source = source_stale,
        mh_received_ts_ns = 0, mh_ttl_ms = ttl_ms\<rparr> now_ns True"

definition synthesize_config_disabled ::
  "string \<Rightarrow> string \<Rightarrow> u64 \<Rightarrow> health_store \<Rightarrow> module_health_event option \<times> health_store" where
  "synthesize_config_disabled module_id provider_id now_ns =
     upsert_synthesized
       \<lparr>mh_module_key = [], mh_module_id = trim module_id, mh_provider_id = trim provider_id, mh_health = health_ok,
        mh_state = ''disabled'', mh_reason_code = disabled_reason_code, mh_detail = disabled_detail,
        mh_source = source_config_disabled, mh_received_ts_ns = 0, mh_ttl_ms = 0\<rparr> now_ns False"

record health_snapshot =
  hn_schema_version :: nat
  hn_ts_ns :: u64
  hn_seq :: nat
  hn_modules :: "module_health list"

definition take_snapshot :: "u64 \<Rightarrow> health_store \<Rightarrow> health_snapshot \<times> health_store" where
  "take_snapshot ts_ns s =
     (let seq = hs_snapshot_seq s + 1 in
      (\<lparr>hn_schema_version = module_health_schema_version, hn_ts_ns = ts_ns, hn_seq = seq, hn_modules = map snd (hs_latest s)\<rparr>,
       s\<lparr>hs_snapshot_seq := seq\<rparr>))"

section \<open>The operations as steps\<close>

datatype health_op =
  Report module_health_report u64
  | Expired string nat u64
  | Unavailable string string nat u32 u64
  | Config_Disabled string string u64
  | Take_Snapshot u64

definition health_step :: "health_op \<Rightarrow> health_store \<Rightarrow> module_health_event option \<times> health_store" where
  "health_step op s =
     (case op of
        Report report now \<Rightarrow> (case ingest_report report now s of (Inr event, t) \<Rightarrow> (event, t) | (Inl _, t) \<Rightarrow> (None, t))
      | Expired k health now \<Rightarrow> synthesize_stale_if_expired k health now s
      | Unavailable i p health ttl now \<Rightarrow> synthesize_expected_unavailable i p health ttl now s
      | Config_Disabled i p now \<Rightarrow> synthesize_config_disabled i p now s
      | Take_Snapshot now \<Rightarrow> (None, snd (take_snapshot now s)))"

definition health_of :: "health_store \<Rightarrow> string \<Rightarrow> nat option" where
  "health_of s k = map_option mh_health (map_of (hs_latest s) k)"

text \<open>Every entry carries its key.\<close>

definition keyed :: "health_store \<Rightarrow> bool" where
  "keyed s \<longleftrightarrow> (\<forall>k m. map_of (hs_latest s) k = Some m \<longrightarrow> mh_module_key m = k)"

text \<open>What one update does: it stores one entry, and emits an event exactly when that changes a known health.\<close>

definition updates :: "health_store \<Rightarrow> module_health_event option \<times> health_store \<Rightarrow> bool" where
  "updates s r \<longleftrightarrow>
     (hs_latest (snd r) = hs_latest s \<and> fst r = None \<or>
      (\<exists>m. map_of (hs_latest (snd r)) = (map_of (hs_latest s))(mh_module_key m \<mapsto> m)
        \<and> (\<forall>h. health_of s (mh_module_key m) = Some h \<longrightarrow> fst r = None \<longrightarrow> h = mh_health m)
        \<and> (\<forall>e. fst r = Some e \<longrightarrow> he_module_key e = mh_module_key m \<and> he_current_health e = mh_health m
              \<and> he_previous_health e \<noteq> mh_health m
              \<and> health_of s (mh_module_key m) \<in> {None, Some (he_previous_health e)})))"

lemma hs_latest_push [simp]: "hs_latest (push_event e s) = hs_latest s"
  by (simp add: push_event_def Let_def)

lemma updates_store:
  assumes "map_of (hs_latest s) (mh_module_key m) = Some previous"
  shows "updates s (store_health m (health_transition_event previous m now s))"
  unfolding updates_def using assms
  by (intro disjI2 exI [of _ m])
    (auto simp: store_health_def health_transition_event_def event_of_def health_of_def Let_def)

lemma updates_first:
  assumes "map_of (hs_latest s) (mh_module_key m) = None"
  shows "updates s (store_health m (None, s))"
    and "mh_health m \<noteq> health_ok \<Longrightarrow> updates s (store_health m (Some (event_of health_ok m now seq), s\<lparr>hs_event_seq := seq\<rparr>))"
  unfolding updates_def using assms
  by (intro disjI2 exI [of _ m], auto simp: store_health_def event_of_def health_of_def Let_def)+

lemma updates_upsert: "updates s (upsert_synthesized current now initial s)"
  unfolding upsert_synthesized_def Let_def
  by (auto split: option.split intro!: updates_store updates_first)

lemma updates_stale:
  assumes "keyed s"
  shows "updates s (synthesize_stale_if_expired k health now s)"
proof (cases "map_of (hs_latest s) k")
  case (Some previous)
  define current where "current = previous\<lparr>mh_health := health, mh_state := ''stale'', mh_reason_code := stale_reason_code,
    mh_detail := stale_detail, mh_source := source_stale, mh_received_ts_ns := now\<rparr>"
  from assms Some have key: "mh_module_key current = k" by (simp add: keyed_def current_def)
  have "synthesize_stale_if_expired k health now s = (None, s)
      \<or> synthesize_stale_if_expired k health now s = store_health current (health_transition_event previous current now s)"
    by (simp add: synthesize_stale_if_expired_def Some store_health_def key Let_def flip: current_def)
  with updates_store [of s current previous now] show ?thesis
    by (elim disjE) (simp_all add: updates_def key Some)
qed (simp add: synthesize_stale_if_expired_def updates_def)

lemma updates_step:
  assumes "keyed s"
  shows "updates s (health_step op s)"
proof (cases op)
  case (Report report now)
  show ?thesis
    unfolding Report health_step_def health_op.case ingest_report_def Let_def
    by (auto split: option.split prod.split simp: updates_def [of s "(None, s)"]
        intro!: updates_store updates_first dest!: arg_cong [where f = "updates s"])
next
  case (Take_Snapshot now)
  then show ?thesis by (simp add: health_step_def take_snapshot_def updates_def Let_def)
qed (use assms in \<open>simp_all add: health_step_def updates_stale updates_upsert synthesize_expected_unavailable_def
    synthesize_config_disabled_def\<close>)

interpretation health_log: change_log health_step health_of he_module_key he_previous_health he_current_health keyed
proof unfold_locales
  fix s op e k h
  assume "keyed s"
  note u = updates_step [OF this, of op]
  from u \<open>keyed s\<close> show "keyed (snd (health_step op s))"
    by (auto simp: updates_def keyed_def split: if_splits)
  show "he_current_health e \<noteq> he_previous_health e \<and> health_of (snd (health_step op s)) (he_module_key e) = Some (he_current_health e)
      \<and> health_of s (he_module_key e) \<in> {None, Some (he_previous_health e)}" if "fst (health_step op s) = Some e"
    using u that by (auto simp: updates_def health_of_def)
  show "\<exists>e. fst (health_step op s) = Some e \<and> he_module_key e = k"
    if "health_of s k = Some h" "health_of (snd (health_step op s)) k \<noteq> Some h"
    using u that by (cases "fst (health_step op s)") (auto simp: updates_def health_of_def split: if_splits)
qed

lemma keyed_new: "keyed new_health_store"
  by (simp add: keyed_def new_health_store_def)

lemma keyed_run: "keyed s \<Longrightarrow> keyed (snd (log_run health_step ops s))"
proof (induction ops arbitrary: s)
  case (Cons op ops)
  from health_log.keeps [OF Cons.prems, of op] Cons.IH show ?case by (auto split: prod.split) (metis snd_conv)
qed simp

text \<open>C34 (invariant). From the empty store, and whatever happens: the events of a module chain, each starting at the health the one
  before it ended in, and the last one ends at the health in the store; a module that is not in the store has no event.
\<close>

theorem events_tell_the_health:
  assumes "log_run health_step ops new_health_store = (es, s)"
  shows "case health_of s k of None \<Rightarrow> filter (\<lambda>e. he_module_key e = k) es = []
    | Some h \<Rightarrow> \<exists>h0. chain he_previous_health he_current_health h0 (filter (\<lambda>e. he_module_key e = k) es) h"
  by (rule health_log.unknown_key [OF keyed_new _ assms]) (simp add: health_of_def new_health_store_def)

section \<open>The events that are kept\<close>

definition last_n :: "nat \<Rightarrow> 'a list \<Rightarrow> 'a list" where
  "last_n n xs = drop (length xs - n) xs"

lemma last_n_snoc: "last_n n (last_n n xs @ [x]) = last_n n (xs @ [x])"
proof (cases "length xs \<le> n")
  case False
  define k where "k = length xs - n"
  have "drop (length xs + 1 - n) (xs @ [x]) = drop 1 (drop k (xs @ [x]))"
    using False by (simp add: k_def drop_drop Suc_diff_le del: drop_append)
  also have "drop k (xs @ [x]) = drop k xs @ [x]" by (simp add: k_def)
  finally show ?thesis using False by (simp add: last_n_def k_def)
qed (simp add: last_n_def)

lemma last_n_short: "length xs \<le> n \<Longrightarrow> last_n n xs = xs"
  by (simp add: last_n_def)

text \<open>One update keeps the newest events, and numbers them in order.\<close>

definition logs :: "health_store \<Rightarrow> module_health_event option \<times> health_store \<Rightarrow> bool" where
  "logs s r \<longleftrightarrow>
     (case fst r of
        None \<Rightarrow> hs_events (snd r) = hs_events s \<and> hs_event_seq (snd r) = hs_event_seq s
      | Some e \<Rightarrow> hs_events (snd r) = hs_events (push_event e s) \<and> hs_event_seq (snd r) = hs_event_seq s + 1
          \<and> he_seq e = hs_event_seq s + 1)"

lemma logs_store: "logs s (store_health m (health_transition_event previous m' now s))"
  by (simp add: logs_def store_health_def health_transition_event_def event_of_def push_event_def Let_def)

lemma logs_step: "logs s (health_step op s)"
proof -
  have upsert: "logs s (upsert_synthesized current now initial s)" for current now initial
    unfolding upsert_synthesized_def Let_def
    by (auto split: option.split simp: logs_store) (auto simp: logs_def store_health_def event_of_def push_event_def Let_def)
  show ?thesis
  proof (cases op)
    case (Report report now)
    then show ?thesis
      by (auto simp: logs_def health_step_def ingest_report_def store_health_def health_transition_event_def event_of_def
          push_event_def Let_def split: option.split)
  next
    case (Expired k health now)
    then show ?thesis
      by (auto simp: logs_def health_step_def synthesize_stale_if_expired_def health_transition_event_def event_of_def
          push_event_def Let_def split: option.split)
  qed (use upsert in \<open>simp_all add: health_step_def synthesize_expected_unavailable_def synthesize_config_disabled_def
      logs_def take_snapshot_def Let_def\<close>)
qed

text \<open>The store keeps the last 256 of all events emitted, numbered from 1.\<close>

lemma kept_events:
  assumes "log_run health_step ops s = (es, t)" and "hs_events s = last_n max_events before"
    and "map he_seq before = [1..<hs_event_seq s + 1]"
  shows "hs_events t = last_n max_events (before @ es) \<and> map he_seq (before @ es) = [1..<hs_event_seq t + 1]"
  using assms
proof (induction ops arbitrary: s es before)
  case (Cons op ops)
  obtain e s' where st: "health_step op s = (e, s')" by force
  obtain es' where run: "log_run health_step ops s' = (es', t)" and es: "es = (case e of Some x \<Rightarrow> x # es' | None \<Rightarrow> es')"
    using Cons.prems(1) by (auto simp: st split: prod.splits)
  have logs: "logs s (e, s')" using logs_step [of s op] by (simp add: st)
  show ?case
  proof (cases e)
    case None
    with logs Cons.prems have "hs_events s' = last_n max_events before" "map he_seq before = [1..<hs_event_seq s' + 1]"
      by (simp_all add: logs_def)
    from Cons.IH [OF run this] show ?thesis by (simp add: es None)
  next
    case (Some x)
    have "(if length (hs_events s) = max_events then tl (hs_events s) else hs_events s) @ [x] = last_n max_events (hs_events s @ [x])"
      using Cons.prems(2) by (auto simp: last_n_def max_events_def drop_Suc tl_drop)
    then have kept: "hs_events s' = last_n max_events (before @ [x])"
      using logs Cons.prems(2) by (simp add: logs_def Some push_event_def Let_def last_n_snoc)
    have "map he_seq (before @ [x]) = [1..<hs_event_seq s' + 1]"
      using logs Cons.prems(3) by (simp add: logs_def Some)
    from Cons.IH [OF run kept this] show ?thesis by (simp add: es Some del: upt_Suc)
  qed
qed simp

lemma all_kept_events:
  assumes "log_run health_step ops new_health_store = (es, s)"
  shows "hs_events s = last_n 256 es \<and> map he_seq es = [1..<hs_event_seq s + 1]"
  using kept_events [OF assms, of "[]"] by (simp add: new_health_store_def last_n_def max_events_def)

section \<open>Supervised modules\<close>

datatype module_policy = Policy_Required | Policy_Optional | Policy_Disabled

record expected_module =
  xm_module_id :: string
  xm_provider_id :: "string option"
  xm_capability :: "string option"
  xm_policy :: module_policy
  xm_ttl_ms :: u32

definition provider_id_or_empty :: "expected_module \<Rightarrow> string" where
  "provider_id_or_empty x = (case xm_provider_id x of Some p \<Rightarrow> trim p | None \<Rightarrow> [])"

definition expected_key :: "expected_module \<Rightarrow> string" where
  "expected_key x = (if provider_id_or_empty x \<noteq> [] then provider_id_or_empty x else trim (xm_module_id x))"

definition executor_get_health_contract :: string where "executor_get_health_contract = ''robonix/system/executor/get_health''"
definition pilot_get_health_contract :: string where "pilot_get_health_contract = ''robonix/system/pilot/get_health''"
definition default_module_health_ttl_ms :: u32 where "default_module_health_ttl_ms = 5000"

definition default_expected_modules :: "string \<Rightarrow> expected_module list" where
  "default_expected_modules vitals_provider_id =
     [\<lparr>xm_module_id = ''vitals'', xm_provider_id = Some vitals_provider_id, xm_capability = None,
       xm_policy = Policy_Required, xm_ttl_ms = 0\<rparr>,
      \<lparr>xm_module_id = ''executor'', xm_provider_id = Some ''executor'', xm_capability = Some executor_get_health_contract,
       xm_policy = Policy_Required, xm_ttl_ms = default_module_health_ttl_ms\<rparr>,
      \<lparr>xm_module_id = ''pilot'', xm_provider_id = Some ''pilot'', xm_capability = Some pilot_get_health_contract,
       xm_policy = Policy_Required, xm_ttl_ms = default_module_health_ttl_ms\<rparr>]"

definition validate_expected_modules :: "expected_module list \<Rightarrow> string + unit" where
  "validate_expected_modules modules =
     (if list_ex (\<lambda>x. trim (xm_module_id x) = []) modules then Inl ''expected_modules contains an empty module_id'' else Inr ())"

definition stale_health_for :: "module_policy \<Rightarrow> nat" where
  "stale_health_for policy =
     (case policy of Policy_Required \<Rightarrow> health_error | Policy_Optional \<Rightarrow> health_warn | Policy_Disabled \<Rightarrow> health_ok)"

definition vitals_self_health_report :: "string \<Rightarrow> module_health_report" where
  "vitals_self_health_report provider_id =
     \<lparr>mr_schema_version = module_health_schema_version,
      mr_module = Some \<lparr>mh_module_key = [], mh_module_id = ''vitals'', mh_provider_id = provider_id, mh_health = health_ok,
        mh_state = ''active'', mh_reason_code = ''OK'', mh_detail = ''vitals serving'', mh_source = [],
        mh_received_ts_ns = 0, mh_ttl_ms = 0\<rparr>\<rparr>"

definition apply_expected_module_config :: "expected_module list \<Rightarrow> u64 \<Rightarrow> health_store \<Rightarrow> health_store" where
  "apply_expected_module_config modules now_ns =
     fold (\<lambda>x s. if xm_policy x = Policy_Disabled
       then snd (synthesize_config_disabled (xm_module_id x) (provider_id_or_empty x) now_ns s) else s) modules"

definition synthesize_expected_module_unavailable ::
  "expected_module \<Rightarrow> u64 \<Rightarrow> health_store \<Rightarrow> module_health_event option \<times> health_store" where
  "synthesize_expected_module_unavailable x now_ns s =
     (if xm_policy x = Policy_Disabled then (None, s)
      else synthesize_expected_unavailable (xm_module_id x) (provider_id_or_empty x) (stale_health_for (xm_policy x))
        (xm_ttl_ms x) now_ns s)"

section \<open>The poller\<close>

datatype module_client = Executor_Client | Pilot_Client

definition known_client :: "expected_module \<Rightarrow> (module_client \<times> string) option" where
  "known_client x =
     (let capability = (case xm_capability x of Some c \<Rightarrow> c | None \<Rightarrow> []) in
      if xm_module_id x = ''executor'' \<or> capability = executor_get_health_contract
      then Some (Executor_Client, executor_get_health_contract)
      else if xm_module_id x = ''pilot'' \<or> capability = pilot_get_health_contract
      then Some (Pilot_Client, pilot_get_health_contract)
      else None)"

record poll_target =
  pt_expected :: expected_module
  pt_label :: string
  pt_contract_id :: string
  pt_client :: module_client

definition build_poll_targets :: "expected_module list \<Rightarrow> poll_target list" where
  "build_poll_targets modules =
     List.map_filter (\<lambda>x. if xm_policy x = Policy_Disabled then None
       else map_option (\<lambda>(client, contract).
         \<lparr>pt_expected = x, pt_label = expected_key x, pt_contract_id = contract, pt_client = client\<rparr>) (known_client x)) modules"

record poll_state =
  po_keys :: "(string, string) hmap"
  po_missing :: "(string, u64) hmap"
  po_store :: health_store

text \<open>
  One poll of one target: the answer is the report that came back within a second with the provider Atlas connected to, or
  nothing. A report that the store refuses is a failure too.
\<close>

definition poll_answer ::
  "(module_health_report \<times> string) option \<Rightarrow> u64 \<Rightarrow> health_store \<Rightarrow> string option \<times> health_store" where
  "poll_answer response now s =
     (case response of
        None \<Rightarrow> (None, s)
      | Some (report, provider_id) \<Rightarrow>
          (case ingest_report report now s of
             (Inl _, s) \<Rightarrow> (None, s)
           | (Inr _, s) \<Rightarrow> (Some (case mr_module report of Some m \<Rightarrow> module_key_for m | None \<Rightarrow> provider_id), s)))"

definition poll_failed :: "u64 \<Rightarrow> u64 \<Rightarrow> poll_target \<Rightarrow> poll_state \<Rightarrow> poll_state" where
  "poll_failed started_at now target p =
     (let x = pt_expected target in
      case hm_get (po_keys p) (pt_label target) of
        Some module_key \<Rightarrow>
          p\<lparr>po_store := snd (synthesize_stale_if_expired module_key (stale_health_for (xm_policy x)) now (po_store p))\<rparr>
      | None \<Rightarrow>
          if xm_policy x = Policy_Required then
            (let missing_from = (case hm_get (po_missing p) (pt_label target) of Some t \<Rightarrow> t | None \<Rightarrow> started_at);
                 p = p\<lparr>po_missing := hm_insert (pt_label target) missing_from (po_missing p)\<rparr>
             in if unat now - unat missing_from \<ge> unat (xm_ttl_ms x) * unat ns_per_ms
                then p\<lparr>po_store := snd (synthesize_expected_module_unavailable x now (po_store p))\<rparr> else p)
          else p)"

definition poll_one ::
  "u64 \<Rightarrow> u64 \<times> (module_health_report \<times> string) option \<Rightarrow> poll_target \<Rightarrow> poll_state \<Rightarrow> poll_state" where
  "poll_one started_at = (\<lambda>(now, response) target p.
     case poll_answer response now (po_store p) of
       (Some module_key, s) \<Rightarrow>
         p\<lparr>po_store := s, po_keys := hm_insert (pt_label target) module_key (po_keys p),
           po_missing := hm_remove (pt_label target) (po_missing p)\<rparr>
     | (None, s) \<Rightarrow> poll_failed started_at now target (p\<lparr>po_store := s\<rparr>))"

definition poll_round ::
  "u64 \<Rightarrow> poll_target list \<Rightarrow> (u64 \<times> (module_health_report \<times> string) option) list \<Rightarrow> poll_state \<Rightarrow> poll_state" where
  "poll_round started_at targets answers p = fold (\<lambda>(target, a). poll_one started_at a target) (zip targets answers) p"

subsection \<open>An answer is stored\<close>

lemma store_health_latest [simp]:
  "map_of (hs_latest (snd (store_health m (e, s)))) = (map_of (hs_latest s))(mh_module_key m \<mapsto> m)"
  by (simp add: store_health_def Let_def split: option.split)

lemma transition_latest [simp]: "hs_latest (snd (health_transition_event a b now s)) = hs_latest s"
  by (simp add: health_transition_event_def Let_def)

lemma store_transition_latest [simp]:
  "map_of (hs_latest (snd (store_health m (health_transition_event a b now s)))) = (map_of (hs_latest s))(mh_module_key m \<mapsto> m)"
  by (cases "health_transition_event a b now s") (metis store_health_latest transition_latest snd_conv)

lemma upsert_latest:
  "map_of (hs_latest (snd (upsert_synthesized current now initial s)))
     = (map_of (hs_latest s))(module_key_for current \<mapsto> current\<lparr>mh_module_key := module_key_for current, mh_received_ts_ns := now\<rparr>)"
  by (simp add: upsert_synthesized_def Let_def split: option.split)

lemma ingest_latest:
  assumes "mr_schema_version report = 1" and "mr_module report = Some m" and "trim (mh_module_id m) \<noteq> []"
  shows "\<exists>event t. ingest_report report now s = (Inr event, t) \<and> map_of (hs_latest t) = (map_of (hs_latest s))
    (module_key_for m \<mapsto> m\<lparr>mh_module_key := module_key_for m, mh_source := source_self_reported, mh_received_ts_ns := now\<rparr>)"
proof -
  define m' where "m' = m\<lparr>mh_module_key := module_key_for m, mh_source := source_self_reported, mh_received_ts_ns := now\<rparr>"
  define r where "r = store_health m' (case map_of (hs_latest s) (module_key_for m) of
    Some previous \<Rightarrow> health_transition_event previous m' now s | None \<Rightarrow> (None, s))"
  have "ingest_report report now s = (Inr (fst r), snd r)"
    unfolding r_def m'_def using assms
    by (simp add: ingest_report_def module_health_schema_version_def Let_def case_prod_beta)
  moreover have "map_of (hs_latest (snd r)) = (map_of (hs_latest s))(module_key_for m \<mapsto> m')"
    unfolding r_def m'_def by (simp split: option.split)
  ultimately show ?thesis by (simp add: m'_def)
qed

lemma ingest_refused:
  "ingest_report report now s = (Inl e, t) \<Longrightarrow> t = s"
  by (auto simp: ingest_report_def Let_def split: if_splits option.splits prod.splits)

subsection \<open>Silence\<close>

text \<open>An entry that is stale in the sense of a policy.\<close>

definition stale_entry :: "module_policy \<Rightarrow> module_health \<Rightarrow> bool" where
  "stale_entry policy m \<longleftrightarrow> mh_source m = source_stale \<and> mh_reason_code m = stale_reason_code
     \<and> mh_health m = stale_health_for policy"

lemma stale_latest:
  assumes "map_of (hs_latest s) k = Some m"
  shows "\<exists>m'. map_of (hs_latest (snd (synthesize_stale_if_expired k (stale_health_for policy) now s))) k = Some m'
    \<and> (m' = m \<and> (stale_entry policy m \<or> mh_ttl_ms m = 0 \<or> \<not> is_expired m now) \<or> stale_entry policy m')"
  using assms
  by (auto simp: synthesize_stale_if_expired_def Let_def stale_entry_def split: prod.split option.split)

lemma failed_poll_keeps_keys:
  "hm_get (po_keys p) (pt_label target) = Some k \<Longrightarrow> po_keys (poll_one started (now, None) target p) = po_keys p"
  by (simp add: poll_one_def poll_answer_def poll_failed_def Let_def)

text \<open>C35 (liveness). A module that reported once and then answers no more is marked stale by the first failed poll at which its
  last entry has expired, with the health its policy asks for, and stays so while it is silent.
\<close>

theorem silence_is_noticed:
  assumes "hm_get (po_keys p) (pt_label target) = Some k"
    and "map_of (hs_latest (po_store p)) k = Some m" and "mh_ttl_ms m \<noteq> 0"
    and "\<exists>now\<in>set polls. is_expired m now"
  shows "\<exists>m'. map_of (hs_latest (po_store (fold (\<lambda>now. poll_one started (now, None) target) polls p))) k = Some m'
    \<and> stale_entry (xm_policy (pt_expected target)) m'"
proof -
  let ?policy = "xm_policy (pt_expected target)"
  have one: "\<exists>m'. map_of (hs_latest (po_store (poll_one started (now, None) target q))) k = Some m'
      \<and> (m' = n \<and> (stale_entry ?policy n \<or> mh_ttl_ms n = 0 \<or> \<not> is_expired n now) \<or> stale_entry ?policy m')"
    if "hm_get (po_keys q) (pt_label target) = Some k" "map_of (hs_latest (po_store q)) k = Some n" for q n now
    using stale_latest [OF that(2), of ?policy now] that(1) by (simp add: poll_one_def poll_answer_def poll_failed_def Let_def)
  have stays: "\<exists>m'. map_of (hs_latest (po_store (fold (\<lambda>now. poll_one started (now, None) target) ts q))) k = Some m'
      \<and> stale_entry ?policy m'"
    if "hm_get (po_keys q) (pt_label target) = Some k" "map_of (hs_latest (po_store q)) k = Some n" "stale_entry ?policy n"
    for q n ts
    using that
  proof (induction ts arbitrary: q n)
    case (Cons now ts)
    from one [OF Cons.prems(1,2), of now] Cons.prems(3)
    obtain n' where "map_of (hs_latest (po_store (poll_one started (now, None) target q))) k = Some n'" "stale_entry ?policy n'"
      by blast
    with Cons.IH Cons.prems(1) show ?case by (simp add: failed_poll_keeps_keys)
  qed simp
  show ?thesis
    using assms
  proof (induction polls arbitrary: p)
    case (Cons now ts)
    let ?q = "poll_one started (now, None) target p"
    from Cons.prems(1) have key: "hm_get (po_keys ?q) (pt_label target) = Some k" by (simp add: failed_poll_keeps_keys)
    from one [OF Cons.prems(1,2), of now] obtain n where n: "map_of (hs_latest (po_store ?q)) k = Some n"
      "n = m \<and> \<not> is_expired m now \<or> stale_entry ?policy n" using Cons.prems(3) by blast
    show ?case
    proof (cases "stale_entry ?policy n")
      case True
      from stays [OF key n(1) True, of ts] show ?thesis by simp
    next
      case False
      with n Cons.prems(4) have "map_of (hs_latest (po_store ?q)) k = Some m" "\<exists>now\<in>set ts. is_expired m now" by auto
      with Cons.IH [OF key] Cons.prems(3) show ?thesis by simp
    qed
  qed simp
qed

text \<open>A required module that never reported is in error by the first failed poll after its time to live.\<close>

lemma missing_module_is_reported:
  assumes "hm_get (po_keys p) (pt_label target) = None" and "hm_get (po_missing p) (pt_label target) \<in> {None, Some started}"
    and "xm_policy (pt_expected target) = Policy_Required"
    and "unat now - unat started \<ge> unat (xm_ttl_ms (pt_expected target)) * 1000000"
  shows "health_of (po_store (poll_one started (now, None) target p))
    (module_key_from_parts (trim (xm_module_id (pt_expected target))) (trim (provider_id_or_empty (pt_expected target)))) = Some 2"
  using assms
  by (auto simp: poll_one_def poll_answer_def poll_failed_def Let_def synthesize_expected_module_unavailable_def
      synthesize_expected_unavailable_def health_of_def upsert_latest module_key_for_def ns_per_ms_def health_consts stale_health_for_def)

subsection \<open>Names that do not match\<close>

text \<open>With the default configuration the entries made for absent modules are the ones their reports replace.\<close>

lemma default_names_match:
  "map expected_key (default_expected_modules ''vitals'') =
     map (\<lambda>r. module_key_for (the (mr_module r)))
       [vitals_self_health_report ''vitals'', executor_health_report ''executor'', pilot_health_report ''pilot'']"
  by code_simp

text \<open>What a poll leaves alone: every key that neither the response nor the silence concerns.\<close>

lemma poll_leaves_others:
  assumes "hm_get (po_keys p) (pt_label target) = Some k" and "k \<noteq> other"
    and "case response of Some (r, _) \<Rightarrow> (case mr_module r of Some m \<Rightarrow> module_key_for m \<noteq> other | None \<Rightarrow> True) | None \<Rightarrow> True"
  shows "map_of (hs_latest (po_store (poll_one started (now, response) target p))) other = map_of (hs_latest (po_store p)) other
    \<and> (\<exists>k'. hm_get (po_keys (poll_one started (now, response) target p)) (pt_label target) = Some k' \<and> k' \<noteq> other)"
proof -
  have stale: "map_of (hs_latest (snd (synthesize_stale_if_expired k h now s))) other = map_of (hs_latest s) other" for h s
    using assms(2) by (auto simp: synthesize_stale_if_expired_def Let_def split: prod.split option.split)
      (metis hs_latest_push transition_latest snd_conv)+
  have failed: ?thesis if "poll_answer response now (po_store p) = (None, po_store p)"
    using assms(1,2) that by (simp add: poll_one_def poll_failed_def Let_def stale)
  show ?thesis
  proof (cases "\<exists>r pid m. response = Some (r, pid) \<and> mr_schema_version r = 1 \<and> mr_module r = Some m \<and> trim (mh_module_id m) \<noteq> []")
    case True
    then obtain r pid m where a: "response = Some (r, pid)" "mr_schema_version r = 1" "mr_module r = Some m" "trim (mh_module_id m) \<noteq> []"
      by blast
    from ingest_latest [OF a(2-4), of now "po_store p"] assms(3) a(1,3)
    show ?thesis by (auto simp: poll_one_def poll_answer_def)
  next
    case False
    then show ?thesis
      by (intro failed) (auto simp: poll_answer_def ingest_report_def module_health_schema_version_def split: option.split)
  qed
qed

text \<open>
  A module that reports under another name than the one configured leaves the entry that was made while it was awaited in
  error for good, however well it does.
\<close>

lemma renamed_module_stays_in_error:
  assumes "hm_get (po_keys p) (pt_label target) = Some k" and "k \<noteq> other"
    and "\<forall>(now, response)\<in>set answers. case response of
      Some (r, _) \<Rightarrow> (case mr_module r of Some m \<Rightarrow> module_key_for m \<noteq> other | None \<Rightarrow> True) | None \<Rightarrow> True"
  shows "map_of (hs_latest (po_store (fold (\<lambda>a. poll_one started a target) answers p))) other = map_of (hs_latest (po_store p)) other"
  using assms
proof (induction answers arbitrary: p k)
  case (Cons a answers)
  obtain now response where a: "a = (now, response)" by force
  from poll_leaves_others [OF Cons.prems(1,2), of response started now] Cons.prems(3)
  obtain k' where "map_of (hs_latest (po_store (poll_one started a target p))) other = map_of (hs_latest (po_store p)) other"
    "hm_get (po_keys (poll_one started a target p)) (pt_label target) = Some k'" "k' \<noteq> other"
    by (auto simp: a)
  with Cons.IH Cons.prems(3) show ?case by simp
qed simp

definition renamed_executor :: poll_state where
  "renamed_executor =
     fold (\<lambda>a. poll_one 0 a (hd (build_poll_targets (default_expected_modules ''vitals''))))
       [(5000000000, None), (7000000000, Some (executor_health_report ''exec2'', ''exec2''))]
       \<lparr>po_keys = [], po_missing = [], po_store = new_health_store\<rparr>"

lemma renamed_executor_run:
  "health_of (po_store renamed_executor) ''executor'' = Some 2 \<and> health_of (po_store renamed_executor) ''exec2'' = Some 0
    \<and> hm_get (po_keys renamed_executor) ''executor'' = Some ''exec2''"
  by code_simp

section \<open>Examples\<close>

definition demo_ops :: "health_op list" where
  "demo_ops = [Report (executor_health_report ''executor'') 0, Expired ''executor'' 2 5000000000]"

theorem events_tell_the_health_witness:
  "\<exists>h. chain he_previous_health he_current_health h
     (filter (\<lambda>e. he_module_key e = ''executor'') (fst (log_run health_step demo_ops new_health_store))) 2
   \<and> length (fst (log_run health_step demo_ops new_health_store)) = 1"
proof -
  have "health_of (snd (log_run health_step demo_ops new_health_store)) ''executor'' = Some 2"
    and "length (fst (log_run health_step demo_ops new_health_store)) = 1" by code_simp+
  with events_tell_the_health [OF surjective_pairing [of "log_run health_step demo_ops new_health_store"], of "''executor''"] show ?thesis by simp
qed

text \<open>The first report of a module raises no event, even when it is an error; an absent module's error does.\<close>

definition broken_executor :: module_health_report where
  "broken_executor = (case mr_module (executor_health_report ''executor'') of
     Some m \<Rightarrow> (executor_health_report ''executor'')\<lparr>mr_module := Some (m\<lparr>mh_health := 2\<rparr>)\<rparr> | None \<Rightarrow> executor_health_report [])"

lemma first_failure_is_silent:
  "log_run health_step [Report broken_executor 0] new_health_store = ([], snd (log_run health_step [Report broken_executor 0] new_health_store))
   \<and> health_of (snd (log_run health_step [Report broken_executor 0] new_health_store)) ''executor'' = Some 2
   \<and> length (fst (log_run health_step [Unavailable ''executor'' [] 2 5000 0] new_health_store)) = 1"
  by code_simp

definition executor_target :: poll_target where
  "executor_target = hd (build_poll_targets (default_expected_modules ''vitals''))"

definition answered_once :: poll_state where
  "answered_once = poll_one 0 (0, Some (executor_health_report ''executor'', ''executor'')) executor_target
     \<lparr>po_keys = [], po_missing = [], po_store = new_health_store\<rparr>"

theorem silence_is_noticed_witness:
  "\<exists>m'. map_of (hs_latest (po_store (fold (\<lambda>now. poll_one 0 (now, None) executor_target) [2000000000, 6000000000] answered_once)))
      ''executor'' = Some m' \<and> stale_entry Policy_Required m'"
proof -
  let ?m = "the (map_of (hs_latest (po_store answered_once)) ''executor'')"
  have known: "hm_get (po_keys answered_once) (pt_label executor_target) = Some ''executor''"
    and entry: "map_of (hs_latest (po_store answered_once)) ''executor'' = Some ?m" and ttl: "mh_ttl_ms ?m \<noteq> 0"
    and "is_expired ?m 6000000000" and policy: "xm_policy (pt_expected executor_target) = Policy_Required" by code_simp+
  then have "\<exists>now\<in>set [2000000000, 6000000000]. is_expired ?m now" by simp
  from silence_is_noticed [OF known entry ttl this, of 0] policy show ?thesis by simp
qed

end
