(* ===== verification/Vitals_Judge.thy ===== *)
theory Vitals_Judge
  imports Complex_Main Rust_Str
begin

text \<open>
  The judgement of Vitals on what the body reports: \<open>system/vitals/src/soma_ingest.rs\<close>. A snapshot of Soma, which is facts,
  becomes a snapshot of Vitals, which is healths: scalars are held against threshold rules, faults and lost
  communication count as they are, the bodies below the root get a state each.

  A floating point value is a rational number or, as \<open>None\<close>, not a number; infinities and rounding are left out, the
  conversion to single precision and the printing with one decimal are parameters. Of the messages only the fields the code
  reads are here, and enumerations are naturals, as on the wire.

  The main results: a rule is chosen by rank, the later of equals; with bounds that make sense a health is what the bounds
  say; an emergency stop reaches every body; lost communication, error codes, torque that is off, active faults and stale or invalid
  readings yield an entry that is not well. And what does not hold: a wildcard may match a text shorter than its parts, a fault that is only
  informative counts as an error, an emergency stop of the whole and an unavailable reading yield no entry.
\<close>

section \<open>Messages\<close>

type_synonym f64 = "rat option"

record float_ops =
  fo_f32 :: "f64 \<Rightarrow> f64"
  fo_show1 :: "rat \<Rightarrow> string"

record scalar =
  sc_value :: f64
  sc_quality :: nat

record component_status =
  cs_id :: string
  cs_parent_id :: string
  cs_kind :: nat
  cs_name :: string
  cs_model :: string
  cs_present :: bool
  cs_online :: bool

record actuator_state =
  as_component_id :: string
  as_motor_temp :: "scalar option"
  as_driver_temp :: "scalar option"
  as_torque_enabled :: bool
  as_communication_ok :: bool
  as_vendor_error_code :: nat

record power_source =
  po_component_id :: string
  po_soc_percent :: "scalar option"
  po_voltage :: "scalar option"
  po_current :: "scalar option"
  po_temperature :: "scalar option"
  po_remaining_s :: "scalar option"
  po_vendor_status_code :: nat

record fault_state =
  fl_component_id :: string
  fl_fault_id :: string
  fl_severity :: nat
  fl_active :: bool
  fl_vendor_code :: nat
  fl_message :: string

record metric =
  me_component_id :: string
  me_name :: string
  me_value :: "scalar option"

record soma_snapshot =
  so_body_id :: string
  so_components :: "component_status list"
  so_actuators :: "actuator_state list"
  so_power_sources :: "power_source list"
  so_safety :: "nat option"
  so_faults :: "fault_state list"
  so_metrics :: "metric list"

record component_health =
  co_name :: string
  co_health :: nat
  co_detail :: string
  co_value :: f64
  co_threshold :: f64

record power_state =
  pw_battery_percent :: f64
  pw_voltage :: f64
  pw_charging :: bool
  pw_remaining_s :: int

record body_component =
  bc_name :: string
  bc_kind :: string
  bc_temperature :: f64
  bc_error_code :: nat
  bc_enabled :: bool
  bc_id :: string
  bc_parent_id :: string
  bc_model :: string

record body_health =
  bh_body_type :: string
  bh_model :: string
  bh_state :: nat
  bh_message :: string
  bh_components :: "body_component list"

record vitals_snapshot =
  vs_ts_ns :: nat
  vs_power :: "power_state option"
  vs_components :: "component_health list"
  vs_bodies :: "body_health list"

section \<open>Threshold rules\<close>

record bounds =
  bd_warn_above :: "f64 option"
  bd_error_above :: "f64 option"
  bd_warn_below :: "f64 option"
  bd_error_below :: "f64 option"

record threshold_rule =
  ru_id :: string
  ru_kind :: "nat option"
  ru_component_id :: "string option"
  ru_component_id_glob :: "string option"
  ru_signal :: string
  ru_bounds :: bounds
  ru_unit :: string

definition quality_valid :: nat where "quality_valid = 0"
definition quality_stale :: nat where "quality_stale = 1"
definition quality_invalid :: nat where "quality_invalid = 3"

definition kind_names :: "(string \<times> nat) list" where
  "kind_names = [(''body'', 1), (''arm'', 2), (''leg'', 3), (''joint'', 4), (''wheel'', 5), (''gripper'', 6), (''battery'', 7),
     (''computer'', 8), (''sensor'', 9), (''controller'', 10), (''end_effector'', 11)]"

definition kind_body :: nat where "kind_body = 1"
definition kind_joint :: nat where "kind_joint = 4"
definition kind_wheel :: nat where "kind_wheel = 5"
definition kind_battery :: nat where "kind_battery = 7"
definition kind_sensor :: nat where "kind_sensor = 9"

definition component_kind_label :: "nat \<Rightarrow> string" where
  "component_kind_label kind = (case find (\<lambda>(_, k). k = kind) kind_names of Some (n, _) \<Rightarrow> n | None \<Rightarrow> ''unknown'')"

definition kind_from_name :: "string \<Rightarrow> nat option" where
  "kind_from_name raw = map_of (map (\<lambda>(n, k). (map ascii_upper n, k)) kind_names) (map ascii_upper (trim raw))"

text \<open>A rule as its file has it, with the kind by name; a name nobody knows leaves the rule without one.\<close>

record rule_yaml =
  ry_id :: string
  ry_kind :: "string option"
  ry_component_id :: "string option"
  ry_component_id_glob :: "string option"
  ry_signal :: string
  ry_bounds :: bounds
  ry_unit :: string

definition above :: "rat \<Rightarrow> rat \<Rightarrow> bounds" where
  "above warn error = \<lparr>bd_warn_above = Some (Some warn), bd_error_above = Some (Some error), bd_warn_below = None, bd_error_below = None\<rparr>"

definition below :: "rat \<Rightarrow> rat \<Rightarrow> bounds" where
  "below warn error = \<lparr>bd_warn_above = None, bd_error_above = None, bd_warn_below = Some (Some warn), bd_error_below = Some (Some error)\<rparr>"

definition rule_kind :: "string \<Rightarrow> nat \<Rightarrow> string \<Rightarrow> bounds \<Rightarrow> string \<Rightarrow> threshold_rule" where
  "rule_kind i kind signal b unit_name =
     \<lparr>ru_id = i, ru_kind = Some kind, ru_component_id = None, ru_component_id_glob = None, ru_signal = signal,
      ru_bounds = b, ru_unit = unit_name\<rparr>"

definition default_thresholds :: "threshold_rule list" where
  "default_thresholds =
     [rule_kind ''joint_motor_temp'' kind_joint ''motor_temp'' (above 60 75) ''degC'',
      rule_kind ''joint_driver_temp'' kind_joint ''driver_temp'' (above 70 85) ''degC'',
      rule_kind ''wheel_driver_temp'' kind_wheel ''driver_temp'' (above 75 90) ''degC'',
      rule_kind ''sensor_temperature'' kind_sensor ''temperature'' (above 80 90) ''degC'',
      rule_kind ''battery_soc'' kind_battery ''soc_percent'' (below 20 8) ''percent'',
      rule_kind ''battery_voltage'' kind_battery ''voltage'' (below 22 19) ''V'']"

definition load_soma_thresholds :: "rule_yaml list \<Rightarrow> threshold_rule list" where
  "load_soma_thresholds rules =
     (if rules = [] then default_thresholds
      else map (\<lambda>r. \<lparr>ru_id = ry_id r, ru_kind = Option.bind (ry_kind r) kind_from_name, ru_component_id = ry_component_id r,
        ru_component_id_glob = ry_component_id_glob r, ru_signal = ry_signal r, ru_bounds = ry_bounds r, ru_unit = ry_unit r\<rparr>) rules)"

definition segment_matches :: "string \<Rightarrow> string \<Rightarrow> bool" where
  "segment_matches pattern value =
     (if pattern = ''*'' then True
      else case split_once (CHR ''*'') pattern of
        None \<Rightarrow> pattern = value
      | Some (prefix, suffix) \<Rightarrow> starts_with prefix value \<and> ends_with suffix value)"

definition glob_matches :: "string \<Rightarrow> string \<Rightarrow> bool" where
  "glob_matches pattern value =
     (let ps = split_on (CHR ''/'') pattern; vs = split_on (CHR ''/'') value in
      length ps = length vs \<and> list_all (\<lambda>(p, v). segment_matches p v) (zip ps vs))"

definition match_rule :: "threshold_rule \<Rightarrow> string \<Rightarrow> nat \<Rightarrow> string \<Rightarrow> nat option" where
  "match_rule rule component_id kind signal =
     (if ru_signal rule \<noteq> signal then None
      else case ru_component_id rule of
        Some exact \<Rightarrow> if exact = component_id then Some 3 else None
      | None \<Rightarrow>
          (case ru_component_id_glob rule of
             Some pattern \<Rightarrow> if glob_matches pattern component_id then Some 2 else None
           | None \<Rightarrow>
               (case ru_kind rule of
                  Some k \<Rightarrow> if k = kind then Some 1 else None
                | None \<Rightarrow> None)))"

text \<open>One round of the search: the rank and the place of the rule chosen so far.\<close>

definition consider_rule ::
  "string \<Rightarrow> nat \<Rightarrow> string \<Rightarrow> nat \<times> threshold_rule \<Rightarrow> (nat \<times> nat \<times> threshold_rule) option
    \<Rightarrow> (nat \<times> nat \<times> threshold_rule) option" where
  "consider_rule component_id kind signal = (\<lambda>(idx, rule) selected.
     case match_rule rule component_id kind signal of
       None \<Rightarrow> selected
     | Some priority \<Rightarrow>
         (case selected of
            Some (old_priority, old_idx, _) \<Rightarrow>
              if priority > old_priority \<or> priority = old_priority \<and> idx > old_idx
              then Some (priority, idx, rule) else selected
          | None \<Rightarrow> Some (priority, idx, rule)))"

definition effective_rules :: "threshold_rule list \<Rightarrow> threshold_rule list" where
  "effective_rules rules = (if rules = [] then default_thresholds else rules)"

definition select_threshold :: "threshold_rule list \<Rightarrow> string \<Rightarrow> nat \<Rightarrow> string \<Rightarrow> bounds option" where
  "select_threshold rules component_id kind signal =
     map_option (\<lambda>(_, _, rule). ru_bounds rule)
       (fold (consider_rule component_id kind signal)
          (zip [0..<length (effective_rules rules)] (effective_rules rules)) None)"

section \<open>Scalars\<close>

definition f64_ge :: "f64 \<Rightarrow> f64 \<Rightarrow> bool" where
  "f64_ge a b = (case (a, b) of (Some x, Some y) \<Rightarrow> x \<ge> y | _ \<Rightarrow> False)"

definition reaches :: "f64 \<Rightarrow> f64 option \<Rightarrow> bool" where
  "reaches value bound = (case bound of Some b \<Rightarrow> f64_ge value b | None \<Rightarrow> False)"

definition falls_to :: "f64 \<Rightarrow> f64 option \<Rightarrow> bool" where
  "falls_to value bound = (case bound of Some b \<Rightarrow> f64_ge b value | None \<Rightarrow> False)"

definition minus_one :: f64 where "minus_one = Some (- 1)"

definition show_f64 :: "float_ops \<Rightarrow> f64 \<Rightarrow> string" where
  "show_f64 fo v = (case v of Some q \<Rightarrow> fo_show1 fo q | None \<Rightarrow> ''NaN'')"

definition evaluate_scalar :: "float_ops \<Rightarrow> string \<Rightarrow> string \<Rightarrow> f64 \<Rightarrow> bounds \<Rightarrow> nat \<times> f64 \<times> string" where
  "evaluate_scalar fo component_id signal value b =
     (let text = (\<lambda>how bound. component_id @ '' '' @ signal @ '' '' @ show_f64 fo value @ how @ show_f64 fo (the bound)) in
      if value = None then (2, minus_one, component_id @ '' '' @ signal @ '' value is NaN'')
      else if reaches value (bd_error_above b) then (2, the (bd_error_above b), text '' exceeds ERROR threshold '' (bd_error_above b))
      else if reaches value (bd_warn_above b) then (1, the (bd_warn_above b), text '' exceeds WARN threshold '' (bd_warn_above b))
      else if falls_to value (bd_error_below b) then (2, the (bd_error_below b), text '' below ERROR threshold '' (bd_error_below b))
      else if falls_to value (bd_warn_below b) then (1, the (bd_warn_below b), text '' below WARN threshold '' (bd_warn_below b))
      else (0, minus_one, []))"

definition scalar_health ::
  "float_ops \<Rightarrow> threshold_rule list \<Rightarrow> string \<Rightarrow> nat \<Rightarrow> string \<Rightarrow> scalar option \<Rightarrow> component_health list" where
  "scalar_health fo rules component_id kind signal scalar =
     (case scalar of
        None \<Rightarrow> []
      | Some s \<Rightarrow>
          (let entry = (\<lambda>health detail threshold.
             [\<lparr>co_name = component_id @ ''/'' @ signal, co_health = health, co_detail = detail,
               co_value = fo_f32 fo (sc_value s), co_threshold = threshold\<rparr>]) in
           if sc_quality s = quality_stale then entry 3 (component_id @ '' '' @ signal @ '' is stale'') minus_one
           else if sc_quality s = quality_invalid then entry 2 (component_id @ '' '' @ signal @ '' is invalid'') minus_one
           else if sc_quality s \<noteq> quality_valid then []
           else case select_threshold rules component_id kind signal of
             None \<Rightarrow> []
           | Some b \<Rightarrow>
               (case evaluate_scalar fo component_id signal (sc_value s) b of
                  (health, threshold, detail) \<Rightarrow> entry health detail (fo_f32 fo threshold))))"

section \<open>The snapshot\<close>

definition show_hex_digit :: "nat \<Rightarrow> char" where
  "show_hex_digit d = (if d < 10 then char_of (48 + d) else char_of (55 + d))"

fun show_hex :: "nat \<Rightarrow> string" where
  "show_hex n = (if n < 16 then [show_hex_digit n] else show_hex (n div 16) @ [show_hex_digit (n mod 16)])"

declare show_hex.simps [simp del]

definition f32_of_nat :: "float_ops \<Rightarrow> nat \<Rightarrow> f64" where
  "f32_of_nat fo n = fo_f32 fo (Some (of_nat n))"

definition kind_of_component :: "soma_snapshot \<Rightarrow> nat \<Rightarrow> string \<Rightarrow> nat" where
  "kind_of_component snapshot default_kind component_id =
     (case map_of (rev (map (\<lambda>c. (cs_id c, cs_kind c)) (so_components snapshot))) component_id of
        Some k \<Rightarrow> k | None \<Rightarrow> default_kind)"

definition flag_health :: "bool \<Rightarrow> string \<Rightarrow> nat \<Rightarrow> string \<Rightarrow> f64 \<Rightarrow> f64 \<Rightarrow> component_health list" where
  "flag_health raised name health detail value threshold =
     (if raised then [\<lparr>co_name = name, co_health = health, co_detail = detail, co_value = value, co_threshold = threshold\<rparr>] else [])"

definition actuator_healths :: "float_ops \<Rightarrow> threshold_rule list \<Rightarrow> soma_snapshot \<Rightarrow> actuator_state \<Rightarrow> component_health list" where
  "actuator_healths fo rules snapshot a =
     (let i = as_component_id a; kind = kind_of_component snapshot kind_joint i in
      scalar_health fo rules i kind ''motor_temp'' (as_motor_temp a)
      @ scalar_health fo rules i kind ''driver_temp'' (as_driver_temp a)
      @ flag_health (\<not> as_communication_ok a) (i @ ''/communication'') 2 (i @ '' communication is not OK'') (Some 0) (Some 1)
      @ flag_health (as_vendor_error_code a \<noteq> 0) (i @ ''/vendor_error'') 2
          (i @ '' vendor_error_code=0x'' @ show_hex (as_vendor_error_code a)) (f32_of_nat fo (as_vendor_error_code a)) (Some 0)
      @ flag_health (\<not> as_torque_enabled a) (i @ ''/torque_enabled'') 1 (i @ '' torque is disabled'') (Some 0) (Some 1))"

definition power_healths :: "float_ops \<Rightarrow> threshold_rule list \<Rightarrow> soma_snapshot \<Rightarrow> power_source \<Rightarrow> component_health list" where
  "power_healths fo rules snapshot p =
     (let i = po_component_id p; kind = kind_of_component snapshot kind_battery i in
      scalar_health fo rules i kind ''soc_percent'' (po_soc_percent p)
      @ scalar_health fo rules i kind ''voltage'' (po_voltage p)
      @ scalar_health fo rules i kind ''temperature'' (po_temperature p))"

definition metric_healths :: "float_ops \<Rightarrow> threshold_rule list \<Rightarrow> soma_snapshot \<Rightarrow> metric \<Rightarrow> component_health list" where
  "metric_healths fo rules snapshot m =
     scalar_health fo rules (me_component_id m) (kind_of_component snapshot kind_sensor (me_component_id m)) (me_name m) (me_value m)"

definition fault_severity_health :: "nat \<Rightarrow> nat" where
  "fault_severity_health severity = (if severity \<in> {2, 3} then 2 else if severity = 1 then 1 else 2)"

definition fault_healths :: "float_ops \<Rightarrow> fault_state \<Rightarrow> component_health list" where
  "fault_healths fo f =
     flag_health (fl_active f) (fl_component_id f @ ''/fault/'' @ fl_fault_id f) (fault_severity_health (fl_severity f))
       (if fl_message f = [] then fl_component_id f @ '' active fault '' @ fl_fault_id f else fl_message f)
       (f32_of_nat fo (fl_vendor_code f)) (Some 0)"

definition component_healths :: "float_ops \<Rightarrow> threshold_rule list \<Rightarrow> soma_snapshot \<Rightarrow> component_health list" where
  "component_healths fo rules snapshot =
     concat (map (actuator_healths fo rules snapshot) (so_actuators snapshot))
     @ concat (map (power_healths fo rules snapshot) (so_power_sources snapshot))
     @ concat (map (metric_healths fo rules snapshot) (so_metrics snapshot))
     @ concat (map (fault_healths fo) (so_faults snapshot))"

definition scalar_value :: "scalar option \<Rightarrow> f64 option" where
  "scalar_value scalar = (case scalar of Some s \<Rightarrow> if sc_quality s = quality_valid then Some (sc_value s) else None | None \<Rightarrow> None)"

text \<open>\<open>f64 as i64\<close>: towards zero, saturating, and zero for what is no number.\<close>

definition f64_as_i64 :: "f64 \<Rightarrow> int" where
  "f64_as_i64 v = (case v of None \<Rightarrow> 0
     | Some q \<Rightarrow> max (- (2 ^ 63)) (min (2 ^ 63 - 1) (if 0 \<le> q then \<lfloor>q\<rfloor> else \<lceil>q\<rceil>)))"

definition value_or :: "f64 \<Rightarrow> scalar option \<Rightarrow> f64" where
  "value_or d scalar = (case scalar_value scalar of Some v \<Rightarrow> v | None \<Rightarrow> d)"

definition power_state_of :: "float_ops \<Rightarrow> soma_snapshot \<Rightarrow> power_state" where
  "power_state_of fo snapshot =
     (case so_power_sources snapshot of
        [] \<Rightarrow> \<lparr>pw_battery_percent = minus_one, pw_voltage = minus_one, pw_charging = False, pw_remaining_s = - 1\<rparr>
      | p # _ \<Rightarrow>
          \<lparr>pw_battery_percent = fo_f32 fo (value_or minus_one (po_soc_percent p)),
           pw_voltage = fo_f32 fo (value_or minus_one (po_voltage p)),
           pw_charging = (case value_or (Some 0) (po_current p) of Some q \<Rightarrow> q > 0 | None \<Rightarrow> False),
           pw_remaining_s = f64_as_i64 (value_or minus_one (po_remaining_s p))\<rparr>)"

definition first_non_empty :: "string list \<Rightarrow> string" where
  "first_non_empty values = (case find (\<lambda>v. trim v \<noteq> []) values of Some v \<Rightarrow> v | None \<Rightarrow> ''unknown'')"

definition component_contains :: "component_status \<Rightarrow> string \<Rightarrow> bool" where
  "component_contains base component_id \<longleftrightarrow> component_id = cs_id base \<or> starts_with (cs_id base @ ''/'') component_id"

definition root_component :: "soma_snapshot \<Rightarrow> component_status option" where
  "root_component snapshot =
     (case find (\<lambda>c. cs_parent_id c = []) (so_components snapshot) of
        Some c \<Rightarrow> Some c
      | None \<Rightarrow> find (\<lambda>c. cs_kind c = kind_body) (so_components snapshot))"

definition lost_contact :: "soma_snapshot \<Rightarrow> component_status \<Rightarrow> bool" where
  "lost_contact snapshot base =
     list_ex (\<lambda>a. \<not> as_communication_ok a \<and> component_contains base (as_component_id a)) (so_actuators snapshot)"

definition body_state :: "soma_snapshot \<Rightarrow> component_status \<Rightarrow> nat" where
  "body_state snapshot base =
     (if so_safety snapshot = Some 4 then 2
      else if so_safety snapshot = Some 5
        \<or> list_ex (\<lambda>f. fl_active f \<and> fl_severity f \<ge> 2 \<and> component_contains base (fl_component_id f)) (so_faults snapshot)
        \<or> lost_contact snapshot base then 1
      else 0)"

definition body_message :: "soma_snapshot \<Rightarrow> component_status \<Rightarrow> string" where
  "body_message snapshot base =
     (let active = filter (\<lambda>f. fl_active f \<and> component_contains base (fl_component_id f)) (so_faults snapshot) in
      if active \<noteq> [] then ''active faults: '' @ join '', '' (map fl_fault_id active)
      else if lost_contact snapshot base then ''actuator communication fault'' else [])"

definition component_error_code ::
  "soma_snapshot \<Rightarrow> component_status \<Rightarrow> actuator_state option \<Rightarrow> power_source option \<Rightarrow> nat" where
  "component_error_code snapshot component actuator battery =
     (let nonzero = (\<lambda>code. case code of Some c \<Rightarrow> if c \<noteq> 0 then Some c else None | None \<Rightarrow> None) in
      case nonzero (map_option as_vendor_error_code actuator) of
        Some c \<Rightarrow> c
      | None \<Rightarrow>
          (case nonzero (map_option po_vendor_status_code battery) of
             Some c \<Rightarrow> c
           | None \<Rightarrow>
               (case find (\<lambda>f. fl_active f \<and> fl_component_id f = cs_id component) (so_faults snapshot) of
                  Some f \<Rightarrow> fl_vendor_code f | None \<Rightarrow> 0)))"

definition component_temperature :: "float_ops \<Rightarrow> actuator_state option \<Rightarrow> power_source option \<Rightarrow> f64" where
  "component_temperature fo actuator battery =
     (case Option.bind actuator (\<lambda>a. scalar_value (as_motor_temp a)) of
        Some t \<Rightarrow> fo_f32 fo t
      | None \<Rightarrow> (case Option.bind battery (\<lambda>p. scalar_value (po_temperature p)) of Some t \<Rightarrow> fo_f32 fo t | None \<Rightarrow> minus_one))"

definition body_components :: "float_ops \<Rightarrow> soma_snapshot \<Rightarrow> component_status \<Rightarrow> body_component list" where
  "body_components fo snapshot base =
     map (\<lambda>c.
       let actuator = find (\<lambda>a. as_component_id a = cs_id c) (so_actuators snapshot);
           battery = find (\<lambda>p. po_component_id p = cs_id c) (so_power_sources snapshot)
       in \<lparr>bc_name = first_non_empty [cs_name c, cs_id c], bc_kind = component_kind_label (cs_kind c),
           bc_temperature = component_temperature fo actuator battery,
           bc_error_code = component_error_code snapshot c actuator battery,
           bc_enabled = (case actuator of Some a \<Rightarrow> as_torque_enabled a | None \<Rightarrow> cs_present c \<and> cs_online c),
           bc_id = cs_id c, bc_parent_id = cs_parent_id c, bc_model = cs_model c\<rparr>)
       (filter (\<lambda>c. cs_id c \<noteq> cs_id base \<and> component_contains base (cs_id c)) (so_components snapshot))"

definition body_health_for_component :: "float_ops \<Rightarrow> soma_snapshot \<Rightarrow> component_status \<Rightarrow> body_health" where
  "body_health_for_component fo snapshot base =
     \<lparr>bh_body_type = first_non_empty [leaf_after (CHR ''/'') (cs_id base), cs_name base, cs_model base],
      bh_model = first_non_empty [cs_model base, cs_name base, cs_id base, so_body_id snapshot],
      bh_state = body_state snapshot base, bh_message = body_message snapshot base,
      bh_components = body_components fo snapshot base\<rparr>"

definition body_healths :: "float_ops \<Rightarrow> soma_snapshot \<Rightarrow> body_health list" where
  "body_healths fo snapshot =
     (case root_component snapshot of
        None \<Rightarrow> []
      | Some base \<Rightarrow>
          (let bodies = map (body_health_for_component fo snapshot)
                 (filter (\<lambda>c. cs_parent_id c = cs_id base) (so_components snapshot))
           in if bodies = [] then [body_health_for_component fo snapshot base] else bodies))"

definition snapshot_to_vitals :: "float_ops \<Rightarrow> threshold_rule list \<Rightarrow> nat \<Rightarrow> soma_snapshot \<Rightarrow> vitals_snapshot" where
  "snapshot_to_vitals fo rules ts_ns snapshot =
     \<lparr>vs_ts_ns = ts_ns, vs_power = Some (power_state_of fo snapshot), vs_components = component_healths fo rules snapshot,
      vs_bodies = body_healths fo snapshot\<rparr>"

section \<open>The rule that counts\<close>

text \<open>The rank of a match is 3 for an exact id, 2 for a pattern, 1 for a kind.\<close>

lemma match_rank: "match_rule rule component_id kind signal = Some p \<Longrightarrow> p \<in> {1, 2, 3}"
  by (auto simp: match_rule_def split: if_splits option.splits)

definition best_rule :: "string \<Rightarrow> nat \<Rightarrow> string \<Rightarrow> threshold_rule list \<Rightarrow> (nat \<times> nat \<times> threshold_rule) option \<Rightarrow> bool" where
  "best_rule component_id kind signal rules chosen \<longleftrightarrow>
     (case chosen of
        None \<Rightarrow> \<forall>r\<in>set rules. match_rule r component_id kind signal = None
      | Some (p, i, r) \<Rightarrow> i < length rules \<and> rules ! i = r \<and> match_rule r component_id kind signal = Some p
          \<and> (\<forall>j q. j < length rules \<longrightarrow> match_rule (rules ! j) component_id kind signal = Some q \<longrightarrow> q < p \<or> q = p \<and> j \<le> i))"

lemma consider_best:
  assumes "best_rule c k s rules chosen"
  shows "best_rule c k s (rules @ [r]) (consider_rule c k s (length rules, r) chosen)"
  using assms
  by (auto simp: best_rule_def consider_rule_def nth_append less_Suc_eq split: option.splits prod.splits if_splits)
    fastforce+

lemma search_best: "best_rule c k s rules (fold (consider_rule c k s) (zip [0..<length rules] rules) None)"
proof (induction rules rule: rev_induct)
  case (snoc r rules)
  then show ?case by (simp add: consider_best)
qed (simp add: best_rule_def)

text \<open>
  The bounds a scalar is held against are those of the matching rule of the highest rank, the last one where
  several have it; there are none exactly when no rule matches.
\<close>

lemma the_best_rule_counts:
  "case select_threshold rules component_id kind signal of
     None \<Rightarrow> list_all (\<lambda>r. match_rule r component_id kind signal = None) (effective_rules rules)
   | Some b \<Rightarrow> \<exists>i p. i < length (effective_rules rules) \<and> ru_bounds (effective_rules rules ! i) = b
       \<and> match_rule (effective_rules rules ! i) component_id kind signal = Some p
       \<and> list_all (\<lambda>j. case match_rule (effective_rules rules ! j) component_id kind signal of
             Some q \<Rightarrow> q < p \<or> q = p \<and> j \<le> i | None \<Rightarrow> True) [0..<length (effective_rules rules)]"
  using search_best [of component_id kind signal "effective_rules rules"]
  by (auto simp: select_threshold_def best_rule_def list_all_iff split: option.splits)

section \<open>Scalars\<close>

text \<open>
  With an error bound below that lies under the warning bound above, a health is what the bounds say: an error beyond an error
  bound, a warning beyond a warning bound only.
\<close>

lemma scalar_judgement:
  assumes "\<And>e w. \<lbrakk>bd_error_below b = Some (Some e); bd_warn_above b = Some (Some w)\<rbrakk> \<Longrightarrow> e < w"
  shows "fst (evaluate_scalar fo component_id signal (Some v) b) =
    (if reaches (Some v) (bd_error_above b) \<or> falls_to (Some v) (bd_error_below b) then 2
     else if reaches (Some v) (bd_warn_above b) \<or> falls_to (Some v) (bd_warn_below b) then 1 else 0)"
proof -
  have "\<not> (reaches (Some v) (bd_warn_above b) \<and> falls_to (Some v) (bd_error_below b))"
    using assms by (fastforce simp: reaches_def falls_to_def f64_ge_def split: option.splits)
  then show ?thesis by (auto simp: evaluate_scalar_def Let_def)
qed

lemma default_bounds_sane:
  "list_all (\<lambda>r. case (bd_error_below (ru_bounds r), bd_warn_above (ru_bounds r)) of
     (Some (Some e), Some (Some w)) \<Rightarrow> e < w | _ \<Rightarrow> True) default_thresholds"
  by (simp add: default_thresholds_def rule_kind_def above_def below_def)

text \<open>The bounds of the rule that counts, and the health a value gets by them.\<close>

definition outside :: "rat \<Rightarrow> f64 option \<Rightarrow> f64 option \<Rightarrow> bool" where
  "outside v upper lower \<longleftrightarrow> (\<exists>e. upper = Some (Some e) \<and> e \<le> v) \<or> (\<exists>e. lower = Some (Some e) \<and> v \<le> e)"

lemma outside_iff: "outside v upper lower \<longleftrightarrow> reaches (Some v) upper \<or> falls_to (Some v) lower"
  by (auto simp: outside_def reaches_def falls_to_def f64_ge_def split: option.splits)

lemma selected_bounds:
  assumes "i < length (effective_rules rules)"
    and "match_rule (effective_rules rules ! i) component_id kind signal = Some p"
    and "list_all (\<lambda>j. case match_rule (effective_rules rules ! j) component_id kind signal of
          Some q \<Rightarrow> q < p \<or> q = p \<and> j \<le> i | None \<Rightarrow> True) [0..<length (effective_rules rules)]"
  shows "select_threshold rules component_id kind signal = Some (ru_bounds (effective_rules rules ! i))"
proof -
  let ?rs = "effective_rules rules"
  let ?chosen = "fold (consider_rule component_id kind signal) (zip [0..<length ?rs] ?rs) None"
  have best: "best_rule component_id kind signal ?rs ?chosen" by (rule search_best)
  show ?thesis
  proof (cases ?chosen)
    case None
    with best assms(1,2) show ?thesis by (auto simp: best_rule_def)
  next
    case (Some x)
    obtain q j r where x: "x = (q, j, r)" by (metis prod.exhaust)
    with best Some have j: "j < length ?rs" "?rs ! j = r" "match_rule r component_id kind signal = Some q"
      and "p < q \<or> p = q \<and> i \<le> j" using assms(1,2) by (auto simp: best_rule_def)
    moreover from assms(3) j(1) have "case match_rule (?rs ! j) component_id kind signal of
        Some q \<Rightarrow> q < p \<or> q = p \<and> j \<le> i | None \<Rightarrow> True" by (simp add: list_all_iff)
    then have "q < p \<or> q = p \<and> j \<le> i" using j by simp
    ultimately have "i = j" by auto
    with Some x j show ?thesis by (simp add: select_threshold_def)
  qed
qed

text \<open>C36 (functional). A valid reading makes one entry when a rule matches its component and signal. Its health goes by the rule
  of the highest rank (the exact id before a pattern before the kind), the last of them in the file where several
  have it: an error when the value is outside the error bounds of that rule, otherwise a warning when it is outside the
  warning bounds, otherwise well. The rule must not hold values between its bounds to be both too low and too high.\<close>

theorem the_best_rule_judges:
  assumes "i < length (effective_rules rules)" and "rule = effective_rules rules ! i"
    and "match_rule rule component_id kind signal = Some p"
    and "list_all (\<lambda>j. case match_rule (effective_rules rules ! j) component_id kind signal of
          Some q \<Rightarrow> q < p \<or> q = p \<and> j \<le> i | None \<Rightarrow> True) [0..<length (effective_rules rules)]"
    and "\<And>e w. \<lbrakk>bd_error_below (ru_bounds rule) = Some (Some e); bd_warn_above (ru_bounds rule) = Some (Some w)\<rbrakk> \<Longrightarrow> e < w"
  shows "map (\<lambda>c. (co_name c, co_health c)) (scalar_health fo rules component_id kind signal
       (Some \<lparr>sc_value = Some v, sc_quality = quality_valid\<rparr>))
    = [(component_id @ ''/'' @ signal,
        if outside v (bd_error_above (ru_bounds rule)) (bd_error_below (ru_bounds rule)) then 2
        else if outside v (bd_warn_above (ru_bounds rule)) (bd_warn_below (ru_bounds rule)) then 1 else 0)]"
proof -
  have "select_threshold rules component_id kind signal = Some (ru_bounds rule)"
    using selected_bounds assms(1-4) by simp
  moreover obtain h thr d where e: "evaluate_scalar fo component_id signal (Some v) (ru_bounds rule) = (h, thr, d)"
    by (metis prod.exhaust)
  moreover from scalar_judgement [of "ru_bounds rule" fo component_id signal v] assms(5) e
  have "h = (if outside v (bd_error_above (ru_bounds rule)) (bd_error_below (ru_bounds rule)) then 2
      else if outside v (bd_warn_above (ru_bounds rule)) (bd_warn_below (ru_bounds rule)) then 1 else 0)"
    by (simp add: outside_iff)
  ultimately show ?thesis
    by (simp add: scalar_health_def quality_valid_def quality_stale_def quality_invalid_def Let_def)
qed

text \<open>A joint at 80 degrees, with two rules of its own of which the exact one counts although it comes first.\<close>

definition demo_rules :: "threshold_rule list" where
  "demo_rules =
     [\<lparr>ru_id = ''knee'', ru_kind = None, ru_component_id = Some ''leg/knee'', ru_component_id_glob = None,
       ru_signal = ''motor_temp'', ru_bounds = above 75 90, ru_unit = ''degC''\<rparr>,
      rule_kind ''joints'' kind_joint ''motor_temp'' (above 60 70) ''degC'']"

definition demo_floats :: float_ops where
  "demo_floats = \<lparr>fo_f32 = id, fo_show1 = (\<lambda>_. ''n'')\<rparr>"

theorem the_best_rule_judges_witness:
  "map (\<lambda>c. (co_name c, co_health c)) (scalar_health demo_floats demo_rules ''leg/knee'' kind_joint ''motor_temp''
     (Some \<lparr>sc_value = Some 80, sc_quality = quality_valid\<rparr>)) = [(''leg/knee/motor_temp'', 1)]"
proof -
  have rules: "effective_rules demo_rules = demo_rules" by (simp add: effective_rules_def demo_rules_def)
  have first: "demo_rules ! 0 = \<lparr>ru_id = ''knee'', ru_kind = None, ru_component_id = Some ''leg/knee'',
      ru_component_id_glob = None, ru_signal = ''motor_temp'', ru_bounds = above 75 90, ru_unit = ''degC''\<rparr>"
    and len: "length demo_rules = 2" by (simp_all add: demo_rules_def)
  have best: "list_all (\<lambda>j. case match_rule (effective_rules demo_rules ! j) ''leg/knee'' kind_joint ''motor_temp'' of
      Some q \<Rightarrow> q < 3 \<or> q = 3 \<and> j \<le> 0 | None \<Rightarrow> True) [0..<length (effective_rules demo_rules)]"
    unfolding rules len by (simp add: upt_conv_Cons demo_rules_def match_rule_def rule_kind_def)
  have "match_rule (demo_rules ! 0) ''leg/knee'' kind_joint ''motor_temp'' = Some 3"
    by (simp add: first match_rule_def)
  from the_best_rule_judges [of 0 demo_rules "demo_rules ! 0", OF _ _ this best, of demo_floats 80] show ?thesis
    by (simp add: rules len first above_def outside_def)
qed

text \<open>Without that order a value can be below the error bound and still be only a warning.\<close>

lemma crossed_bounds_hide_an_error:
  "fst (evaluate_scalar fo c s (Some 15)
     \<lparr>bd_warn_above = Some (Some 10), bd_error_above = None, bd_warn_below = None, bd_error_below = Some (Some 20)\<rparr>) = 1"
  by (simp add: evaluate_scalar_def reaches_def falls_to_def f64_ge_def Let_def)

section \<open>Patterns\<close>

text \<open>A pattern with a wildcard means a text that starts and ends so; but the two parts may overlap.\<close>

lemma split_at_star: "CHR ''*'' \<notin> set prefix \<Longrightarrow> split_once (CHR ''*'') (prefix @ CHR ''*'' # suffix) = Some (prefix, suffix)"
  by (induction prefix) auto

lemma wildcard_meaning:
  assumes "CHR ''*'' \<notin> set prefix" and "prefix @ suffix \<noteq> []"
  shows "segment_matches (prefix @ CHR ''*'' # suffix) value \<and> length prefix + length suffix \<le> length value
    \<longleftrightarrow> (\<exists>mid. value = prefix @ mid @ suffix)"
proof -
  have "prefix @ CHR ''*'' # suffix \<noteq> ''*''" using assms(2) by (cases prefix) auto
  with split_at_star [OF assms(1), of suffix]
  have "segment_matches (prefix @ CHR ''*'' # suffix) value \<longleftrightarrow> starts_with prefix value \<and> ends_with suffix value"
    by (simp add: segment_matches_def)
  also have "\<dots> \<and> length prefix + length suffix \<le> length value \<longleftrightarrow> (\<exists>mid. value = prefix @ mid @ suffix)"
  proof safe
    assume "starts_with prefix value" "ends_with suffix value" and len: "length prefix + length suffix \<le> length value"
    from \<open>starts_with prefix value\<close> obtain r where r: "value = prefix @ r" unfolding starts_with_iff by blast
    from \<open>ends_with suffix value\<close> obtain q where q: "value = q @ suffix" unfolding ends_with_iff by blast
    from q len have "length prefix \<le> length q" by simp
    then obtain mid where "q = prefix @ mid" using r q by (metis append_eq_append_conv_if append_take_drop_id)
    with q show "\<exists>mid. value = prefix @ mid @ suffix" by auto
  qed (auto simp: starts_with_iff ends_with_iff)
  finally show ?thesis .
qed

lemma wildcard_overlaps: "segment_matches ''ab*ba'' ''aba'' \<and> \<not> (\<exists>mid. ''aba'' = ''ab'' @ mid @ ''ba'')"
  by (auto simp: segment_matches_def starts_with_iff ends_with_def)

section \<open>What the snapshot says\<close>

text \<open>An emergency stop reaches every body, and there is a body as soon as there is a root.\<close>

lemma estop_reaches_every_body:
  "so_safety snapshot = Some 4 \<Longrightarrow> b \<in> set (body_healths fo snapshot) \<Longrightarrow> bh_state b = 2"
  by (auto simp: body_healths_def body_health_for_component_def body_state_def Let_def split: option.splits if_splits)

lemma some_body:
  "body_healths fo snapshot \<noteq> [] \<longleftrightarrow> root_component snapshot \<noteq> None"
  by (simp add: body_healths_def Let_def split: option.split)

text \<open>A scalar that makes no complaint: not stale, not invalid, and, when it is valid, within the bounds of its rule. One of
  quality UNAVAILABLE (2) makes none.\<close>

definition scalar_fine :: "threshold_rule list \<Rightarrow> string \<Rightarrow> nat \<Rightarrow> string \<Rightarrow> scalar option \<Rightarrow> bool" where
  "scalar_fine rules component_id kind signal scalar =
     (case scalar of
        None \<Rightarrow> True
      | Some s \<Rightarrow> sc_quality s \<notin> {quality_stale, quality_invalid}
          \<and> (sc_quality s = quality_valid \<longrightarrow>
              (case select_threshold rules component_id kind signal of
                 None \<Rightarrow> True
               | Some b \<Rightarrow> sc_value s \<noteq> None \<and> \<not> reaches (sc_value s) (bd_error_above b) \<and> \<not> reaches (sc_value s) (bd_warn_above b)
                   \<and> \<not> falls_to (sc_value s) (bd_error_below b) \<and> \<not> falls_to (sc_value s) (bd_warn_below b))))"

abbreviation all_ok :: "component_health list \<Rightarrow> bool" where
  "all_ok cs \<equiv> list_all (\<lambda>c. co_health c = 0) cs"

lemma scalar_ok: "all_ok (scalar_health fo rules i kind signal scalar) \<longleftrightarrow> scalar_fine rules i kind signal scalar"
  by (auto simp: scalar_health_def scalar_fine_def evaluate_scalar_def quality_valid_def quality_stale_def quality_invalid_def
      Let_def split: option.split)

lemma flag_ok: "h \<noteq> 0 \<Longrightarrow> all_ok (flag_health raised n h d v t) \<longleftrightarrow> \<not> raised"
  by (simp add: flag_health_def)

lemma all_ok_concat: "all_ok (concat (map f xs)) \<longleftrightarrow> (\<forall>x\<in>set xs. all_ok (f x))"
  by (induction xs) auto

text \<open>When the entries are all well: every actuator talks, has no error code and its torque on, no fault is active, and no
  scalar makes a complaint. The safety state, parts that are offline or report an error of their own, and readings that
  are unavailable have no entry, so they can be wrong while all entries are well.
\<close>

lemma entries_well_iff:
  "all_ok (vs_components (snapshot_to_vitals fo rules ts snapshot)) \<longleftrightarrow>
     list_all (\<lambda>a. as_communication_ok a \<and> as_vendor_error_code a = 0 \<and> as_torque_enabled a
        \<and> scalar_fine rules (as_component_id a) (kind_of_component snapshot kind_joint (as_component_id a)) ''motor_temp'' (as_motor_temp a)
        \<and> scalar_fine rules (as_component_id a) (kind_of_component snapshot kind_joint (as_component_id a)) ''driver_temp'' (as_driver_temp a))
       (so_actuators snapshot)
     \<and> list_all (\<lambda>p. scalar_fine rules (po_component_id p) (kind_of_component snapshot kind_battery (po_component_id p)) ''soc_percent'' (po_soc_percent p)
        \<and> scalar_fine rules (po_component_id p) (kind_of_component snapshot kind_battery (po_component_id p)) ''voltage'' (po_voltage p)
        \<and> scalar_fine rules (po_component_id p) (kind_of_component snapshot kind_battery (po_component_id p)) ''temperature'' (po_temperature p))
       (so_power_sources snapshot)
     \<and> list_all (\<lambda>m. scalar_fine rules (me_component_id m) (kind_of_component snapshot kind_sensor (me_component_id m)) (me_name m) (me_value m))
       (so_metrics snapshot)
     \<and> list_all (\<lambda>f. \<not> fl_active f) (so_faults snapshot)"
proof -
  have "all_ok (actuator_healths fo rules snapshot a) \<longleftrightarrow> as_communication_ok a \<and> as_vendor_error_code a = 0 \<and> as_torque_enabled a
      \<and> scalar_fine rules (as_component_id a) (kind_of_component snapshot kind_joint (as_component_id a)) ''motor_temp'' (as_motor_temp a)
      \<and> scalar_fine rules (as_component_id a) (kind_of_component snapshot kind_joint (as_component_id a)) ''driver_temp'' (as_driver_temp a)" for a
    by (auto simp: actuator_healths_def Let_def scalar_ok flag_ok)
  moreover have "all_ok (fault_healths fo f) \<longleftrightarrow> \<not> fl_active f" for f
    by (simp add: fault_healths_def flag_ok fault_severity_health_def)
  ultimately show ?thesis
    by (simp only: snapshot_to_vitals_def vitals_snapshot.simps component_healths_def list_all_append all_ok_concat power_healths_def
        metric_healths_def Let_def scalar_ok list_all_iff [symmetric] Ball_set)
qed

text \<open>In an emergency stop with a part offline and a reading unavailable all entries are well: there are none.\<close>

definition quiet_emergency :: soma_snapshot where
  "quiet_emergency =
     \<lparr>so_body_id = ''b'',
      so_components = [\<lparr>cs_id = ''body'', cs_parent_id = [], cs_kind = 1, cs_name = ''body'', cs_model = ''m'', cs_present = True,
        cs_online = False\<rparr>],
      so_actuators = [], so_power_sources = [], so_safety = Some 4, so_faults = [],
      so_metrics = [\<lparr>me_component_id = ''body'', me_name = ''temperature'', me_value = Some \<lparr>sc_value = Some 0, sc_quality = 2\<rparr>\<rparr>]\<rparr>"

lemma emergency_without_entries: "component_healths fo rules quiet_emergency = []"
  by (simp add: quiet_emergency_def component_healths_def metric_healths_def scalar_health_def quality_valid_def
      quality_stale_def quality_invalid_def)

text \<open>A fault whose severity is only informative counts as an error, though its body is normal.\<close>

definition info_fault :: soma_snapshot where
  "info_fault =
     \<lparr>so_body_id = ''b'',
      so_components = [\<lparr>cs_id = ''body'', cs_parent_id = [], cs_kind = 1, cs_name = ''body'', cs_model = ''m'', cs_present = True,
        cs_online = True\<rparr>],
      so_actuators = [], so_power_sources = [], so_safety = Some 1,
      so_faults = [\<lparr>fl_component_id = ''body'', fl_fault_id = ''note'', fl_severity = 0, fl_active = True, fl_vendor_code = 0,
        fl_message = []\<rparr>],
      so_metrics = []\<rparr>"

lemma information_counts_as_error:
  "map co_health (component_healths fo rules info_fault) = [2] \<and> map bh_state (body_healths fo info_fault) = [0]"
  by (simp add: info_fault_def component_healths_def fault_healths_def flag_health_def fault_severity_health_def body_healths_def
      root_component_def body_health_for_component_def body_state_def lost_contact_def Let_def)

end
