(* ===== verification/Vitals_Stream.thy ===== *)
theory Vitals_Stream
  imports Vitals_Judge Prelude
begin

text \<open>
  What subscribers of Vitals hear: \<open>update_snapshot\<close> and the handlers of \<open>system/vitals/src/service.rs\<close>. Each snapshot becomes
  the latest one and is sent on only when something changed against what is remembered of the one before: the health of a
  component, the state or message of a body, the error code or switch of a part, the power. The broadcast is the list of
  what was sent; a subscriber too slow for its 64 places misses some, which is left out, as are log lines.

  The main result: as long as no component leaves the list, the last snapshot sent has the healths of the latest one. And
  what does not hold: entries leave the list when what they told of is over, so a fault that clears is not told; power is
  compared with the snapshot before, so a battery that empties slowly is not told either.
\<close>

section \<open>Remembering and comparing\<close>

record prev_component_state =
  pc_error_code :: nat
  pc_enabled :: bool

record vitals_state =
  vt_latest :: vitals_snapshot
  vt_sent :: "vitals_snapshot list"
  vt_prev_health :: "(string, nat) hmap"
  vt_prev_body_state :: "(string, nat) hmap"
  vt_prev_component :: "(string, prev_component_state) hmap"
  vt_prev_power :: "power_state option"
  vt_prev_body_message :: "(string, string) hmap"
  vt_first_body :: bool

definition vitals_start :: "nat \<Rightarrow> vitals_state" where
  "vitals_start now_ns =
     \<lparr>vt_latest = \<lparr>vs_ts_ns = now_ns,
        vs_power = Some \<lparr>pw_battery_percent = minus_one, pw_voltage = minus_one, pw_charging = False, pw_remaining_s = - 1\<rparr>,
        vs_components = [], vs_bodies = []\<rparr>,
      vt_sent = [], vt_prev_health = [], vt_prev_body_state = [], vt_prev_component = [], vt_prev_power = None,
      vt_prev_body_message = [], vt_first_body = True\<rparr>"

definition get_or :: "'v \<Rightarrow> ('k, 'v) hmap \<Rightarrow> 'k \<Rightarrow> 'v" where
  "get_or d m k = (case hm_get m k of Some v \<Rightarrow> v | None \<Rightarrow> d)"

definition component_changed :: "(string, nat) hmap \<Rightarrow> component_health \<Rightarrow> bool" where
  "component_changed prev c \<longleftrightarrow> co_health c \<noteq> get_or 0 prev (co_name c)"

definition remember_healths :: "component_health list \<Rightarrow> (string, nat) hmap" where
  "remember_healths cs = fold (\<lambda>c. hm_insert (co_name c) (co_health c)) cs []"

definition body_key :: "body_health \<Rightarrow> string" where
  "body_key b = bh_body_type b @ ''/'' @ bh_model b"

definition part_display_name :: "body_component \<Rightarrow> string" where
  "part_display_name c = first_non_empty [bc_id c, bc_name c]"

definition part_key :: "string \<Rightarrow> body_component \<Rightarrow> string" where
  "part_key key c = (if trim (bc_id c) \<noteq> [] then bc_id c else key @ ''/'' @ part_display_name c)"

definition part_changed :: "(string, prev_component_state) hmap \<Rightarrow> string \<Rightarrow> body_component \<Rightarrow> bool" where
  "part_changed prev key c \<longleftrightarrow>
     (case hm_get prev (part_key key c) of
        Some p \<Rightarrow> bc_error_code c \<noteq> pc_error_code p \<or> bc_enabled c \<noteq> pc_enabled p
      | None \<Rightarrow> bc_error_code c \<noteq> 0 \<or> \<not> bc_enabled c)"

definition body_changed :: "vitals_state \<Rightarrow> body_health \<Rightarrow> bool" where
  "body_changed s b \<longleftrightarrow>
     (let key = body_key b; prev_state = get_or 0 (vt_prev_body_state s) key in
      (if bh_state b \<noteq> prev_state then True
       else bh_message b \<noteq> [] \<and> bh_message b \<noteq> get_or [] (vt_prev_body_message s) key)
      \<or> list_ex (part_changed (vt_prev_component s) key) (bh_components b))"

definition remember_body :: "body_health \<Rightarrow> vitals_state \<Rightarrow> vitals_state" where
  "remember_body b s =
     (let key = body_key b in
      s\<lparr>vt_prev_body_state := hm_insert key (bh_state b) (vt_prev_body_state s),
        vt_prev_body_message := hm_insert key (bh_message b) (vt_prev_body_message s),
        vt_prev_component := fold (\<lambda>c. hm_insert (part_key key c) \<lparr>pc_error_code = bc_error_code c, pc_enabled = bc_enabled c\<rparr>)
          (bh_components b) (vt_prev_component s)\<rparr>)"

definition visit_body :: "body_health \<Rightarrow> bool \<times> vitals_state \<Rightarrow> bool \<times> vitals_state" where
  "visit_body b = (\<lambda>(changed, s). (changed \<or> (if vt_first_body s then True else body_changed s b), remember_body b s))"

definition moved_by :: "rat \<Rightarrow> f64 \<Rightarrow> f64 \<Rightarrow> bool" where
  "moved_by d a b = (case (a, b) of (Some x, Some y) \<Rightarrow> \<bar>x - y\<bar> > d | _ \<Rightarrow> False)"

definition power_changed :: "power_state option \<Rightarrow> power_state option \<Rightarrow> bool" where
  "power_changed cur prev =
     (case (cur, prev) of
        (Some c, Some p) \<Rightarrow> moved_by (5 / 100) (pw_voltage c) (pw_voltage p) \<or> pw_charging c \<noteq> pw_charging p
          \<or> moved_by (5 / 10) (pw_battery_percent c) (pw_battery_percent p)
      | (Some _, None) \<Rightarrow> True
      | _ \<Rightarrow> False)"

definition update_snapshot :: "vitals_snapshot \<Rightarrow> vitals_state \<Rightarrow> vitals_state" where
  "update_snapshot snapshot s =
     (let changed = (vt_prev_health s = [] \<or> list_ex (component_changed (vt_prev_health s)) (vs_components snapshot));
          s = s\<lparr>vt_latest := snapshot, vt_prev_health := remember_healths (vs_components snapshot)\<rparr>;
          (changed, s) = fold visit_body (vs_bodies snapshot) (changed, s);
          s = (if vs_bodies snapshot \<noteq> [] then s\<lparr>vt_first_body := False\<rparr> else s);
          changed = (changed \<or> power_changed (vs_power snapshot) (vt_prev_power s));
          s = s\<lparr>vt_prev_power := vs_power snapshot\<rparr>
      in if changed then s\<lparr>vt_sent := vt_sent s @ [snapshot]\<rparr> else s)"

definition vitals_run :: "vitals_snapshot list \<Rightarrow> vitals_state \<Rightarrow> vitals_state" where
  "vitals_run snapshots s = fold update_snapshot snapshots s"

text \<open>\<open>get_vitals\<close>, and what a subscriber hears: the latest snapshot, then what is sent on.\<close>

definition get_vitals :: "vitals_state \<Rightarrow> vitals_snapshot" where
  "get_vitals s = vt_latest s"

definition subscriber_hears :: "vitals_state \<Rightarrow> vitals_snapshot list \<Rightarrow> vitals_snapshot list" where
  "subscriber_hears s later = vt_latest s # drop (length (vt_sent s)) (vt_sent (vitals_run later s))"

section \<open>When a snapshot is sent\<close>

lemma visit_fields [simp]:
  "vt_latest (snd (fold visit_body bs (ch, s))) = vt_latest s"
  "vt_sent (snd (fold visit_body bs (ch, s))) = vt_sent s"
  "vt_prev_health (snd (fold visit_body bs (ch, s))) = vt_prev_health s"
  "vt_prev_power (snd (fold visit_body bs (ch, s))) = vt_prev_power s"
  "vt_first_body (snd (fold visit_body bs (ch, s))) = vt_first_body s"
  by (induction bs arbitrary: ch s) (simp_all add: visit_body_def remember_body_def Let_def)

lemma visit_changed: "ch \<Longrightarrow> fst (fold visit_body bs (ch, s))"
  by (induction bs arbitrary: ch s) (simp_all add: visit_body_def)

lemma update_fields [simp]:
  "vt_latest (update_snapshot x s) = x"
  "vt_prev_health (update_snapshot x s) = remember_healths (vs_components x)"
  "vt_prev_power (update_snapshot x s) = vs_power x"
  by (simp_all add: update_snapshot_def Let_def case_prod_beta)

abbreviation told_why :: "vitals_snapshot \<Rightarrow> vitals_state \<Rightarrow> bool" where
  "told_why x s \<equiv> vt_prev_health s = [] \<or> list_ex (component_changed (vt_prev_health s)) (vs_components x)"

definition sends :: "vitals_snapshot \<Rightarrow> vitals_state \<Rightarrow> bool" where
  "sends x s \<longleftrightarrow>
     fst (fold visit_body (vs_bodies x) (told_why x s, s\<lparr>vt_latest := x, vt_prev_health := remember_healths (vs_components x)\<rparr>))
     \<or> power_changed (vs_power x) (vt_prev_power s)"

lemma update_sent: "vt_sent (update_snapshot x s) = (if sends x s then vt_sent s @ [x] else vt_sent s)"
  by (simp add: update_snapshot_def sends_def Let_def case_prod_beta)

lemma update_sends: "vt_sent (update_snapshot x s) = vt_sent s \<or> vt_sent (update_snapshot x s) = vt_sent s @ [x]"
  by (simp add: update_sent)

lemma unsent_means_unchanged:
  assumes "vt_sent (update_snapshot x s) = vt_sent s"
  shows "vt_prev_health s \<noteq> []" and "list_all (\<lambda>c. co_health c = get_or 0 (vt_prev_health s) (co_name c)) (vs_components x)"
    and "\<not> power_changed (vs_power x) (vt_prev_power s)"
proof -
  from assms have "\<not> sends x s" by (simp add: update_sent split: if_splits)
  then have no: "\<not> fst (fold visit_body (vs_bodies x)
      (told_why x s, s\<lparr>vt_latest := x, vt_prev_health := remember_healths (vs_components x)\<rparr>))
    \<and> \<not> power_changed (vs_power x) (vt_prev_power s)"
    unfolding sends_def de_Morgan_disj .
  note p = conjunct2 [OF no] and v = conjunct1 [OF no]
  from v have "\<not> told_why x s" using visit_changed [of "told_why x s"] by (rule contrapos_nn)
  then show "vt_prev_health s \<noteq> []" "list_all (\<lambda>c. co_health c = get_or 0 (vt_prev_health s) (co_name c)) (vs_components x)"
    by (auto simp: list_ex_iff list_all_iff component_changed_def)
  show "\<not> power_changed (vs_power x) (vt_prev_power s)" by (rule p)
qed

text \<open>The health of a component in a snapshot: the last entry under its name, well where there is none.\<close>

definition health_in :: "vitals_snapshot \<Rightarrow> string \<Rightarrow> nat" where
  "health_in x n = get_or 0 (remember_healths (vs_components x)) n"

definition names_in :: "vitals_snapshot \<Rightarrow> string list" where
  "names_in x = map co_name (vs_components x)"

lemma remember_get:
  "hm_get (fold (\<lambda>c. hm_insert (co_name c) (co_health c)) cs m) n =
     (case map_of (rev (map (\<lambda>c. (co_name c, co_health c)) cs)) n of Some h \<Rightarrow> Some h | None \<Rightarrow> hm_get m n)"
  by (induction cs arbitrary: m) (auto simp: map_add_def split: option.split)

lemma remember_None: "n \<notin> set (names_in x) \<Longrightarrow> health_in x n = 0"
proof -
  assume "n \<notin> set (names_in x)"
  then have "map_of (rev (map (\<lambda>c. (co_name c, co_health c)) (vs_components x))) n = None"
    by (auto simp: map_of_eq_None_iff names_in_def image_image)
  then show ?thesis by (simp add: health_in_def get_or_def remember_healths_def remember_get)
qed

lemma remember_Some:
  assumes "n \<in> set (names_in x)"
  shows "\<exists>c\<in>set (vs_components x). co_name c = n \<and> co_health c = health_in x n"
proof -
  let ?l = "rev (map (\<lambda>c. (co_name c, co_health c)) (vs_components x))"
  from assms have "map_of ?l n \<noteq> None" by (auto simp: map_of_eq_None_iff names_in_def image_image)
  then obtain h where h: "map_of ?l n = Some h" by blast
  then have "(n, h) \<in> set ?l" by (rule map_of_SomeD)
  moreover have "health_in x n = h" by (simp add: health_in_def get_or_def remember_healths_def remember_get h)
  ultimately show ?thesis by auto
qed

text \<open>One snapshot: what is not sent has the healths of the one before, for the components it still lists.\<close>

lemma unsent_healths:
  assumes "vt_sent (update_snapshot x s) = vt_sent s" and "vt_prev_health s = remember_healths (vs_components y)"
    and "n \<in> set (names_in x) \<or> n \<notin> set (names_in y)"
  shows "health_in x n = health_in y n"
proof (cases "n \<in> set (names_in x)")
  case True
  from remember_Some [OF this] obtain c where c: "c \<in> set (vs_components x)" "co_name c = n" "co_health c = health_in x n" by blast
  with unsent_means_unchanged(2) [OF assms(1)] show ?thesis
    by (auto simp: list_all_iff assms(2) health_in_def)
next
  case False
  with assms(3) show ?thesis by (simp add: remember_None)
qed

text \<open>No component leaves the list from one snapshot to the next.\<close>

fun names_stay :: "vitals_snapshot list \<Rightarrow> bool" where
  "names_stay (x # y # xs) = (set (names_in x) \<subseteq> set (names_in y) \<and> names_stay (y # xs))"
| "names_stay _ = True"

text \<open>What subscribers were told last agrees with the latest snapshot.\<close>

definition told_truly :: "vitals_state \<Rightarrow> bool" where
  "told_truly s \<longleftrightarrow> vt_sent s \<noteq> [] \<and> (\<forall>n. health_in (last (vt_sent s)) n = health_in (vt_latest s) n)
     \<and> vt_prev_health s = remember_healths (vs_components (vt_latest s))"

lemma told_step:
  assumes "told_truly s" and "set (names_in (vt_latest s)) \<subseteq> set (names_in x)"
  shows "told_truly (update_snapshot x s)"
proof (cases "vt_sent (update_snapshot x s) = vt_sent s")
  case True
  from assms have prev: "vt_prev_health s = remember_healths (vs_components (vt_latest s))" by (simp add: told_truly_def)
  have "health_in x n = health_in (vt_latest s) n" for n
    using unsent_healths [OF True prev] assms(2) by blast
  with assms(1) True show ?thesis by (simp add: told_truly_def)
next
  case False
  with update_sends [of x s] show ?thesis by (auto simp: told_truly_def)
qed

lemma told_run: "told_truly s \<Longrightarrow> names_stay (vt_latest s # xs) \<Longrightarrow> told_truly (vitals_run xs s)"
proof (induction xs arbitrary: s)
  case (Cons x xs)
  then have "told_truly (update_snapshot x s)" by (intro told_step) simp_all
  with Cons show ?case by (simp add: vitals_run_def)
qed (simp add: vitals_run_def)

lemma first_is_sent: "vt_sent (update_snapshot x (vitals_start t)) = [x]"
  using update_sends [of x "vitals_start t"] unsent_means_unchanged(1) [of x "vitals_start t"] by (auto simp: vitals_start_def)

text \<open>C37 (safety). As long as no component leaves the list, the snapshot that was sent last shows every component with the health
  it has now.
\<close>

theorem subscribers_know_the_healths:
  assumes "names_stay (x # xs)"
  shows "health_in (last (vt_sent (vitals_run (x # xs) (vitals_start t)))) n = health_in (get_vitals (vitals_run (x # xs) (vitals_start t))) n"
proof -
  have "told_truly (update_snapshot x (vitals_start t))" by (simp add: told_truly_def first_is_sent)
  from told_run [OF this, of xs] assms show ?thesis by (simp add: told_truly_def vitals_run_def get_vitals_def)
qed

section \<open>What is not told\<close>

text \<open>
  A warning that is over leaves the list, so nothing differs from what is remembered, and a message that becomes empty is not
  a change: subscribers go on seeing the warning. Here a body has a warning fault, then none.
\<close>

definition plain_floats :: float_ops where
  "plain_floats = \<lparr>fo_f32 = (\<lambda>x. x), fo_show1 = (\<lambda>_. [])\<rparr>"

definition demo_body :: "fault_state list \<Rightarrow> soma_snapshot" where
  "demo_body faults =
     \<lparr>so_body_id = ''b'',
      so_components = [\<lparr>cs_id = ''body'', cs_parent_id = [], cs_kind = 1, cs_name = ''body'', cs_model = ''m'', cs_present = True,
        cs_online = True\<rparr>],
      so_actuators = [], so_power_sources = [], so_safety = Some 1, so_faults = faults,
      so_metrics = [\<lparr>me_component_id = ''body'', me_name = ''temperature'', me_value = Some \<lparr>sc_value = Some 40, sc_quality = 1\<rparr>\<rparr>]\<rparr>"

definition demo_warning :: fault_state where
  "demo_warning = \<lparr>fl_component_id = ''body'', fl_fault_id = ''slip'', fl_severity = 1, fl_active = True, fl_vendor_code = 0,
     fl_message = []\<rparr>"

definition cleared_warning :: vitals_state where
  "cleared_warning =
     vitals_run [snapshot_to_vitals plain_floats [] 1 (demo_body [demo_warning]), snapshot_to_vitals plain_floats [] 2 (demo_body [])]
       (vitals_start 0)"

definition demo_snapshot :: "nat \<Rightarrow> fault_state \<Rightarrow> vitals_snapshot" where
  "demo_snapshot t f = snapshot_to_vitals plain_floats [] t (demo_body [f])"

theorem subscribers_know_the_healths_witness:
  "health_in (last (vt_sent (vitals_run [demo_snapshot 1 demo_warning, demo_snapshot 2 (demo_warning\<lparr>fl_severity := 2\<rparr>)] (vitals_start 0))))
     ''body/fault/slip'' = 2"
proof -
  let ?x = "demo_snapshot 1 demo_warning" and ?y = "demo_snapshot 2 (demo_warning\<lparr>fl_severity := 2\<rparr>)"
  have "names_stay [?x, ?y]" and "health_in (get_vitals (vitals_run [?x, ?y] (vitals_start 0))) ''body/fault/slip'' = 2" by code_simp+
  with subscribers_know_the_healths [of ?x "[?y]" 0 "''body/fault/slip''"] show ?thesis by simp
qed

lemma cleared_warning_is_not_told:
  "health_in (last (vt_sent cleared_warning)) ''body/fault/slip'' = 1 \<and> health_in (get_vitals cleared_warning) ''body/fault/slip'' = 0"
  by code_simp

text \<open>Power is compared with the snapshot before, whether that one was sent or not: small steps add up unseen.\<close>

definition battery_snapshot :: "rat \<Rightarrow> vitals_snapshot" where
  "battery_snapshot percent =
     \<lparr>vs_ts_ns = 0, vs_power = Some \<lparr>pw_battery_percent = Some percent, pw_voltage = Some 24, pw_charging = False, pw_remaining_s = - 1\<rparr>,
      vs_components = [\<lparr>co_name = ''cpu'', co_health = 0, co_detail = [], co_value = Some 0, co_threshold = minus_one\<rparr>],
      vs_bodies = []\<rparr>"

lemma small_step_unsent:
  assumes "vt_latest s = battery_snapshot p" and "vt_prev_health s = remember_healths (vs_components (battery_snapshot p))"
    and "vt_prev_power s = vs_power (battery_snapshot p)" and "\<bar>q - p\<bar> \<le> 1 / 2"
  shows "vt_sent (update_snapshot (battery_snapshot q) s) = vt_sent s"
  using assms
  by (simp add: update_snapshot_def Let_def battery_snapshot_def power_changed_def moved_by_def component_changed_def
      remember_healths_def get_or_def hm_insert_def hm_get_def)

lemma battery_empties_unseen:
  "vt_sent (vitals_run (map (\<lambda>k. battery_snapshot (100 - of_nat k / 2)) [0..<Suc n]) (vitals_start t)) = [battery_snapshot 100]
   \<and> get_vitals (vitals_run (map (\<lambda>k. battery_snapshot (100 - of_nat k / 2)) [0..<Suc n]) (vitals_start t)) = battery_snapshot (100 - of_nat n / 2)"
proof -
  define run where "run n = vitals_run (map (\<lambda>k. battery_snapshot (100 - of_nat k / 2)) [0..<Suc n]) (vitals_start t)" for n
  have next_run: "run (Suc n) = update_snapshot (battery_snapshot (100 - of_nat (Suc n) / 2)) (run n)" for n
    by (simp add: run_def vitals_run_def)
  have "vt_sent (run n) = [battery_snapshot 100] \<and> vt_latest (run n) = battery_snapshot (100 - of_nat n / 2)
      \<and> vt_prev_health (run n) = remember_healths (vs_components (battery_snapshot (100 - of_nat n / 2)))
      \<and> vt_prev_power (run n) = vs_power (battery_snapshot (100 - of_nat n / 2))"
  proof (induction n)
    case 0
    show ?case by (simp add: run_def vitals_run_def first_is_sent)
  next
    case (Suc n)
    then have "vt_sent (run (Suc n)) = vt_sent (run n)"
      unfolding next_run by (intro small_step_unsent) (auto simp: field_simps)
    with Suc show ?case by (simp only: next_run update_fields simp_thms)
  qed
  then show ?thesis by (simp add: run_def get_vitals_def)
qed

text \<open>A battery that loses half a percent from one snapshot to the next is empty in the end, and subscribers believe it full.\<close>

lemma empty_battery_looks_full:
  "map (\<lambda>x. map_option pw_battery_percent (vs_power x))
     [last (vt_sent (vitals_run (map (\<lambda>k. battery_snapshot (100 - of_nat k / 2)) [0..<Suc 200]) (vitals_start 0))),
      get_vitals (vitals_run (map (\<lambda>k. battery_snapshot (100 - of_nat k / 2)) [0..<Suc 200]) (vitals_start 0))]
   = [Some (Some 100), Some (Some 0)]"
  using battery_empties_unseen [of 200 0] by (simp add: battery_snapshot_def del: upt_Suc)

end
