(* ===== verification/Liaison_Access.thy ===== *)
theory Liaison_Access
  imports Vitals_Judge Pilot_Transcript
begin

text \<open>
  Who may give orders through Liaison: the gate of \<open>system/liaison/src/access.rs\<close>, its use for text in \<open>main.rs\<close>
  and for voice in \<open>voice.rs\<close>, and the table of running captures. The JSON reader and printer, the name of the user Liaison
  runs as, the environment and the voiceprint service are inputs; a confidence is a rational number or no number.

  The main result: with the gate on, a voice task goes out only for a speaker the voiceprint service knows well enough and
  the list admits, and under that identity. And what the gate does not do: a text client names itself as it likes, an
  anonymous one passes as the user Liaison runs as, and a context that is no object carries no identity.
\<close>

section \<open>Identities\<close>

definition normalize_user_id :: "string \<Rightarrow> string \<Rightarrow> string" where
  "normalize_user_id raw default_prefix =
     (let trimmed = trim raw in
      if trimmed = [] then []
      else if CHR '':'' \<in> set trimmed then trimmed
      else default_prefix @ '':'' @ trimmed)"

fun split_by :: "(char \<Rightarrow> bool) \<Rightarrow> string \<Rightarrow> string list" where
  "split_by P [] = [[]]"
| "split_by P (c # s) =
     (if P c then [] # split_by P s
      else case split_by P s of part # rest \<Rightarrow> (c # part) # rest | [] \<Rightarrow> [[c]])"

definition parse_user_set :: "string \<Rightarrow> string list" where
  "parse_user_set raw =
     map (\<lambda>s. if CHR '':'' \<in> set s then s else normalize_user_id s ''local'')
       (filter (\<lambda>s. s \<noteq> []) (map trim (split_by (\<lambda>c. c = CHR '','' \<or> c = CHR '';'' \<or> is_ws c) raw)))"

definition env_bool :: "bool \<Rightarrow> string option \<Rightarrow> bool" where
  "env_bool default_value v = (case v of Some s \<Rightarrow> s \<in> {''1'', ''true'', ''yes'', ''on''} | None \<Rightarrow> default_value)"

section \<open>The gate\<close>

datatype access_method = Method_User_List | Method_Voiceprint | Method_Disabled

definition method_str :: "access_method \<Rightarrow> string" where
  "method_str m = (case m of Method_User_List \<Rightarrow> ''user_list'' | Method_Voiceprint \<Rightarrow> ''voiceprint'' | Method_Disabled \<Rightarrow> ''disabled'')"

datatype access_decision =
  Allow (ad_user: string) (ad_method: access_method) (ad_confidence: f64) (ad_reason: string)
| Deny (ad_user: string) (ad_confidence: f64) (ad_reason: string)

record access_config =
  ac_enabled :: bool
  ac_allowed_users :: "string list"
  ac_voice_threshold :: f64

record identify_response =
  id_user_id :: string
  id_is_known :: bool
  id_confidence :: f64

definition default_voice_threshold :: f64 where "default_voice_threshold = Some (1 / 4)"

definition access_from_env :: "(string \<Rightarrow> f64 option) \<Rightarrow> (string \<Rightarrow> string option) \<Rightarrow> access_config" where
  "access_from_env parse_f32 env =
     \<lparr>ac_enabled = env_bool False (env ''ROBONIX_LIAISON_ACCESS_ENABLED''),
      ac_allowed_users = parse_user_set (case env ''ROBONIX_LIAISON_ALLOWED_USERS'' of Some s \<Rightarrow> s | None \<Rightarrow> []),
      ac_voice_threshold = (case Option.bind (env ''ROBONIX_LIAISON_VOICE_THRESHOLD'') parse_f32 of
        Some t \<Rightarrow> t | None \<Rightarrow> default_voice_threshold)\<rparr>"

definition authorize_user :: "access_config \<Rightarrow> string \<Rightarrow> access_decision" where
  "authorize_user cfg raw =
     (let user_id = normalize_user_id raw ''local'' in
      if \<not> ac_enabled cfg then Allow user_id Method_Disabled (Some 1) ''access gate disabled''
      else if user_id \<in> set (ac_allowed_users cfg) then Allow user_id Method_User_List (Some 1) ''user is in allowed user list''
      else Deny user_id (Some 0) ''user is not in allowed user list'')"

definition voiceprint_user_id :: "identify_response option \<Rightarrow> string option" where
  "voiceprint_user_id resp =
     (case resp of
        None \<Rightarrow> None
      | Some r \<Rightarrow> if trim (id_user_id r) = [] then None else Some (normalize_user_id (id_user_id r) ''voice''))"

definition fallback_voice_user :: "string \<Rightarrow> string" where
  "fallback_voice_user client_user_id =
     (let hinted = normalize_user_id client_user_id ''local'' in if hinted = [] then ''voice:unknown'' else hinted)"

definition authorize_voice :: "(f64 \<Rightarrow> string) \<Rightarrow> access_config \<Rightarrow> string \<Rightarrow> identify_response option \<Rightarrow> access_decision" where
  "authorize_voice show2 cfg client_user_id voiceprint =
     (if \<not> ac_enabled cfg then
        Allow (case voiceprint_user_id voiceprint of Some u \<Rightarrow> u | None \<Rightarrow> fallback_voice_user client_user_id)
          Method_Disabled (case voiceprint of Some r \<Rightarrow> id_confidence r | None \<Rightarrow> Some 0) ''access gate disabled''
      else case (voiceprint, voiceprint_user_id voiceprint) of
        (Some r, Some voice_user) \<Rightarrow>
          if id_is_known r \<and> f64_ge (id_confidence r) (ac_voice_threshold cfg) \<and> voice_user \<in> set (ac_allowed_users cfg)
          then Allow voice_user Method_Voiceprint (id_confidence r) ''voiceprint matched allowed enrolled speaker''
          else Deny voice_user (id_confidence r) (''voiceprint not allowed or below threshold '' @ show2 (ac_voice_threshold cfg))
      | _ \<Rightarrow> Deny (normalize_user_id client_user_id ''local'') (Some 0) ''no matching enrolled voiceprint'')"

section \<open>Text\<close>

type_synonym json_reader = "string \<Rightarrow> string + json"

definition context_value :: "json_reader \<Rightarrow> string \<Rightarrow> json" where
  "context_value read raw =
     (if trim raw = [] then JObj [] else case read raw of Inr v \<Rightarrow> v | Inl _ \<Rightarrow> JObj [])"

definition ensure_user_id :: "json_reader \<Rightarrow> (json \<Rightarrow> string) \<Rightarrow> string \<Rightarrow> nat \<Rightarrow> string \<Rightarrow> string" where
  "ensure_user_id read render os_user source raw =
     (case context_value read raw of
        JObj obj \<Rightarrow>
          (let has_user = (case as_str (map_of obj ''user_id'') of Some s \<Rightarrow> s \<noteq> [] | None \<Rightarrow> False);
               obj = (if has_user then obj else obj_insert ''user_id'' (JStr (''local:'' @ os_user)) obj);
               modality = (if source = 0 then ''text'' else if source = 1 then ''audio'' else ''unknown'');
               obj = (if map_of obj ''modality'' = None then obj_insert ''modality'' (JStr modality) obj else obj)
           in render (JObj obj))
      | other \<Rightarrow> render other)"

definition task_user_id :: "json_reader \<Rightarrow> string \<Rightarrow> string" where
  "task_user_id read raw =
     (case read raw of
        Inr ctx \<Rightarrow> (case as_str (json_get ''user_id'' ctx) of Some u \<Rightarrow> u | None \<Rightarrow> [])
      | Inl _ \<Rightarrow> [])"

text \<open>\<open>handle_intent\<close> up to the point where Pilot is called: the context that goes out, or the refusal.\<close>

definition admit_text ::
  "json_reader \<Rightarrow> (json \<Rightarrow> string) \<Rightarrow> string \<Rightarrow> access_config \<Rightarrow> nat \<Rightarrow> string \<Rightarrow> string + string" where
  "admit_text read render os_user cfg source raw =
     (let ctx = ensure_user_id read render os_user source raw in
      case authorize_user cfg (task_user_id read ctx) of
        Allow _ _ _ _ \<Rightarrow> Inr ctx
      | Deny user_id _ reason \<Rightarrow> Inl (''access denied for user '' @ quoted user_id @ '': '' @ reason))"

text \<open>What the client of \<open>submit_task\<close> is told of a refusal.\<close>

definition text_refusal :: "string \<Rightarrow> string" where
  "text_refusal e = ''Pilot unreachable: '' @ e"

section \<open>Voice\<close>

definition voice_context_flag :: "json_reader \<Rightarrow> string \<Rightarrow> string \<Rightarrow> bool" where
  "voice_context_flag read raw key =
     (case read raw of Inr v \<Rightarrow> (case json_get key v of Some (JBool b) \<Rightarrow> b | _ \<Rightarrow> False) | Inl _ \<Rightarrow> False)"

definition voice_context ::
  "json_reader \<Rightarrow> (f64 \<Rightarrow> json) \<Rightarrow> string \<Rightarrow> access_method \<Rightarrow> f64 \<Rightarrow> string \<Rightarrow> string \<Rightarrow> json" where
  "voice_context read num user_id m confidence reason raw =
     (case context_value read raw of
        JObj obj \<Rightarrow>
          JObj (obj_insert ''access'' (json_obj [(''allowed'', JBool True), (''method'', JStr (method_str m)),
              (''confidence'', num confidence), (''reason'', JStr reason)])
            (obj_insert ''user_id'' (JStr user_id)
              (obj_insert ''voice_session'' (JBool True)
                (obj_insert ''modality'' (JStr ''voice'') obj))))
      | other \<Rightarrow> other)"

text \<open>The part of \<open>run_session\<close> between the transcript and Pilot: a task's text and context, or the error.\<close>

definition admit_voice ::
  "json_reader \<Rightarrow> (f64 \<Rightarrow> json) \<Rightarrow> (f64 \<Rightarrow> string) \<Rightarrow> access_config \<Rightarrow> string \<Rightarrow> identify_response option \<Rightarrow> string \<Rightarrow> string
    \<Rightarrow> string + string \<times> json" where
  "admit_voice read num show2 cfg client_user_id voiceprint transcript raw =
     (if trim transcript = [] then Inl (''empty transcript '' @ [CHR 0xE2] @ [CHR 0x80] @ [CHR 0x94] @ '' nothing to send to Pilot'')
      else case authorize_voice show2 cfg client_user_id voiceprint of
        Allow user_id m confidence reason \<Rightarrow> Inr (transcript, voice_context read num user_id m confidence reason raw)
      | Deny user_id _ reason \<Rightarrow> Inl (''access denied for voice user '' @ quoted user_id @ '': '' @ reason))"

section \<open>What the gate guarantees\<close>

lemma voice_allowed:
  assumes "ac_enabled cfg" and "authorize_voice show2 cfg hint voiceprint = Allow u m c reason"
  shows "\<exists>r. voiceprint = Some r \<and> id_is_known r \<and> f64_ge (id_confidence r) (ac_voice_threshold cfg)
    \<and> trim (id_user_id r) \<noteq> [] \<and> u = normalize_user_id (id_user_id r) ''voice'' \<and> u \<in> set (ac_allowed_users cfg)
    \<and> m = Method_Voiceprint \<and> c = id_confidence r"
  using assms
  by (auto simp: authorize_voice_def voiceprint_user_id_def split: option.splits if_splits)

text \<open>C38 (safety). With the gate on, a voice task goes to Pilot only when the voiceprint service knows the speaker with at least the
  confidence required and the list admits that speaker; what the client says of itself does not count. When the context
  of the request is a JSON object, the task carries that speaker's identity whatever identity the context claimed; any
  other context goes out as it came, without an identity.
\<close>

theorem voice_needs_a_voiceprint:
  assumes "ac_enabled cfg"
    and "admit_voice read num show2 cfg hint voiceprint transcript raw = Inr (said, ctx)"
  shows "\<exists>r. voiceprint = Some r \<and> id_is_known r \<and> f64_ge (id_confidence r) (ac_voice_threshold cfg)
    \<and> normalize_user_id (id_user_id r) ''voice'' \<in> set (ac_allowed_users cfg) \<and> said = transcript
    \<and> (case context_value read raw of
         JObj _ \<Rightarrow> json_get ''user_id'' ctx = Some (JStr (normalize_user_id (id_user_id r) ''voice''))
       | v \<Rightarrow> ctx = v)"
proof -
  from assms(2) obtain u m c reason where allow: "authorize_voice show2 cfg hint voiceprint = Allow u m c reason"
    and out: "said = transcript" "ctx = voice_context read num u m c reason raw"
    by (auto simp: admit_voice_def split: if_splits access_decision.splits)
  from voice_allowed [OF assms(1) allow] out show ?thesis
    by (auto simp: voice_context_def json_get_def split: json.split)
qed

lemma text_admitted_iff:
  assumes "ac_enabled cfg"
  shows "(\<exists>ctx. admit_text read render os_user cfg source raw = Inr ctx) \<longleftrightarrow>
    normalize_user_id (task_user_id read (ensure_user_id read render os_user source raw)) ''local'' \<in> set (ac_allowed_users cfg)"
  using assms by (simp add: admit_text_def authorize_user_def Let_def)

text \<open>With the gate off everybody passes.\<close>

lemma open_gate:
  assumes "\<not> ac_enabled cfg"
  shows "\<exists>ctx. admit_text read render os_user cfg source raw = Inr ctx"
    and "trim transcript \<noteq> [] \<Longrightarrow> \<exists>t. admit_voice read num show2 cfg hint voiceprint transcript raw = Inr t"
  using assms by (simp_all add: admit_text_def authorize_user_def admit_voice_def authorize_voice_def Let_def)

section \<open>What it does not\<close>

text \<open>A reader for the examples, which knows three texts.\<close>

definition demo_json :: json_reader where
  "demo_json raw =
     (if raw = ''voice'' then Inr (JObj [(''user_id'', JStr ''voice:alice'')])
      else if raw = ''list'' then Inr (JArr [])
      else if raw = ''robot'' then Inr (JObj [(''modality'', JStr ''text''), (''user_id'', JStr ''local:robot'')])
      else Inl ''?'')"

definition demo_render :: "json \<Rightarrow> string" where
  "demo_render v = (case as_str (json_get ''user_id'' v) of
     Some u \<Rightarrow> if u = ''local:robot'' then ''robot'' else ''voice'' | None \<Rightarrow> ''list'')"

definition demo_gate :: "string list \<Rightarrow> access_config" where
  "demo_gate users = \<lparr>ac_enabled = True, ac_allowed_users = users, ac_voice_threshold = default_voice_threshold\<rparr>"

text \<open>An enrolled speaker's identity is admitted from a text client that just writes it down.\<close>

lemma text_can_claim_a_voice:
  "admit_text demo_json demo_render ''robot'' (demo_gate [''voice:alice'']) 0 ''voice'' = Inr ''voice''"
  by code_simp

text \<open>A task without an identity is given that of the user Liaison runs as, before the gate looks at it.\<close>

lemma anonymous_text_is_the_robot:
  "admit_text demo_json demo_render ''robot'' (demo_gate [''local:robot'']) 0 [] = Inr ''robot''"
  by code_simp

text \<open>A context that is a list passes through, without identity or modality.\<close>

lemma voice_without_identity:
  "admit_voice demo_json (\<lambda>_. JNull) (\<lambda>_. []) (demo_gate [''voice:alice'']) []
     (Some \<lparr>id_user_id = ''alice'', id_is_known = True, id_confidence = Some 1\<rparr>) ''go'' ''list'' = Inr (''go'', JArr [])"
  by code_simp

theorem voice_needs_a_voiceprint_witness:
  "\<exists>ctx. admit_voice demo_json (\<lambda>_. JNull) (\<lambda>_. []) (demo_gate [''voice:alice'']) ''bob''
      (Some \<lparr>id_user_id = ''alice'', id_is_known = True, id_confidence = Some (1 / 2)\<rparr>) ''go'' ''robot'' = Inr (''go'', ctx)
    \<and> json_get ''user_id'' ctx = Some (JStr ''voice:alice'')"
proof -
  let ?r = "Some \<lparr>id_user_id = ''alice'', id_is_known = True, id_confidence = Some (1 / 2)\<rparr>"
  let ?a = "admit_voice demo_json (\<lambda>_. JNull) (\<lambda>_. []) (demo_gate [''voice:alice'']) ''bob'' ?r ''go'' ''robot''"
  have "\<not> isl ?a" and on: "ac_enabled (demo_gate [''voice:alice''])"
    and ids: "normalize_user_id ''alice'' ''voice'' = ''voice:alice''"
    "context_value demo_json ''robot'' = JObj [(''modality'', JStr ''text''), (''user_id'', JStr ''local:robot'')]" by code_simp+
  then obtain said ctx where t: "?a = Inr (said, ctx)" by (cases ?a) auto
  from voice_needs_a_voiceprint [OF on t] t show ?thesis by (auto simp: ids)
qed

section \<open>Running captures\<close>

text \<open>
  \<open>ACTIVE_CAPTURES\<close>: the flags of the running captures by session. A capture registers its flag, and removes the entry of its
  session when it ends; a request to finish raises the flag it finds.
\<close>

record captures =
  cp_table :: "(string, nat) hmap"
  cp_raised :: "nat list"

definition begin_capture :: "string \<Rightarrow> nat \<Rightarrow> captures \<Rightarrow> captures" where
  "begin_capture session flag c = c\<lparr>cp_table := hm_insert session flag (cp_table c)\<rparr>"

definition end_capture :: "string \<Rightarrow> captures \<Rightarrow> captures" where
  "end_capture session c = c\<lparr>cp_table := hm_remove session (cp_table c)\<rparr>"

definition finish_capture :: "string \<Rightarrow> captures \<Rightarrow> bool \<times> captures" where
  "finish_capture session c =
     (case hm_get (cp_table c) session of
        Some flag \<Rightarrow> (True, c\<lparr>cp_raised := flag # cp_raised c\<rparr>)
      | None \<Rightarrow> (False, c))"

lemma finish_raises_the_flag:
  "finish_capture session (begin_capture session flag c) = (True, (begin_capture session flag c)\<lparr>cp_raised := flag # cp_raised c\<rparr>)"
  by (simp add: finish_capture_def begin_capture_def)

text \<open>The end of one capture takes the entry of another one of the same session with it: that one can no more be finished.\<close>

lemma second_capture_cannot_be_finished:
  "fst (finish_capture s (end_capture s (begin_capture s 2 (begin_capture s 1 c)))) = False"
  by (simp add: finish_capture_def begin_capture_def end_capture_def)

section \<open>Speaking\<close>

text \<open>
  The answers of Pilot as they are spoken: chunks gather in a segment, which is spoken at the next boundary; a final text, where
  there is one, is spoken instead of its segment.
\<close>

record voice_pilot_event =
  vp_kind :: nat
  vp_text_chunk :: string
  vp_final_text :: string

definition accumulate_text :: "voice_pilot_event \<Rightarrow> string \<Rightarrow> string" where
  "accumulate_text ev acc =
     (if vp_kind ev = 0 then acc @ vp_text_chunk ev
      else if vp_kind ev = 4 \<and> trim acc = [] \<and> vp_final_text ev \<noteq> [] then acc @ vp_final_text ev
      else acc)"

definition tts_boundary_text :: "nat \<Rightarrow> string \<Rightarrow> string \<Rightarrow> string option" where
  "tts_boundary_text kind streamed final_text =
     (if kind = 4 \<and> trim final_text \<noteq> [] then Some (trim final_text)
      else if trim streamed \<noteq> [] then Some streamed else None)"

definition is_narration_boundary :: "nat \<Rightarrow> bool" where
  "is_narration_boundary kind \<longleftrightarrow> kind \<in> {1, 2, 3, 4}"

record speaker =
  sk_seg :: string
  sk_accumulated :: string
  sk_said :: "string list"

definition hear_pilot :: "bool \<Rightarrow> voice_pilot_event \<Rightarrow> speaker \<Rightarrow> speaker" where
  "hear_pilot tts_enabled ev k =
     (let k = k\<lparr>sk_accumulated := accumulate_text ev (sk_accumulated k)\<rparr>;
          k = (if vp_kind ev = 0 then k\<lparr>sk_seg := sk_seg k @ vp_text_chunk ev\<rparr> else k)
      in if is_narration_boundary (vp_kind ev)
         then (case (if tts_enabled then tts_boundary_text (vp_kind ev) (sk_seg k) (vp_final_text ev) else None) of
             Some s \<Rightarrow> k\<lparr>sk_seg := [], sk_said := sk_said k @ [s]\<rparr>
           | None \<Rightarrow> k\<lparr>sk_seg := []\<rparr>)
         else k)"

definition speak_tail :: "bool \<Rightarrow> speaker \<Rightarrow> speaker" where
  "speak_tail tts_enabled k =
     (let rest = (if trim (sk_seg k) \<noteq> [] then sk_seg k else if sk_said k = [] then sk_accumulated k else []) in
      if tts_enabled \<and> trim rest \<noteq> [] then k\<lparr>sk_said := sk_said k @ [rest]\<rparr> else k)"

definition speak :: "bool \<Rightarrow> voice_pilot_event list \<Rightarrow> string list" where
  "speak tts_enabled evs =
     sk_said (speak_tail tts_enabled (fold (hear_pilot tts_enabled) evs \<lparr>sk_seg = [], sk_accumulated = [], sk_said = []\<rparr>))"

lemma silent_without_tts: "speak False evs = []"
proof -
  have "sk_said (fold (hear_pilot False) evs k) = sk_said k" for k
    by (induction evs arbitrary: k) (simp_all add: hear_pilot_def Let_def)
  then show ?thesis by (simp add: speak_def speak_tail_def Let_def)
qed

text \<open>A turn that says something is heard: with speech on, any chunk that is not blank, or any final text, is spoken of.\<close>

lemma fold_hear_said: "sk_said k \<noteq> [] \<Longrightarrow> sk_said (fold (hear_pilot tts) evs k) \<noteq> []"
  by (induction evs arbitrary: k) (simp_all add: hear_pilot_def Let_def split: option.split)

lemma final_text_is_spoken:
  assumes "ev \<in> set evs" and "vp_kind ev = 4" and "trim (vp_final_text ev) \<noteq> []"
  shows "trim (vp_final_text ev) \<in> set (speak True evs)"
proof -
  have keep: "s \<in> set (sk_said k) \<Longrightarrow> s \<in> set (sk_said (fold (hear_pilot True) es k))" for s es k
    by (induction es arbitrary: k) (simp_all add: hear_pilot_def Let_def split: option.split)
  from assms(1) obtain xs ys where evs: "evs = xs @ ev # ys" by (meson split_list)
  have "trim (vp_final_text ev) \<in> set (sk_said (hear_pilot True ev k))" for k
    using assms(2,3) by (simp add: hear_pilot_def is_narration_boundary_def tts_boundary_text_def Let_def)
  from keep [OF this] show ?thesis by (simp add: speak_def evs speak_tail_def Let_def)
qed

end
