(* ===== verification/Liaison_Handsfree.thy ===== *)
theory Liaison_Handsfree
  imports Prelude
begin

text \<open>
  The hands-free mode of the robot: the controller of \<open>system/liaison/src/handsfree.rs\<close> as steps. The loop of \<open>run\<close> reads
  its two flags, sets its label and only then begins to wait for a change; the requests of clients change the flags and
  afterwards notify who waits (\<open>Notify::notify_waiters\<close> leaves nothing behind for who does not wait yet). The label
  of a step is what happens next; what a voice session is bracketed by are \<open>HF_Suspend\<close> and \<open>HF_Resume\<close>. Wake words, voice turns
  and sound come from outside, and the labels shown within a voice turn are left out.

  The main results: when no request falls between the reading of the flags and the beginning of the wait, the
  loop always ends up waiting for what the flags ask for; the count of suspensions is what is open. And the
  hole: a request in that window is lost, and the loop waits on for the wrong thing.
\<close>

datatype waits = For_Enable | For_Resume | For_Wake_Word

datatype hf_place = HF_Top | HF_Enabled | HF_About waits | HF_Waits waits | HF_Turn | HF_Pause

record handsfree =
  hc_enabled :: bool
  hc_suspended :: nat
  hc_mic :: string
  hc_speaker :: string
  hc_label :: string
  hc_place :: hf_place
  hc_notices :: nat
  hc_turns :: nat

definition handsfree_new :: "bool \<Rightarrow> string \<Rightarrow> string \<Rightarrow> handsfree" where
  "handsfree_new configured mic speaker =
     (let enabled = configured \<and> mic \<noteq> [] \<and> speaker \<noteq> [] in
      \<lparr>hc_enabled = enabled, hc_suspended = 0, hc_mic = mic, hc_speaker = speaker,
       hc_label = (if enabled then ''starting'' else ''disabled''), hc_place = HF_Top, hc_notices = 0, hc_turns = 0\<rparr>)"

text \<open>\<open>set_enabled\<close> up to its notification: the devices given are kept even when the request fails.\<close>

definition set_enabled :: "bool \<Rightarrow> string \<Rightarrow> string \<Rightarrow> handsfree \<Rightarrow> (string + unit) \<times> handsfree" where
  "set_enabled enabled mic speaker c =
     (let c = (if trim mic \<noteq> [] then c\<lparr>hc_mic := mic\<rparr> else c);
          c = (if trim speaker \<noteq> [] then c\<lparr>hc_speaker := speaker\<rparr> else c)
      in if enabled \<and> (trim (hc_mic c) = [] \<or> trim (hc_speaker c) = [])
         then (Inl ''select both an input and an output audio primitive before enabling hands-free mode'', c)
         else (Inr (), c\<lparr>hc_enabled := enabled, hc_turns := (if enabled then hc_turns c else 0),
           hc_label := (if enabled then ''starting'' else ''disabled''), hc_notices := hc_notices c + 1\<rparr>))"

definition suspend_capture :: "handsfree \<Rightarrow> handsfree" where
  "suspend_capture c = c\<lparr>hc_suspended := hc_suspended c + 1, hc_label := ''suspended'', hc_notices := hc_notices c + 1\<rparr>"

definition resume_capture :: "handsfree \<Rightarrow> handsfree" where
  "resume_capture c =
     (let c = c\<lparr>hc_suspended := hc_suspended c - 1\<rparr>
      in if hc_suspended c = 0 then c\<lparr>hc_notices := hc_notices c + 1\<rparr> else c)"

text \<open>A notification reaches the loop only while it waits.\<close>

definition notify_waiters :: "handsfree \<Rightarrow> handsfree option" where
  "notify_waiters c =
     (if hc_notices c = 0 then None
      else Some (c\<lparr>hc_notices := hc_notices c - 1,
        hc_place := (case hc_place c of HF_Waits _ \<Rightarrow> HF_Top | p \<Rightarrow> p)\<rparr>))"

definition waits_label :: "waits \<Rightarrow> string" where
  "waits_label w = (case w of For_Enable \<Rightarrow> ''disabled'' | For_Resume \<Rightarrow> ''suspended'' | For_Wake_Word \<Rightarrow> ''listening'')"

text \<open>The next step of the loop itself: reading one flag, then the other, setting the label, beginning to wait.\<close>

definition loop_step :: "handsfree \<Rightarrow> handsfree option" where
  "loop_step c =
     (case hc_place c of
        HF_Top \<Rightarrow> Some (c\<lparr>hc_place := (if hc_enabled c then HF_Enabled else HF_About For_Enable)\<rparr>)
      | HF_Enabled \<Rightarrow> Some (c\<lparr>hc_place := HF_About (if hc_suspended c > 0 then For_Resume else For_Wake_Word)\<rparr>)
      | HF_About w \<Rightarrow> Some (c\<lparr>hc_label := waits_label w, hc_place := HF_Waits w\<rparr>)
      | HF_Pause \<Rightarrow> Some (c\<lparr>hc_place := HF_Top\<rparr>)
      | _ \<Rightarrow> None)"

datatype wake_result = Wake_Word_Heard | Wake_Word_Missing | Wake_Failed

datatype hf_event =
  HF_Set bool string string
  | HF_Suspend
  | HF_Resume
  | HF_Notify
  | HF_Loop
  | HF_Heard wake_result
  | HF_Turn_Done bool

definition hf_step :: "hf_event \<Rightarrow> handsfree \<Rightarrow> handsfree option" where
  "hf_step e c =
     (case e of
        HF_Set enabled mic speaker \<Rightarrow> Some (snd (set_enabled enabled mic speaker c))
      | HF_Suspend \<Rightarrow> Some (suspend_capture c)
      | HF_Resume \<Rightarrow> Some (resume_capture c)
      | HF_Notify \<Rightarrow> notify_waiters c
      | HF_Loop \<Rightarrow> loop_step c
      | HF_Heard result \<Rightarrow>
          if hc_place c = HF_Waits For_Wake_Word
          then Some (case result of
            Wake_Word_Heard \<Rightarrow> c\<lparr>hc_label := ''triggered'', hc_place := HF_Turn\<rparr>
          | Wake_Word_Missing \<Rightarrow> c\<lparr>hc_label := ''listening'', hc_place := HF_Pause\<rparr>
          | Wake_Failed \<Rightarrow> c\<lparr>hc_label := ''error'', hc_place := HF_Pause\<rparr>)
          else None
      | HF_Turn_Done ok \<Rightarrow>
          if hc_place c = HF_Turn
          then Some (if ok
            then c\<lparr>hc_turns := hc_turns c + 1, hc_label := (if hc_enabled c then ''listening'' else hc_label c), hc_place := HF_Top\<rparr>
            else c\<lparr>hc_label := ''error'', hc_place := HF_Pause\<rparr>)
          else None)"

definition hf_next :: "handsfree \<Rightarrow> handsfree \<Rightarrow> bool" where
  "hf_next c d \<longleftrightarrow> (\<exists>e. hf_step e c = Some d)"

fun hf_run :: "hf_event list \<Rightarrow> handsfree \<Rightarrow> handsfree option" where
  "hf_run [] c = Some c"
| "hf_run (e # es) c = (case hf_step e c of Some d \<Rightarrow> hf_run es d | None \<Rightarrow> None)"

lemmas hf_defs = hf_step_def set_enabled_def suspend_capture_def resume_capture_def notify_waiters_def loop_step_def Let_def

section \<open>Devices and brackets\<close>

definition has_devices :: "handsfree \<Rightarrow> bool" where
  "has_devices c \<longleftrightarrow> hc_enabled c \<longrightarrow> hc_mic c \<noteq> [] \<and> hc_speaker c \<noteq> []"

lemma blank_trim [simp]: "trim [] = []"
  by (simp add: trim_def trim_by_def)

interpretation devices: inv_relation "\<lambda>c. \<exists>b m s. c = handsfree_new b m s" hf_next has_devices
proof unfold_locales
  show "has_devices c" if "\<exists>b m s. c = handsfree_new b m s" for c
    using that by (auto simp: has_devices_def handsfree_new_def Let_def)
  show "has_devices d" if "hf_next c d" "has_devices c" for c d
  proof -
    from that(1) obtain e where "hf_step e c = Some d" by (auto simp: hf_next_def)
    with that(2) show ?thesis
      by (cases e; cases "hc_place c") (auto simp: has_devices_def hf_defs split: if_splits wake_result.splits)
  qed
qed

text \<open>Hands-free mode is never on without a microphone and a loudspeaker.\<close>

lemma enabled_has_devices: "hf_next\<^sup>*\<^sup>* (handsfree_new b m s) c \<Longrightarrow> has_devices c"
  by (rule devices.good_reachable) auto

text \<open>While every end of a capture follows a beginning, the count is that of the open captures.\<close>

fun balance :: "hf_event list \<Rightarrow> nat \<Rightarrow> nat option" where
  "balance [] n = Some n"
| "balance (HF_Suspend # es) n = balance es (n + 1)"
| "balance (HF_Resume # es) n = (if n = 0 then None else balance es (n - 1))"
| "balance (e # es) n = balance es n"

lemma suspensions_counted: "hf_run es c = Some d \<Longrightarrow> balance es (hc_suspended c) = Some n \<Longrightarrow> hc_suspended d = n"
proof (induction es arbitrary: c)
  case (Cons e es)
  then show ?case
    by (cases e) (auto simp: hf_defs split: option.splits if_splits hf_place.splits wake_result.splits)
qed simp

section \<open>Waiting for the right thing\<close>

definition should_wait :: "handsfree \<Rightarrow> waits" where
  "should_wait c = (if \<not> hc_enabled c then For_Enable else if hc_suspended c > 0 then For_Resume else For_Wake_Word)"

definition in_window :: "handsfree \<Rightarrow> bool" where
  "in_window c \<longleftrightarrow> (case hc_place c of HF_Enabled \<Rightarrow> True | HF_About _ \<Rightarrow> True | _ \<Rightarrow> False)"

definition is_request :: "hf_event \<Rightarrow> bool" where
  "is_request e \<longleftrightarrow> (case e of HF_Set _ _ _ \<Rightarrow> True | HF_Suspend \<Rightarrow> True | HF_Resume \<Rightarrow> True | _ \<Rightarrow> False)"

text \<open>A step in which no request falls into the window.\<close>

definition calm_next :: "handsfree \<Rightarrow> handsfree \<Rightarrow> bool" where
  "calm_next c d \<longleftrightarrow> (\<exists>e. hf_step e c = Some d \<and> \<not> (is_request e \<and> in_window c))"

definition waits_right :: "handsfree \<Rightarrow> bool" where
  "waits_right c \<longleftrightarrow>
     (case hc_place c of
        HF_Enabled \<Rightarrow> hc_enabled c
      | HF_About w \<Rightarrow> w = should_wait c
      | HF_Waits w \<Rightarrow> w = should_wait c \<or> hc_notices c > 0
      | _ \<Rightarrow> True)"

lemma request_keeps_right:
  assumes "is_request e" and "\<not> in_window c" and "waits_right c" and "hf_step e c = Some d"
  shows "waits_right d"
  using assms
  by (cases e; cases "hc_place c")
    (auto simp: is_request_def in_window_def waits_right_def should_wait_def hf_defs split: if_splits wake_result.splits)

lemma other_keeps_right:
  assumes "\<not> is_request e" and "waits_right c" and "hf_step e c = Some d"
  shows "waits_right d"
  using assms
  by (cases e; cases "hc_place c")
    (auto simp: is_request_def waits_right_def should_wait_def hf_defs split: if_splits wake_result.splits)

interpretation calm: inv_relation "\<lambda>c. \<exists>b m s. c = handsfree_new b m s" calm_next waits_right
proof unfold_locales
  show "waits_right c" if "\<exists>b m s. c = handsfree_new b m s" for c
    using that by (auto simp: waits_right_def handsfree_new_def Let_def)
  show "waits_right d" if "calm_next c d" "waits_right c" for c d
    using that request_keeps_right other_keeps_right unfolding calm_next_def by blast
qed

text \<open>
  As long as no request falls into the window, a loop that waits with all notifications delivered waits for what the flags
  ask for.
\<close>

lemma calm_loop_waits_right:
  assumes "calm_next\<^sup>*\<^sup>* (handsfree_new b m s) c" and "hc_place c = HF_Waits w" and "hc_notices c = 0"
  shows "w = should_wait c"
proof -
  from assms(1) have "waits_right c" by (rule calm.good_reachable [rotated]) auto
  with assms(2,3) show ?thesis by (simp add: waits_right_def)
qed

section \<open>The lost notification\<close>

text \<open>
  A request that falls into the window: hands-free mode is switched on while the loop has read that it is off, and notifies
  before the loop waits.
\<close>

definition lost_enable :: "handsfree option" where
  "lost_enable = hf_run [HF_Loop, HF_Set True ''mic'' ''speaker'', HF_Notify, HF_Loop] (handsfree_new False [] [])"

lemma lost_enable_run:
  "case lost_enable of
     Some c \<Rightarrow> hc_enabled c \<and> hc_place c = HF_Waits For_Enable \<and> hc_notices c = 0 \<and> hc_label c = ''disabled''
   | None \<Rightarrow> False"
  by code_simp

text \<open>In the same way a voice session that begins just then does not get the microphone: the loop goes on listening.\<close>

lemma lost_suspend_run:
  "case hf_run [HF_Loop, HF_Loop, HF_Suspend, HF_Notify, HF_Loop] (handsfree_new True ''mic'' ''speaker'') of
     Some c \<Rightarrow> hc_suspended c = 1 \<and> hc_place c = HF_Waits For_Wake_Word \<and> hc_notices c = 0 | None \<Rightarrow> False"
  by code_simp

text \<open>Whoever waits for the wrong thing then waits until the next request: nothing else can happen.\<close>

lemma stuck_until_next_request:
  assumes "hc_place c = HF_Waits w" and "w \<noteq> For_Wake_Word" and "hc_notices c = 0" and "hf_step e c = Some d"
  shows "is_request e"
  using assms by (cases e) (auto simp: is_request_def hf_defs)

end
