(* ===== verification/Launch.thy ===== *)
theory Launch
  imports Atlas_Pb
begin

text \<open>
  How a package that was just started is found in Atlas: \<open>tools/rbnx/src/launch.rs\<close>, which \<open>rbnx\<close> and Soma share. After the
  start Atlas is asked again and again until the one instance that was started has registered; for a second its
  declarations are awaited; then the lifecycle driver it declared is held against the one its manifest selects. The answers of
  Atlas come with the time they were looked at, in milliseconds.

  The main results: the outcome is the expected instance, newly registered, the same registration from first to last; a
  driver is accepted exactly when it is the only one and the one selected, or the shared one where an upgrade is allowed.
\<close>

section \<open>Names\<close>

definition ascii_title :: "string \<Rightarrow> string" where
  "ascii_title part = (case part of [] \<Rightarrow> [] | c # cs \<Rightarrow> ascii_upper c # cs)"

definition launch_service_name :: "string \<Rightarrow> string" where
  "launch_service_name i =
     concat (map (\<lambda>seg. concat (map ascii_title (filter (\<lambda>p. p \<noteq> []) (split_on (CHR ''_'') seg))))
       (filter (\<lambda>x. x \<noteq> []) (split_on (CHR ''/'') i)))"

lemma service_name_examples:
  "launch_service_name ''robonix/lifecycle/driver'' = ''RobonixLifecycleDriver''
   \<and> launch_service_name ''robonix/system/vitals/modules_get'' = launch_service_name ''robonix/system/vitals/modules/get''"
  by code_simp

section \<open>Registrations\<close>

type_synonym registrations = "(string, string) hmap"

definition snapshot_provider_ids :: "capability_provider list \<Rightarrow> registrations" where
  "snapshot_provider_ids providers = fold (\<lambda>p. hm_insert (cp_id p) (cp_registration_id p)) providers []"

definition is_new_provider_registration :: "capability_provider \<Rightarrow> registrations \<Rightarrow> bool" where
  "is_new_provider_registration p before \<longleftrightarrow>
     (case hm_get before (cp_id p) of Some r \<Rightarrow> r \<noteq> cp_registration_id p | None \<Rightarrow> True)"

definition is_expected_provider_registration :: "capability_provider \<Rightarrow> registrations \<Rightarrow> string \<Rightarrow> bool" where
  "is_expected_provider_registration p before expected_provider_id \<longleftrightarrow>
     cp_id p = expected_provider_id \<and> hm_get before expected_provider_id = None \<and> is_new_provider_registration p before"

section \<open>Drivers\<close>

definition shared_driver :: string where "shared_driver = ''robonix/lifecycle/driver''"

definition exact_legacy :: "string \<Rightarrow> string \<Rightarrow> string option" where
  "exact_legacy provider_namespace expected =
     (let namespace = trim_char (CHR ''/'') provider_namespace in
      if namespace = [] then (if expected \<noteq> shared_driver \<and> ends_with ''/driver'' expected then Some expected else None)
      else Some (namespace @ ''/driver''))"

definition resolve_runtime_driver_contract :: "string \<Rightarrow> string \<Rightarrow> string \<Rightarrow> string list \<Rightarrow> bool \<Rightarrow> string + string" where
  "resolve_runtime_driver_contract provider_id provider_namespace expected observed allow_shared_driver_upgrade =
     (let legacy = exact_legacy provider_namespace expected;
          provider = ''provider '' @ quoted provider_id
      in if \<not> (expected = shared_driver \<or> legacy = Some expected) then
           Inl (provider @ '' selected unsupported lifecycle Driver '' @ quoted expected @ ''; expected '' @ quoted shared_driver
             @ '' or exact namespace Driver '' @ quoted (case legacy of Some l \<Rightarrow> l | None \<Rightarrow> ''<provider namespace>/driver''))
         else case observed of
           [] \<Rightarrow> Inl (provider @ '' registered without a lifecycle Driver; expected exactly one Driver: '' @ quoted expected
             @ (if allow_shared_driver_upgrade \<and> legacy = Some expected then '' or upgraded shared '' @ quoted shared_driver else [])
             @ ''; rebuild the package with `rbnx build` to refresh generated stubs or migrate the manifest'')
         | [d] \<Rightarrow>
             if d = expected then Inr d
             else if allow_shared_driver_upgrade \<and> legacy = Some expected \<and> d = shared_driver then Inr d
             else Inl (provider @ '' registered lifecycle Driver '' @ quoted d @ '', expected '' @ quoted expected
               @ '' from the selected package manifest'')
         | _ \<Rightarrow> Inl (provider @ '' registered multiple lifecycle Drivers: '' @ join '', '' observed @ ''; expected exactly '' @ quoted expected))"

definition validate_runtime_driver_contracts :: "string \<Rightarrow> string \<Rightarrow> string list \<Rightarrow> string + string" where
  "validate_runtime_driver_contracts provider_id expected observed =
     resolve_runtime_driver_contract provider_id [] expected observed False"

definition is_driver :: "capability \<Rightarrow> bool" where
  "is_driver c \<longleftrightarrow> c_transport c = transport_i32 Transport_Grpc \<and> ends_with ''/driver'' (c_contract_id c)"

definition runtime_driver_contracts :: "capability_provider \<Rightarrow> string list" where
  "runtime_driver_contracts p = remdups_adj (sort (map c_contract_id (filter is_driver (cp_capabilities p))))"

section \<open>Waiting\<close>

datatype launch_error =
    Already_Registered
  | Query_Failed string
  | Registration_Changed string string
  | Unregistered
  | Timed_Out

record registration_outcome =
  ro_provider_id :: string
  ro_provider_kind :: int
  ro_provider_namespace :: string
  ro_registration_id :: string
  ro_driver_contracts :: "string list"

definition outcome_of :: "capability_provider \<Rightarrow> registration_outcome" where
  "outcome_of p =
     \<lparr>ro_provider_id = cp_id p, ro_provider_kind = cp_kind p, ro_provider_namespace = cp_namespace p,
      ro_registration_id = cp_registration_id p, ro_driver_contracts = runtime_driver_contracts p\<rparr>"

type_synonym looked_at = "nat \<times> (string + capability_provider list)"

definition settle_ms :: nat where "settle_ms = 1000"

text \<open>
  The second in which declarations are awaited: at each look first the clock, then the answer of Atlas. \<open>None\<close> is still
  waiting.
\<close>

fun settle :: "nat \<Rightarrow> capability_provider \<Rightarrow> looked_at list \<Rightarrow> (launch_error + capability_provider) option" where
  "settle until current [] = None"
| "settle until current ((now, answer) # later) =
     (if now \<ge> until then Some (Inr current)
      else case answer of
        Inl e \<Rightarrow> Some (Inl (Query_Failed e))
      | Inr providers \<Rightarrow>
          (case find (\<lambda>p. cp_id p = cp_id current) providers of
             Some p \<Rightarrow>
               if cp_registration_id p = cp_registration_id current then settle until p later
               else Some (Inl (Registration_Changed (cp_registration_id current) (cp_registration_id p)))
           | None \<Rightarrow> Some (Inl Unregistered)))"

fun await_registration :: "registrations \<Rightarrow> string \<Rightarrow> nat \<Rightarrow> looked_at list \<Rightarrow> (launch_error + registration_outcome) option" where
  "await_registration before expected_provider_id deadline [] = None"
| "await_registration before expected_provider_id deadline ((now, answer) # later) =
     (case answer of
        Inl e \<Rightarrow> Some (Inl (Query_Failed e))
      | Inr providers \<Rightarrow>
          (case find (\<lambda>p. is_expected_provider_registration p before expected_provider_id) providers of
             Some first \<Rightarrow> map_option (map_sum (\<lambda>e. e) outcome_of) (settle (min (now + settle_ms) deadline) first later)
           | None \<Rightarrow>
               if now \<ge> deadline then Some (Inl Timed_Out)
               else await_registration before expected_provider_id deadline later))"

definition wait_for_registration_core ::
  "registrations \<Rightarrow> string \<Rightarrow> nat \<Rightarrow> looked_at list \<Rightarrow> (launch_error + registration_outcome) option" where
  "wait_for_registration_core before expected_provider_id deadline looks =
     (if hm_get before expected_provider_id \<noteq> None then Some (Inl Already_Registered)
      else await_registration before expected_provider_id deadline looks)"

section \<open>The driver that is accepted\<close>

lemma driver_accepted_iff:
  "resolve_runtime_driver_contract provider_id namespace expected observed upgrade = Inr d \<longleftrightarrow>
     (expected = shared_driver \<or> exact_legacy namespace expected = Some expected) \<and> observed = [d]
     \<and> (d = expected \<or> upgrade \<and> exact_legacy namespace expected = Some expected \<and> d = shared_driver)"
  by (auto simp: resolve_runtime_driver_contract_def Let_def split: list.split)

lemma strict_driver_iff:
  "validate_runtime_driver_contracts provider_id expected observed = Inr d \<longleftrightarrow>
     ends_with ''/driver'' expected \<and> observed = [d] \<and> d = expected"
proof -
  have shared: "ends_with ''/driver'' shared_driver" by code_simp
  have "trim_char (CHR ''/'') [] = []" by code_simp
  then show ?thesis
    unfolding validate_runtime_driver_contracts_def driver_accepted_iff using shared
    by (auto simp: exact_legacy_def Let_def)
qed

text \<open>The drivers of a provider are those it declares, each once.\<close>

lemma driver_set: "set (runtime_driver_contracts p) = c_contract_id ` {c \<in> set (cp_capabilities p). is_driver c}"
  by (auto simp: runtime_driver_contracts_def)

lemma sorted_remdups_adj_distinct: "sorted xs \<Longrightarrow> distinct (remdups_adj xs)" for xs :: "'a::linorder list"
  by (induction xs rule: remdups_adj.induct) auto

lemma drivers_distinct: "distinct (runtime_driver_contracts p)"
  by (simp add: runtime_driver_contracts_def sorted_remdups_adj_distinct)

section \<open>The instance that is found\<close>

text \<open>What was seen last of the provider, at a look before the end, under the registration of the beginning.\<close>

lemma settle_last:
  "settle until current looks = Some (Inr p) \<Longrightarrow>
     cp_id p = cp_id current \<and> cp_registration_id p = cp_registration_id current
     \<and> (p = current \<or> (\<exists>now ps. (now, Inr ps) \<in> set looks \<and> p \<in> set ps))"
proof (induction until current looks rule: settle.induct)
  case (2 until current now answer later)
  from "2.prems" show ?case
  proof (cases "now \<ge> until")
    case False
    then obtain ps q where a: "answer = Inr ps" and q: "find (\<lambda>p. cp_id p = cp_id current) ps = Some q"
      "cp_registration_id q = cp_registration_id current" and rest: "settle until q later = Some (Inr p)"
      using "2.prems" by (auto split: sum.splits option.splits if_splits)
    from q(1) have "q \<in> set ps" "cp_id q = cp_id current" by (auto simp: find_Some_iff)
    with "2.IH" [OF False a q rest] a q(2) show ?thesis by auto
  qed simp
qed simp

lemma map_outcome: "map_option (map_sum f g) x = Some (Inr y) \<longleftrightarrow> (\<exists>z. x = Some (Inr z) \<and> g z = y)"
  by (cases x; cases "the x") auto

lemma await_found:
  "await_registration before i deadline looks = Some (Inr out) \<Longrightarrow> hm_get before i = None \<Longrightarrow>
     \<exists>first p. cp_id first = i \<and> outcome_of p = out \<and> cp_id p = i \<and> cp_registration_id p = cp_registration_id first
       \<and> (\<exists>now ps. (now, Inr ps) \<in> set looks \<and> first \<in> set ps) \<and> (\<exists>now ps. (now, Inr ps) \<in> set looks \<and> p \<in> set ps)"
proof (induction before i deadline looks rule: await_registration.induct)
  case (2 before i deadline now answer later)
  then obtain ps where a: "answer = Inr ps" by (auto split: sum.splits)
  show ?case
  proof (cases "find (\<lambda>p. is_expected_provider_registration p before i) ps")
    case None
    with "2.prems" a have "now < deadline" "await_registration before i deadline later = Some (Inr out)" by (auto split: if_splits)
    with "2.IH" [OF a None] "2.prems"(2) show ?thesis by fastforce
  next
    case (Some first)
    with "2.prems"(1) a have "map_option (map_sum (\<lambda>e. e) outcome_of) (settle (min (now + settle_ms) deadline) first later) = Some (Inr out)"
      by simp
    then obtain p where p: "settle (min (now + settle_ms) deadline) first later = Some (Inr p)" "outcome_of p = out"
      unfolding map_outcome by blast
    from Some have "first \<in> set ps" "cp_id first = i"
      by (auto simp: find_Some_iff is_expected_provider_registration_def)
    with settle_last [OF p(1)] p(2) a show ?thesis by (intro exI [of _ first] exI [of _ p]) auto
  qed
qed simp

text \<open>
  The outcome of the wait is the instance that was started and no other: it carries the expected id, which was not
  registered before the start, its registration is the one that was seen first, and both were seen in answers of Atlas. A
  driver accepted for it is the only lifecycle driver it declares.
\<close>

lemma launched_instance_is_found:
  assumes "wait_for_registration_core before expected_provider_id deadline looks = Some (Inr out)"
    and "resolve_runtime_driver_contract (ro_provider_id out) (ro_provider_namespace out) expected (ro_driver_contracts out) upgrade = Inr d"
  shows "ro_provider_id out = expected_provider_id \<and> hm_get before expected_provider_id = None
    \<and> (\<exists>first p. cp_id first = expected_provider_id \<and> cp_registration_id first = ro_registration_id out
        \<and> (\<exists>now ps. (now, Inr ps) \<in> set looks \<and> first \<in> set ps) \<and> (\<exists>now ps. (now, Inr ps) \<in> set looks \<and> p \<in> set ps)
        \<and> outcome_of p = out \<and> c_contract_id ` {c \<in> set (cp_capabilities p). is_driver c} = {d})"
proof -
  from assms(1) have fresh: "hm_get before expected_provider_id = None"
    and "await_registration before expected_provider_id deadline looks = Some (Inr out)"
    by (auto simp: wait_for_registration_core_def split: if_splits)
  from await_found [OF this(2) fresh] obtain first p where seen: "cp_id first = expected_provider_id" "outcome_of p = out"
    "cp_id p = expected_provider_id" "cp_registration_id p = cp_registration_id first"
    "\<exists>now ps. (now, Inr ps) \<in> set looks \<and> first \<in> set ps" "\<exists>now ps. (now, Inr ps) \<in> set looks \<and> p \<in> set ps" by blast
  from assms(2) have "ro_driver_contracts out = [d]" by (simp add: driver_accepted_iff)
  then have "c_contract_id ` {c \<in> set (cp_capabilities p). is_driver c} = {d}"
    using driver_set [of p] seen(2) by (auto simp: outcome_of_def)
  with seen fresh show ?thesis
    by (intro conjI exI [of _ first] exI [of _ p]) (auto simp: outcome_of_def)
qed

text \<open>A wait that is looked at after its deadline ends.\<close>

lemma settle_ends: "(\<exists>l\<in>set looks. fst l \<ge> until) \<Longrightarrow> settle until current looks \<noteq> None"
proof (induction until current looks rule: settle.induct)
  case (2 until current now answer later)
  then show ?case by (auto split: sum.split option.split)
qed simp

lemma await_ends: "fst l \<ge> deadline \<Longrightarrow> fst l' \<ge> deadline \<Longrightarrow> await_registration before i deadline (looks @ [l, l']) \<noteq> None"
proof (induction looks)
  case Nil
  then show ?case by (cases l; cases l') (auto split: sum.split option.split intro!: settle_ends)
next
  case (Cons a looks)
  have "settle u p (looks @ [l, l']) \<noteq> None" if "u \<le> deadline" for u p
    using Cons.prems that by (intro settle_ends) (auto intro!: bexI [of _ l])
  with Cons show ?case by (cases a) (simp split: sum.split option.split)
qed

lemma wait_ends:
  "fst l \<ge> deadline \<Longrightarrow> fst l' \<ge> deadline \<Longrightarrow> wait_for_registration_core before i deadline (looks @ [l, l']) \<noteq> None"
  using await_ends by (auto simp: wait_for_registration_core_def)

end
