(* ===== verification/Launch_Stop.thy ===== *)
theory Launch_Stop
  imports Rust_Str "HOL-Library.Sublist"
begin

text \<open>
  How a package is stopped: \<open>shutdown_package_runtime_checked\<close> of \<open>tools/rbnx/src/launch.rs\<close>, used by \<open>rbnx\<close> and Soma. The group
  of processes is found by a number that a saved state remembers and that may meanwhile belong to others, so before a
  signal is sent the group must still have a process that carries the identity of the boot.

  What the functions do outside is a trace of acts; what the system answers to the n-th act is an input, and so is the number of
  rounds the waiting after the first signal takes. Between a probe and the signal after it the system may still
  change, as in the program. Looking into processes (\<open>pgrep\<close>, \<open>/proc\<close>) is outside, but for the reading of a process state.

  The main results: no group but the recorded one is looked at or signalled; with the identity of a boot no signal is sent
  except right after both probes of that group said yes; success means that the last probe found nobody. Without the identity,
  as \<open>shutdown_package_runtime\<close> calls it, nothing is checked before a signal.
\<close>

record package_runtime =
  pk_name :: string
  pk_pgid :: u32
  pk_provider_id :: "string option"
  pk_driver_contract :: "string option"
  pk_config_json :: "string option"
  pk_package_dir :: "string option"
  pk_stop :: "string option"

datatype act =
    Probe_Members u32 bool
  | Probe_Boot_Id u32 bool
  | Driver_Shutdown string string string
  | Stop_Hook string string
  | Sig_Term int bool
  | Sig_Kill int

text \<open>\<open>pgid as i32\<close>: a number of 2^31 or more turns negative.\<close>

definition raw_pid :: "u32 \<Rightarrow> int" where
  "raw_pid pgid = sint pgid"

text \<open>The answers of the system to the act at a place of the trace.\<close>

record system =
  sy_members :: "nat \<Rightarrow> bool"
  sy_owned :: "nat \<Rightarrow> bool"
  sy_gone :: "nat \<Rightarrow> bool"

definition has_members :: "system \<Rightarrow> u32 \<Rightarrow> act list \<Rightarrow> bool \<times> act list" where
  "has_members sy pgid tr = (let b = sy_members sy (length tr) in (b, tr @ [Probe_Members pgid b]))"

definition has_boot_id :: "system \<Rightarrow> u32 \<Rightarrow> string \<Rightarrow> act list \<Rightarrow> bool \<times> act list" where
  "has_boot_id sy pgid boot_id tr = (let b = (boot_id \<noteq> [] \<and> sy_owned sy (length tr)) in (b, tr @ [Probe_Boot_Id pgid b]))"

text \<open>
  The probe of both: \<open>None\<close> is to go on, otherwise the answer of the caller. A group that ended in between is no refusal.
\<close>

definition still_ours :: "system \<Rightarrow> u32 \<Rightarrow> string option \<Rightarrow> act list \<Rightarrow> bool option \<times> act list" where
  "still_ours sy pgid boot_id tr =
     (case boot_id of
        None \<Rightarrow> (None, tr)
      | Some b \<Rightarrow>
          (case has_members sy pgid tr of
             (False, tr) \<Rightarrow> (Some True, tr)
           | (True, tr) \<Rightarrow>
               (case has_boot_id sy pgid b tr of
                  (True, tr) \<Rightarrow> (None, tr)
                | (False, tr) \<Rightarrow> (case has_members sy pgid tr of (m, tr) \<Rightarrow> (Some (\<not> m), tr)))))"

fun await_exit :: "system \<Rightarrow> u32 \<Rightarrow> nat \<Rightarrow> act list \<Rightarrow> bool \<times> act list" where
  "await_exit sy pgid 0 tr = (False, tr)"
| "await_exit sy pgid (Suc n) tr = (case has_members sy pgid tr of (False, tr) \<Rightarrow> (True, tr) | (True, tr) \<Rightarrow> await_exit sy pgid n tr)"

definition terminate_process_group_guarded :: "system \<Rightarrow> u32 \<Rightarrow> nat \<Rightarrow> string option \<Rightarrow> act list \<Rightarrow> bool \<times> act list" where
  "terminate_process_group_guarded sy pgid rounds boot_id tr =
     (case still_ours sy pgid boot_id tr of
        (Some r, tr) \<Rightarrow> (r, tr)
      | (None, tr) \<Rightarrow>
          (let gone = sy_gone sy (length tr); tr = tr @ [Sig_Term (raw_pid pgid) gone] in
           if gone then (True, tr)
           else case await_exit sy pgid rounds tr of
             (True, tr) \<Rightarrow> (True, tr)
           | (False, tr) \<Rightarrow>
               (case still_ours sy pgid boot_id tr of
                  (Some r, tr) \<Rightarrow> (r, tr)
                | (None, tr) \<Rightarrow> (True, tr @ [Sig_Kill (raw_pid pgid)]))))"

definition ask_driver :: "string option \<Rightarrow> package_runtime \<Rightarrow> act list" where
  "ask_driver atlas_endpoint pkg =
     (case (atlas_endpoint, pk_provider_id pkg, pk_driver_contract pkg) of
        (Some _, Some provider_id, Some driver_contract) \<Rightarrow>
          [Driver_Shutdown provider_id driver_contract (case pk_config_json pkg of Some c \<Rightarrow> c | None \<Rightarrow> ''{}'')]
      | _ \<Rightarrow> [])"

definition run_stop_hook :: "package_runtime \<Rightarrow> act list" where
  "run_stop_hook pkg =
     (case map_option trim (pk_stop pkg) of
        Some stop \<Rightarrow> if stop = [] then [] else (case pk_package_dir pkg of Some dir \<Rightarrow> [Stop_Hook dir stop] | None \<Rightarrow> [])
      | None \<Rightarrow> [])"

text \<open>The first check differs from the later ones: here a group without the identity is a refusal at once.\<close>

definition may_stop :: "system \<Rightarrow> u32 \<Rightarrow> string option \<Rightarrow> act list \<Rightarrow> bool option \<times> act list" where
  "may_stop sy pgid boot_id tr =
     (case boot_id of
        None \<Rightarrow> (None, tr)
      | Some b \<Rightarrow>
          (case has_members sy pgid tr of
             (False, tr) \<Rightarrow> (Some True, tr)
           | (True, tr) \<Rightarrow> (case has_boot_id sy pgid b tr of (True, tr) \<Rightarrow> (None, tr) | (False, tr) \<Rightarrow> (Some False, tr))))"

definition shutdown_package_runtime_checked ::
  "system \<Rightarrow> nat \<Rightarrow> string option \<Rightarrow> package_runtime \<Rightarrow> string option \<Rightarrow> bool \<times> act list" where
  "shutdown_package_runtime_checked sy rounds atlas_endpoint pkg boot_id =
     (case may_stop sy (pk_pgid pkg) boot_id [] of
        (Some r, tr) \<Rightarrow> (r, tr)
      | (None, tr) \<Rightarrow>
          (case terminate_process_group_guarded sy (pk_pgid pkg) rounds boot_id (tr @ ask_driver atlas_endpoint pkg @ run_stop_hook pkg) of
             (False, tr) \<Rightarrow> (False, tr)
           | (True, tr) \<Rightarrow> (case has_members sy (pk_pgid pkg) tr of (m, tr) \<Rightarrow> (\<not> m, tr))))"

text \<open>The variant for callers without an identity; it drops the answer.\<close>

definition shutdown_package_runtime :: "system \<Rightarrow> nat \<Rightarrow> string option \<Rightarrow> package_runtime \<Rightarrow> act list" where
  "shutdown_package_runtime sy rounds atlas_endpoint pkg =
     snd (shutdown_package_runtime_checked sy rounds atlas_endpoint pkg None)"

definition linux_proc_status_is_not_zombie :: "string \<Rightarrow> bool" where
  "linux_proc_status_is_not_zombie status =
     (\<not> list_ex (\<lambda>line. case strip_prefix ''State:'' line of
         Some state \<Rightarrow> starts_with ''Z'' (trim_start state) | None \<Rightarrow> False) (lines_of status))"

lemma zombie_examples:
  "linux_proc_status_is_not_zombie ''Name: x'' \<and> linux_proc_status_is_not_zombie []
   \<and> \<not> linux_proc_status_is_not_zombie ''State: Z (zombie)''"
  by code_simp

section \<open>Signals only to one's own\<close>

definition is_signal :: "act \<Rightarrow> bool" where
  "is_signal a \<longleftrightarrow> (case a of Sig_Term _ _ \<Rightarrow> True | Sig_Kill _ \<Rightarrow> True | _ \<Rightarrow> False)"

text \<open>An act on another group than \<open>pgid\<close>.\<close>

definition strays :: "u32 \<Rightarrow> act \<Rightarrow> bool" where
  "strays pgid a \<longleftrightarrow>
     (case a of
        Probe_Members g _ \<Rightarrow> g \<noteq> pgid
      | Probe_Boot_Id g _ \<Rightarrow> g \<noteq> pgid
      | Sig_Term g _ \<Rightarrow> g \<noteq> raw_pid pgid
      | Sig_Kill g \<Rightarrow> g \<noteq> raw_pid pgid
      | _ \<Rightarrow> False)"

definition on_group :: "u32 \<Rightarrow> act list \<Rightarrow> bool" where
  "on_group pgid tr \<longleftrightarrow> list_all (\<lambda>a. \<not> strays pgid a) tr"

text \<open>Right before each signal both probes of the group said yes.\<close>

definition signals_proved :: "u32 \<Rightarrow> act list \<Rightarrow> bool" where
  "signals_proved pgid tr \<longleftrightarrow>
     (\<forall>before a after. tr = before @ a # after \<longrightarrow> is_signal a \<longrightarrow>
        suffix [Probe_Members pgid True, Probe_Boot_Id pgid True] before)"

definition sound_trace :: "u32 \<Rightarrow> bool \<Rightarrow> act list \<Rightarrow> bool" where
  "sound_trace pgid checked tr \<longleftrightarrow> on_group pgid tr \<and> (checked \<longrightarrow> signals_proved pgid tr)"

lemma sound_quiet: "sound_trace pgid b tr \<Longrightarrow> \<not> is_signal a \<Longrightarrow> \<not> strays pgid a \<Longrightarrow> sound_trace pgid b (tr @ [a])"
  by (auto simp: sound_trace_def on_group_def signals_proved_def append_eq_append_conv2 Cons_eq_append_conv append_eq_Cons_conv)

lemma sound_signal:
  "sound_trace pgid b tr \<Longrightarrow> b \<longrightarrow> suffix [Probe_Members pgid True, Probe_Boot_Id pgid True] tr \<Longrightarrow> \<not> strays pgid a \<Longrightarrow>
     sound_trace pgid b (tr @ [a])"
  by (auto simp: sound_trace_def on_group_def signals_proved_def append_eq_append_conv2 Cons_eq_append_conv append_eq_Cons_conv)

lemma sound_probes [simp]:
  "sound_trace pgid b tr \<Longrightarrow> sound_trace pgid b (tr @ [Probe_Members pgid x])"
  "sound_trace pgid b tr \<Longrightarrow> sound_trace pgid b (tr @ [Probe_Boot_Id pgid x])"
  by (simp_all add: sound_quiet is_signal_def strays_def)

lemma sound_members: "sound_trace pgid b tr \<Longrightarrow> has_members sy pgid tr = (m, t) \<Longrightarrow> sound_trace pgid b t"
  by (auto simp: has_members_def Let_def)

lemma sound_boot_id: "sound_trace pgid b tr \<Longrightarrow> has_boot_id sy pgid i tr = (m, t) \<Longrightarrow> sound_trace pgid b t"
  by (auto simp: has_boot_id_def Let_def)

lemma await_extends: "await_exit sy pgid n tr = (r, t) \<Longrightarrow> \<exists>u. t = tr @ u"
  by (induction n arbitrary: tr) (fastforce simp: has_members_def Let_def split: prod.splits bool.splits)+

lemma sound_await: "sound_trace pgid b tr \<Longrightarrow> await_exit sy pgid n tr = (r, t) \<Longrightarrow> sound_trace pgid b t"
  by (induction n arbitrary: tr) (auto split: prod.splits bool.splits dest: sound_members)

text \<open>The check of both probes: what it says goes by what they said last.\<close>

lemma ours_trace:
  assumes "still_ours sy pgid boot_id tr = (r, t)" and "sound_trace pgid (boot_id \<noteq> None) tr"
  shows "sound_trace pgid (boot_id \<noteq> None) t
    \<and> (r = None \<and> boot_id \<noteq> None \<longrightarrow> suffix [Probe_Members pgid True, Probe_Boot_Id pgid True] t)"
proof (cases boot_id)
  case (Some b)
  with assms(1) have "r = None \<Longrightarrow> t = tr @ [Probe_Members pgid True, Probe_Boot_Id pgid True]"
    by (auto simp: still_ours_def has_members_def has_boot_id_def Let_def split: prod.splits bool.splits)
  moreover have "sound_trace pgid True t"
    using assms Some by (auto simp: still_ours_def split: prod.splits bool.splits dest: sound_members [rotated] sound_boot_id [rotated])
  ultimately show ?thesis by (auto simp: suffix_def Some)
qed (use assms in \<open>simp add: still_ours_def\<close>)

lemma sound_terminate:
  assumes "sound_trace pgid (boot_id \<noteq> None) tr" and "terminate_process_group_guarded sy pgid rounds boot_id tr = (r, t)"
  shows "sound_trace pgid (boot_id \<noteq> None) t"
proof -
  let ?ok = "sound_trace pgid (boot_id \<noteq> None)"
  obtain o1 t1 where 1: "still_ours sy pgid boot_id tr = (o1, t1)" by force
  note t1 = ours_trace [OF 1 assms(1)]
  show ?thesis
  proof (cases o1)
    case (Some x)
    with assms(2) t1 show ?thesis by (simp add: terminate_process_group_guarded_def 1)
  next
    case None
    define gone where "gone = sy_gone sy (length t1)"
    let ?t2 = "t1 @ [Sig_Term (raw_pid pgid) gone]"
    from t1 None have t2: "?ok ?t2" by (intro sound_signal) (auto simp: strays_def)
    obtain e t3 where 3: "await_exit sy pgid rounds ?t2 = (e, t3)" by force
    from sound_await [OF t2 3] have t3: "?ok t3" .
    obtain o4 t4 where 4: "still_ours sy pgid boot_id t3 = (o4, t4)" by force
    note t4 = ours_trace [OF 4 t3]
    then have "o4 = None \<Longrightarrow> ?ok (t4 @ [Sig_Kill (raw_pid pgid)])" by (intro sound_signal) (auto simp: strays_def)
    moreover from assms(2) 3 have "t \<in> {?t2, t3} \<or> t = t4 \<or> (o4 = None \<and> t = t4 @ [Sig_Kill (raw_pid pgid)])"
      by (cases gone) (auto simp: terminate_process_group_guarded_def 1 None 4 Let_def gone_def [symmetric] split: if_splits bool.splits option.splits)
    ultimately show ?thesis using t2 t3 t4 by blast
  qed
qed

lemma sound_appends:
  "sound_trace pgid b tr \<Longrightarrow> list_all (\<lambda>a. \<not> is_signal a \<and> \<not> strays pgid a) xs \<Longrightarrow> sound_trace pgid b (tr @ xs)"
proof (induction xs rule: rev_induct)
  case (snoc x xs)
  then show ?case using sound_quiet [of pgid b "tr @ xs" x] by simp
qed simp

text \<open>C39 (safety). Stopping a package looks at and signals no process group but the recorded one. When the caller gives the identity
  of the boot, no signal goes to it except right after a look that found it alive and a look that found the identity in
  it. Whether the package is reported as stopped goes by the last look, which found nobody alive.\<close>

theorem only_own_processes_are_signalled:
  assumes "shutdown_package_runtime_checked sy rounds atlas_endpoint pkg boot_id = (stopped, tr)"
  shows "on_group (pk_pgid pkg) tr \<and> (boot_id \<noteq> None \<longrightarrow> signals_proved (pk_pgid pkg) tr)
    \<and> (stopped \<longrightarrow> last tr = Probe_Members (pk_pgid pkg) False)"
proof -
  let ?ok = "sound_trace (pk_pgid pkg) (boot_id \<noteq> None)"
  obtain o1 t1 where 1: "may_stop sy (pk_pgid pkg) boot_id [] = (o1, t1)" by force
  have "?ok []" by (simp add: sound_trace_def on_group_def signals_proved_def)
  with 1 have t1: "?ok t1"
    by (auto simp: may_stop_def split: option.splits prod.splits bool.splits dest: sound_members [rotated] sound_boot_id [rotated])
  have "?ok tr \<and> (stopped \<longrightarrow> last tr = Probe_Members (pk_pgid pkg) False)"
  proof (cases o1)
    case (Some x)
    with assms 1 have out: "t1 = tr" "x = stopped" by (simp_all add: shutdown_package_runtime_checked_def)
    have "stopped \<Longrightarrow> last t1 = Probe_Members (pk_pgid pkg) False"
      using 1 Some out(2)
      by (auto simp: may_stop_def has_members_def has_boot_id_def Let_def split: option.splits prod.splits bool.splits)
    with t1 out show ?thesis by simp
  next
    case None
    let ?t2 = "t1 @ ask_driver atlas_endpoint pkg @ run_stop_hook pkg"
    have t2: "?ok ?t2"
      by (intro sound_appends t1)
        (auto simp: ask_driver_def run_stop_hook_def is_signal_def strays_def split: option.split)
    obtain e t3 where 3: "terminate_process_group_guarded sy (pk_pgid pkg) rounds boot_id ?t2 = (e, t3)" by force
    from sound_terminate [OF t2 3] have t3: "?ok t3" .
    obtain m t4 where 4: "has_members sy (pk_pgid pkg) t3 = (m, t4)" by force
    from 4 have last: "last t4 = Probe_Members (pk_pgid pkg) m" by (auto simp: has_members_def Let_def)
    have "(tr = t3 \<and> \<not> stopped) \<or> (tr = t4 \<and> stopped = (\<not> m))"
      using assms by (cases e) (simp_all add: shutdown_package_runtime_checked_def 1 None 3 4)
    with t3 sound_members [OF t3 4] last show ?thesis by auto
  qed
  then show ?thesis by (simp add: sound_trace_def)
qed

text \<open>A saved state whose number belongs to others meanwhile: nothing is done to them.\<close>

lemma strangers_are_left_alone:
  "shutdown_package_runtime_checked \<lparr>sy_members = (\<lambda>_. True), sy_owned = (\<lambda>_. False), sy_gone = g\<rparr> rounds endpoint pkg (Some b)
     = (False, [Probe_Members (pk_pgid pkg) True, Probe_Boot_Id (pk_pgid pkg) False])"
  by (simp add: shutdown_package_runtime_checked_def may_stop_def has_members_def has_boot_id_def)

text \<open>Without the identity they are signalled.\<close>

lemma strangers_are_signalled_unchecked:
  "hd (shutdown_package_runtime \<lparr>sy_members = m, sy_owned = o1, sy_gone = g\<rparr> rounds None (pkg\<lparr>pk_stop := None\<rparr>))
     = Sig_Term (raw_pid (pk_pgid pkg)) (g 0)"
  by (auto simp: shutdown_package_runtime_def shutdown_package_runtime_checked_def may_stop_def ask_driver_def run_stop_hook_def
      terminate_process_group_guarded_def still_ours_def Let_def has_members_def split: prod.splits bool.splits option.splits
      dest: await_extends)

text \<open>A run where the driver does not help: the hook, the first signal, one look, then the second signal.\<close>

definition demo_package :: package_runtime where
  "demo_package = \<lparr>pk_name = ''cam'', pk_pgid = 7, pk_provider_id = Some ''cam'', pk_driver_contract = Some ''robonix/lifecycle/driver'',
     pk_config_json = None, pk_package_dir = Some ''/p'', pk_stop = Some '' make stop ''\<rparr>"

definition demo_system :: system where
  "demo_system = \<lparr>sy_members = (\<lambda>n. n < 10), sy_owned = (\<lambda>_. True), sy_gone = (\<lambda>_. False)\<rparr>"

definition demo_stop :: "bool \<times> act list" where
  "demo_stop = shutdown_package_runtime_checked demo_system 1 (Some ''atlas'') demo_package (Some ''boot'')"

lemma demo_stop_run:
  "demo_stop = (True, [Probe_Members 7 True, Probe_Boot_Id 7 True, Driver_Shutdown ''cam'' ''robonix/lifecycle/driver'' ''{}'',
     Stop_Hook ''/p'' ''make stop'', Probe_Members 7 True, Probe_Boot_Id 7 True, Sig_Term 7 False, Probe_Members 7 True,
     Probe_Members 7 True, Probe_Boot_Id 7 True, Sig_Kill 7, Probe_Members 7 False])"
  by code_simp

theorem only_own_processes_are_signalled_witness:
  "on_group 7 (snd demo_stop) \<and> signals_proved 7 (snd demo_stop) \<and> last (snd demo_stop) = Probe_Members 7 False"
proof -
  have "fst demo_stop" and "pk_pgid demo_package = 7" by code_simp+
  with only_own_processes_are_signalled [OF surjective_pairing [of demo_stop, unfolded demo_stop_def]]
  show ?thesis by (simp add: demo_stop_def)
qed

end
