(* ===== verification/Spec2Isabelle.thy ===== *)
theory Spec2Isabelle
  imports Atlas_Service Contract_Registry Exec_Cancel Exec_Budget Exec_Dispatch Exec_Control
    Pilot_Turn_Props Pilot_Service Pilot_Prompt
    Vitals_Health Vitals_Stream Liaison_Access Liaison_Handsfree Launch Launch_Stop
begin

text \<open>
  A verification library for Robonix, the robot operating system in this repository: its service registry
  Atlas, its plan executor, its planner Pilot, its health monitor Vitals, the gate of its front end Liaison, the start and
  stop of packages, and the reader of the interface files.

  \<^bold>\<open>The program and its parts.\<close> Providers (primitives, services, skills) register with Atlas
  (\<open>src/system/atlas\<close>), declare the capabilities they implement, each under a contract id, and keep alive by
  heartbeats. Contracts and the message types they carry come from TOML and ROS interface files, which Atlas
  reads with the parser of \<open>src/tools/codegen\<close>. Pilot (\<open>src/system/pilot\<close>) takes a user's task, asks a language
  model for replies, expands each into a plan, an arena of RTDL nodes, keeps several plans in flight, and replans on
  what they report; the executor (\<open>src/system/executor\<close>) runs it: it asks Atlas for an endpoint per call, dispatches the call,
  polls asynchronous ones, verifies results by rules, and streams events. Liaison (\<open>src/system/liaison\<close>) takes what a user
  types or says, decides whether this user may give tasks, and hands the task to Pilot. Vitals (\<open>src/system/vitals\<close>) judges
  the snapshots of the robot's body by thresholds and polls the modules for their health. \<open>rbnx\<close>
  (\<open>src/tools/rbnx\<close>) starts the process of a package, recognizes it in Atlas, and stops it again.

  \<^bold>\<open>Theories.\<close>
  \<^item> \<open>Prelude\<close>: machine integers, Rust string operations, hash tables as association lists (locale
    \<open>keyed_table\<close>, interpreted on them), state machines that keep an invariant (locales \<open>inv_system\<close>, for
    operations on a state, and \<open>inv_relation\<close>, for step relations). \<open>Rust_Str\<close>: splitting and line reading.
  \<^item> \<open>Ros_Primitive\<close>, \<open>Msg_Parser\<close>, \<open>Msg_Resolver\<close>: \<open>tools/codegen/src/codegen/msg_parser.rs\<close>: primitive types, the
    parser of .msg and .srv files, the file index and the recursive resolver with its cache.
    Shown: printed members parse back; a resolution succeeds when all reachable types load, and only then as long as
    no earlier use of the resolver reported a failure, for a failure leaves types in the cache whose fields do not load.
  \<^item> \<open>Atlas_Pb\<close>, \<open>Contract_Registry\<close>: \<open>atlas/proto/atlas.proto\<close> and \<open>atlas/src/contract_registry.rs\<close>.
  \<^item> \<open>Atlas_State\<close>, \<open>Atlas_Registry\<close>, \<open>Atlas_Invariant\<close>, \<open>Atlas_Properties\<close>, \<open>Atlas_Service\<close>:
    \<open>atlas/src/service.rs\<close>: the registry's state, every operation, its invariant, the refinement of an abstract
    directory of endpoints, channels, lifecycle, eviction, and the wire handlers.
  \<^item> \<open>Plan_Validate\<close>: \<open>validate_plan\<close> of \<open>executor/src/service.rs\<close>; equivalence with well-formedness and
    acyclicity. \<open>Plan_Runtime\<close>, \<open>Plan_Control\<close>: \<open>plan_runtime.rs\<close>, the table of active plans as a state machine
    and what cancellation guarantees.
  \<^item> \<open>Verification\<close>: \<open>verification.rs\<close> and the rules of \<open>config.rs\<close>. \<open>Async_Poll\<close>: \<open>dispatch/async_poll.rs\<close> and
    \<open>dispatch/async_registry.rs\<close>.
  \<^item> \<open>Exec_Engine\<close>: the interpreter of plans (\<open>execute\<close>, \<open>execute_node\<close>, \<open>execute_call\<close>, \<open>complete_operator\<close>, overlap
    verifiers, the polling loop, the routing of builtins) as programs over the points where a task awaits, and
    \<open>exec_step\<close>, the interleaving of all tasks of a plan with what other plans and control requests do to the
    table. \<open>Exec_Schedule\<close>: an executable scheduler, sound for \<open>exec_step\<close>, from which concrete runs are
    computed.
  \<^item> \<open>Exec_Progress\<close>, \<open>Exec_Run\<close>: a typing of tasks by ranks is an invariant, so a validated plan neither panics
    nor deadlocks and can always be finished; \<open>Exec_Complete\<close>: its completion is reported exactly once.
  \<^item> \<open>Exec_Evidence\<close>, \<open>Exec_Outcome\<close>, \<open>Exec_Stream\<close>: tasks vouch for the leaves below them; a success on the
    event stream is earned. \<open>Exec_Cancel\<close>: after its cancellation a plan winds down. \<open>Exec_Budget\<close>: nothing is tried
    twice, so a run makes at most two calls for each way from the root of a plan to a leaf.
  \<^item> \<open>Unix_Path\<close>, \<open>Exec_Builtin\<close>: paths, links and files, and the builtins of \<open>dispatch/builtin.rs\<close> on them; the
    confinement to the workspace, where only links lead out of it, and the three holes in the check. \<open>Exec_Dispatch\<close>:
    \<open>dispatch/mod.rs\<close> and the builtins on the model of Atlas, whose requests and answers may be lost: channels as
    brackets (locale \<open>channel_broker\<close>) that close unless a request is lost, the activation of skills. \<open>Exec_Control\<close>: the unary
    handlers of \<open>service.rs\<close>, each at most one step of the plan table.
  \<^item> \<open>Pilot_Reply\<close>, \<open>Pilot_Expand\<close>, \<open>Pilot_Catalog\<close>: from a reply of the model to a plan, \<open>pilot/src/planner.rs\<close>, and
    the names it may use, \<open>discovery.rs\<close>. Shown: the object cut out of a reply is the balanced one at its
    first brace; an expansion is the tree the JSON spells, passes the validation of the executor unless its label is
    blank, and names capabilities that Atlas connects.
  \<^item> \<open>Pilot_History\<close>: \<open>history.rs\<close> and the compaction of \<open>planner.rs\<close>: it ends below its trigger and keeps the task;
    what the model is sent is the longest acceptable part of the history.
  \<^item> \<open>Pilot_Forest\<close>, \<open>Pilot_Turn\<close>: the standing task, the checks of a reply, the driver of a plan, and \<open>run_turn\<close> as a
    state machine whose labels carry what the outside brings. \<open>Pilot_Fleet\<close>: the turn refines an abstract fleet of
    plans; what is in flight is what runs, no call is in flight twice, a turn closes once, with its last event, or ends in
    an error, as when a discovery fails. \<open>Pilot_Turn_Props\<close>: the
    goal is the user's last word, done needs a reply without calls, requests are bounded, and the runs that show the
    holes.
  \<^item> \<open>Pilot_Transcript\<close>: \<open>transcript.rs\<close>, the file a session is restored from: after any run of failed writes, crashes and
    restarts what is read back is the session, when nothing is pending and failed writes could be cut back; a crash costs only the end of what was being appended, unless it cuts a
    character, which makes the file unreadable for good. \<open>Pilot_Service\<close>: \<open>service.rs\<close>, the routing of submitted tasks
    around the turns: one turn per session, a request to stop reaches the running turn, a repeated submission does nothing.
  \<^item> \<open>Pilot_Prompt\<close>: \<open>prompt.rs\<close> and the blocks on plans: the messages of a request, and the catalogue, told once and then
    by its changes: whoever reads the records knows the catalogue of the last round, whatever was dropped or compacted.
  \<^item> \<open>Vitals_Health\<close>: \<open>module_health.rs\<close>, \<open>module_health_poll.rs\<close> and the module part of \<open>service.rs\<close>: the store of
    module healths as a component with events; whoever starts from the stored healths and applies the events knows the
    store, and a module that stays silent is reported. \<open>Vitals_Judge\<close>: \<open>soma_ingest.rs\<close>, the threshold rules: a
    reading is judged by the bounds of the rule of the highest rank; which entries a snapshot has, and what it may report
    without any. \<open>Vitals_Stream\<close>: \<open>update_snapshot\<close> of \<open>service.rs\<close>: what is sent on, and that
    subscribers know the healths although most snapshots are not sent.
  \<^item> \<open>Liaison_Access\<close>: \<open>access.rs\<close> and its use in \<open>main.rs\<close> and \<open>voice.rs\<close>: who may give a task, by voice and by text,
    and how captures end. \<open>Liaison_Handsfree\<close>: \<open>handsfree.rs\<close>, the hands-free loop and its requests as a step relation,
    with the notification that is lost.
  \<^item> \<open>Launch\<close>, \<open>Launch_Stop\<close>: \<open>rbnx/src/launch.rs\<close>: which registration in Atlas is that of the package just started and
    which driver it has; and the shutdown of a recorded process group, which signals no other group, and with the identity
    of the boot only right after that group was found to carry it.

  \<^bold>\<open>Modelling.\<close> A Rust string is a list of ASCII characters, or of the bytes of its UTF-8 where lengths matter
  (\<open>Exec_Builtin\<close> and the Pilot theories). u64 values are words, with the wrap-around of the
  release build; indices and counters are naturals. Every method of Atlas and of the plan table takes its lock
  once, so it is one atomic function on the state. Errors are the left of a sum. The clock, random
  identifiers, the deserialisers of TOML and JSON, and the JSON printer are parameters. In the executor a call to a
  provider (activation, connect, request, disconnect) is one step whose answer is arbitrary; the event channel is
  unbounded, and sending to it never fails; waiting with a timeout may end either way at any time. What the
  executor does inside that one step is modelled apart, in \<open>Exec_Dispatch\<close>, against the real operations of
  Atlas, with the changes its other clients make in between as an arbitrary function and with requests that are lost. The file system is a
  map from locations to files, folders and links, without permissions. Floating point numbers are rationals where only
  comparison and simple arithmetic matter, so rounding, infinities and NaN are outside.

  \<^bold>\<open>Fuel.\<close> The recursion of \<open>execute_node\<close> over the nodes of a plan is bounded by the number of nodes; lemma
  \<open>validated_fits\<close> shows that a validated plan, which is acyclic below its root, never uses it up. The other
  recursions are proved terminating (the resolver by the types not yet visited, the cycle check by the white
  nodes).

  In Pilot the queues of a turn are unbounded lists, where the code's hold 256 and 32 entries and a full one makes the
  sender wait; the model's reply, the executor's answers and the surroundings of a prompt come on the labels.

  \<^bold>\<open>Not modelled.\<close> Process start and configuration reading; the generated gRPC and MCP clients; log lines; the
  standing prompt texts of Pilot; the streaming client of the language model; in Vitals the processes and the mock of the
  body; in Liaison microphone, recognition, synthesis and the terminal; and the components the manifest lists as not
  modelled: Soma and Scribe, the other commands of \<open>rbnx\<close> (build, deploy, chat, status), and the code
  generators, which are mostly input and output over processes, sockets, terminals and templates.
\<close>

end
